(* ===== verification/Severity.thy ===== *)
theory Severity
  imports Dice_Prelude
begin

text \<open>
  \<^verbatim>\<open>remediation/adapters/verification/severity.py\<close>, the rule records of
  \<^verbatim>\<open>remediation/adapters/base.py\<close>, and the two consumers of the severity ranking:
  \<^verbatim>\<open>VerificationResult.worst_severity\<close> (models) and \<^verbatim>\<open>_format_failure_summary\<close> (services).
  The lemmas show that the clause loop finds the longest dot-bounded prefix whatever the
  dictionary's order, that a rule survives its JSON form, and that the summary lists the rules
  worst first.
\<close>

section \<open>Severities and the two tables\<close>

datatype Severity = CRITICAL | MAJOR | MINOR | UNCLASSIFIED

text \<open>The \<open>value\<close> and the \<open>label\<close> of a \<open>TextChoices\<close> member.\<close>

fun severity_value :: "Severity \<Rightarrow> string" where
  "severity_value CRITICAL = ''critical''"
| "severity_value MAJOR = ''major''"
| "severity_value MINOR = ''minor''"
| "severity_value UNCLASSIFIED = ''unclassified''"

fun severity_label_upper :: "Severity \<Rightarrow> string" where
  "severity_label_upper CRITICAL = ''CRITICAL''"
| "severity_label_upper MAJOR = ''MAJOR''"
| "severity_label_upper MINOR = ''MINOR''"
| "severity_label_upper UNCLASSIFIED = ''UNCLASSIFIED''"

definition SEVERITY_RANK :: "Severity list" where
  "SEVERITY_RANK = [CRITICAL, MAJOR, MINOR, UNCLASSIFIED]"

text \<open>\<open>Severity(text)\<close>: the member with that value, or a \<open>ValueError\<close> (\<open>None\<close>).\<close>

definition severity_of_value :: "string \<Rightarrow> Severity option" where
  "severity_of_value v = List.find (\<lambda>s. severity_value s = v) SEVERITY_RANK"

definition RULE_SEVERITY :: "(string \<times> Severity) list" where
  "RULE_SEVERITY = [
    (''7.1-1'', CRITICAL), (''7.1-2'', CRITICAL), (''7.1-3'', CRITICAL), (''7.1-4'', MINOR),
    (''7.1-5'', MAJOR), (''7.1-6'', MINOR), (''7.1-7'', MAJOR), (''7.1-8'', MINOR),
    (''7.1-9'', CRITICAL), (''7.1-10'', CRITICAL), (''7.1-11'', CRITICAL), (''7.1-12'', MAJOR),
    (''7.2-2'', CRITICAL), (''7.2-3'', MAJOR), (''7.2-4'', MAJOR), (''7.2-5'', MAJOR),
    (''7.2-6'', MAJOR), (''7.2-7'', MAJOR), (''7.2-8'', MAJOR), (''7.2-9'', MAJOR),
    (''7.2-10'', MAJOR), (''7.2-11'', MAJOR), (''7.2-12'', MAJOR), (''7.2-13'', MAJOR),
    (''7.2-14'', MAJOR), (''7.2-15'', MAJOR), (''7.2-16'', MAJOR), (''7.2-17'', MAJOR),
    (''7.2-18'', MAJOR), (''7.2-19'', MAJOR), (''7.2-20'', MAJOR), (''7.2-21'', CRITICAL),
    (''7.2-22'', CRITICAL), (''7.2-23'', CRITICAL), (''7.2-24'', CRITICAL),
    (''7.2-25'', CRITICAL), (''7.2-26'', MAJOR), (''7.2-27'', MAJOR), (''7.2-28'', MAJOR),
    (''7.2-29'', CRITICAL), (''7.2-30'', CRITICAL), (''7.2-31'', CRITICAL),
    (''7.2-32'', CRITICAL), (''7.2-33'', CRITICAL), (''7.2-34'', CRITICAL), (''7.2-36'', MAJOR),
    (''7.2-37'', MAJOR), (''7.2-38'', MAJOR), (''7.2-39'', MAJOR), (''7.2-40'', MAJOR),
    (''7.2-41'', MAJOR), (''7.2-42'', MAJOR), (''7.2-43'', MAJOR)]"

definition CLAUSE_SEVERITY :: "(string \<times> Severity) list" where
  "CLAUSE_SEVERITY = [
    (''6.2'', CRITICAL), (''7.3'', CRITICAL), (''7.4'', CRITICAL), (''7.18.1'', CRITICAL),
    (''7.18.4'', CRITICAL), (''7.18.5'', CRITICAL), (''7.5'', MAJOR), (''7.7'', MAJOR),
    (''7.9'', MAJOR), (''7.18.3'', MAJOR), (''5'', MINOR), (''6.1'', MINOR), (''7.10'', MINOR),
    (''7.11'', MINOR), (''7.15'', MINOR), (''7.16'', MINOR), (''7.18.2'', MINOR),
    (''7.18.6'', MINOR), (''7.18.8'', MINOR), (''7.20'', MINOR), (''7.21'', MINOR)]"

section \<open>Classification\<close>

definition clause_matches :: "string \<Rightarrow> string \<Rightarrow> bool" where
  "clause_matches clause known \<longleftrightarrow> clause = known \<or> startswith clause (known @ ''.'')"

text \<open>The loop of \<open>classify\<close> over the known clauses, with \<open>best_match\<close> as its accumulator.\<close>

fun best_match :: "string \<Rightarrow> string list \<Rightarrow> string \<Rightarrow> string" where
  "best_match clause [] best = best"
| "best_match clause (known # rest) best =
     best_match clause rest
       (if clause_matches clause known \<and> length best < length known then known else best)"

definition classify :: "string \<Rightarrow> string \<Rightarrow> Severity" where
  "classify clause test_number =
     (case map_of RULE_SEVERITY (clause @ ''-'' @ test_number) of
        Some exact \<Rightarrow> exact
      | None \<Rightarrow>
          (let best = best_match clause (map fst CLAUSE_SEVERITY) ''''
           in if best = '''' then UNCLASSIFIED
              else the (map_of CLAUSE_SEVERITY best)))"

section \<open>Failed rules, their JSON form, the worst severity and the summary\<close>

record FailedRule =
  fr_clause :: string
  fr_test_number :: string
  fr_description :: string
  fr_failed_checks :: int
  fr_severity :: Severity

record FailedRuleDict =
  frd_clause :: string
  frd_test_number :: string
  frd_description :: string
  frd_failed_checks :: int
  frd_severity :: string

definition rule_to_dict :: "FailedRule \<Rightarrow> FailedRuleDict" where
  "rule_to_dict r =
     \<lparr>frd_clause = fr_clause r, frd_test_number = fr_test_number r,
      frd_description = fr_description r, frd_failed_checks = fr_failed_checks r,
      frd_severity = severity_value (fr_severity r)\<rparr>"

text \<open>Rebuilding a rule from its stored dictionary; an unknown severity text is a \<open>ValueError\<close>.\<close>

definition rule_of_dict :: "FailedRuleDict \<Rightarrow> FailedRule option" where
  "rule_of_dict d =
     (case severity_of_value (frd_severity d) of
        None \<Rightarrow> None
      | Some s \<Rightarrow>
          Some \<lparr>fr_clause = frd_clause d, fr_test_number = frd_test_number d,
                fr_description = frd_description d, fr_failed_checks = frd_failed_checks d,
                fr_severity = s\<rparr>)"

fun rules_of_dicts :: "FailedRuleDict list \<Rightarrow> FailedRule list option" where
  "rules_of_dicts [] = Some []"
| "rules_of_dicts (d # ds) =
     (case rule_of_dict d of
        None \<Rightarrow> None
      | Some r \<Rightarrow> (case rules_of_dicts ds of None \<Rightarrow> None | Some rs \<Rightarrow> Some (r # rs)))"

definition worst_severity :: "FailedRuleDict list \<Rightarrow> Severity option" where
  "worst_severity failed_rules =
     (let present = set (map frd_severity failed_rules)
      in List.find (\<lambda>s. severity_value s \<in> present) SEVERITY_RANK)"

text \<open>\<open>SEVERITY_RANK.index(severity)\<close>.\<close>

fun list_index :: "'a list \<Rightarrow> 'a \<Rightarrow> nat" where
  "list_index [] x = 0"
| "list_index (y # ys) x = (if x = y then 0 else Suc (list_index ys x))"

definition severity_index :: "Severity \<Rightarrow> nat" where
  "severity_index s = list_index SEVERITY_RANK s"

text \<open>The format specification \<open>:<n\<close>: pad on the right to \<open>n\<close> characters.\<close>

definition ljust :: "nat \<Rightarrow> string \<Rightarrow> string" where
  "ljust n s = s @ replicate (n - length s) CHR '' ''"

definition summary_line :: "FailedRule \<Rightarrow> string" where
  "summary_line r =
     ''  - '' @ ljust 12 (severity_label_upper (fr_severity r)) @ '' '' @ fr_clause r @ '' ''
     @ fr_description r @ '' ('' @ str_int (fr_failed_checks r) @ '' checks)''"

definition ordered_rules :: "FailedRule list \<Rightarrow> FailedRule list" where
  "ordered_rules rs = sort_key (\<lambda>r. severity_index (fr_severity r)) rs"

definition format_failure_summary :: "FailedRule list \<Rightarrow> string" where
  "format_failure_summary failed_rules =
     (let total_checks = sum_list (map fr_failed_checks failed_rules);
          header = str_nat (length failed_rules) @ '' rules failed, ''
                   @ str_int total_checks @ '' checks''
      in join ''\<newline>'' (header # map summary_line (ordered_rules failed_rules)))"

section \<open>Lemmas\<close>

lemma severity_value_inject [simp]: "severity_value a = severity_value b \<longleftrightarrow> a = b"
  by (cases a; cases b) simp_all

lemma severity_of_value_value [simp]: "severity_of_value (severity_value s) = Some s"
  by (cases s) (simp_all add: severity_of_value_def SEVERITY_RANK_def)

lemma severity_index_inject [simp]: "severity_index a = severity_index b \<longleftrightarrow> a = b"
  by (cases a; cases b) (simp_all add: severity_index_def SEVERITY_RANK_def)

lemma rule_of_dict_to_dict [simp]: "rule_of_dict (rule_to_dict r) = Some r"
  by (simp add: rule_of_dict_def rule_to_dict_def)

lemma rules_of_dicts_to_dicts [simp]: "rules_of_dicts (map rule_to_dict rs) = Some rs"
  by (induction rs) simp_all

text \<open>A known clause that matches is a prefix of the clause, so equally long ones are equal.\<close>

lemma clause_matches_take: "clause_matches clause known \<Longrightarrow> known = take (length known) clause"
  by (auto simp: clause_matches_def startswith_iff)

lemma clause_matches_length_inject:
  "clause_matches clause a \<Longrightarrow> clause_matches clause b \<Longrightarrow> length a = length b \<Longrightarrow> a = b"
  by (metis clause_matches_take)

lemma best_match_cases:
  "best_match clause ks best = best \<or>
   best_match clause ks best \<in> set ks \<and> clause_matches clause (best_match clause ks best)"
proof (induction ks arbitrary: best)
  case Nil
  show ?case by simp
next
  case (Cons k ks)
  show ?case
    using Cons.IH [of "if clause_matches clause k \<and> length best < length k then k else best"]
    by (auto split: if_splits)
qed

lemma best_match_ge:
  "length best \<le> length (best_match clause ks best) \<and>
   (\<forall>k \<in> set ks. clause_matches clause k \<longrightarrow> length k \<le> length (best_match clause ks best))"
proof (induction ks arbitrary: best)
  case Nil
  show ?case by simp
next
  case (Cons k ks)
  show ?case
    using Cons.IH [of "if clause_matches clause k \<and> length best < length k then k else best"]
    by (auto split: if_splits)
qed

lemma best_match_unique:
  assumes "k \<in> set ks" and "clause_matches clause k" and "k \<noteq> ''''"
    and "\<And>k'. k' \<in> set ks \<Longrightarrow> clause_matches clause k' \<Longrightarrow> length k' \<le> length k"
  shows "best_match clause ks '''' = k"
proof -
  let ?b = "best_match clause ks ''''"
  have ge: "length k \<le> length ?b" using best_match_ge [of "''''" clause ks] assms(1,2) by blast
  then have "?b \<noteq> ''''" using assms(3) by auto
  then have b: "?b \<in> set ks" "clause_matches clause ?b"
    using best_match_cases [of clause ks "''''"] by auto
  with assms(4) ge have "length ?b = length k" by fastforce
  with b(2) assms(2) show ?thesis by (metis clause_matches_length_inject)
qed

lemma best_match_none:
  assumes "\<And>k. k \<in> set ks \<Longrightarrow> \<not> clause_matches clause k"
  shows "best_match clause ks '''' = ''''"
  using best_match_cases [of clause ks "''''"] assms by blast

lemma CLAUSE_SEVERITY_keys:
  "distinct (map fst CLAUSE_SEVERITY)" "'''' \<notin> set (map fst CLAUSE_SEVERITY)"
  by (simp_all add: CLAUSE_SEVERITY_def)

lemma ordered_rules_props [simp]:
  "mset (ordered_rules rs) = mset rs" "set (ordered_rules rs) = set rs"
  "length (ordered_rules rs) = length rs"
  by (simp_all add: ordered_rules_def)

lemma ordered_rules_sorted:
  "sorted (map (\<lambda>r. severity_index (fr_severity r)) (ordered_rules rs))"
  by (simp add: ordered_rules_def)

lemma ordered_rules_hd:
  assumes "r \<in> set rs"
  shows "severity_index (fr_severity (hd (ordered_rules rs))) \<le> severity_index (fr_severity r)"
proof -
  obtain x xs where o: "ordered_rules rs = x # xs"
    using assms by (cases "ordered_rules rs") (metis list.set_cases ordered_rules_props(2) empty_iff empty_set, blast)
  have "r = x \<or> r \<in> set xs" using assms o by (metis ordered_rules_props(2) set_ConsD)
  then show ?thesis using ordered_rules_sorted [of rs] o by auto
qed

lemma worst_severity_Some:
  "worst_severity ds = Some s \<longleftrightarrow>
   severity_value s \<in> set (map frd_severity ds) \<and>
   (\<forall>t. severity_index t < severity_index s \<longrightarrow> severity_value t \<notin> set (map frd_severity ds))"
  (is "?L \<longleftrightarrow> ?P s \<and> ?Q s")
proof -
  have all: "(\<forall>t. Q t) \<longleftrightarrow> Q CRITICAL \<and> Q MAJOR \<and> Q MINOR \<and> Q UNCLASSIFIED" for Q
    by (metis Severity.exhaust)
  show ?thesis unfolding all worst_severity_def SEVERITY_RANK_def Let_def severity_index_def
    by (cases s) auto
qed

section \<open>Classification and ranking are right\<close>

text \<open>A rule without an entry of its own gets the severity of the longest known clause that is the
  clause itself or ends at a dot of it, whatever the order of the table, and stays unclassified
  exactly when no known clause matches.\<close>

theorem classify_uses_the_longest_clause:
  assumes "map_of RULE_SEVERITY (clause @ ''-'' @ test_number) = None"
  shows "if \<exists>k \<in> fst ` set CLAUSE_SEVERITY. clause_matches clause k
         then \<exists>k s. (k, s) \<in> set CLAUSE_SEVERITY \<and> clause_matches clause k \<and>
                (\<forall>k' \<in> fst ` set CLAUSE_SEVERITY. clause_matches clause k' \<longrightarrow> length k' \<le> length k) \<and>
                classify clause test_number = s
         else classify clause test_number = UNCLASSIFIED"
proof (cases "\<exists>k \<in> fst ` set CLAUSE_SEVERITY. clause_matches clause k")
  case True
  let ?b = "best_match clause (map fst CLAUSE_SEVERITY) ''''"
  from True obtain k where k: "k \<in> set (map fst CLAUSE_SEVERITY)" "clause_matches clause k" by auto
  then have "length k \<le> length ?b" using best_match_ge [of "''''" clause "map fst CLAUSE_SEVERITY"] by blast
  moreover have "k \<noteq> ''''" using k(1) CLAUSE_SEVERITY_keys(2) by metis
  ultimately have b: "?b \<noteq> ''''" by auto
  then have m: "?b \<in> set (map fst CLAUSE_SEVERITY)" "clause_matches clause ?b"
    using best_match_cases [of clause "map fst CLAUSE_SEVERITY" "''''"] by auto
  then obtain s where s: "(?b, s) \<in> set CLAUSE_SEVERITY" by auto
  then have "classify clause test_number = s"
    using assms b CLAUSE_SEVERITY_keys(1) by (simp add: classify_def)
  with m(2) s True show ?thesis
    using best_match_ge [of "''''" clause "map fst CLAUSE_SEVERITY"] by auto
next
  case False
  then have "best_match clause (map fst CLAUSE_SEVERITY) '''' = ''''"
    by (intro best_match_none) auto
  with False assms show ?thesis by (auto simp: classify_def Let_def)
qed

theorem classify_uses_the_longest_clause_witness:
  "map_of RULE_SEVERITY (''7.21.7'' @ ''-'' @ ''1'') = None \<and> classify ''7.21.7'' ''1'' = MINOR \<and>
   (\<exists>k \<in> fst ` set CLAUSE_SEVERITY. clause_matches ''7.21.7'' k)"
proof -
  have none: "map_of RULE_SEVERITY (''7.21.7'' @ ''-'' @ ''1'') = None" by (simp add: RULE_SEVERITY_def)
  have some: "\<exists>k \<in> fst ` set CLAUSE_SEVERITY. clause_matches ''7.21.7'' k"
    by (simp add: CLAUSE_SEVERITY_def clause_matches_def startswith_def)
  obtain k s where "(k, s) \<in> set CLAUSE_SEVERITY" "clause_matches ''7.21.7'' k" "classify ''7.21.7'' ''1'' = s"
    using classify_uses_the_longest_clause [OF none] some by auto
  then have "classify ''7.21.7'' ''1'' = MINOR"
    by (auto simp: CLAUSE_SEVERITY_def clause_matches_def startswith_def)
  with none some show ?thesis by simp
qed

text \<open>The failure summary names every failed rule once, worst severity first and otherwise in the order
  of the report; its first rule has the severity that the stored result answers as its worst.\<close>

theorem summary_is_worst_first:
  assumes "rs \<noteq> []"
  shows "mset (ordered_rules rs) = mset rs \<and>
     sorted (map (\<lambda>r. severity_index (fr_severity r)) (ordered_rules rs)) \<and>
     (\<forall>s. filter (\<lambda>r. fr_severity r = s) (ordered_rules rs) = filter (\<lambda>r. fr_severity r = s) rs) \<and>
     worst_severity (map rule_to_dict rs) = Some (fr_severity (hd (ordered_rules rs)))"
proof -
  have stable: "filter (\<lambda>r. fr_severity r = s) (ordered_rules rs) = filter (\<lambda>r. fr_severity r = s) rs" for s
  proof -
    have "filter (\<lambda>r. severity_index (fr_severity r) = severity_index s) (ordered_rules rs) =
          filter (\<lambda>r. severity_index (fr_severity r) = severity_index s) rs"
      unfolding ordered_rules_def by (rule sort_key_stable)
    then show ?thesis by simp
  qed
  have hd: "hd (ordered_rules rs) \<in> set rs"
    using assms by (metis hd_in_set length_0_conv ordered_rules_props(2,3))
  have "severity_value t \<notin> set (map frd_severity (map rule_to_dict rs))"
    if "severity_index t < severity_index (fr_severity (hd (ordered_rules rs)))" for t
    using that ordered_rules_hd [of _ rs] by (fastforce simp: rule_to_dict_def)
  moreover have "severity_value (fr_severity (hd (ordered_rules rs))) \<in> set (map frd_severity (map rule_to_dict rs))"
    using hd by (auto simp: rule_to_dict_def image_iff)
  ultimately have "worst_severity (map rule_to_dict rs) = Some (fr_severity (hd (ordered_rules rs)))"
    unfolding worst_severity_Some by blast
  with stable ordered_rules_sorted show ?thesis by simp
qed

theorem summary_is_worst_first_witness:
  "worst_severity (map rule_to_dict
     [\<lparr>fr_clause = ''7.21'', fr_test_number = ''1'', fr_description = ''font'', fr_failed_checks = 2, fr_severity = MINOR\<rparr>,
      \<lparr>fr_clause = ''7.3'', fr_test_number = ''1'', fr_description = ''alt'', fr_failed_checks = 1, fr_severity = CRITICAL\<rparr>])
   = Some CRITICAL"
proof -
  let ?a = "\<lparr>fr_clause = ''7.21'', fr_test_number = ''1'', fr_description = ''font'', fr_failed_checks = 2, fr_severity = MINOR\<rparr>"
  let ?b = "\<lparr>fr_clause = ''7.3'', fr_test_number = ''1'', fr_description = ''alt'', fr_failed_checks = 1, fr_severity = CRITICAL\<rparr>"
  have "worst_severity (map rule_to_dict [?a, ?b]) = Some (fr_severity (hd (ordered_rules [?a, ?b])))"
    using summary_is_worst_first [of "[?a, ?b]"] by blast
  moreover have "hd (ordered_rules [?a, ?b]) = ?b" by (simp add: ordered_rules_def severity_index_def SEVERITY_RANK_def)
  ultimately show ?thesis by simp
qed

section \<open>Severities as an order\<close>

text \<open>The ranking is a linear order, so the library's sorting and minima apply: the least severity is the worst.\<close>

instantiation Severity :: linorder
begin

definition less_eq_Severity :: "Severity \<Rightarrow> Severity \<Rightarrow> bool" where
  "a \<le> b \<longleftrightarrow> severity_index a \<le> severity_index b"

definition less_Severity :: "Severity \<Rightarrow> Severity \<Rightarrow> bool" where
  "a < b \<longleftrightarrow> severity_index a < severity_index b"

instance
  by standard (auto simp: less_eq_Severity_def less_Severity_def)

end

text \<open>The stored result's worst severity is the minimum, and the summary's order is the sorted one.\<close>

lemma worst_severity_Min:
  assumes "rs \<noteq> []"
  shows "worst_severity (map rule_to_dict rs) = Some (Min (fr_severity ` set rs))"
proof -
  have "Min (fr_severity ` set rs) \<in> fr_severity ` set rs" using assms by (intro Min_in) auto
  moreover have "\<forall>s \<in> fr_severity ` set rs. severity_index (Min (fr_severity ` set rs)) \<le> severity_index s"
    using Min_le [of "fr_severity ` set rs"] by (auto simp: less_eq_Severity_def)
  ultimately show ?thesis by (auto simp: worst_severity_Some rule_to_dict_def)
qed

lemma ordered_rules_ascending: "sorted (map fr_severity (ordered_rules rs))"
proof -
  have "sorted (map (\<lambda>r. severity_index (fr_severity r)) (ordered_rules rs))" unfolding ordered_rules_def by (rule sorted_sort_key)
  then show ?thesis by (simp add: sorted_wrt_map less_eq_Severity_def)
qed

end
