(* ===== verification/Sha256.thy ===== *)
theory Sha256
  imports Dice_Prelude "HOL-Library.Word"
begin

unbundle bit_operations_syntax

text \<open>
  The part of Python's \<open>hashlib\<close> and \<open>hmac\<close> that the code calls: SHA-256 (FIPS 180-4) with an
  incremental hasher, its hexadecimal digest, and HMAC-SHA256 (RFC 2104).  The lemmas give what
  the rest of the development needs: a digest is always 64 lower-case hexadecimal characters
  (so it fits \<^verbatim>\<open>Remediation.content_hash\<close> and holds no slash), and feeding a message in pieces
  gives the digest of the whole.
\<close>

type_synonym byte = "8 word"
type_synonym bytes = "byte list"

section \<open>Hexadecimal text\<close>

definition hex_char :: "nat \<Rightarrow> char" where
  "hex_char d = (if d < 10 then char_of (48 + d) else char_of (87 + d))"

primrec hex_digits :: "nat \<Rightarrow> nat \<Rightarrow> string" where
  "hex_digits 0 n = []"
| "hex_digits (Suc k) n = hex_digits k (n div 16) @ [hex_char (n mod 16)]"

lemma length_hex_digits [simp]: "length (hex_digits k n) = k"
  by (induction k arbitrary: n) simp_all

lemma of_hex_char: "d < 16 \<Longrightarrow> (of_char (hex_char d) :: nat) = (if d < 10 then 48 + d else 87 + d)"
  by (simp add: hex_char_def)

lemma hex_char_not_slash: "d < 16 \<Longrightarrow> hex_char d \<noteq> CHR ''/''"
  using of_hex_char [of d] by (auto split: if_splits)

lemma hex_digits_no_slash [simp]: "CHR ''/'' \<notin> set (hex_digits k n)"
  by (induction k arbitrary: n) (auto simp: hex_char_not_slash dest: sym)

section \<open>SHA-256\<close>

type_synonym sha_state =
  "32 word \<times> 32 word \<times> 32 word \<times> 32 word \<times> 32 word \<times> 32 word \<times> 32 word \<times> 32 word"

text \<open>
  The constants of the standard in decimal: the fractional parts of the square roots of the first
  8 primes and of the cube roots of the first 64.
\<close>

definition sha_init :: sha_state where
  "sha_init = (1779033703, 3144134277, 1013904242, 2773480762,
    1359893119, 2600822924, 528734635, 1541459225)"

definition sha_K :: "32 word list" where
  "sha_K = [
    1116352408, 1899447441, 3049323471, 3921009573, 961987163, 1508970993, 2453635748, 2870763221,
    3624381080, 310598401, 607225278, 1426881987, 1925078388, 2162078206, 2614888103, 3248222580,
    3835390401, 4022224774, 264347078, 604807628, 770255983, 1249150122, 1555081692, 1996064986,
    2554220882, 2821834349, 2952996808, 3210313671, 3336571891, 3584528711, 113926993, 338241895,
    666307205, 773529912, 1294757372, 1396182291, 1695183700, 1986661051, 2177026350, 2456956037,
    2730485921, 2820302411, 3259730800, 3345764771, 3516065817, 3600352804, 4094571909, 275423344,
    430227734, 506948616, 659060556, 883997877, 958139571, 1322822218, 1537002063, 1747873779,
    1955562222, 2024104815, 2227730452, 2361852424, 2428436474, 2756734187, 3204031479, 3329325298]"

text \<open>The padding: a one bit, zeros up to 56 bytes modulo 64, and the bit length in 8 bytes.\<close>

definition sha_pad :: "bytes \<Rightarrow> bytes" where
  "sha_pad msg =
     (let n = length msg; zeros = (119 - n mod 64) mod 64;
          bits = 8 * n
      in msg @ [0x80] @ replicate zeros 0
         @ map (\<lambda>i. word_of_nat (bits div 256 ^ i)) [7, 6, 5, 4, 3, 2, 1, 0])"

fun words_of :: "bytes \<Rightarrow> 32 word list" where
  "words_of (a # b # c # d # rest) =
     (push_bit 24 (ucast a) OR push_bit 16 (ucast b) OR push_bit 8 (ucast c) OR ucast d)
     # words_of rest"
| "words_of _ = []"

fun chunks_of :: "nat \<Rightarrow> 'a list \<Rightarrow> 'a list list" where
  "chunks_of n xs = (if n = 0 \<or> xs = [] then [] else take n xs # chunks_of n (drop n xs))"

declare chunks_of.simps [simp del]

definition small_sigma0 :: "32 word \<Rightarrow> 32 word" where
  "small_sigma0 x = word_rotr 7 x XOR word_rotr 18 x XOR drop_bit 3 x"

definition small_sigma1 :: "32 word \<Rightarrow> 32 word" where
  "small_sigma1 x = word_rotr 17 x XOR word_rotr 19 x XOR drop_bit 10 x"

text \<open>The message schedule, newest word first; \<open>k\<close> words are still to be added.\<close>

fun schedule :: "nat \<Rightarrow> 32 word list \<Rightarrow> 32 word list" where
  "schedule 0 ws = rev ws"
| "schedule (Suc k) ws =
     schedule k ((small_sigma1 (ws ! 1) + ws ! 6 + small_sigma0 (ws ! 14) + ws ! 15) # ws)"

fun sha_round :: "sha_state \<Rightarrow> 32 word \<times> 32 word \<Rightarrow> sha_state" where
  "sha_round (a, b, c, d, e, f, g, h) (k, w) =
     (let s1 = word_rotr 6 e XOR word_rotr 11 e XOR word_rotr 25 e;
          ch = (e AND f) XOR (NOT e AND g);
          t1 = h + s1 + ch + k + w;
          s0 = word_rotr 2 a XOR word_rotr 13 a XOR word_rotr 22 a;
          maj = (a AND b) XOR (a AND c) XOR (b AND c)
      in (t1 + s0 + maj, a, b, c, d + t1, e, f, g))"

fun sha_add :: "sha_state \<Rightarrow> sha_state \<Rightarrow> sha_state" where
  "sha_add (a, b, c, d, e, f, g, h) (a', b', c', d', e', f', g', h') =
     (a + a', b + b', c + c', d + d', e + e', f + f', g + g', h + h')"

definition sha_block :: "sha_state \<Rightarrow> bytes \<Rightarrow> sha_state" where
  "sha_block st block =
     sha_add st (foldl sha_round st (zip sha_K (schedule 48 (rev (words_of block)))))"

definition sha256_state :: "bytes \<Rightarrow> sha_state" where
  "sha256_state msg = foldl sha_block sha_init (chunks_of 64 (sha_pad msg))"

fun state_words :: "sha_state \<Rightarrow> 32 word list" where
  "state_words (a, b, c, d, e, f, g, h) = [a, b, c, d, e, f, g, h]"

definition sha256_hexdigest :: "bytes \<Rightarrow> string" where
  "sha256_hexdigest msg = concat (map (\<lambda>w. hex_digits 8 (unat w)) (state_words (sha256_state msg)))"

definition sha256_digest :: "bytes \<Rightarrow> bytes" where
  "sha256_digest msg =
     concat (map (\<lambda>w. map (\<lambda>i. word_of_nat (unat w div 256 ^ i)) [3, 2, 1, 0])
                 (state_words (sha256_state msg)))"

lemma length_state_words [simp]: "length (state_words st) = 8"
  by (induction st rule: state_words.induct) simp

lemma length_concat_const:
  "(\<And>x. x \<in> set xs \<Longrightarrow> length (f x) = n) \<Longrightarrow> length (concat (map f xs)) = n * length xs"
  by (induction xs) simp_all

lemma length_sha256_hexdigest [simp]: "length (sha256_hexdigest msg) = 64"
  by (simp add: sha256_hexdigest_def length_concat_const [where n = 8])

lemma sha256_hexdigest_no_slash [simp]: "CHR ''/'' \<notin> set (sha256_hexdigest msg)"
  by (simp add: sha256_hexdigest_def)

lemma length_sha256_digest [simp]: "length (sha256_digest msg) = 32"
  by (simp add: sha256_digest_def length_concat_const [where n = 4])

section \<open>The incremental hasher\<close>

text \<open>\<open>hasher.update(chunk)\<close> is equivalent to one update with the concatenation.\<close>

definition hasher_update :: "bytes \<Rightarrow> bytes \<Rightarrow> bytes" where
  "hasher_update fed chunk = fed @ chunk"

lemma foldl_hasher_update [simp]: "foldl hasher_update fed chunks = fed @ concat chunks"
  by (induction chunks arbitrary: fed) (simp_all add: hasher_update_def)

section \<open>HMAC-SHA256\<close>

definition hmac_key_block :: "bytes \<Rightarrow> bytes" where
  "hmac_key_block key =
     (let k = (if length key > 64 then sha256_digest key else key)
      in k @ replicate (64 - length k) 0)"

definition hmac_sha256_hexdigest :: "bytes \<Rightarrow> bytes \<Rightarrow> string" where
  "hmac_sha256_hexdigest key body =
     (let k = hmac_key_block key
      in sha256_hexdigest (map (\<lambda>b. b XOR 0x5c) k
                           @ sha256_digest (map (\<lambda>b. b XOR 0x36) k @ body)))"

lemma length_hmac_key_block [simp]: "length (hmac_key_block key) = 64"
  by (simp add: hmac_key_block_def Let_def)

end
