(* ===== verification/Account_Models.thy ===== *)
theory Account_Models
  imports Dice_Prelude
begin

text \<open>
  \<^verbatim>\<open>accounts/models.py\<close> (the service account, its limits and how they are read),
  \<^verbatim>\<open>api/rates.py\<close> (rate text to numbers) and the limit column of \<^verbatim>\<open>accounts/admin.py\<close>.
  The rate parser of Django REST framework is a parameter; \<open>drf_reads_rates\<close> is the documented
  behaviour the code relies on.  The lemmas show that an account that passed \<open>validate_limits\<close>
  never raises \<open>IncompleteLimitsError\<close>, and that \<open>None\<close> is only ever read for an unlimited one.
\<close>

section \<open>Rate periods\<close>

datatype RateLimitPeriod = SECOND | MINUTE | HOUR | DAY

fun period_value :: "RateLimitPeriod \<Rightarrow> string" where
  "period_value SECOND = ''second''"
| "period_value MINUTE = ''minute''"
| "period_value HOUR = ''hour''"
| "period_value DAY = ''day''"

fun period_seconds :: "RateLimitPeriod \<Rightarrow> int" where
  "period_seconds SECOND = 1"
| "period_seconds MINUTE = 60"
| "period_seconds HOUR = 3600"
| "period_seconds DAY = 86400"

definition DEFAULT_RATE_LIMIT_PERIOD :: RateLimitPeriod where
  "DEFAULT_RATE_LIMIT_PERIOD = DAY"

definition PERIODS :: "RateLimitPeriod list" where
  "PERIODS = [SECOND, MINUTE, HOUR, DAY]"

definition period_choices :: "string list" where
  "period_choices = map period_value PERIODS"

section \<open>The service account\<close>

text \<open>
  The limit columns are nullable: \<open>None\<close> is SQL's NULL.  The period is text, as the column
  is; only a validated one is known to be a choice.
\<close>

record ServiceAccount =
  sa_pk :: nat
  sa_organization :: nat
  sa_name :: string
  sa_user :: nat
  webhook_secret :: string
  unlimited :: bool
  max_in_flight :: "int option"
  rate_limit_count :: "int option"
  rate_limit_period :: "string option"

definition LIMIT_FIELDS :: "string list" where
  "LIMIT_FIELDS = [''unlimited'', ''max_in_flight'', ''rate_limit_count'', ''rate_limit_period'']"

datatype limit_error = IncompleteLimitsError nat

text \<open>
  \<open>clean_fields\<close> on the limit fields: a \<open>PositiveIntegerField\<close> holds 0 to 2147483647; a blank
  value of a field that may be blank is not checked further; any other period must be a choice.
\<close>

definition clean_count :: "int option \<Rightarrow> bool" where
  "clean_count v = (case v of None \<Rightarrow> True | Some n \<Rightarrow> 0 \<le> n \<and> n \<le> 2147483647)"

definition clean_period :: "string option \<Rightarrow> bool" where
  "clean_period p = (case p of None \<Rightarrow> True | Some t \<Rightarrow> t = '''' \<or> t \<in> set period_choices)"

text \<open>The database's check constraint \<open>limits_set_unless_unlimited\<close>.\<close>

definition limits_set_unless_unlimited :: "ServiceAccount \<Rightarrow> bool" where
  "limits_set_unless_unlimited a \<longleftrightarrow>
     unlimited a \<or>
     max_in_flight a \<noteq> None \<and> rate_limit_count a \<noteq> None \<and> rate_limit_period a \<noteq> None"

definition validate_limits :: "ServiceAccount \<Rightarrow> bool" where
  "validate_limits a \<longleftrightarrow>
     clean_count (max_in_flight a) \<and> clean_count (rate_limit_count a) \<and>
     clean_period (rate_limit_period a) \<and> limits_set_unless_unlimited a"

definition is_unlimited :: "ServiceAccount \<Rightarrow> bool" where
  "is_unlimited a = unlimited a"

definition in_flight_cap :: "ServiceAccount \<Rightarrow> limit_error + int option" where
  "in_flight_cap a =
     (if is_unlimited a then Inr None
      else case max_in_flight a of
             None \<Rightarrow> Inl (IncompleteLimitsError (sa_pk a))
           | Some n \<Rightarrow> Inr (Some n))"

definition rate_limit :: "ServiceAccount \<Rightarrow> limit_error + string option" where
  "rate_limit a =
     (if is_unlimited a then Inr None
      else case (rate_limit_count a, rate_limit_period a) of
             (Some n, Some p) \<Rightarrow> Inr (Some (str_int n @ ''/'' @ p))
           | _ \<Rightarrow> Inl (IncompleteLimitsError (sa_pk a)))"

text \<open>\<open>ServiceAccount.for_user\<close>: the account whose one-to-one user this is.\<close>

definition for_user :: "ServiceAccount list \<Rightarrow> nat option \<Rightarrow> ServiceAccount option" where
  "for_user accounts user =
     (case user of None \<Rightarrow> None | Some u \<Rightarrow> List.find (\<lambda>a. sa_user a = u) accounts)"

text \<open>The limit column of the account list (\<open>_limit_text\<close>), applied to the two limits.\<close>

definition limit_text :: "(limit_error + 'a option) \<Rightarrow> ('a \<Rightarrow> string) \<Rightarrow> string" where
  "limit_text read shown =
     (case read of
        Inl (IncompleteLimitsError pk) \<Rightarrow> ''incomplete''
      | Inr None \<Rightarrow> ''unlimited''
      | Inr (Some v) \<Rightarrow> shown v)"

definition admin_in_flight_cap :: "ServiceAccount \<Rightarrow> string" where
  "admin_in_flight_cap a = limit_text (in_flight_cap a) str_int"

definition admin_rate_limit :: "ServiceAccount \<Rightarrow> string" where
  "admin_rate_limit a = limit_text (rate_limit a) (\<lambda>s. s)"

section \<open>Reading a rate\<close>

datatype rate_error = ImproperlyConfigured string | RateParserError string

text \<open>
  The framework's parser is a parameter: \<open>None\<close> where it raises, otherwise the two values it
  returns, each possibly Python's \<open>None\<close>.
\<close>

type_synonym drf_parser = "string \<Rightarrow> (int option \<times> int option) option"

definition parse_rate :: "drf_parser \<Rightarrow> string \<Rightarrow> rate_error + (int \<times> int)" where
  "parse_rate drf rate =
     (case drf rate of
        None \<Rightarrow> Inl (RateParserError rate)
      | Some (Some requests, Some secs) \<Rightarrow> Inr (requests, secs)
      | Some _ \<Rightarrow> Inl (ImproperlyConfigured rate))"

datatype ThrottleScope = FAILED_AUTH | CLIENT_IP

fun scope_value :: "ThrottleScope \<Rightarrow> string" where
  "scope_value FAILED_AUTH = ''failed_auth''"
| "scope_value CLIENT_IP = ''client_ip''"

definition rate_for :: "drf_parser \<Rightarrow> (ThrottleScope \<Rightarrow> string) \<Rightarrow> ThrottleScope
    \<Rightarrow> rate_error + (int \<times> int)" where
  "rate_for drf DEFAULT_THROTTLE_RATES scope = parse_rate drf (DEFAULT_THROTTLE_RATES scope)"

text \<open>The documented reading of \<open>N/period\<close>.\<close>

definition drf_reads_rates :: "drf_parser \<Rightarrow> bool" where
  "drf_reads_rates drf \<longleftrightarrow>
     (\<forall>n p. drf (str_nat n @ ''/'' @ period_value p) = Some (Some (int n), Some (period_seconds p)))"

section \<open>Lemmas\<close>

lemma period_value_inject [simp]: "period_value a = period_value b \<longleftrightarrow> a = b"
  by (cases a; cases b) simp_all

lemma period_choices_iff: "t \<in> set period_choices \<longleftrightarrow> (\<exists>p. t = period_value p)"
proof
  assume "\<exists>p. t = period_value p"
  then obtain p where "t = period_value p" ..
  then show "t \<in> set period_choices" by (cases p) (simp_all add: period_choices_def PERIODS_def)
qed (auto simp: period_choices_def)

lemma rate_limit_None: "rate_limit a = Inr None \<longleftrightarrow> unlimited a"
  by (auto simp: rate_limit_def is_unlimited_def split: option.splits)

lemma in_flight_cap_None: "in_flight_cap a = Inr None \<longleftrightarrow> unlimited a"
  by (auto simp: in_flight_cap_def is_unlimited_def split: option.splits)

lemma rate_limit_complete:
  "limits_set_unless_unlimited a \<Longrightarrow> \<exists>r. rate_limit a = Inr r"
  by (auto simp: limits_set_unless_unlimited_def rate_limit_def is_unlimited_def)

lemma in_flight_cap_complete:
  "limits_set_unless_unlimited a \<Longrightarrow> \<exists>r. in_flight_cap a = Inr r"
  by (auto simp: limits_set_unless_unlimited_def in_flight_cap_def is_unlimited_def)

lemma str_int_nonneg: "0 \<le> n \<Longrightarrow> str_int n = str_nat (nat n)"
  by (simp add: str_int_def)

text \<open>A validated, limited account with a real period has a readable rate.\<close>

lemma parse_rate_of_account:
  assumes "drf_reads_rates drf" and "validate_limits a" and "\<not> unlimited a"
    and "rate_limit_period a \<noteq> Some ''''"
  obtains n p where "rate_limit_count a = Some n" and "0 \<le> n"
    and "rate_limit_period a = Some (period_value p)"
    and "rate_limit a = Inr (Some (str_int n @ ''/'' @ period_value p))"
    and "parse_rate drf (str_int n @ ''/'' @ period_value p) = Inr (n, period_seconds p)"
proof -
  from assms(2,3) obtain n t where n: "rate_limit_count a = Some n" "0 \<le> n"
    and t: "rate_limit_period a = Some t" "t = '''' \<or> t \<in> set period_choices"
    by (auto simp: validate_limits_def limits_set_unless_unlimited_def clean_count_def clean_period_def)
  from t assms(4) obtain p where p: "t = period_value p"
    by (auto simp: period_choices_iff)
  have "rate_limit a = Inr (Some (str_int n @ ''/'' @ period_value p))"
    using n t p assms(3) by (simp add: rate_limit_def is_unlimited_def)
  moreover have "parse_rate drf (str_int n @ ''/'' @ period_value p) = Inr (n, period_seconds p)"
    using assms(1) n(2) by (simp add: drf_reads_rates_def parse_rate_def str_int_nonneg)
  ultimately show ?thesis using that [of n p] n t p by simp
qed

end
