(* ===== verification/Remediation_Models.thy ===== *)
theory Remediation_Models
  imports Severity Sha256 Account_Models
begin

text \<open>
  \<^verbatim>\<open>remediation/models.py\<close>: the tables (\<open>Remediation\<close>, \<open>RemediationArtifact\<close>,
  \<open>VerificationResult\<close>, \<open>RemediationScore\<close>, \<open>RemediationCallback\<close>, \<open>PipelineConfig\<close>) with their
  uniqueness constraints, the exceptions of the remediation code, and the world its operations
  act on: the tables, the file storage, the task queue, the error reports, and the counters from
  which clock readings and identifiers are drawn.  A write that breaks a constraint answers with
  \<open>IntegrityError\<close> and leaves the tables as they were.
\<close>

section \<open>Statuses and steps\<close>

datatype JobStatus = QUEUED | RUNNING | COMPLIANT | NONCOMPLIANT | ERROR | SKIPPED

definition FINISHED_STATUSES :: "JobStatus list" where
  "FINISHED_STATUSES = [COMPLIANT, NONCOMPLIANT, ERROR, SKIPPED]"

definition UNFINISHED_STATUSES :: "JobStatus list" where
  "UNFINISHED_STATUSES = [QUEUED, RUNNING]"

fun job_status_value :: "JobStatus \<Rightarrow> string" where
  "job_status_value QUEUED = ''queued''"
| "job_status_value RUNNING = ''running''"
| "job_status_value COMPLIANT = ''compliant''"
| "job_status_value NONCOMPLIANT = ''noncompliant''"
| "job_status_value ERROR = ''error''"
| "job_status_value SKIPPED = ''skipped''"

datatype Step =
  PRECHECK | OCR | FONT_REPAIR | FINALIZE_METADATA | LINK_TAG | ALT_TEXT | SCORING | POSTCHECK

fun step_value :: "Step \<Rightarrow> string" where
  "step_value PRECHECK = ''precheck''"
| "step_value OCR = ''ocr''"
| "step_value FONT_REPAIR = ''font_repair''"
| "step_value FINALIZE_METADATA = ''finalize_metadata''"
| "step_value LINK_TAG = ''link_tag''"
| "step_value ALT_TEXT = ''alt_text''"
| "step_value SCORING = ''scoring''"
| "step_value POSTCHECK = ''postcheck''"

fun step_name :: "Step \<Rightarrow> string" where
  "step_name PRECHECK = ''PRECHECK''"
| "step_name OCR = ''OCR''"
| "step_name FONT_REPAIR = ''FONT_REPAIR''"
| "step_name FINALIZE_METADATA = ''FINALIZE_METADATA''"
| "step_name LINK_TAG = ''LINK_TAG''"
| "step_name ALT_TEXT = ''ALT_TEXT''"
| "step_name SCORING = ''SCORING''"
| "step_name POSTCHECK = ''POSTCHECK''"

datatype StepStatus = STEP_COMPLETED | STEP_SKIPPED | STEP_FAILED

section \<open>Rows\<close>

type_synonym uuid = string

record Remediation =
  rid :: uuid
  service_account :: nat
  status :: JobStatus
  source_pdf_uri :: string
  content_hash :: string
  original_filename :: string
  error :: string
  final_output_uri :: string
  pipeline_version :: string
  created_at :: time
  last_enqueued_at :: "time option"
  started_at :: "time option"
  completed_at :: "time option"

record RemediationArtifact =
  art_remediation :: uuid
  art_step :: Step
  art_status :: StepStatus
  art_output_uri :: string
  art_error :: string
  art_created_at :: time

record VerificationResult =
  vr_remediation :: uuid
  vr_step :: Step
  vr_is_compliant :: bool
  vr_verapdf_version :: string
  vr_failed_rules :: "FailedRuleDict list"
  vr_created_at :: time

record RemediationScore =
  sc_remediation :: uuid
  sc_score :: int
  sc_grade :: string
  sc_manual_review_items :: "string list"
  sc_created_at :: time

record RemediationCallback =
  cb_pk :: nat
  cb_remediation :: uuid
  callback_url :: string
  cb_created_at :: time

definition processing_seconds :: "Remediation \<Rightarrow> time option" where
  "processing_seconds r =
     (case (started_at r, completed_at r) of
        (Some s, Some c) \<Rightarrow> Some (c - s)
      | _ \<Rightarrow> None)"

section \<open>Exceptions\<close>

text \<open>
  The exceptions the remediation code raises or handles.  \<open>OtherException\<close> stands for any
  exception of a library or service the code calls.
\<close>

datatype exn =
    AlreadyCompliant
  | NotCompliant "FailedRule list"
  | PostCheckUnavailable string
  | AdapterError string
  | IntegrityError string
  | DoesNotExist string
  | DatabaseError string
  | SubmissionLimitReached int int time
  | AssertionError string
  | WebhookDeliveryError string
  | ValueError string
  | OtherException string

text \<open>\<open>str(exc)\<close>.\<close>

fun exn_str :: "exn \<Rightarrow> string" where
  "exn_str AlreadyCompliant = ''''"
| "exn_str (NotCompliant rules) = format_failure_summary rules"
| "exn_str (PostCheckUnavailable m) = m"
| "exn_str (AdapterError m) = m"
| "exn_str (IntegrityError m) = m"
| "exn_str (DoesNotExist m) = m"
| "exn_str (DatabaseError m) = m"
| "exn_str (SubmissionLimitReached w r t) = ''Submission limit reached.''"
| "exn_str (AssertionError m) = m"
| "exn_str (WebhookDeliveryError m) = m"
| "exn_str (ValueError m) = m"
| "exn_str (OtherException m) = m"

section \<open>The world\<close>

datatype task =
    ProcessRemediation uuid
  | SendWebhookNotification nat nat "time option"

text \<open>
  \<open>SendWebhookNotification callback attempt run_after\<close>: a task is due at once (\<open>None\<close>) or not
  before a moment.
\<close>

type_synonym storage = "string \<rightharpoonup> bytes"

record world =
  remediations :: "Remediation list"
  artifacts :: "RemediationArtifact list"
  verification_results :: "VerificationResult list"
  scores :: "RemediationScore list"
  callbacks :: "RemediationCallback list"
  pipeline_config :: "string option"
  files :: storage
  queue :: "task list"
  error_reports :: "(string \<times> Step \<times> uuid) list"
  ticks :: nat
  uuids :: nat
  next_pk :: nat

type_synonym 'a outcome = "(exn + 'a) \<times> world"

text \<open>
  Reading the clock.  \<open>clock n\<close> is the \<open>n\<close>-th value \<open>timezone.now()\<close> returns in a run.
\<close>

definition now :: "(nat \<Rightarrow> time) \<Rightarrow> world \<Rightarrow> time \<times> world" where
  "now clock w = (clock (ticks w), w\<lparr>ticks := Suc (ticks w)\<rparr>)"

section \<open>The constraints\<close>

definition unfinished :: "Remediation \<Rightarrow> bool" where
  "unfinished r \<longleftrightarrow> status r \<in> set UNFINISHED_STATUSES"

definition finished :: "Remediation \<Rightarrow> bool" where
  "finished r \<longleftrightarrow> status r \<in> set FINISHED_STATUSES"

definition document :: "Remediation \<Rightarrow> nat \<times> string" where
  "document r = (service_account r, content_hash r)"

definition one_unfinished_attempt_per_document :: "Remediation list \<Rightarrow> bool" where
  "one_unfinished_attempt_per_document rows \<longleftrightarrow> distinct (map document (filter unfinished rows))"

definition one_artifact_per_step :: "RemediationArtifact list \<Rightarrow> bool" where
  "one_artifact_per_step rows \<longleftrightarrow> distinct (map (\<lambda>a. (art_remediation a, art_step a)) rows)"

definition one_verification_result_per_step :: "VerificationResult list \<Rightarrow> bool" where
  "one_verification_result_per_step rows \<longleftrightarrow> distinct (map (\<lambda>v. (vr_remediation v, vr_step v)) rows)"

definition one_score_per_remediation :: "RemediationScore list \<Rightarrow> bool" where
  "one_score_per_remediation rows \<longleftrightarrow> distinct (map sc_remediation rows)"

definition one_callback_per_url_per_remediation :: "RemediationCallback list \<Rightarrow> bool" where
  "one_callback_per_url_per_remediation rows \<longleftrightarrow>
     distinct (map (\<lambda>c. (cb_remediation c, callback_url c)) rows)"

definition tables_ok :: "world \<Rightarrow> bool" where
  "tables_ok w \<longleftrightarrow>
     distinct (map rid (remediations w)) \<and>
     one_unfinished_attempt_per_document (remediations w) \<and>
     one_artifact_per_step (artifacts w) \<and>
     one_verification_result_per_step (verification_results w) \<and>
     one_score_per_remediation (scores w) \<and>
     one_callback_per_url_per_remediation (callbacks w) \<and>
     distinct (map cb_pk (callbacks w)) \<and>
     (\<forall>c \<in> set (callbacks w). cb_pk c < next_pk w)"

section \<open>Table operations\<close>

text \<open>\<open>Remediation.objects.create(...)\<close>: refused on a taken key or a second unfinished attempt.\<close>

definition insert_remediation :: "Remediation \<Rightarrow> world \<Rightarrow> unit outcome" where
  "insert_remediation r w =
     (if rid r \<in> set (map rid (remediations w)) then (Inl (IntegrityError ''remediation_pkey''), w)
      else if unfinished r \<and> document r \<in> set (map document (filter unfinished (remediations w)))
      then (Inl (IntegrityError ''one_unfinished_attempt_per_document''), w)
      else (Inr (), w\<lparr>remediations := remediations w @ [r]\<rparr>))"

text \<open>\<open>Remediation.objects.get(pk=...)\<close>.\<close>

definition find_remediation :: "uuid \<Rightarrow> world \<Rightarrow> Remediation option" where
  "find_remediation i w = List.find (\<lambda>r. rid r = i) (remediations w)"

text \<open>
  \<open>instance.save(update_fields=...)\<close>: an UPDATE of the named columns of the instance's row.  Django
  raises \<open>DatabaseError\<close> when no row is affected, and the database refuses an update that would
  leave a document with two unfinished attempts.
\<close>

definition save_fields :: "uuid \<Rightarrow> (Remediation \<Rightarrow> Remediation) \<Rightarrow> world \<Rightarrow> unit outcome" where
  "save_fields i f w =
     (if i \<notin> set (map rid (remediations w))
      then (Inl (DatabaseError ''Save with update_fields did not affect any rows.''), w)
      else let rows = update_rows (\<lambda>r. rid r = i) f (remediations w)
           in if one_unfinished_attempt_per_document rows
              then (Inr (), w\<lparr>remediations := rows\<rparr>)
              else (Inl (IntegrityError ''one_unfinished_attempt_per_document''), w))"

text \<open>
  \<open>RemediationArtifact.objects.update_or_create(remediation, step, defaults)\<close>: the row of that
  key gets the given values (its \<open>created_at\<close> stays), or is made with them.
\<close>

definition upsert_artifact :: "RemediationArtifact \<Rightarrow> world \<Rightarrow> world" where
  "upsert_artifact a w =
     (let same = (\<lambda>b. art_remediation b = art_remediation a \<and> art_step b = art_step a)
      in if List.find same (artifacts w) = None
         then w\<lparr>artifacts := artifacts w @ [a]\<rparr>
         else w\<lparr>artifacts := update_rows same
                  (\<lambda>b. b\<lparr>art_status := art_status a, art_output_uri := art_output_uri a,
                         art_error := art_error a\<rparr>) (artifacts w)\<rparr>)"

definition insert_verification_result :: "VerificationResult \<Rightarrow> world \<Rightarrow> unit outcome" where
  "insert_verification_result v w =
     (if (vr_remediation v, vr_step v)
           \<in> set (map (\<lambda>v. (vr_remediation v, vr_step v)) (verification_results w))
      then (Inl (IntegrityError ''one_verification_result_per_step''), w)
      else (Inr (), w\<lparr>verification_results := verification_results w @ [v]\<rparr>))"

definition insert_score :: "RemediationScore \<Rightarrow> world \<Rightarrow> unit outcome" where
  "insert_score s w =
     (if sc_remediation s \<in> set (map sc_remediation (scores w))
      then (Inl (IntegrityError ''remediationscore_remediation_id_key''), w)
      else (Inr (), w\<lparr>scores := scores w @ [s]\<rparr>))"

text \<open>\<open>PipelineConfig.save\<close> always writes the row with key 1, so there is one row at most.\<close>

definition save_pipeline_config :: "string \<Rightarrow> world \<Rightarrow> world" where
  "save_pipeline_config retry_floor_version w = w\<lparr>pipeline_config := Some retry_floor_version\<rparr>"

section \<open>Lemmas\<close>

lemma finished_iff_not_unfinished: "finished r \<longleftrightarrow> \<not> unfinished r"
  by (cases "status r")
    (simp_all add: finished_def unfinished_def FINISHED_STATUSES_def UNFINISHED_STATUSES_def)

lemma step_value_inject [simp]: "step_value a = step_value b \<longleftrightarrow> a = b"
  by (cases a; cases b) simp_all

lemma step_value_no_slash [simp]: "CHR ''/'' \<notin> set (step_value s)"
  by (cases s) simp_all

lemma find_remediation_Some:
  "find_remediation i w = Some r \<Longrightarrow> r \<in> set (remediations w) \<and> rid r = i"
  by (auto simp: find_remediation_def dest: find_Some_iff_in)

lemma find_remediation_None:
  "find_remediation i w = None \<longleftrightarrow> i \<notin> set (map rid (remediations w))"
  by (auto simp: find_remediation_def find_None_iff)

lemma find_remediation_unique:
  assumes "distinct (map rid (remediations w))" and "r \<in> set (remediations w)"
  shows "find_remediation (rid r) w = Some r"
proof (cases "find_remediation (rid r) w")
  case None
  with assms(2) show ?thesis by (auto simp: find_remediation_None)
next
  case (Some s)
  with find_remediation_Some [OF this] assms show ?thesis by (auto simp: distinct_map inj_on_def)
qed

text \<open>A filter's keys after an update that keeps the keys and does not enlarge the filter.\<close>

lemma distinct_filter_update_rows:
  assumes "distinct (map k (filter q rows))" and "\<And>r. k (f r) = k r"
    and "\<And>r. r \<in> set rows \<Longrightarrow> p r \<Longrightarrow> q (f r) \<Longrightarrow> q r"
  shows "distinct (map k (filter q (update_rows p f rows)))"
  using assms(1,3)
proof (induction rows)
  case Nil
  then show ?case by (simp add: update_rows_def)
next
  case (Cons r rows)
  have sub: "k ` set (filter q (update_rows p f rows)) \<subseteq> k ` set (filter q rows)"
    using assms(2) Cons.prems(2) by (fastforce simp: update_rows_def image_iff)
  from Cons show ?case
    using assms(2) sub by (auto simp: update_rows_def split: if_splits)
qed

text \<open>Saving columns that do not turn a finished attempt into an unfinished one always succeeds.\<close>

lemma save_fields_ok:
  assumes "i \<in> set (map rid (remediations w))"
    and "one_unfinished_attempt_per_document (remediations w)"
    and "\<And>r. document (f r) = document r"
    and "\<And>r. r \<in> set (remediations w) \<Longrightarrow> rid r = i \<Longrightarrow> unfinished (f r) \<Longrightarrow> unfinished r"
  shows "save_fields i f w = (Inr (), w\<lparr>remediations := update_rows (\<lambda>r. rid r = i) f (remediations w)\<rparr>)"
    and "one_unfinished_attempt_per_document (update_rows (\<lambda>r. rid r = i) f (remediations w))"
proof -
  show one: "one_unfinished_attempt_per_document (update_rows (\<lambda>r. rid r = i) f (remediations w))"
    using assms(2-4) unfolding one_unfinished_attempt_per_document_def
    by (intro distinct_filter_update_rows) auto
  show "save_fields i f w = (Inr (), w\<lparr>remediations := update_rows (\<lambda>r. rid r = i) f (remediations w)\<rparr>)"
    using one assms(1) by (simp add: save_fields_def)
qed

lemma find_remediation_update:
  assumes "\<And>r. rid (f r) = rid r"
  shows "find_remediation j (w\<lparr>remediations := update_rows (\<lambda>r. rid r = i) f (remediations w)\<rparr>) =
         (if i = j then map_option f (find_remediation j w) else find_remediation j w)"
proof -
  have "List.find (\<lambda>r. rid r = j) (update_rows (\<lambda>r. rid r = i) f rows) =
        (if i = j then map_option f (List.find (\<lambda>r. rid r = j) rows)
         else List.find (\<lambda>r. rid r = j) rows)" for rows
    using assms by (induction rows) (auto simp: update_rows_def)
  then show ?thesis by (simp add: find_remediation_def)
qed

lemma upsert_artifact_other [simp]:
  "remediations (upsert_artifact a w) = remediations w"
  "verification_results (upsert_artifact a w) = verification_results w"
  "scores (upsert_artifact a w) = scores w"
  "callbacks (upsert_artifact a w) = callbacks w"
  "pipeline_config (upsert_artifact a w) = pipeline_config w"
  "files (upsert_artifact a w) = files w"
  "queue (upsert_artifact a w) = queue w"
  "error_reports (upsert_artifact a w) = error_reports w"
  "ticks (upsert_artifact a w) = ticks w"
  "uuids (upsert_artifact a w) = uuids w"
  "next_pk (upsert_artifact a w) = next_pk w"
  by (simp_all add: upsert_artifact_def Let_def)

lemma upsert_artifact_unique:
  assumes "one_artifact_per_step (artifacts w)"
  shows "one_artifact_per_step (artifacts (upsert_artifact a w))"
  using assms
  by (auto simp: upsert_artifact_def one_artifact_per_step_def Let_def find_None_iff map_update_rows_same)

end
