(* ===== verification/Remediation_Service.thy ===== *)
theory Remediation_Service
  imports Remediation_Models
begin

text \<open>
  The class \<open>RemediationService\<close> of \<^verbatim>\<open>remediation/services.py\<close>: hashing and storing an upload,
  deduplication and versioned retry, the stuck-job claim, the submission count, the status
  transitions and callback registration.  Parameters stand for code outside the repository: the
  version library, the file storage, the clock and the identifier source.  Where other requests
  can commit while an operation waits, the operation takes their effect as an argument.
\<close>

section \<open>Parameters\<close>

record 'v version_api =
  ver_parse :: "string \<Rightarrow> 'v option"
  ver_zero :: 'v
  ver_less :: "'v \<Rightarrow> 'v \<Rightarrow> bool"

text \<open>Each storage call may raise, and may have changed the store when it does.\<close>

record storage_api =
  st_exists :: "storage \<Rightarrow> string \<Rightarrow> exn + bool"
  st_open :: "storage \<Rightarrow> string \<Rightarrow> exn + bytes"
  st_save :: "storage \<Rightarrow> string \<Rightarrow> bytes \<Rightarrow> (exn + string) \<times> storage"
  st_delete :: "storage \<Rightarrow> string \<Rightarrow> (exn + unit) \<times> storage"

record settings =
  PIPELINE_VERSION :: string
  STUCK_QUEUED_MINUTES :: int
  STUCK_RUNNING_MINUTES :: int
  RUN :: "Step \<Rightarrow> bool"
  LANGUAGE_CODE :: string
  PUBLIC_BASE_URL :: string
  MAX_WEBHOOK_ATTEMPTS :: int
  WEBHOOK_BACKOFF_BASE_SECONDS :: int

record env =
  clock :: "nat \<Rightarrow> time"
  uuid4 :: "nat \<Rightarrow> uuid"
  conf :: settings
  storage_of :: storage_api

record UploadedFile =
  up_name :: string
  up_chunks :: "bytes list"

section \<open>Versions\<close>

definition parse_version :: "'v version_api \<Rightarrow> string \<Rightarrow> 'v" where
  "parse_version ver value =
     (if value = '''' then ver_zero ver
      else case ver_parse ver value of Some v \<Rightarrow> v | None \<Rightarrow> ver_zero ver)"

definition retry_floor_version :: "world \<Rightarrow> string" where
  "retry_floor_version w = (case pipeline_config w of Some floor \<Rightarrow> floor | None \<Rightarrow> '''')"

definition should_retry :: "'v version_api \<Rightarrow> Remediation \<Rightarrow> bool \<Rightarrow> world \<Rightarrow> bool" where
  "should_retry ver existing force w =
     (if force then True
      else if status existing \<notin> {NONCOMPLIANT, ERROR} then False
      else let floor = retry_floor_version w
           in if floor = '''' then False
              else ver_less ver (parse_version ver (pipeline_version existing)) (parse_version ver floor))"

section \<open>Finding an attempt\<close>

definition hash_file :: "UploadedFile \<Rightarrow> string" where
  "hash_file f = sha256_hexdigest (foldl hasher_update [] (up_chunks f))"

definition get :: "uuid \<Rightarrow> world \<Rightarrow> exn + Remediation" where
  "get i w = (case find_remediation i w of
                None \<Rightarrow> Inl (DoesNotExist ''Remediation matching query does not exist.'')
              | Some r \<Rightarrow> Inr r)"

definition attempts_for :: "nat \<Rightarrow> string \<Rightarrow> Remediation list \<Rightarrow> Remediation list" where
  "attempts_for account h rows = filter (\<lambda>r. service_account r = account \<and> content_hash r = h) rows"

definition latest_for_document :: "nat \<Rightarrow> string \<Rightarrow> world \<Rightarrow> Remediation option" where
  "latest_for_document account h w = newest created_at (attempts_for account h (remediations w))"

definition reusable_attempt ::
    "'v version_api \<Rightarrow> nat \<Rightarrow> string \<Rightarrow> bool \<Rightarrow> world \<Rightarrow> Remediation option" where
  "reusable_attempt ver account h force w =
     (case latest_for_document account h w of
        None \<Rightarrow> None
      | Some existing \<Rightarrow>
          if status existing \<in> set UNFINISHED_STATUSES then Some existing
          else if should_retry ver existing force w then None else Some existing)"

section \<open>Creating an attempt\<close>

definition original_path_of :: "nat \<Rightarrow> string \<Rightarrow> string \<Rightarrow> string" where
  "original_path_of account h filename =
     ''remediations/'' @ str_nat account @ ''/'' @ h @ ''/'' @ filename"

definition store_original :: "env \<Rightarrow> nat \<Rightarrow> string \<Rightarrow> string \<Rightarrow> UploadedFile \<Rightarrow> world \<Rightarrow> string outcome" where
  "store_original e account h filename upload w =
     (let path = original_path_of account h filename; st = storage_of e
      in case st_exists st (files w) path of
           Inl x \<Rightarrow> (Inl x, w)
         | Inr True \<Rightarrow> (Inr path, w)
         | Inr False \<Rightarrow>
             (case st_save st (files w) path (concat (up_chunks upload)) of
                (Inl x, fs) \<Rightarrow> (Inl x, w\<lparr>files := fs\<rparr>)
              | (Inr _, fs) \<Rightarrow> (Inr path, w\<lparr>files := fs\<rparr>)))"

definition create :: "env \<Rightarrow> nat \<Rightarrow> string \<Rightarrow> string \<Rightarrow> string \<Rightarrow> world \<Rightarrow> Remediation outcome" where
  "create e account path h filename w =
     (let (t, w1) = now (clock e) w;
          r = \<lparr>rid = uuid4 e (uuids w1), service_account = account, status = QUEUED,
               source_pdf_uri = path, content_hash = h, original_filename = filename,
               error = '''', final_output_uri = '''',
               pipeline_version = PIPELINE_VERSION (conf e), created_at = t,
               last_enqueued_at = None, started_at = None, completed_at = None\<rparr>
      in case insert_remediation r (w1\<lparr>uuids := Suc (uuids w1)\<rparr>) of
           (Inl x, w2) \<Rightarrow> (Inl x, w2)
         | (Inr _, w2) \<Rightarrow> (Inr r, w2))"

definition create_or_reuse_unfinished ::
    "env \<Rightarrow> nat \<Rightarrow> string \<Rightarrow> string \<Rightarrow> string \<Rightarrow> world \<Rightarrow> (Remediation \<times> bool) outcome" where
  "create_or_reuse_unfinished e account h path filename w =
     (case create e account path h filename w of
        (Inr r, w1) \<Rightarrow> (Inr (r, True), w1)
      | (Inl (IntegrityError m), w1) \<Rightarrow>
          (case latest_for_document account h w1 of
             None \<Rightarrow> (Inl (IntegrityError m), w1)
           | Some current \<Rightarrow>
               if status current \<notin> set UNFINISHED_STATUSES then (Inl (IntegrityError m), w1)
               else (Inr (current, False), w1))
      | (Inl x, w1) \<Rightarrow> (Inl x, w1))"

text \<open>
  The whole submission.  \<open>before_create\<close> is the caller's hook (it may raise, and other requests
  may commit while it waits for its lock); \<open>others\<close> is what other requests commit while the upload
  is being stored.
\<close>

definition get_or_create_from_upload ::
    "env \<Rightarrow> 'v version_api \<Rightarrow> nat \<Rightarrow> UploadedFile \<Rightarrow> bool \<Rightarrow> (world \<Rightarrow> unit outcome) option
      \<Rightarrow> (world \<Rightarrow> world) \<Rightarrow> world \<Rightarrow> (Remediation \<times> bool) outcome" where
  "get_or_create_from_upload e ver account upload force before_create others w =
     (if up_name upload = '''' then (Inl (AssertionError ''uploaded_file.name must be set''), w)
      else
        let filename = up_name upload; h = hash_file upload;
            make = (\<lambda>w1. case store_original e account h filename upload w1 of
                           (Inl x, w2) \<Rightarrow> (Inl x, w2)
                         | (Inr path, w2) \<Rightarrow>
                             create_or_reuse_unfinished e account h path filename (others w2))
        in case reusable_attempt ver account h force w of
             Some r \<Rightarrow> (Inr (r, False), w)
           | None \<Rightarrow>
               (case before_create of
                  None \<Rightarrow> make w
                | Some hook \<Rightarrow>
                    (case hook w of
                       (Inl x, w1) \<Rightarrow> (Inl x, w1)
                     | (Inr _, w1) \<Rightarrow>
                         (case reusable_attempt ver account h force w1 of
                            Some r \<Rightarrow> (Inr (r, False), w1)
                          | None \<Rightarrow> make w1))))"

section \<open>Stuck attempts\<close>

definition is_stuck :: "env \<Rightarrow> Remediation \<Rightarrow> world \<Rightarrow> bool \<times> world" where
  "is_stuck e r w =
     (let judge = (\<lambda>mins last_progress.
            let progress = (case last_enqueued_at r of
                              None \<Rightarrow> last_progress
                            | Some t \<Rightarrow> max last_progress t);
                (t, w1) = now (clock e) w
            in (t - progress > minutes mins, w1))
      in case status r of
           QUEUED \<Rightarrow> judge (STUCK_QUEUED_MINUTES (conf e)) (created_at r)
         | RUNNING \<Rightarrow> judge (STUCK_RUNNING_MINUTES (conf e))
                        (case started_at r of Some t \<Rightarrow> t | None \<Rightarrow> created_at r)
         | _ \<Rightarrow> (False, w))"

text \<open>
  The claim takes the attempt as the caller read it (\<open>r\<close>), which may be older than its row.
\<close>

definition claim_enqueue :: "env \<Rightarrow> Remediation \<Rightarrow> bool \<Rightarrow> world \<Rightarrow> (bool \<times> Remediation) \<times> world" where
  "claim_enqueue e r created w =
     (if created then ((True, r), w)
      else case is_stuck e r w of
             (False, w1) \<Rightarrow> ((False, r), w1)
           | (True, w1) \<Rightarrow>
               (let (t, w2) = now (clock e) w1;
                    hit = (\<lambda>row. rid row = rid r \<and> status row \<in> set UNFINISHED_STATUSES
                                 \<and> last_enqueued_at row = last_enqueued_at r);
                    claimed = filter hit (remediations w2);
                    w3 = w2\<lparr>remediations :=
                            update_rows hit (\<lambda>row. row\<lparr>last_enqueued_at := Some t\<rparr>) (remediations w2)\<rparr>
                in if claimed = [] then ((False, r), w3)
                   else ((True, r\<lparr>last_enqueued_at := Some t\<rparr>), w3)))"

section \<open>Counting submissions\<close>

record SubmissionUsage =
  us_count :: nat
  us_oldest :: "time option"

fun oldest_of :: "time list \<Rightarrow> time option" where
  "oldest_of [] = None"
| "oldest_of (t # ts) = (case oldest_of ts of None \<Rightarrow> Some t | Some s \<Rightarrow> Some (min t s))"

definition submissions_since :: "nat \<Rightarrow> time \<Rightarrow> Remediation list \<Rightarrow> Remediation list" where
  "submissions_since account since rows =
     filter (\<lambda>r. service_account r = account \<and> since \<le> created_at r) rows"

definition recent_submissions :: "env \<Rightarrow> nat \<Rightarrow> int \<Rightarrow> world \<Rightarrow> SubmissionUsage \<times> world" where
  "recent_submissions e account window_seconds w =
     (let (t, w1) = now (clock e) w;
          rows = submissions_since account (t - seconds window_seconds) (remediations w1)
      in (\<lparr>us_count = length rows, us_oldest = oldest_of (map created_at rows)\<rparr>, w1))"

section \<open>Status transitions\<close>

text \<open>Each transition changes the instance and saves the same columns to its row.\<close>

definition mark_running :: "env \<Rightarrow> Remediation \<Rightarrow> world \<Rightarrow> Remediation outcome" where
  "mark_running e r w =
     (let (t, w1) = now (clock e) w;
          f = (\<lambda>x. x\<lparr>status := RUNNING, started_at := Some t\<rparr>)
      in case save_fields (rid r) f w1 of
           (Inl x, w2) \<Rightarrow> (Inl x, w2)
         | (Inr _, w2) \<Rightarrow> (Inr (f r), w2))"

definition mark_finished ::
    "env \<Rightarrow> Remediation \<Rightarrow> JobStatus \<Rightarrow> string \<Rightarrow> string option \<Rightarrow> world \<Rightarrow> Remediation outcome" where
  "mark_finished e r st uri err w =
     (let (t, w1) = now (clock e) w;
          f = (\<lambda>x. let y = x\<lparr>status := st, completed_at := Some t, final_output_uri := uri\<rparr>
                    in case err of None \<Rightarrow> y | Some m \<Rightarrow> y\<lparr>error := m\<rparr>)
      in case save_fields (rid r) f w1 of
           (Inl x, w2) \<Rightarrow> (Inl x, w2)
         | (Inr _, w2) \<Rightarrow> (Inr (f r), w2))"

definition mark_compliant :: "env \<Rightarrow> Remediation \<Rightarrow> string \<Rightarrow> world \<Rightarrow> Remediation outcome" where
  "mark_compliant e r uri w = mark_finished e r COMPLIANT uri None w"

definition mark_skipped_job :: "env \<Rightarrow> Remediation \<Rightarrow> string \<Rightarrow> world \<Rightarrow> Remediation outcome" where
  "mark_skipped_job e r uri w = mark_finished e r SKIPPED uri None w"

definition mark_noncompliant :: "env \<Rightarrow> Remediation \<Rightarrow> string \<Rightarrow> string \<Rightarrow> world \<Rightarrow> Remediation outcome" where
  "mark_noncompliant e r err uri w = mark_finished e r NONCOMPLIANT uri (Some err) w"

definition mark_error :: "env \<Rightarrow> Remediation \<Rightarrow> string \<Rightarrow> string \<Rightarrow> world \<Rightarrow> Remediation outcome" where
  "mark_error e r err uri w = mark_finished e r ERROR uri (Some err) w"

section \<open>Callbacks\<close>

definition register_callback ::
    "env \<Rightarrow> Remediation \<Rightarrow> string \<Rightarrow> world \<Rightarrow> (RemediationCallback \<times> bool) \<times> world" where
  "register_callback e r url w =
     (case List.find (\<lambda>c. cb_remediation c = rid r \<and> callback_url c = url) (callbacks w) of
        Some c \<Rightarrow> ((c, False), w)
      | None \<Rightarrow>
          (let (t, w1) = now (clock e) w;
               c = \<lparr>cb_pk = next_pk w1, cb_remediation = rid r, callback_url = url, cb_created_at = t\<rparr>
           in ((c, True), w1\<lparr>callbacks := callbacks w1 @ [c], next_pk := Suc (next_pk w1)\<rparr>)))"

section \<open>Lemmas: finding and reusing\<close>

lemma now_simps [simp]:
  "fst (now c w) = c (ticks w)"
  "snd (now c w) = w\<lparr>ticks := Suc (ticks w)\<rparr>"
  by (simp_all add: now_def)

lemma attempts_for_iff [table_simps]:
  "r \<in> set (attempts_for account h rows) \<longleftrightarrow> r \<in> set rows \<and> document r = (account, h)"
  by (auto simp: attempts_for_def document_def)

lemma latest_for_document_Some:
  assumes "latest_for_document account h w = Some r"
  shows "r \<in> set (remediations w)" and "document r = (account, h)"
    and "\<And>s. s \<in> set (remediations w) \<Longrightarrow> document s = (account, h) \<Longrightarrow> created_at s \<le> created_at r"
  using newest_Some [OF assms [unfolded latest_for_document_def]] by (auto simp: table_simps)

lemma latest_for_document_None:
  "latest_for_document account h w = None \<longleftrightarrow>
   (\<forall>r \<in> set (remediations w). document r \<noteq> (account, h))"
  by (auto simp: latest_for_document_def attempts_for_def document_def filter_empty_conv)

lemma reusable_attempt_Some:
  assumes "reusable_attempt ver account h force w = Some r"
  shows "latest_for_document account h w = Some r"
    and "unfinished r \<or> \<not> should_retry ver r force w"
  using assms
  by (auto simp: reusable_attempt_def unfinished_def split: option.splits if_splits)

lemma reusable_attempt_unfinished:
  "latest_for_document account h w = Some r \<Longrightarrow> unfinished r \<Longrightarrow>
   reusable_attempt ver account h force w = Some r"
  by (simp add: reusable_attempt_def unfinished_def)

lemma should_retry_iff:
  "should_retry ver r force w \<longleftrightarrow>
   force \<or> status r \<in> {NONCOMPLIANT, ERROR} \<and> retry_floor_version w \<noteq> '''' \<and>
     ver_less ver (parse_version ver (pipeline_version r)) (parse_version ver (retry_floor_version w))"
  by (auto simp: should_retry_def Let_def)

section \<open>Lemmas: creating\<close>

lemma now_tables_ok [simp]: "tables_ok (w\<lparr>ticks := n\<rparr>) = tables_ok w"
  "tables_ok (w\<lparr>uuids := m\<rparr>) = tables_ok w" "tables_ok (w\<lparr>files := fs\<rparr>) = tables_ok w"
  "tables_ok (w\<lparr>queue := q\<rparr>) = tables_ok w" "tables_ok (w\<lparr>error_reports := x\<rparr>) = tables_ok w"
  by (simp_all add: tables_ok_def)

lemma insert_remediation_ok:
  "tables_ok w \<Longrightarrow> tables_ok (snd (insert_remediation r w))"
  by (auto simp: insert_remediation_def tables_ok_def one_unfinished_attempt_per_document_def)

lemma insert_remediation_Inr:
  assumes "insert_remediation r w = (Inr u, w')"
  shows "w' = w\<lparr>remediations := remediations w @ [r]\<rparr>" and "rid r \<notin> set (map rid (remediations w))"
    and "unfinished r \<Longrightarrow> document r \<notin> set (map document (filter unfinished (remediations w)))"
  using assms by (auto simp: insert_remediation_def split: if_splits)

lemma insert_remediation_Inl:
  assumes "insert_remediation r w = (Inl x, w')"
  shows "w' = w"
    and "x = IntegrityError ''remediation_pkey'' \<and> rid r \<in> set (map rid (remediations w)) \<or>
         x = IntegrityError ''one_unfinished_attempt_per_document'' \<and>
         document r \<in> set (map document (filter unfinished (remediations w)))"
  using assms by (auto simp: insert_remediation_def split: if_splits)

text \<open>The row \<open>create\<close> makes.\<close>

definition new_attempt :: "env \<Rightarrow> nat \<Rightarrow> string \<Rightarrow> string \<Rightarrow> string \<Rightarrow> world \<Rightarrow> Remediation" where
  "new_attempt e account path h filename w =
     \<lparr>rid = uuid4 e (uuids w), service_account = account, status = QUEUED, source_pdf_uri = path,
      content_hash = h, original_filename = filename, error = '''', final_output_uri = '''',
      pipeline_version = PIPELINE_VERSION (conf e), created_at = clock e (ticks w),
      last_enqueued_at = None, started_at = None, completed_at = None\<rparr>"

lemma new_attempt_simps [simp]:
  "unfinished (new_attempt e account path h filename w)"
  "document (new_attempt e account path h filename w) = (account, h)"
  "created_at (new_attempt e account path h filename w) = clock e (ticks w)"
  "status (new_attempt e account path h filename w) = QUEUED"
  "source_pdf_uri (new_attempt e account path h filename w) = path"
  "rid (new_attempt e account path h filename w) = uuid4 e (uuids w)"
  by (simp_all add: new_attempt_def unfinished_def document_def UNFINISHED_STATUSES_def)

lemma create_eq:
  "create e account path h filename w =
   (let r = new_attempt e account path h filename w
    in case insert_remediation r (w\<lparr>ticks := Suc (ticks w), uuids := Suc (uuids w)\<rparr>) of
         (Inl x, w2) \<Rightarrow> (Inl x, w2) | (Inr _, w2) \<Rightarrow> (Inr r, w2))"
  by (simp add: create_def now_def new_attempt_def)

lemma create_Inr:
  assumes "create e account path h filename w = (Inr r, w')"
  shows "r = new_attempt e account path h filename w"
    and "w' = w\<lparr>ticks := Suc (ticks w), uuids := Suc (uuids w), remediations := remediations w @ [r]\<rparr>"
    and "(account, h) \<notin> set (map document (filter unfinished (remediations w)))"
    and "rid r \<notin> set (map rid (remediations w))"
proof -
  let ?r = "new_attempt e account path h filename w"
  let ?w = "w\<lparr>ticks := Suc (ticks w), uuids := Suc (uuids w)\<rparr>"
  obtain u w2 where ins: "insert_remediation ?r ?w = (Inr u, w2)" and r: "r = ?r" and w': "w' = w2"
    using assms by (auto simp: create_eq Let_def split: prod.splits sum.splits)
  show "r = ?r" by (rule r)
  show "w' = w\<lparr>ticks := Suc (ticks w), uuids := Suc (uuids w), remediations := remediations w @ [r]\<rparr>"
    using insert_remediation_Inr(1) [OF ins] r w' by simp
  show "(account, h) \<notin> set (map document (filter unfinished (remediations w)))"
    using insert_remediation_Inr(3) [OF ins] by simp
  show "rid r \<notin> set (map rid (remediations w))"
    using insert_remediation_Inr(2) [OF ins] r by simp
qed

lemma create_Inl:
  assumes "create e account path h filename w = (Inl x, w')"
  shows "remediations w' = remediations w" and "files w' = files w"
    and "\<exists>m. x = IntegrityError m"
    and "uuid4 e (uuids w) \<notin> set (map rid (remediations w)) \<Longrightarrow>
         (account, h) \<in> set (map document (filter unfinished (remediations w)))"
proof -
  let ?r = "new_attempt e account path h filename w"
  let ?w = "w\<lparr>ticks := Suc (ticks w), uuids := Suc (uuids w)\<rparr>"
  have ins: "insert_remediation ?r ?w = (Inl x, w')"
    using assms by (auto simp: create_eq Let_def split: prod.splits sum.splits)
  note facts = insert_remediation_Inl [OF ins]
  show "remediations w' = remediations w" "files w' = files w" using facts(1) by simp_all
  show "\<exists>m. x = IntegrityError m" using facts(2) by auto
  show "(account, h) \<in> set (map document (filter unfinished (remediations w)))"
    if "uuid4 e (uuids w) \<notin> set (map rid (remediations w))"
    using facts(2) that by auto
qed

lemma create_tables_ok: "tables_ok w \<Longrightarrow> tables_ok (snd (create e account path h filename w))"
  using insert_remediation_ok [of "w\<lparr>ticks := Suc (ticks w), uuids := Suc (uuids w)\<rparr>"
      "new_attempt e account path h filename w"]
  by (auto simp: create_eq Let_def split: prod.splits sum.splits)

lemma create_or_reuse_unfinished_cases:
  assumes "create_or_reuse_unfinished e account h path filename w = (res, w')"
  obtains (made) r where "res = Inr (r, True)" "create e account path h filename w = (Inr r, w')"
  | (reused) r x where "res = Inr (r, False)" "create e account path h filename w = (Inl x, w')"
      "latest_for_document account h w' = Some r" "unfinished r"
  | (refused) m where "res = Inl (IntegrityError m)"
      "create e account path h filename w = (Inl (IntegrityError m), w')"
      "\<And>r. latest_for_document account h w' = Some r \<Longrightarrow> \<not> unfinished r"
proof (cases "create e account path h filename w")
  case (Pair a w1)
  show ?thesis
  proof (cases a)
    case (Inr r)
    with Pair assms show ?thesis by (intro made [of r]) (auto simp: create_or_reuse_unfinished_def)
  next
    case (Inl x)
    with Pair obtain m where x: "x = IntegrityError m" using create_Inl(3) by blast
    with Pair Inl assms show ?thesis
      by (cases "latest_for_document account h w1")
        (auto simp: create_or_reuse_unfinished_def unfinished_def split: if_splits intro: refused reused)
  qed
qed

lemma store_original_tables:
  assumes "store_original e account h filename upload w = (res, w')"
  shows "remediations w' = remediations w" and "tables_ok w' = tables_ok w"
    and "ticks w' = ticks w" and "uuids w' = uuids w" and "pipeline_config w' = pipeline_config w"
  using assms
  by (auto simp: store_original_def Let_def split: sum.splits bool.splits prod.splits)

lemma store_original_Inr:
  "store_original e account h filename upload w = (Inr path, w') \<Longrightarrow>
   path = original_path_of account h filename"
  by (auto simp: store_original_def Let_def split: sum.splits bool.splits prod.splits)

text \<open>The five ways a submission can end.\<close>

lemma get_or_create_cases:
  assumes "get_or_create_from_upload e ver account f force hook others w = (res, w')"
  obtains (unnamed) m where "up_name f = ''''" "res = Inl (AssertionError m)" "w' = w"
  | (reused) r where "res = Inr (r, False)" "w' = w"
      "reusable_attempt ver account (hash_file f) force w = Some r"
  | (denied) g x where "hook = Some g" "g w = (Inl x, w')" "res = Inl x"
      "reusable_attempt ver account (hash_file f) force w = None"
  | (reused_late) g r where "hook = Some g" "g w = (Inr (), w')" "res = Inr (r, False)"
      "reusable_attempt ver account (hash_file f) force w' = Some r"
  | (made) w1 x w2 where "hook = None \<and> w1 = w \<or> (\<exists>g. hook = Some g \<and> g w = (Inr (), w1))"
      "reusable_attempt ver account (hash_file f) force w1 = None"
      "store_original e account (hash_file f) (up_name f) f w1 = (x, w2)"
      "case x of Inl y \<Rightarrow> res = Inl y \<and> w' = w2
       | Inr path \<Rightarrow> create_or_reuse_unfinished e account (hash_file f) path (up_name f) (others w2) = (res, w')"
proof (cases "up_name f = ''''")
  case True
  with assms unnamed show ?thesis by (auto simp: get_or_create_from_upload_def)
next
  case named: False
  let ?h = "hash_file f"
  let ?make = "\<lambda>w1. case store_original e account ?h (up_name f) f w1 of
                (Inl x, w2) \<Rightarrow> (Inl x, w2)
              | (Inr path, w2) \<Rightarrow> create_or_reuse_unfinished e account ?h path (up_name f) (others w2)"
  have make: thesis
    if "?make w1 = (res, w')" "hook = None \<and> w1 = w \<or> (\<exists>g. hook = Some g \<and> g w = (Inr (), w1))"
      "reusable_attempt ver account ?h force w1 = None" for w1
    using that by (cases "store_original e account ?h (up_name f) f w1")
      (auto intro!: made [of w1] split: sum.splits)
  show ?thesis
  proof (cases "reusable_attempt ver account ?h force w")
    case (Some r)
    with assms named reused show ?thesis by (auto simp: get_or_create_from_upload_def Let_def)
  next
    case none: None
    show ?thesis
    proof (cases hook)
      case None
      with assms named none make [of w] show ?thesis
        by (auto simp: get_or_create_from_upload_def Let_def)
    next
      case (Some g)
      show ?thesis
      proof (cases "g w")
        case (Pair y w1)
        show ?thesis
        proof (cases y)
          case (Inl x)
          with assms named none Some Pair denied show ?thesis
            by (auto simp: get_or_create_from_upload_def Let_def)
        next
          case (Inr u)
          with assms named none Some Pair show ?thesis
            using make [of w1] reused_late
            by (cases "reusable_attempt ver account ?h force w1")
              (auto simp: get_or_create_from_upload_def Let_def)
        qed
      qed
    qed
  qed
qed

section \<open>Lemmas: every operation keeps the constraints\<close>

lemma save_fields_tables_ok:
  assumes "tables_ok w" and "\<And>r. rid (f r) = rid r"
  shows "tables_ok (snd (save_fields i f w))"
  using assms by (auto simp: save_fields_def Let_def tables_ok_def map_update_rows_same)

lemma mark_running_tables_ok: "tables_ok w \<Longrightarrow> tables_ok (snd (mark_running e r w))"
  using save_fields_tables_ok [of "snd (now (clock e) w)"
      "\<lambda>x. x\<lparr>status := RUNNING, started_at := Some (clock e (ticks w))\<rparr>" "rid r"]
  by (auto simp: mark_running_def now_def Let_def split: prod.splits sum.splits)

text \<open>What \<open>mark_finished\<close> writes to an instance and to its row.\<close>

definition finish_row :: "JobStatus \<Rightarrow> string \<Rightarrow> string option \<Rightarrow> time \<Rightarrow> Remediation \<Rightarrow> Remediation" where
  "finish_row st uri err t x =
     (let y = x\<lparr>status := st, completed_at := Some t, final_output_uri := uri\<rparr>
      in case err of None \<Rightarrow> y | Some m \<Rightarrow> y\<lparr>error := m\<rparr>)"

lemma finish_row_simps [simp]:
  "rid (finish_row st uri err t x) = rid x" "status (finish_row st uri err t x) = st"
  "document (finish_row st uri err t x) = document x"
  "created_at (finish_row st uri err t x) = created_at x"
  "completed_at (finish_row st uri err t x) = Some t"
  "final_output_uri (finish_row st uri err t x) = uri"
  "source_pdf_uri (finish_row st uri err t x) = source_pdf_uri x"
  "error (finish_row st uri (Some m) t x) = m"
  "error (finish_row st uri None t x) = error x"
  by (simp_all add: finish_row_def Let_def document_def split: option.splits)

lemma mark_finished_eq:
  "mark_finished e r st uri err w =
   (case save_fields (rid r) (finish_row st uri err (clock e (ticks w))) (w\<lparr>ticks := Suc (ticks w)\<rparr>) of
      (Inl x, w2) \<Rightarrow> (Inl x, w2)
    | (Inr _, w2) \<Rightarrow> (Inr (finish_row st uri err (clock e (ticks w)) r), w2))"
  by (simp add: mark_finished_def now_def Let_def finish_row_def [abs_def] split: prod.split sum.split)

lemma mark_finished_tables_ok: "tables_ok w \<Longrightarrow> tables_ok (snd (mark_finished e r st uri err w))"
  using save_fields_tables_ok [of "w\<lparr>ticks := Suc (ticks w)\<rparr>"
      "finish_row st uri err (clock e (ticks w))" "rid r"]
  by (auto simp: mark_finished_eq split: prod.splits sum.splits)

text \<open>Finishing an attempt whose row exists always succeeds.\<close>

lemma mark_finished_ok:
  assumes "tables_ok w" and "find_remediation (rid r) w = Some x" and "st \<in> set FINISHED_STATUSES"
  shows "mark_finished e r st uri err w =
     (Inr (finish_row st uri err (clock e (ticks w)) r),
      w\<lparr>ticks := Suc (ticks w),
        remediations := update_rows (\<lambda>y. rid y = rid r) (finish_row st uri err (clock e (ticks w)))
                          (remediations w)\<rparr>)"
proof -
  let ?w = "w\<lparr>ticks := Suc (ticks w)\<rparr>"
  have "\<not> unfinished (finish_row st uri err (clock e (ticks w)) y)" for y
    using assms(3)
    by (auto simp: unfinished_def UNFINISHED_STATUSES_def FINISHED_STATUSES_def)
  moreover have "rid r \<in> set (map rid (remediations w))"
    using assms(2) find_remediation_None [of "rid r" w] by auto
  ultimately have "save_fields (rid r) (finish_row st uri err (clock e (ticks w))) ?w =
      (Inr (), ?w\<lparr>remediations := update_rows (\<lambda>y. rid y = rid r)
                     (finish_row st uri err (clock e (ticks w))) (remediations ?w)\<rparr>)"
    using assms(1) by (intro save_fields_ok(1)) (auto simp: tables_ok_def)
  then show ?thesis by (simp add: mark_finished_eq)
qed

lemma is_stuck_world:
  "is_stuck e r w = (b, w') \<Longrightarrow> w' = w \<or> w' = w\<lparr>ticks := Suc (ticks w)\<rparr>"
  by (auto simp: is_stuck_def now_def Let_def split: JobStatus.splits)

lemma set_enqueued_tables_ok:
  assumes "tables_ok w"
  shows "tables_ok (w\<lparr>ticks := n,
           remediations := update_rows p (\<lambda>row. row\<lparr>last_enqueued_at := t\<rparr>) (remediations w)\<rparr>)"
proof -
  have "one_unfinished_attempt_per_document
          (update_rows p (\<lambda>row. row\<lparr>last_enqueued_at := t\<rparr>) (remediations w))"
    using assms unfolding one_unfinished_attempt_per_document_def tables_ok_def
    by (intro distinct_filter_update_rows) (auto simp: document_def unfinished_def)
  with assms show ?thesis by (simp add: tables_ok_def map_update_rows_same)
qed

lemma claim_enqueue_tables_ok:
  assumes "tables_ok w"
  shows "tables_ok (snd (claim_enqueue e r created w))"
proof (cases "is_stuck e r w")
  case (Pair b w1)
  from is_stuck_world [OF this] assms have "tables_ok w1" by auto
  with assms Pair show ?thesis
    by (auto simp: claim_enqueue_def now_def Let_def set_enqueued_tables_ok split: bool.splits)
qed

lemma register_callback_tables_ok: "tables_ok w \<Longrightarrow> tables_ok (snd (register_callback e r url w))"
  by (fastforce simp: register_callback_def now_def Let_def tables_ok_def
      one_callback_per_url_per_remediation_def find_None_iff split: option.splits)

lemma create_or_reuse_tables_ok:
  assumes "tables_ok w"
  shows "tables_ok (snd (create_or_reuse_unfinished e account h path filename w))"
proof (cases "create_or_reuse_unfinished e account h path filename w")
  case (Pair res w')
  then have "w' = snd (create e account path h filename w)"
    by (rule create_or_reuse_unfinished_cases) auto
  with Pair create_tables_ok [OF assms] show ?thesis by simp
qed

lemma get_or_create_tables_ok:
  assumes "tables_ok w" and "\<And>g. hook = Some g \<Longrightarrow> tables_ok (snd (g w))"
    and "\<And>v. tables_ok v \<Longrightarrow> tables_ok (others v)"
  shows "tables_ok (snd (get_or_create_from_upload e ver account f force hook others w))"
proof (cases "get_or_create_from_upload e ver account f force hook others w")
  case (Pair res w')
  then have "tables_ok w'"
  proof (cases rule: get_or_create_cases)
    case (made w1 x w2)
    then have "tables_ok w1" using assms(1,2) by auto
    then have "tables_ok (others w2)" using store_original_tables(2) [OF made(3)] assms(3) by blast
    with made(4) store_original_tables(2) [OF made(3)] \<open>tables_ok w1\<close> show ?thesis
      using create_or_reuse_tables_ok [of "others w2" e account "hash_file f"]
      by (auto split: sum.splits) (metis snd_conv)
  qed (use assms in \<open>force+\<close>)
  with Pair show ?thesis by simp
qed

end
