(* ===== verification/Service_Theorems.thy ===== *)
theory Service_Theorems
  imports Remediation_Service
begin

text \<open>
  What \<open>RemediationService\<close> promises: every run of its operations keeps the table constraints; a
  submission reuses, retries or creates exactly as the decision rules say and only ever answers
  with an attempt of the caller's own document; a stuck attempt is claimed by one caller.
\<close>

section \<open>Runs of the service\<close>

text \<open>
  The operations other components call, each with the instance its caller holds.  A submission
  carries the limit hook's verdict.
\<close>

datatype service_op =
    Submit nat UploadedFile bool "exn option"
  | Claim Remediation bool
  | MarkRunning Remediation
  | MarkFinished Remediation JobStatus string "string option"
  | Register Remediation string

fun service_step :: "env \<Rightarrow> 'v version_api \<Rightarrow> service_op \<Rightarrow> world \<Rightarrow> world" where
  "service_step e ver (Submit account f force verdict) w =
     snd (get_or_create_from_upload e ver account f force
            (Some (\<lambda>v. (case verdict of None \<Rightarrow> Inr () | Some x \<Rightarrow> Inl x, v))) (\<lambda>v. v) w)"
| "service_step e ver (Claim r created) w = snd (claim_enqueue e r created w)"
| "service_step e ver (MarkRunning r) w = snd (mark_running e r w)"
| "service_step e ver (MarkFinished r st uri err) w = snd (mark_finished e r st uri err w)"
| "service_step e ver (Register r url) w = snd (register_callback e r url w)"

lemma service_step_tables_ok: "tables_ok w \<Longrightarrow> tables_ok (service_step e ver op w)"
  by (cases op)
    (auto intro: get_or_create_tables_ok claim_enqueue_tables_ok mark_running_tables_ok
      mark_finished_tables_ok register_callback_tables_ok)

interpretation service: invariant_system "service_step e ver" tables_ok for e ver
  by unfold_locales (rule service_step_tables_ok)


definition empty_world :: world where
  "empty_world = \<lparr>remediations = [], artifacts = [], verification_results = [], scores = [],
     callbacks = [], pipeline_config = None, files = Map.empty, queue = [], error_reports = [],
     ticks = 0, uuids = 0, next_pk = 0\<rparr>"

lemma empty_world_tables_ok [simp]: "tables_ok empty_world"
  by (simp add: empty_world_def tables_ok_def one_unfinished_attempt_per_document_def
      one_artifact_per_step_def one_verification_result_per_step_def one_score_per_remediation_def
      one_callback_per_url_per_remediation_def)

text \<open>
  Concrete parameters for the witnesses: a clock that ticks once a second, numbered identifiers,
  the settings' defaults, a storage that keeps files in memory and dotted numbers as versions.
\<close>

definition mem_storage :: storage_api where
  "mem_storage = \<lparr>
     st_exists = (\<lambda>fs k. Inr (fs k \<noteq> None)),
     st_open = (\<lambda>fs k. case fs k of None \<Rightarrow> Inl (OtherException ''not found'') | Some b \<Rightarrow> Inr b),
     st_save = (\<lambda>fs k b. (Inr k, fs(k \<mapsto> b))),
     st_delete = (\<lambda>fs k. (Inr (), fs(k := None)))\<rparr>"

definition demo_settings :: settings where
  "demo_settings = \<lparr>PIPELINE_VERSION = ''1.4.0'', STUCK_QUEUED_MINUTES = 60, STUCK_RUNNING_MINUTES = 180,
     RUN = (\<lambda>_. True), LANGUAGE_CODE = ''en-us'', PUBLIC_BASE_URL = ''http://localhost:8000'',
     MAX_WEBHOOK_ATTEMPTS = 5, WEBHOOK_BACKOFF_BASE_SECONDS = 30\<rparr>"

definition demo_env :: env where
  "demo_env = \<lparr>clock = (\<lambda>n. seconds (int n)), uuid4 = (\<lambda>n. CHR ''u'' # str_nat n),
     conf = demo_settings, storage_of = mem_storage\<rparr>"

definition demo_ver :: "nat version_api" where
  "demo_ver = \<lparr>ver_parse = (\<lambda>s. if s = ''2.0.0'' then Some 2 else if s = ''1.0.0'' then Some 1 else None),
     ver_zero = 0, ver_less = (\<lambda>a b. a < b)\<rparr>"

definition demo_upload :: UploadedFile where
  "demo_upload = \<lparr>up_name = ''a.pdf'', up_chunks = [[1, 2], [3]]\<rparr>"


section \<open>Submitting\<close>

text \<open>A document whose newest attempt is still queued or running gets that attempt back,
  unchanged: no new row, no file, no call of the limit hook, even when the caller forces.\<close>

theorem unfinished_attempt_is_reused:
  assumes "up_name f \<noteq> ''''" and "latest_for_document account (hash_file f) w = Some r"
    and "unfinished r"
  shows "get_or_create_from_upload e ver account f force hook others w = (Inr (r, False), w)"
  using assms reusable_attempt_unfinished [OF assms(2,3), of ver force]
  by (simp add: get_or_create_from_upload_def Let_def)

text \<open>A small world for the witnesses: one queued attempt of account 7.\<close>

definition demo_attempt :: "string \<Rightarrow> Remediation" where
  "demo_attempt h =
     \<lparr>rid = ''r1'', service_account = 7, status = QUEUED, source_pdf_uri = ''a.pdf'', content_hash = h,
      original_filename = ''a.pdf'', error = '''', final_output_uri = '''', pipeline_version = ''1.0.0'',
      created_at = 0, last_enqueued_at = None, started_at = None, completed_at = None\<rparr>"

definition demo_world :: world where
  "demo_world = empty_world\<lparr>remediations := [demo_attempt (hash_file demo_upload)]\<rparr>"

lemma demo_latest:
  "latest_for_document 7 (hash_file demo_upload) demo_world = Some (demo_attempt (hash_file demo_upload))"
  by (simp add: latest_for_document_def attempts_for_def demo_world_def demo_attempt_def)

lemma demo_unfinished: "unfinished (demo_attempt h)"
  by (simp add: unfinished_def demo_attempt_def UNFINISHED_STATUSES_def)

theorem unfinished_attempt_is_reused_witness:
  "get_or_create_from_upload demo_env demo_ver 7 demo_upload True
     (Some (\<lambda>w. (Inl (OtherException ''over the limit''), w))) (\<lambda>w. w) demo_world
   = (Inr (demo_attempt (hash_file demo_upload), False), demo_world)"
proof (rule unfinished_attempt_is_reused)
  show "up_name demo_upload \<noteq> ''''" by (simp add: demo_upload_def)
qed (rule demo_latest demo_unfinished)+

lemma submission_answer:
  assumes "get_or_create_from_upload e ver account f force hook others w = (Inr (r, created), w')"
  shows "document r = (account, hash_file f) \<and> r \<in> set (remediations w')"
proof -
  have own: "document r = (account, hash_file f) \<and> r \<in> set (remediations v)"
    if "latest_for_document account (hash_file f) v = Some r" for v
    using latest_for_document_Some [OF that] by simp
  show ?thesis
    using assms
  proof (cases rule: get_or_create_cases)
    case (made w1 x w2)
    then obtain path where
      c: "create_or_reuse_unfinished e account (hash_file f) path (up_name f) (others w2)
          = (Inr (r, created), w')"
      by (auto split: sum.splits)
    then show ?thesis
    proof (cases rule: create_or_reuse_unfinished_cases)
      case (made r')
      with create_Inr [OF made(2)] show ?thesis by simp
    next
      case (reused r' x')
      with own show ?thesis by simp
    qed simp
  qed (use own in \<open>auto dest: reusable_attempt_Some(1)\<close>)
qed

text \<open>A submission only ever answers with an attempt that belongs to the submitting account
  and to the uploaded content, and that is in the table.\<close>

theorem submission_answers_own_document:
  assumes "get_or_create_from_upload e ver account f force hook others w = (Inr (r, created), w')"
  shows "document r = (account, hash_file f) \<and> r \<in> set (remediations w')"
  using assms by (rule submission_answer)

text \<open>The first submission of a document, step by step.\<close>

lemma first_submission:
  "\<exists>r w'. get_or_create_from_upload demo_env demo_ver 7 demo_upload False None (\<lambda>w. w) empty_world
          = (Inr (r, True), w')"
  by (simp add: get_or_create_from_upload_def demo_upload_def reusable_attempt_def latest_for_document_def
      attempts_for_def empty_world_def store_original_def demo_env_def mem_storage_def
      create_or_reuse_unfinished_def create_eq insert_remediation_def Let_def)

theorem submission_answers_own_document_witness:
  "\<exists>r w'. get_or_create_from_upload demo_env demo_ver 7 demo_upload False None (\<lambda>w. w) empty_world
            = (Inr (r, True), w') \<and> document r = (7, hash_file demo_upload)"
  using first_submission submission_answers_own_document by blast

text \<open>A submission that makes an attempt adds exactly one row to the table as it then stands:
  a queued attempt of this document at the deterministic path of its original, and only when the
  document had no unfinished attempt and the hook (if there is one) let it through.\<close>

theorem created_attempt_is_new_and_queued:
  assumes "get_or_create_from_upload e ver account f force hook others w = (Inr (r, True), w')"
  shows "(\<exists>w1 :: world. remediations w' = remediations w1 @ [r] \<and>
              (account, hash_file f) \<notin> set (map document (filter unfinished (remediations w1))) \<and>
              rid r \<notin> set (map rid (remediations w1))) \<and>
         status r = QUEUED \<and> pipeline_version r = PIPELINE_VERSION (conf e) \<and>
         source_pdf_uri r = original_path_of account (hash_file f) (up_name f) \<and>
         (\<forall>g. hook = Some g \<longrightarrow> fst (g w) = Inr ())"
proof -
  obtain w1 path w2 where via: "hook = None \<and> w1 = w \<or> (\<exists>g. hook = Some g \<and> g w = (Inr (), w1))"
    and st: "store_original e account (hash_file f) (up_name f) f w1 = (Inr path, w2)"
    and c: "create_or_reuse_unfinished e account (hash_file f) path (up_name f) (others w2)
        = (Inr (r, True), w')"
    using assms by (cases rule: get_or_create_cases) (auto split: sum.splits)
  from c have made: "create e account path (hash_file f) (up_name f) (others w2) = (Inr r, w')"
    by (cases rule: create_or_reuse_unfinished_cases) auto
  note facts = create_Inr [OF made]
  have "remediations w' = remediations (others w2) @ [r]" using facts(2) by simp
  moreover have "status r = QUEUED \<and> pipeline_version r = PIPELINE_VERSION (conf e)"
    using facts(1) by (simp add: new_attempt_def)
  moreover have "source_pdf_uri r = original_path_of account (hash_file f) (up_name f)"
    using facts(1) store_original_Inr [OF st] by simp
  moreover have "\<forall>g. hook = Some g \<longrightarrow> fst (g w) = Inr ()" using via by auto
  ultimately show ?thesis using facts(3,4) by blast
qed

theorem created_attempt_is_new_and_queued_witness:
  "\<exists>r w'. get_or_create_from_upload demo_env demo_ver 7 demo_upload False None (\<lambda>w. w) empty_world
            = (Inr (r, True), w') \<and> status r = QUEUED"
  using first_submission created_attempt_is_new_and_queued by blast

section \<open>Retrying\<close>

text \<open>The documented behaviour of the storage for a path that is not in use yet.\<close>

definition storage_accepts :: "storage_api \<Rightarrow> bool" where
  "storage_accepts st \<longleftrightarrow>
     (\<forall>fs k. st_exists st fs k = Inr (fs k \<noteq> None)) \<and>
     (\<forall>fs k b. fs k = None \<longrightarrow> st_save st fs k b = (Inr k, fs(k \<mapsto> b)))"

lemma store_original_ok:
  assumes "storage_accepts (storage_of e)"
  shows "\<exists>fs. store_original e account h filename f w = (Inr (original_path_of account h filename), w\<lparr>files := fs\<rparr>)"
proof (cases "files w (original_path_of account h filename)")
  case None
  with assms show ?thesis by (auto simp: store_original_def storage_accepts_def Let_def)
next
  case (Some b)
  with assms show ?thesis
    by (intro exI [of _ "files w"]) (simp add: store_original_def storage_accepts_def Let_def)
qed

text \<open>A document whose attempts are all finished: a new one can always be made.\<close>

lemma create_ok:
  assumes "(account, h) \<notin> set (map document (filter unfinished (remediations w)))"
    and "uuid4 e (uuids w) \<notin> set (map rid (remediations w))"
  shows "create_or_reuse_unfinished e account h path filename w =
         (Inr (new_attempt e account path h filename w, True),
          w\<lparr>ticks := Suc (ticks w), uuids := Suc (uuids w),
            remediations := remediations w @ [new_attempt e account path h filename w]\<rparr>)"
  using assms by (simp add: create_or_reuse_unfinished_def create_eq insert_remediation_def Let_def)

text \<open>C21: resubmitting a document whose attempts are all finished makes a new attempt exactly when
  the caller forces it, or the newest attempt ended noncompliant or in error under a pipeline
  version strictly older than a floor that has been set.  A compliant or skipped attempt is
  never redone on its own.\<close>

theorem resubmission_retries_exactly:
  assumes "up_name f \<noteq> ''''" and "latest_for_document account (hash_file f) w = Some r"
    and "(account, hash_file f) \<notin> set (map document (filter unfinished (remediations w)))"
    and "storage_accepts (storage_of e)" and "uuid4 e (uuids w) \<notin> set (map rid (remediations w))"
  shows "(\<exists>r' w'. get_or_create_from_upload e ver account f force None (\<lambda>v. v) w = (Inr (r', True), w')) \<longleftrightarrow>
         force \<or> status r \<in> {NONCOMPLIANT, ERROR} \<and> retry_floor_version w \<noteq> '''' \<and>
           ver_less ver (parse_version ver (pipeline_version r))
                        (parse_version ver (retry_floor_version w))"
    (is "?made \<longleftrightarrow> ?rule")
proof -
  have "\<not> unfinished r"
    using latest_for_document_Some(1,2) [OF assms(2)] assms(3) by (auto simp: image_iff)
  then have reuse: "reusable_attempt ver account (hash_file f) force w = (if ?rule then None else Some r)"
    using assms(2) by (auto simp: reusable_attempt_def unfinished_def should_retry_iff)
  obtain fs where "store_original e account (hash_file f) (up_name f) f w
      = (Inr (original_path_of account (hash_file f) (up_name f)), w\<lparr>files := fs\<rparr>)"
    using store_original_ok [OF assms(4)] by blast
  with reuse assms(1,3,5) show ?thesis
    by (auto simp: get_or_create_from_upload_def Let_def create_ok)
qed

definition demo_failed_world :: "string \<Rightarrow> world" where
  "demo_failed_world floor =
     demo_world\<lparr>remediations := [(demo_attempt (hash_file demo_upload))\<lparr>status := NONCOMPLIANT\<rparr>],
                pipeline_config := Some floor\<rparr>"

theorem resubmission_retries_exactly_witness:
  "\<exists>r' w'. get_or_create_from_upload demo_env demo_ver 7 demo_upload False None (\<lambda>v. v)
             (demo_failed_world ''2.0.0'') = (Inr (r', True), w')"
proof -
  let ?r = "(demo_attempt (hash_file demo_upload))\<lparr>status := NONCOMPLIANT\<rparr>"
  have "latest_for_document 7 (hash_file demo_upload) (demo_failed_world ''2.0.0'') = Some ?r"
    by (simp add: latest_for_document_def attempts_for_def demo_failed_world_def demo_attempt_def)
  moreover have "(7, hash_file demo_upload)
      \<notin> set (map document (filter unfinished (remediations (demo_failed_world ''2.0.0''))))"
    by (simp add: demo_failed_world_def unfinished_def UNFINISHED_STATUSES_def)
  moreover have "storage_accepts (storage_of demo_env)"
    by (simp add: storage_accepts_def demo_env_def mem_storage_def)
  moreover have "uuid4 demo_env (uuids (demo_failed_world ''2.0.0''))
      \<notin> set (map rid (remediations (demo_failed_world ''2.0.0'')))"
    by (simp add: demo_env_def demo_failed_world_def demo_attempt_def)
  ultimately show ?thesis
    using resubmission_retries_exactly
      [of demo_upload 7 "demo_failed_world ''2.0.0''" ?r demo_env demo_ver False]
    by (simp add: demo_upload_def demo_failed_world_def demo_attempt_def retry_floor_version_def
        parse_version_def demo_ver_def)
qed

section \<open>No submission is lost to the uniqueness rule\<close>

text \<open>An unfinished attempt is newer than every other attempt of its document.\<close>

definition unfinished_is_newest :: "Remediation list \<Rightarrow> bool" where
  "unfinished_is_newest rows \<longleftrightarrow>
     (\<forall>r \<in> set rows. \<forall>s \<in> set rows. unfinished r \<and> document s = document r \<and> s \<noteq> r \<longrightarrow>
        created_at s < created_at r)"

lemma unfinished_is_newest_latest:
  assumes "unfinished_is_newest (remediations w)" and "r \<in> set (remediations w)" and "unfinished r"
    and "document r = (account, h)"
  shows "latest_for_document account h w = Some r"
proof (cases "latest_for_document account h w")
  case None
  with assms show ?thesis by (auto simp: latest_for_document_None)
next
  case (Some s)
  note s = latest_for_document_Some [OF Some]
  have "s = r"
  proof (rule ccontr)
    assume "s \<noteq> r"
    with assms s(1,2) have "created_at s < created_at r" by (auto simp: unfinished_is_newest_def)
    with s(3) [OF assms(2,4)] show False by simp
  qed
  with Some show ?thesis by simp
qed

text \<open>Creating, finishing and re-queueing an attempt keep this.\<close>

lemma create_unfinished_is_newest:
  assumes "unfinished_is_newest (remediations w)"
    and "\<And>r. r \<in> set (remediations w) \<Longrightarrow> created_at r < clock e (ticks w)"
  shows "unfinished_is_newest (remediations (snd (create e account path h filename w)))"
proof (cases "create e account path h filename w")
  case (Pair res w')
  show ?thesis
  proof (cases res)
    case (Inl x)
    with Pair create_Inl(1) [of e account path h filename w x w'] assms(1) show ?thesis by simp
  next
    case (Inr r)
    note c = create_Inr [OF Pair [unfolded Inr]]
    have "\<not> unfinished x \<or> document x \<noteq> (account, h)" if "x \<in> set (remediations w)" for x
      using that c(3) by (auto simp: image_iff)
    then show ?thesis
      using Pair Inr c assms by (auto simp: unfinished_is_newest_def)
  qed
qed

lemma update_unfinished_is_newest:
  assumes "unfinished_is_newest rows"
    and "\<And>r. document (f r) = document r" and "\<And>r. created_at (f r) = created_at r"
    and "\<And>r. r \<in> set rows \<Longrightarrow> p r \<Longrightarrow> unfinished (f r) \<Longrightarrow> unfinished r"
    and "\<And>r s. r \<in> set rows \<Longrightarrow> s \<in> set rows \<Longrightarrow> p r \<Longrightarrow> p s \<Longrightarrow> r = s"
  shows "unfinished_is_newest (update_rows p f rows)"
proof -
  let ?g = "\<lambda>r. if p r then f r else r"
  have "created_at (?g s) < created_at (?g r)"
    if "r \<in> set rows" "s \<in> set rows" "unfinished (?g r)" "document (?g s) = document (?g r)" "?g s \<noteq> ?g r"
    for r s
  proof -
    have "s \<noteq> r" using that(5) by auto
    moreover have "unfinished r" using that(1,3) assms(4) by (auto split: if_splits)
    moreover have "document s = document r" using that(4) assms(2) by (auto split: if_splits)
    ultimately show ?thesis using assms(1,3) that(1,2) by (auto simp: unfinished_is_newest_def)
  qed
  then show ?thesis unfolding unfinished_is_newest_def update_rows_def by (simp only: set_map) blast
qed

text \<open>If other requests keep the newest-attempt order, the last step of a submission always
  answers: it makes the attempt, or returns the unfinished attempt another request made in the
  meantime.  It never fails with the uniqueness error.\<close>

theorem create_or_reuse_always_answers:
  assumes "unfinished_is_newest (remediations w)"
    and "uuid4 e (uuids w) \<notin> set (map rid (remediations w))"
  shows "\<exists>r created w'. create_or_reuse_unfinished e account h path filename w = (Inr (r, created), w') \<and>
           unfinished r \<and> document r = (account, h)"
proof (cases "create_or_reuse_unfinished e account h path filename w")
  case (Pair res w')
  then show ?thesis
  proof (cases rule: create_or_reuse_unfinished_cases)
    case (made r)
    with Pair create_Inr(1) [OF made(2)] show ?thesis by (simp, blast)
  next
    case (reused r x)
    with Pair latest_for_document_Some(2) [OF reused(3)] show ?thesis by (simp, blast)
  next
    case (refused m)
    from create_Inl(4) [OF refused(2) assms(2)] obtain r where
      r: "r \<in> set (remediations w)" "unfinished r" "document r = (account, h)" by auto
    moreover have "remediations w' = remediations w" by (rule create_Inl(1) [OF refused(2)])
    ultimately have "latest_for_document account h w' = Some r"
      using unfinished_is_newest_latest [of w' r account h] assms(1) by simp
    with refused(3) r(2) show ?thesis by blast
  qed
qed

theorem create_or_reuse_always_answers_witness:
  "\<exists>r created w'. create_or_reuse_unfinished demo_env 7 (hash_file demo_upload) ''p'' ''a.pdf'' demo_world
      = (Inr (r, created), w') \<and> unfinished r \<and> document r = (7, hash_file demo_upload)"
  by (rule create_or_reuse_always_answers)
    (simp_all add: unfinished_is_newest_def demo_world_def demo_env_def demo_attempt_def empty_world_def)

section \<open>Claiming a stuck attempt\<close>

text \<open>
  Callers that all read the attempt before any of them claims it.  Each caller's only write is one
  conditional update, so their claims take effect one after another.
\<close>

fun claim_all :: "env \<Rightarrow> Remediation list \<Rightarrow> world \<Rightarrow> bool list \<times> world" where
  "claim_all e [] w = ([], w)"
| "claim_all e (r # rs) w =
     (let ((won, _), w1) = claim_enqueue e r False w; (wins, w2) = claim_all e rs w1
      in (won # wins, w2))"

text \<open>The wait that applies to an attempt in a given state.\<close>

fun stuck_minutes :: "settings \<Rightarrow> JobStatus \<Rightarrow> int" where
  "stuck_minutes s QUEUED = STUCK_QUEUED_MINUTES s"
| "stuck_minutes s RUNNING = STUCK_RUNNING_MINUTES s"
| "stuck_minutes s _ = 0"

lemma is_stuck_since_enqueued:
  assumes "is_stuck e r w = (b, w1)" and "unfinished r" and "last_enqueued_at r = Some t"
  shows "b \<Longrightarrow> minutes (stuck_minutes (conf e) (status r)) < clock e (ticks w) - t"
    and "w1 = w\<lparr>ticks := Suc (ticks w)\<rparr>"
  using assms
  by (auto simp: is_stuck_def now_def Let_def unfinished_def UNFINISHED_STATUSES_def split: JobStatus.splits)

lemma claim_enqueue_taken:
  assumes "\<And>row. row \<in> set (remediations w) \<Longrightarrow> rid row = rid r \<Longrightarrow> last_enqueued_at row \<noteq> last_enqueued_at r"
  shows "\<exists>n. claim_enqueue e r False w = ((False, r), w\<lparr>ticks := n\<rparr>)"
proof (cases "is_stuck e r w")
  case (Pair b w1)
  from is_stuck_world [OF this] obtain n where w1: "w1 = w\<lparr>ticks := n\<rparr>" by (metis world.surjective world.update_convs(10))
  have none: "filter (\<lambda>row. rid row = rid r \<and> status row \<in> set UNFINISHED_STATUSES
      \<and> last_enqueued_at row = last_enqueued_at r) (remediations w) = []"
    using assms by (auto simp: filter_empty_conv)
  with Pair w1 show ?thesis
    by (intro exI [of _ "if b then Suc n else n"], cases b)
      (auto simp: claim_enqueue_def now_def Let_def filter_empty_conv update_rows_none)
qed

lemma claim_enqueue_wins:
  assumes "is_stuck e r w = (True, w1)" and "r \<in> set (remediations w)" and "unfinished r"
  shows "claim_enqueue e r False w =
    ((True, r\<lparr>last_enqueued_at := Some (clock e (ticks w1))\<rparr>),
     w1\<lparr>ticks := Suc (ticks w1),
        remediations := update_rows (\<lambda>row. rid row = rid r \<and> unfinished row \<and> last_enqueued_at row = last_enqueued_at r)
          (\<lambda>row. row\<lparr>last_enqueued_at := Some (clock e (ticks w1))\<rparr>) (remediations w)\<rparr>)"
  using assms is_stuck_world [OF assms(1)]
  by (auto simp: claim_enqueue_def now_def Let_def filter_empty_conv unfinished_def)

lemma claim_all_taken:
  assumes "\<And>row. row \<in> set (remediations w) \<Longrightarrow> rid row = rid r \<Longrightarrow> last_enqueued_at row \<noteq> last_enqueued_at r"
  shows "fst (claim_all e (replicate n r) w) = replicate n False"
  using assms
proof (induction n arbitrary: w)
  case (Suc n)
  obtain k where "claim_enqueue e r False w = ((False, r), w\<lparr>ticks := k\<rparr>)"
    using claim_enqueue_taken [OF Suc.prems] by blast
  with Suc.IH [of "w\<lparr>ticks := k\<rparr>"] Suc.prems show ?case by (auto split: prod.splits)
qed simp

text \<open>C22: when any number of resubmits find the same stuck attempt, exactly one of them (the first
  whose update reaches the database) may queue its task, whatever they read before.\<close>

theorem stuck_claim_has_one_winner:
  assumes "tables_ok w" and "r \<in> set (remediations w)" and "unfinished r"
    and "fst (is_stuck e r w)" and "mono (clock e)"
    and "0 \<le> stuck_minutes (conf e) (status r)"
  shows "fst (claim_all e (replicate (Suc n) r) w) = True # replicate n False"
proof -
  obtain w1 where stuck: "is_stuck e r w = (True, w1)" using assms(4) by (cases "is_stuck e r w") auto
  let ?t = "clock e (ticks w1)"
  obtain w2 where w2: "claim_enqueue e r False w = ((True, r\<lparr>last_enqueued_at := Some ?t\<rparr>), w2)"
    "remediations w2 = update_rows (\<lambda>row. rid row = rid r \<and> unfinished row \<and> last_enqueued_at row = last_enqueued_at r)
          (\<lambda>row. row\<lparr>last_enqueued_at := Some ?t\<rparr>) (remediations w)"
    using claim_enqueue_wins [OF stuck assms(2,3)] by simp
  have fresh: "last_enqueued_at r \<noteq> Some ?t"
  proof
    assume "last_enqueued_at r = Some ?t"
    with is_stuck_since_enqueued [OF stuck assms(3)] have
      "minutes (stuck_minutes (conf e) (status r)) < clock e (ticks w) - ?t" and "ticks w \<le> ticks w1" by auto
    moreover have "0 \<le> minutes (stuck_minutes (conf e) (status r))"
      using assms(6) by (simp add: minutes_def)
    ultimately show False using monoD [OF assms(5), of "ticks w" "ticks w1"] by simp
  qed
  have only: "row = r" if "row \<in> set (remediations w)" "rid row = rid r" for row
    using that assms(1,2) by (auto simp: tables_ok_def distinct_map inj_on_def)
  have "last_enqueued_at row \<noteq> last_enqueued_at r"
    if "row \<in> set (remediations w2)" "rid row = rid r" for row
    using that fresh only assms(3) unfolding w2(2) by (auto simp: table_simps)
  then have "fst (claim_all e (replicate n r) w2) = replicate n False"
    by (rule claim_all_taken)
  with w2(1) show ?thesis by (auto split: prod.splits)
qed

definition demo_later_env :: env where
  "demo_later_env = demo_env\<lparr>clock := (\<lambda>n. minutes 61 + int n)\<rparr>"

theorem stuck_claim_has_one_winner_witness:
  "fst (claim_all demo_later_env (replicate 3 (demo_attempt (hash_file demo_upload))) demo_world) =
   [True, False, False]"
proof -
  have "fst (claim_all demo_later_env (replicate (Suc 2) (demo_attempt (hash_file demo_upload))) demo_world)
        = True # replicate 2 False"
  proof (rule stuck_claim_has_one_winner)
    show "tables_ok demo_world"
      using empty_world_tables_ok by (simp add: demo_world_def tables_ok_def empty_world_def
          one_unfinished_attempt_per_document_def)
    show "mono (clock demo_later_env)" by (simp add: demo_later_env_def mono_def)
    show "fst (is_stuck demo_later_env (demo_attempt (hash_file demo_upload)) demo_world)"
      by (simp add: is_stuck_def demo_attempt_def demo_later_env_def demo_env_def demo_settings_def now_def
          minutes_def seconds_def)
    show "0 \<le> stuck_minutes (conf demo_later_env) (status (demo_attempt (hash_file demo_upload)))"
      by (simp add: demo_later_env_def demo_env_def demo_settings_def demo_attempt_def)
  qed (simp_all add: demo_world_def demo_unfinished)
  then show ?thesis by (simp add: numeral_eq_Suc)
qed

text \<open>A claim moves the attempt's clock: its row carries the moment of the claim, and nobody
  who reads it afterwards can queue the attempt again before another full wait has passed.\<close>

theorem claimed_attempt_rests:
  assumes "tables_ok w" and "r \<in> set (remediations w)" and "unfinished r"
    and "claim_enqueue e r False w = ((True, r'), w1)"
  shows "\<exists>t. find_remediation (rid r) w1 = Some r' \<and> r' = r\<lparr>last_enqueued_at := Some t\<rparr> \<and>
         (\<forall>w2. clock e (ticks w2) - t \<le> minutes (stuck_minutes (conf e) (status r)) \<longrightarrow>
               fst (claim_enqueue e r' False w2) = (False, r'))"
proof -
  obtain v where stuck: "is_stuck e r w = (True, v)"
    using assms(4) by (cases "is_stuck e r w") (auto simp: claim_enqueue_def split: bool.splits)
  note won = claim_enqueue_wins [OF stuck assms(2,3), unfolded assms(4)]
  let ?t = "clock e (ticks v)"
  have r': "r' = r\<lparr>last_enqueued_at := Some ?t\<rparr>" using won by simp
  have d: "distinct (map rid (remediations w))" using assms(1) by (simp add: tables_ok_def)
  have "remediations w1 = update_rows (\<lambda>row. rid row = rid r \<and> unfinished row \<and> last_enqueued_at row = last_enqueued_at r)
          (\<lambda>row. row\<lparr>last_enqueued_at := Some ?t\<rparr>) (remediations w)" using won by simp
  then have "r' \<in> set (remediations w1)" and "map rid (remediations w1) = map rid (remediations w)"
    using assms(2,3) r' by (auto simp: table_simps map_update_rows_same)
  with d have found: "find_remediation (rid r') w1 = Some r'" by (intro find_remediation_unique) simp_all
  have "fst (claim_enqueue e r' False w2) = (False, r')"
    if "clock e (ticks w2) - ?t \<le> minutes (stuck_minutes (conf e) (status r))" for w2
  proof (cases "is_stuck e r' w2")
    case (Pair b w3)
    from is_stuck_since_enqueued(1) [OF this, of ?t] that r' assms(3) have "\<not> b"
      by (auto simp: unfinished_def)
    with Pair show ?thesis by (simp add: claim_enqueue_def)
  qed
  moreover have "rid r' = rid r" using r' by simp
  ultimately show ?thesis using found r' by auto
qed

theorem claimed_attempt_rests_witness:
  "\<exists>r' w1. claim_enqueue demo_later_env (demo_attempt (hash_file demo_upload)) False demo_world = ((True, r'), w1) \<and>
     find_remediation ''r1'' w1 = Some r'"
proof -
  let ?r = "demo_attempt (hash_file demo_upload)"
  have ok: "tables_ok demo_world" "?r \<in> set (remediations demo_world)"
    using empty_world_tables_ok
    by (simp_all add: demo_world_def tables_ok_def empty_world_def one_unfinished_attempt_per_document_def)
  have "is_stuck demo_later_env ?r demo_world = (True, demo_world\<lparr>ticks := 1\<rparr>)"
    by (simp add: is_stuck_def demo_attempt_def demo_later_env_def demo_env_def demo_settings_def now_def
        minutes_def seconds_def demo_world_def empty_world_def)
  from claim_enqueue_wins [OF this ok(2) demo_unfinished] obtain r' w1 where
    c: "claim_enqueue demo_later_env ?r False demo_world = ((True, r'), w1)" by blast
  from claimed_attempt_rests [OF ok demo_unfinished c] c show ?thesis
    by (auto simp: demo_attempt_def)
qed

section \<open>Hashes and paths\<close>



text \<open>The content hash depends on the bytes of an upload and on nothing else (not on its name,
  nor on how it arrives in chunks): it is the SHA-256 digest of the whole content, in 64
  characters, none of them a slash.\<close>

theorem content_hash_is_of_content:
  "hash_file f = sha256_hexdigest (concat (up_chunks f)) \<and> length (hash_file f) = 64 \<and>
   CHR ''/'' \<notin> set (hash_file f)"
  by (simp add: hash_file_def)

text \<open>Originals never share a path: two stored originals have the same path exactly when the
  account, the content hash and the file name are the same.\<close>

theorem original_paths_do_not_collide:
  "original_path_of a (hash_file f) m = original_path_of b (hash_file g) n \<longleftrightarrow>
   a = b \<and> hash_file f = hash_file g \<and> m = n"
proof -
  have "CHR ''/'' \<notin> set (hash_file f)" for f by (simp add: hash_file_def)
  then show ?thesis by (simp add: original_path_of_def segment_inject)
qed

end
