(* ===== verification/Submission_Limits.thy ===== *)
theory Submission_Limits
  imports Service_Theorems
begin

text \<open>
  \<^verbatim>\<open>api/submission_limits.py\<close> and \<^verbatim>\<open>common/clock.py\<close>: an account's submission limit over a
  sliding window, the stand-in for unlimited accounts, and the choice between them.  The locale
  \<open>submission_limit_like\<close> is the protocol the submit view relies on; both limits provide it.
\<close>

section \<open>Waiting times\<close>

text \<open>Whole seconds, rounded up: \<open>math.ceil(delta.total_seconds())\<close>.\<close>

definition ceil_seconds :: "time \<Rightarrow> int" where
  "ceil_seconds d = - ((- d) div 1000000)"

definition seconds_until :: "env \<Rightarrow> time \<Rightarrow> world \<Rightarrow> int \<times> world" where
  "seconds_until e moment w = (let (t, w1) = now (clock e) w in (max 0 (ceil_seconds (moment - t)), w1))"

section \<open>The limit\<close>

record SubmissionLimitState =
  st_limit :: int
  st_remaining :: int
  st_reset_seconds :: int

definition as_headers :: "SubmissionLimitState \<Rightarrow> (string \<times> string) list" where
  "as_headers s =
     [(''X-RateLimit-Limit'', str_int (st_limit s)),
      (''X-RateLimit-Remaining'', str_int (st_remaining s)),
      (''X-RateLimit-Reset'', str_int (st_reset_seconds s))]"

record SubmissionLimit =
  sl_account :: nat
  num_requests :: int
  duration :: int

definition make_submission_limit :: "drf_parser \<Rightarrow> nat \<Rightarrow> string \<Rightarrow> rate_error + SubmissionLimit" where
  "make_submission_limit drf account rate =
     (case parse_rate drf rate of
        Inl x \<Rightarrow> Inl x
      | Inr (n, secs) \<Rightarrow> Inr \<lparr>sl_account = account, num_requests = n, duration = secs\<rparr>)"

definition seconds_until_oldest_expires ::
    "env \<Rightarrow> SubmissionLimit \<Rightarrow> time option \<Rightarrow> world \<Rightarrow> int \<times> world" where
  "seconds_until_oldest_expires e l oldest w =
     (case oldest of
        None \<Rightarrow> (if num_requests l = 0 then duration l else 0, w)
      | Some t \<Rightarrow> seconds_until e (t + seconds (duration l)) w)"

definition state_from :: "env \<Rightarrow> SubmissionLimit \<Rightarrow> SubmissionUsage \<Rightarrow> world \<Rightarrow> SubmissionLimitState \<times> world" where
  "state_from e l usage w =
     (let (reset, w1) = seconds_until_oldest_expires e l (us_oldest usage) w
      in (\<lparr>st_limit = num_requests l, st_remaining = max 0 (num_requests l - int (us_count usage)),
           st_reset_seconds = reset\<rparr>, w1))"

definition limit_headers :: "env \<Rightarrow> SubmissionLimit \<Rightarrow> world \<Rightarrow> (string \<times> string) list \<times> world" where
  "limit_headers e l w =
     (let (usage, w1) = recent_submissions e (sl_account l) (duration l) w;
          (state, w2) = state_from e l usage w1
      in (as_headers state, w2))"

text \<open>
  The check, called with the account's row locked.  The refusal carries the seconds to wait, what
  is left, and the moment the limit resets.
\<close>

definition limit_check :: "env \<Rightarrow> SubmissionLimit \<Rightarrow> world \<Rightarrow> unit outcome" where
  "limit_check e l w =
     (let (usage, w1) = recent_submissions e (sl_account l) (duration l) w
      in if int (us_count usage) < num_requests l then (Inr (), w1)
         else let (state, w2) = state_from e l usage w1; wait = st_reset_seconds state;
                  (t, w3) = now (clock e) w2
              in (Inl (SubmissionLimitReached wait (st_remaining state) (t + seconds wait)), w3))"

section \<open>Unlimited accounts and the choice\<close>

definition no_limit_check :: "world \<Rightarrow> unit outcome" where
  "no_limit_check w = (Inr (), w)"

definition no_limit_headers :: "world \<Rightarrow> (string \<times> string) list \<times> world" where
  "no_limit_headers w = ([], w)"

datatype limit_for_error = Incomplete limit_error | Unreadable rate_error

text \<open>\<open>None\<close> is \<open>NoSubmissionLimit()\<close>.\<close>

definition limit_for :: "drf_parser \<Rightarrow> ServiceAccount \<Rightarrow> limit_for_error + SubmissionLimit option" where
  "limit_for drf a =
     (case rate_limit a of
        Inl x \<Rightarrow> Inl (Incomplete x)
      | Inr None \<Rightarrow> Inr None
      | Inr (Some rate) \<Rightarrow>
          (case make_submission_limit drf (sa_pk a) rate of
             Inl x \<Rightarrow> Inl (Unreadable x)
           | Inr l \<Rightarrow> Inr (Some l)))"

fun limit_like_check :: "env \<Rightarrow> SubmissionLimit option \<Rightarrow> world \<Rightarrow> unit outcome" where
  "limit_like_check e None w = no_limit_check w"
| "limit_like_check e (Some l) w = limit_check e l w"

fun limit_like_headers :: "env \<Rightarrow> SubmissionLimit option \<Rightarrow> world \<Rightarrow> (string \<times> string) list \<times> world" where
  "limit_like_headers e None w = no_limit_headers w"
| "limit_like_headers e (Some l) w = limit_headers e l w"

section \<open>The protocol\<close>

lemma store_original_subscriptions:
  "store_original e account h filename upload w = (res, w') \<Longrightarrow>
   callbacks w' = callbacks w \<and> queue w' = queue w \<and> next_pk w' = next_pk w"
  by (auto simp: store_original_def Let_def split: sum.splits bool.splits prod.splits)

lemma create_or_reuse_subscriptions:
  assumes "create_or_reuse_unfinished e account h path filename w = (res, w')"
  shows "callbacks w' = callbacks w \<and> queue w' = queue w \<and> next_pk w' = next_pk w"
proof -
  have "w' = snd (create e account path h filename w)"
    using assms by (cases rule: create_or_reuse_unfinished_cases) auto
  then show ?thesis
    by (auto simp: create_eq insert_remediation_def Let_def split: prod.split sum.split)
qed

text \<open>What the submit view needs of a limit: looking at it never changes anything but the clock.\<close>

locale submission_limit_like =
  fixes check :: "world \<Rightarrow> unit outcome" and headers :: "world \<Rightarrow> (string \<times> string) list \<times> world"
  assumes check_reads: "\<exists>n. snd (check w) = w\<lparr>ticks := n\<rparr>"
    and headers_read: "\<exists>n. snd (headers w) = w\<lparr>ticks := n\<rparr>"
    and check_refusal: "fst (check w) = Inl x \<Longrightarrow> \<exists>wait remaining at. x = SubmissionLimitReached wait remaining at"
begin

lemma check_tables_ok: "tables_ok w \<Longrightarrow> tables_ok (snd (check w))"
  using check_reads [of w] by auto

lemma submission_keeps_subscriptions:
  assumes "get_or_create_from_upload e ver account f force (Some check) (\<lambda>v. v) w = (res, w')"
  shows "callbacks w' = callbacks w \<and> queue w' = queue w \<and> next_pk w' = next_pk w"
  using assms
proof (cases rule: get_or_create_cases)
  case (made w1 x w2)
  have "callbacks w2 = callbacks w \<and> queue w2 = queue w \<and> next_pk w2 = next_pk w"
    using made(1) check_reads [of w] store_original_subscriptions [OF made(3)] by auto
  with made(4) show ?thesis
    using create_or_reuse_subscriptions [of e account "hash_file f"] by (fastforce split: sum.splits)
qed (use check_reads [of w] in auto)

lemma limited_submission_keeps_tables:
  assumes "tables_ok w" and "\<And>v. tables_ok v \<Longrightarrow> tables_ok (others v)"
  shows "tables_ok (snd (get_or_create_from_upload e ver account f force (Some check) others w))"
  using assms check_tables_ok by (auto intro: get_or_create_tables_ok)

lemma refused_submission_keeps_world:
  assumes "up_name f \<noteq> ''''" and "reusable_attempt ver account (hash_file f) force w = None"
    and "fst (check w) = Inl x"
  shows "\<exists>n. get_or_create_from_upload e ver account f force (Some check) others w = (Inl x, w\<lparr>ticks := n\<rparr>)"
proof -
  obtain n where "check w = (Inl x, w\<lparr>ticks := n\<rparr>)"
    using assms(3) check_reads [of w] by (cases "check w") auto
  with assms(1,2) show ?thesis by (auto simp: get_or_create_from_upload_def Let_def)
qed

end

lemma recent_submissions_eq:
  "recent_submissions e account secs w =
   (let rows = submissions_since account (clock e (ticks w) - seconds secs) (remediations w)
    in (\<lparr>us_count = length rows, us_oldest = oldest_of (map created_at rows)\<rparr>, w\<lparr>ticks := Suc (ticks w)\<rparr>))"
  by (simp add: recent_submissions_def now_def Let_def)

lemma state_from_world: "\<exists>n. snd (state_from e l usage w) = w\<lparr>ticks := n\<rparr>"
  by (auto simp: state_from_def seconds_until_oldest_expires_def seconds_until_def now_def Let_def
      split: option.split intro: exI [of _ "ticks w"])

interpretation limited: submission_limit_like "limit_check e l" "limit_headers e l" for e l
proof unfold_locales
  fix w :: world and x
  obtain usage where u: "recent_submissions e (sl_account l) (duration l) w = (usage, w\<lparr>ticks := Suc (ticks w)\<rparr>)"
    by (simp add: recent_submissions_eq Let_def)
  obtain n where n: "snd (state_from e l usage (w\<lparr>ticks := Suc (ticks w)\<rparr>)) = w\<lparr>ticks := n\<rparr>"
    using state_from_world [of e l usage "w\<lparr>ticks := Suc (ticks w)\<rparr>"] by auto
  show "\<exists>n. snd (limit_check e l w) = w\<lparr>ticks := n\<rparr>"
    using u n by (auto simp: limit_check_def now_def Let_def split: prod.split)
  show "\<exists>n. snd (limit_headers e l w) = w\<lparr>ticks := n\<rparr>"
    using u n by (auto simp: limit_headers_def Let_def split: prod.split)
  show "\<exists>wait remaining at. x = SubmissionLimitReached wait remaining at" if "fst (limit_check e l w) = Inl x"
    using that by (auto simp: limit_check_def Let_def split: prod.splits if_splits)
qed

lemma ticks_self: "\<exists>n. (w :: world) = w\<lparr>ticks := n\<rparr>"
  by (rule exI [of _ "ticks w"]) simp

interpretation unlimited: submission_limit_like no_limit_check no_limit_headers
  by unfold_locales (simp_all add: no_limit_check_def no_limit_headers_def ticks_self)

interpretation limit_like: submission_limit_like "limit_like_check e l" "limit_like_headers e l" for e l
  by unfold_locales
    (cases l; simp add: limited.check_reads limited.headers_read limited.check_refusal unlimited.check_reads
      unlimited.headers_read unlimited.check_refusal)+

section \<open>What the limit promises\<close>

lemma ceil_seconds_ge: "d \<le> seconds (ceil_seconds d)"
  by (simp add: ceil_seconds_def seconds_def)

lemma ceil_seconds_le: "d \<le> seconds n \<Longrightarrow> ceil_seconds d \<le> n"
  by (simp add: ceil_seconds_def seconds_def)

lemma oldest_of_None [simp]: "oldest_of ts = None \<longleftrightarrow> ts = []"
  by (cases ts) (auto split: option.split)

lemma oldest_of_Some: "oldest_of ts = Some t \<Longrightarrow> t \<in> set ts \<and> (\<forall>s \<in> set ts. t \<le> s)"
proof (induction ts arbitrary: t)
  case (Cons a ts)
  then show ?case by (cases "oldest_of ts") (fastforce simp: min_def split: if_splits)+
qed simp

lemma submissions_since_shrink:
  "a \<le> b \<Longrightarrow> submissions_since account b rows = filter (\<lambda>r. b \<le> created_at r) (submissions_since account a rows)"
  unfolding submissions_since_def filter_filter by (rule filter_cong) auto

text \<open>The parts of a refusal, with the clock readings they come from.\<close>

lemma limit_check_refusal:
  assumes "limit_check e l w = (Inl x, w')"
  obtains rows wait t2 t3 where
    "rows = submissions_since (sl_account l) (clock e (ticks w) - seconds (duration l)) (remediations w)"
    "num_requests l \<le> int (length rows)"
    "x = SubmissionLimitReached wait 0 (t3 + seconds wait)"
    "case oldest_of (map created_at rows) of
       None \<Rightarrow> wait = (if num_requests l = 0 then duration l else 0)
     | Some t \<Rightarrow> wait = max 0 (ceil_seconds (t + seconds (duration l) - t2))"
    "mono (clock e) \<Longrightarrow> clock e (ticks w) \<le> t2 \<and> t2 \<le> t3"
proof -
  let ?rows = "submissions_since (sl_account l) (clock e (ticks w) - seconds (duration l)) (remediations w)"
  have mono: "mono (clock e) \<Longrightarrow> clock e n \<le> clock e (Suc n)" for n by (simp add: mono_def)
  have no: "num_requests l \<le> int (length ?rows)"
    using assms by (auto simp: limit_check_def recent_submissions_eq Let_def split: if_splits prod.splits)
  show ?thesis
  proof (cases "oldest_of (map created_at ?rows)")
    case None
    then have e: "?rows = []" by simp
    with assms no have "x = SubmissionLimitReached (if num_requests l = 0 then duration l else 0) 0
        (clock e (Suc (ticks w)) + seconds (if num_requests l = 0 then duration l else 0))"
      by (auto simp: limit_check_def recent_submissions_eq state_from_def seconds_until_oldest_expires_def
          now_def Let_def split: if_splits)
    with that [OF refl no, of _ "clock e (Suc (ticks w))" "clock e (Suc (ticks w))"] None mono [of "ticks w"]
    show ?thesis by simp
  next
    case (Some t)
    let ?wait = "max 0 (ceil_seconds (t + seconds (duration l) - clock e (Suc (ticks w))))"
    from assms no Some have "x = SubmissionLimitReached ?wait 0 (clock e (Suc (Suc (ticks w))) + seconds ?wait)"
      by (auto simp: limit_check_def recent_submissions_eq state_from_def seconds_until_oldest_expires_def
          seconds_until_def now_def Let_def split: if_splits)
    with that [OF refl no, of ?wait "clock e (Suc (Suc (ticks w)))" "clock e (Suc (ticks w))"] Some
      mono [of "ticks w"] mono [of "Suc (ticks w)"]
    show ?thesis by simp
  qed
qed

text \<open>A new attempt is let through exactly when fewer attempts than the limit were made in the
  window that ends now, so a limit of 0 refuses every one.\<close>

theorem limit_admits_exactly:
  "fst (limit_check e l w) = Inr () \<longleftrightarrow>
   int (length (filter (\<lambda>r. service_account r = sl_account l \<and>
                   clock e (ticks w) - seconds (duration l) \<le> created_at r) (remediations w))) < num_requests l"
  by (auto simp: limit_check_def recent_submissions_eq submissions_since_def Let_def split: prod.split)

text \<open>A refusal tells the truth: nothing remains, the wait is at most one period (all of it when
  the limit is 0 and nothing counts), and once the announced moment has passed, the oldest counted
  attempt no longer counts, so strictly fewer attempts stand against the limit.\<close>

theorem refusal_tells_when_to_retry:
  assumes "limit_check e l w = (Inl x, w')" and "mono (clock e)" and "0 \<le> num_requests l" and "0 \<le> duration l"
    and "\<forall>r \<in> set (remediations w). created_at r \<le> clock e (ticks w)"
  shows "\<exists>wait at. x = SubmissionLimitReached wait 0 at \<and> 0 \<le> wait \<and> wait \<le> duration l \<and>
     (\<forall>u. at < u \<longrightarrow>
        length (submissions_since (sl_account l) (u - seconds (duration l)) (remediations w))
          < length (submissions_since (sl_account l) (clock e (ticks w) - seconds (duration l)) (remediations w)) \<or>
        num_requests l = 0 \<and> wait = duration l)"
proof -
  let ?D = "seconds (duration l)" and ?t = "clock e (ticks w)"
  from assms(1) obtain rows wait t2 t3 where
    rows: "rows = submissions_since (sl_account l) (?t - ?D) (remediations w)"
    and full: "num_requests l \<le> int (length rows)"
    and x: "x = SubmissionLimitReached wait 0 (t3 + seconds wait)"
    and wait: "case oldest_of (map created_at rows) of
       None \<Rightarrow> wait = (if num_requests l = 0 then duration l else 0)
     | Some t \<Rightarrow> wait = max 0 (ceil_seconds (t + ?D - t2))"
    and time: "?t \<le> t2" "t2 \<le> t3"
    using limit_check_refusal [OF assms(1)] assms(2) by metis
  show ?thesis
  proof (cases "oldest_of (map created_at rows)")
    case None
    with full assms(3) have "num_requests l = 0" by simp
    with None wait x assms(4) show ?thesis by auto
  next
    case (Some t)
    note oldest = oldest_of_Some [OF Some]
    then obtain r where r: "r \<in> set rows" "created_at r = t" by auto
    have w: "wait = max 0 (ceil_seconds (t + ?D - t2))" using wait Some by simp
    have "t \<le> t2" using r rows assms(5) time(1) by (force simp: submissions_since_def)
    then have "ceil_seconds (t + ?D - t2) \<le> duration l" by (intro ceil_seconds_le) simp
    then have "wait \<le> duration l" using w assms(4) by simp
    moreover have "length (submissions_since (sl_account l) (u - ?D) (remediations w)) < length rows"
      if "t3 + seconds wait < u" for u
    proof -
      have "t + ?D - t2 \<le> seconds wait"
        using ceil_seconds_ge [of "t + ?D - t2"] seconds_mono [of "ceil_seconds (t + ?D - t2)" wait] w by linarith
      with that time have late: "t < u - ?D" by linarith
      have "0 \<le> seconds wait" using w by simp
      with that time have le: "?t - ?D \<le> u - ?D" by linarith
      have "submissions_since (sl_account l) (u - ?D) (remediations w) = filter (\<lambda>r. u - ?D \<le> created_at r) rows"
        using submissions_since_shrink [OF le] rows by simp
      moreover have "length (filter (\<lambda>r. u - ?D \<le> created_at r) rows) < length rows"
        using r late by (intro length_filter_less [of r]) auto
      ultimately show ?thesis by simp
    qed
    ultimately show ?thesis using x w rows by auto
  qed
qed

text \<open>A full account: one attempt an hour, and one was just made.\<close>

definition demo_limit :: SubmissionLimit where
  "demo_limit = \<lparr>sl_account = 7, num_requests = 1, duration = 3600\<rparr>"

lemma demo_limit_refuses:
  "remediations w = [demo_attempt h] \<Longrightarrow> ticks w = 0 \<Longrightarrow> \<exists>x w'. limit_check demo_env demo_limit w = (Inl x, w')"
  by (simp add: limit_check_def recent_submissions_eq submissions_since_def demo_limit_def
      demo_attempt_def demo_env_def seconds_def Let_def split: prod.split)

theorem refusal_tells_when_to_retry_witness:
  "\<exists>wait at w'. limit_check demo_env demo_limit demo_world = (Inl (SubmissionLimitReached wait 0 at), w') \<and>
     wait \<le> 3600"
proof -
  obtain x w' where x: "limit_check demo_env demo_limit demo_world = (Inl x, w')"
    using demo_limit_refuses [of demo_world "hash_file demo_upload"] by (auto simp: demo_world_def empty_world_def)
  have "mono (clock demo_env)" by (simp add: demo_env_def mono_def)
  from refusal_tells_when_to_retry [OF x this] x show ?thesis
    by (auto simp: demo_limit_def demo_world_def demo_attempt_def demo_env_def empty_world_def seconds_def)
qed

text \<open>The response headers and the refusal never disagree: read at the same moment, the
  headers announce the same wait as the refusal, and 0 remaining exactly when a new attempt would be
  refused.\<close>

theorem headers_agree_with_the_check:
  assumes "\<forall>n. clock e n = t"
  shows "\<exists>remaining reset.
     fst (limit_headers e l w) = [(''X-RateLimit-Limit'', str_int (num_requests l)),
        (''X-RateLimit-Remaining'', str_int remaining), (''X-RateLimit-Reset'', str_int reset)] \<and>
     (remaining = 0 \<longleftrightarrow> (\<exists>x. fst (limit_check e l w) = Inl x)) \<and> 0 \<le> remaining \<and>
     (\<forall>wait rem at. fst (limit_check e l w) = Inl (SubmissionLimitReached wait rem at) \<longrightarrow>
        wait = reset \<and> rem = remaining \<and> at = t + seconds reset)"
  using assms
  by (auto simp: limit_headers_def limit_check_def recent_submissions_eq state_from_def as_headers_def
      seconds_until_oldest_expires_def seconds_until_def now_def Let_def split: option.splits if_splits)

theorem headers_agree_with_the_check_witness:
  "\<exists>remaining reset. fst (limit_headers (demo_env\<lparr>clock := (\<lambda>_. 0)\<rparr>) demo_limit demo_world) =
     [(''X-RateLimit-Limit'', str_int 1), (''X-RateLimit-Remaining'', str_int remaining),
      (''X-RateLimit-Reset'', str_int reset)]"
  using headers_agree_with_the_check [of "demo_env\<lparr>clock := (\<lambda>_. 0)\<rparr>" 0 demo_limit demo_world]
  by (auto simp: demo_limit_def)

text \<open>Only an account whose box is ticked goes unlimited.  An account with a missing limit value
  is an error, and one whose limits passed validation gets exactly the limit its fields say.\<close>

theorem limit_for_never_drops_a_limit:
  "(limit_for drf a = Inr None \<longleftrightarrow> unlimited a) \<and>
   (\<not> unlimited a \<and> (rate_limit_count a = None \<or> rate_limit_period a = None) \<longrightarrow>
      limit_for drf a = Inl (Incomplete (IncompleteLimitsError (sa_pk a)))) \<and>
   (drf_reads_rates drf \<and> validate_limits a \<and> \<not> unlimited a \<and> rate_limit_period a \<noteq> Some '''' \<longrightarrow>
      (\<exists>n p. rate_limit_count a = Some n \<and> rate_limit_period a = Some (period_value p) \<and>
         limit_for drf a = Inr (Some \<lparr>sl_account = sa_pk a, num_requests = n, duration = period_seconds p\<rparr>)))"
proof (intro conjI impI)
  show "limit_for drf a = Inr None \<longleftrightarrow> unlimited a"
    using rate_limit_None [of a] by (auto simp: limit_for_def split: sum.splits option.splits)
  show "limit_for drf a = Inl (Incomplete (IncompleteLimitsError (sa_pk a)))"
    if "\<not> unlimited a \<and> (rate_limit_count a = None \<or> rate_limit_period a = None)"
    using that by (auto simp: limit_for_def rate_limit_def is_unlimited_def split: option.splits)
  assume "drf_reads_rates drf \<and> validate_limits a \<and> \<not> unlimited a \<and> rate_limit_period a \<noteq> Some ''''"
  then obtain n p where "rate_limit_count a = Some n" "rate_limit_period a = Some (period_value p)"
    "rate_limit a = Inr (Some (str_int n @ ''/'' @ period_value p))"
    "parse_rate drf (str_int n @ ''/'' @ period_value p) = Inr (n, period_seconds p)"
    by (auto elim: parse_rate_of_account)
  then show "\<exists>n p. rate_limit_count a = Some n \<and> rate_limit_period a = Some (period_value p) \<and>
      limit_for drf a = Inr (Some \<lparr>sl_account = sa_pk a, num_requests = n, duration = period_seconds p\<rparr>)"
    by (auto simp: limit_for_def make_submission_limit_def)
qed

text \<open>A parser that reads rates as documented.\<close>

definition demo_drf :: drf_parser where
  "demo_drf text =
     (let number = takeWhile (\<lambda>c. c \<noteq> CHR ''/'') text; period = drop (Suc (length number)) text
      in case List.find (\<lambda>p. period_value p = period) PERIODS of
           None \<Rightarrow> None
         | Some p \<Rightarrow> Some (Some (int (digits_value number)), Some (period_seconds p)))"

lemma demo_drf_reads: "drf_reads_rates demo_drf"
proof -
  have "takeWhile (\<lambda>c. c \<noteq> CHR ''/'') (str_nat n @ CHR ''/'' # t) = str_nat n" for n t
    using slash_not_digit [of n] by (subst takeWhile_append2) auto
  moreover have "List.find (\<lambda>q. period_value q = period_value p) PERIODS = Some p" for p
    by (cases p) (simp_all add: PERIODS_def)
  ultimately show ?thesis by (simp add: drf_reads_rates_def demo_drf_def Let_def)
qed

definition demo_account :: ServiceAccount where
  "demo_account = \<lparr>sa_pk = 7, sa_organization = 1, sa_name = ''web'', sa_user = 3, webhook_secret = ''s'',
     unlimited = False, max_in_flight = Some 5, rate_limit_count = Some 100, rate_limit_period = Some ''day''\<rparr>"

theorem limit_for_never_drops_a_limit_witness:
  "\<exists>a n p. drf_reads_rates demo_drf \<and> validate_limits a \<and> rate_limit_count a = Some n \<and>
     limit_for demo_drf a = Inr (Some \<lparr>sl_account = sa_pk a, num_requests = n, duration = period_seconds p\<rparr>)"
proof -
  let ?a = "demo_account"
  have ok: "validate_limits ?a" "\<not> unlimited ?a" "rate_limit_period ?a \<noteq> Some ''''"
    by (simp_all add: demo_account_def validate_limits_def clean_count_def clean_period_def
        limits_set_unless_unlimited_def period_choices_def PERIODS_def)
  with limit_for_never_drops_a_limit [of demo_drf ?a] demo_drf_reads show ?thesis by blast
qed

text \<open>Validation lets one broken state through: a limited account with an empty period text
  passes although the empty text is none of the periods; its rate reads as \<open>100/\<close>, and choosing
  its limit never reports the account as half-filled.\<close>

theorem blank_period_passes_validation:
  "\<exists>a. validate_limits a \<and> \<not> unlimited a \<and> rate_limit_period a = Some '''' \<and>
       '''' \<notin> set period_choices \<and> rate_limit a = Inr (Some ''100/'') \<and>
       (\<forall>drf x. limit_for drf a \<noteq> Inl (Incomplete x))"
proof -
  let ?a = "demo_account\<lparr>rate_limit_period := Some ''''\<rparr>"
  have "str_int 100 = ''100''"
    by code_simp
  then have r: "rate_limit ?a = Inr (Some ''100/'')"
    by (simp add: demo_account_def rate_limit_def is_unlimited_def)
  then have "limit_for drf ?a \<noteq> Inl (Incomplete x)" for drf x
    by (simp add: limit_for_def split: sum.split)
  moreover have "validate_limits ?a" "\<not> unlimited ?a" "'''' \<notin> set period_choices"
    by (simp_all add: demo_account_def validate_limits_def clean_count_def clean_period_def
        limits_set_unless_unlimited_def period_choices_def PERIODS_def)
  ultimately show ?thesis using r by (intro exI [of _ ?a]) simp
qed

text \<open>When the account is over its limit, a submission that needs a new attempt fails with the
  limit's own refusal and makes nothing: no row, no stored file, no queued task, no claim.\<close>

theorem over_limit_submission_makes_nothing:
  assumes "up_name f \<noteq> ''''" and "reusable_attempt ver account (hash_file f) force w = None"
    and "fst (limit_like_check e l w) = Inl x"
  shows "(\<exists>n. get_or_create_from_upload e ver account f force (Some (limit_like_check e l)) others w =
              (Inl x, w\<lparr>ticks := n\<rparr>)) \<and>
         (\<exists>wait remaining at. x = SubmissionLimitReached wait remaining at)"
  using limit_like.refused_submission_keeps_world [OF assms] limit_like.check_refusal [OF assms(3)] by blast

theorem over_limit_submission_makes_nothing_witness:
  "\<exists>x n. get_or_create_from_upload demo_env demo_ver 7 \<lparr>up_name = ''b.pdf'', up_chunks = []\<rparr> False
     (Some (limit_like_check demo_env (Some demo_limit))) (\<lambda>w. w)
     (empty_world\<lparr>remediations := [demo_attempt ''other'']\<rparr>) =
     (Inl x, empty_world\<lparr>remediations := [demo_attempt ''other''], ticks := n\<rparr>)"
proof -
  let ?w = "empty_world\<lparr>remediations := [demo_attempt ''other'']\<rparr>" and ?f = "\<lparr>up_name = ''b.pdf'', up_chunks = []\<rparr>"
  obtain x where "fst (limit_like_check demo_env (Some demo_limit) ?w) = Inl x"
    using demo_limit_refuses [of ?w "''other''"] by (auto simp: empty_world_def)
  moreover have "length (hash_file ?f) = 64" by (simp add: hash_file_def)
  then have "hash_file ?f \<noteq> ''other''" by auto
  then have "reusable_attempt demo_ver 7 (hash_file ?f) False ?w = None"
    by (simp add: reusable_attempt_def latest_for_document_def attempts_for_def demo_attempt_def)
  ultimately show ?thesis
    using over_limit_submission_makes_nothing
      [of ?f demo_ver 7 False ?w demo_env "Some demo_limit" x "\<lambda>w. w"] by auto
qed

end
