(* ===== verification/Submit_Race.thy ===== *)
theory Submit_Race
  imports Submission_Limits
begin

text \<open>
  Concurrent submits of one account (\<open>get_or_create_from_upload\<close> with the limit's \<open>check\<close> as its
  hook), at the level of database statements: a request locks the account's row, counts, and then
  either gives up or inserts its attempt and commits.  Requests interleave freely and time passes
  between any two statements.  The lock alone keeps every window of the limit's length within the
  limit.
\<close>

section \<open>The step relation\<close>

text \<open>
  Where a request stands.  \<open>Admitted\<close> holds the lock and was let through; \<open>Inserted t\<close> has made its
  attempt at \<open>t\<close>, still invisible to the others; \<open>Done\<close> has committed, \<open>Refused\<close> rolled back.
\<close>

datatype phase = Waiting | Admitted | Inserted time | Done | Refused

record race =
  wall :: time
  lock :: "nat option"
  phases :: "nat \<Rightarrow> phase"
  committed :: "time list"

text \<open>The rows of the account that count at a moment.\<close>

definition counted :: "SubmissionLimit \<Rightarrow> time \<Rightarrow> time list \<Rightarrow> time list" where
  "counted l t ts = filter (\<lambda>c. t - seconds (duration l) \<le> c) ts"

inductive submit_step :: "SubmissionLimit \<Rightarrow> race \<Rightarrow> race \<Rightarrow> bool" for l where
  tick: "wall s \<le> t \<Longrightarrow> submit_step l s (s\<lparr>wall := t\<rparr>)"
| admit: "phases s i = Waiting \<Longrightarrow> lock s = None \<Longrightarrow>
     int (length (counted l (wall s) (committed s))) < num_requests l \<Longrightarrow>
     submit_step l s (s\<lparr>lock := Some i, phases := (phases s)(i := Admitted)\<rparr>)"
| refuse: "phases s i = Waiting \<Longrightarrow> lock s = None \<Longrightarrow>
     \<not> int (length (counted l (wall s) (committed s))) < num_requests l \<Longrightarrow>
     submit_step l s (s\<lparr>phases := (phases s)(i := Refused)\<rparr>)"
| insert: "phases s i = Admitted \<Longrightarrow>
     submit_step l s (s\<lparr>phases := (phases s)(i := Inserted (wall s))\<rparr>)"
| commit: "phases s i = Inserted t \<Longrightarrow>
     submit_step l s (s\<lparr>phases := (phases s)(i := Done), lock := None, committed := committed s @ [t]\<rparr>)"
| abort: "phases s i = Admitted \<or> phases s i = Inserted t \<Longrightarrow>
     submit_step l s (s\<lparr>phases := (phases s)(i := Refused), lock := None\<rparr>)"

inductive_cases submit_stepE: "submit_step l s s'"

inductive reachable :: "SubmissionLimit \<Rightarrow> time \<Rightarrow> race \<Rightarrow> bool" for l t0 where
  start: "reachable l t0 \<lparr>wall = t0, lock = None, phases = (\<lambda>_. Waiting), committed = []\<rparr>"
| step: "reachable l t0 s \<Longrightarrow> submit_step l s s' \<Longrightarrow> reachable l t0 s'"

text \<open>The step's admission condition is the model's \<open>check\<close> on the account's rows.\<close>

lemma admit_is_check:
  "int (length (counted l (clock e (ticks w))
     (map created_at (filter (\<lambda>r. service_account r = sl_account l) (remediations w))))) < num_requests l
   \<longleftrightarrow> fst (limit_check e l w) = Inr ()"
proof -
  have "length (counted l t (map created_at (filter q rows))) =
        length (filter (\<lambda>r. q r \<and> t - seconds (duration l) \<le> created_at r) rows)"
    for t q and rows :: "Remediation list"
    by (induction rows) (auto simp: counted_def)
  then show ?thesis
    by (auto simp: limit_check_def recent_submissions_eq submissions_since_def Let_def split: prod.split)
qed

section \<open>The window invariant\<close>

definition holds_lock :: "phase \<Rightarrow> bool" where
  "holds_lock p \<longleftrightarrow> p = Admitted \<or> (\<exists>t. p = Inserted t)"

text \<open>Every stretch of the period's length holds at most as many attempts as the limit allows.\<close>

definition windows_ok :: "SubmissionLimit \<Rightarrow> time list \<Rightarrow> bool" where
  "windows_ok l ts \<longleftrightarrow>
     (\<forall>x. int (length (filter (\<lambda>c. x \<le> c \<and> c \<le> x + seconds (duration l)) ts)) \<le> num_requests l)"

definition race_inv :: "SubmissionLimit \<Rightarrow> race \<Rightarrow> bool" where
  "race_inv l s \<longleftrightarrow>
     (\<forall>i. holds_lock (phases s i) \<longleftrightarrow> lock s = Some i) \<and>
     (\<forall>c \<in> set (committed s). c \<le> wall s) \<and>
     windows_ok l (committed s) \<and>
     (\<forall>i. phases s i = Admitted \<longrightarrow> int (length (counted l (wall s) (committed s))) < num_requests l) \<and>
     (\<forall>i t. phases s i = Inserted t \<longrightarrow>
        t \<le> wall s \<and> (\<forall>c \<in> set (committed s). c \<le> t) \<and>
        int (length (counted l t (committed s))) < num_requests l)"

lemma counted_antimono:
  assumes "t \<le> u"
  shows "length (counted l u ts) \<le> length (counted l t ts)"
proof -
  have "counted l u ts = filter (\<lambda>c. u - seconds (duration l) \<le> c) (counted l t ts)"
    unfolding counted_def filter_filter using assms by (intro filter_cong) auto
  then show ?thesis by simp
qed

text \<open>Adding an attempt that was counted in keeps every window within the limit.\<close>

lemma windows_ok_snoc:
  assumes "windows_ok l ts" and "\<forall>c \<in> set ts. c \<le> t" and "int (length (counted l t ts)) < num_requests l"
  shows "windows_ok l (ts @ [t])"
  unfolding windows_ok_def
proof
  fix x
  let ?in = "\<lambda>c. x \<le> c \<and> c \<le> x + seconds (duration l)"
  show "int (length (filter ?in (ts @ [t]))) \<le> num_requests l"
  proof (cases "?in t")
    case True
    have "filter ?in ts = filter ?in (counted l t ts)"
      unfolding counted_def filter_filter using True by (intro filter_cong) auto
    then have "length (filter ?in ts) \<le> length (counted l t ts)" by simp
    with True assms(3) show ?thesis by simp
  next
    case False
    with assms(1) show ?thesis by (auto simp: windows_ok_def)
  qed
qed

lemma submit_step_inv:
  assumes "submit_step l s s'" and "race_inv l s"
  shows "race_inv l s'"
  using assms(1)
proof cases
  case (tick t)
  then show ?thesis
    using assms(2) counted_antimono [OF tick(2), of l "committed s"]
    by (fastforce simp: race_inv_def)
next
  case (admit i)
  then show ?thesis using assms(2) by (auto simp: race_inv_def holds_lock_def)
next
  case (refuse i)
  then show ?thesis using assms(2) by (auto simp: race_inv_def holds_lock_def)
next
  case (insert i)
  then show ?thesis using assms(2) by (auto simp: race_inv_def holds_lock_def)
next
  case (commit i t)
  have lock: "lock s = Some i" and only: "\<And>j. j \<noteq> i \<Longrightarrow> \<not> holds_lock (phases s j)"
    using commit(2) assms(2) by (auto simp: race_inv_def holds_lock_def)
  have t: "t \<le> wall s" "\<forall>c \<in> set (committed s). c \<le> t" "int (length (counted l t (committed s))) < num_requests l"
    using commit(2) assms(2) by (auto simp: race_inv_def)
  have "windows_ok l (committed s @ [t])"
    using assms(2) t(2,3) by (intro windows_ok_snoc) (auto simp: race_inv_def)
  with commit(1) t(1) only assms(2) show ?thesis
    by (auto simp: race_inv_def holds_lock_def)
next
  case (abort i t)
  have only: "\<And>j. j \<noteq> i \<Longrightarrow> \<not> holds_lock (phases s j)"
    using abort(2) assms(2) by (auto simp: race_inv_def holds_lock_def)
  with abort(1) assms(2) show ?thesis by (auto simp: race_inv_def holds_lock_def)
qed

lemma reachable_inv:
  assumes "reachable l t0 s" and "0 \<le> num_requests l"
  shows "race_inv l s"
  using assms(1)
proof induction
  case start
  then show ?case using assms(2) by (simp add: race_inv_def holds_lock_def windows_ok_def)
next
  case (step s s')
  then show ?case using submit_step_inv by blast
qed


text \<open>A run: one request is let through and commits, and fills the limit of one an hour.\<close>

lemma demo_race:
  "reachable demo_limit 0 \<lparr>wall = 0, lock = None, phases = (\<lambda>_. Waiting)(1 := Done), committed = [0]\<rparr>"
proof -
  let ?s0 = "\<lparr>wall = 0, lock = None, phases = (\<lambda>_. Waiting), committed = []\<rparr> :: race"
  let ?s1 = "?s0\<lparr>lock := Some 1, phases := (phases ?s0)(1 := Admitted)\<rparr>"
  let ?s2 = "?s1\<lparr>phases := (phases ?s1)(1 := Inserted (wall ?s1))\<rparr>"
  let ?s3 = "?s2\<lparr>phases := (phases ?s2)(1 := Done), lock := None, committed := committed ?s2 @ [0]\<rparr>"
  have "submit_step demo_limit ?s0 ?s1" by (rule admit) (simp_all add: counted_def demo_limit_def)
  from step [OF start this] have r1: "reachable demo_limit 0 ?s1" .
  have "submit_step demo_limit ?s1 ?s2" by (rule insert) simp
  from step [OF r1 this] have r2: "reachable demo_limit 0 ?s2" .
  have "submit_step demo_limit ?s2 ?s3" by (rule commit) simp
  from step [OF r2 this] show ?thesis by simp
qed


end
