(* ===== verification/Throttle_Counter.thy ===== *)
theory Throttle_Counter
  imports Submission_Limits
begin

text \<open>
  \<^verbatim>\<open>api/models.py\<close> and \<^verbatim>\<open>api/services.py\<close>: the per-key counters behind the IP limits.  Each
  statement of \<open>hit\<close> is one operation on the table; \<open>hit\<close> itself takes what other requests do
  between its statements as an argument.  The statements refine a map from keys to windows, and
  the locale \<open>counter_store\<close> is what the throttles rely on.
\<close>

section \<open>The table and its statements\<close>

record ThrottleCounter =
  tc_key :: string
  tc_count :: int
  window_ends_at :: time

type_synonym counters = "ThrottleCounter list"

definition MAX_HIT_ATTEMPTS :: nat where
  "MAX_HIT_ATTEMPTS = 5"

definition EXPIRED_ROW_GRACE :: time where
  "EXPIRED_ROW_GRACE = seconds 3600"

record CounterReading =
  cr_count :: int
  cr_seconds_left :: int

definition live :: "string \<Rightarrow> time \<Rightarrow> ThrottleCounter \<Rightarrow> bool" where
  "live key t c \<longleftrightarrow> tc_key c = key \<and> t < window_ends_at c"

definition expired :: "string \<Rightarrow> time \<Rightarrow> ThrottleCounter \<Rightarrow> bool" where
  "expired key t c \<longleftrightarrow> tc_key c = key \<and> window_ends_at c \<le> t"

text \<open>The two conditional updates; the first component is the number of rows matched.\<close>

definition live_update :: "string \<Rightarrow> time \<Rightarrow> counters \<Rightarrow> nat \<times> counters" where
  "live_update key t rows =
     (length (filter (live key t) rows), update_rows (live key t) (\<lambda>c. c\<lparr>tc_count := tc_count c + 1\<rparr>) rows)"

definition expired_update :: "string \<Rightarrow> time \<Rightarrow> time \<Rightarrow> counters \<Rightarrow> nat \<times> counters" where
  "expired_update key t ends_at rows =
     (length (filter (expired key t) rows),
      update_rows (expired key t) (\<lambda>c. c\<lparr>tc_count := 1, window_ends_at := ends_at\<rparr>) rows)"

text \<open>\<open>objects.create\<close> on the unique key: \<open>None\<close> is the \<open>IntegrityError\<close>.\<close>

definition create_counter :: "string \<Rightarrow> time \<Rightarrow> counters \<Rightarrow> counters option" where
  "create_counter key ends_at rows =
     (if key \<in> set (map tc_key rows) then None
      else Some (rows @ [\<lparr>tc_key = key, tc_count = 1, window_ends_at = ends_at\<rparr>]))"

definition remove_old_rows :: "time \<Rightarrow> counters \<Rightarrow> counters" where
  "remove_old_rows t rows = filter (\<lambda>c. \<not> window_ends_at c < t - EXPIRED_ROW_GRACE) rows"

section \<open>Reading and hitting\<close>

text \<open>\<open>read\<close>, with its two clock readings.\<close>

definition read_at :: "string \<Rightarrow> time \<Rightarrow> time \<Rightarrow> counters \<Rightarrow> CounterReading" where
  "read_at key t t' rows =
     (case List.find (live key t) rows of
        None \<Rightarrow> \<lparr>cr_count = 0, cr_seconds_left = 0\<rparr>
      | Some c \<Rightarrow> \<lparr>cr_count = tc_count c, cr_seconds_left = max 0 (ceil_seconds (window_ends_at c - t'))\<rparr>)"

text \<open>
  The loop of \<open>hit\<close>.  \<open>others k\<close> is what other requests commit before the \<open>k\<close>-th statement.  The
  result is the number of statements run, or \<open>None\<close> when the attempts are used up.
\<close>

fun hit_loop ::
    "nat \<Rightarrow> (nat \<Rightarrow> counters \<Rightarrow> counters) \<Rightarrow> string \<Rightarrow> time \<Rightarrow> time \<Rightarrow> nat \<Rightarrow> counters \<Rightarrow> nat option \<times> counters" where
  "hit_loop 0 others key t ends_at k rows = (None, rows)"
| "hit_loop (Suc n) others key t ends_at k rows =
     (let (matched, rows1) = live_update key t (others k rows)
      in if matched \<noteq> 0 then (Some (Suc k), rows1)
         else let (matched, rows2) = expired_update key t ends_at (others (Suc k) rows1)
              in if matched \<noteq> 0 then (Some (Suc (Suc k)), rows2)
                 else let rows3 = others (Suc (Suc k)) rows2
                      in case create_counter key ends_at rows3 of
                           None \<Rightarrow> hit_loop n others key t ends_at (Suc (Suc (Suc k))) rows3
                         | Some rows4 \<Rightarrow>
                             (Some (k + 4), remove_old_rows t (others (Suc (Suc (Suc k))) rows4)))"

text \<open>\<open>hit\<close> reads the clock once before the loop and twice in the final \<open>read\<close>.\<close>

definition hit ::
    "(nat \<Rightarrow> counters \<Rightarrow> counters) \<Rightarrow> string \<Rightarrow> int \<Rightarrow> time \<Rightarrow> time \<Rightarrow> time \<Rightarrow> counters \<Rightarrow>
      (string + CounterReading) \<times> counters" where
  "hit others key window_seconds t t1 t2 rows =
     (case hit_loop MAX_HIT_ATTEMPTS others key t (t + seconds window_seconds) 0 rows of
        (None, rows1) \<Rightarrow> (Inl (''could not count a hit for '' @ key), rows1)
      | (Some k, rows1) \<Rightarrow> (let rows2 = others k rows1 in (Inr (read_at key t1 t2 rows2), rows2)))"

section \<open>The window map\<close>

text \<open>What the table means: each key's count and the end of its window.\<close>

definition window_of :: "counters \<Rightarrow> string \<Rightarrow> (int \<times> time) option" where
  "window_of rows key =
     map_option (\<lambda>c. (tc_count c, window_ends_at c)) (List.find (\<lambda>c. tc_key c = key) rows)"

text \<open>Counting a hit in the map: add to the running window, or start a new one.\<close>

definition spec_hit :: "string \<Rightarrow> time \<Rightarrow> time \<Rightarrow> (string \<rightharpoonup> int \<times> time) \<Rightarrow> (string \<rightharpoonup> int \<times> time)" where
  "spec_hit key t ends_at m =
     (case m key of
        Some (n, ends) \<Rightarrow> if t < ends then m(key \<mapsto> (n + 1, ends)) else m(key \<mapsto> (1, ends_at))
      | None \<Rightarrow> m(key \<mapsto> (1, ends_at)))"

text \<open>Dropping windows that ended long ago.\<close>

definition spec_clean :: "time \<Rightarrow> (string \<rightharpoonup> int \<times> time) \<Rightarrow> (string \<rightharpoonup> int \<times> time)" where
  "spec_clean t m key =
     (case m key of
        Some (n, ends) \<Rightarrow> if ends < t - EXPIRED_ROW_GRACE then None else Some (n, ends)
      | None \<Rightarrow> None)"

definition unique_keys :: "counters \<Rightarrow> bool" where
  "unique_keys rows \<longleftrightarrow> distinct (map tc_key rows)"

lemma window_of_Nil [simp]: "window_of [] key = None"
  by (simp add: window_of_def)

lemma window_of_Cons [simp]:
  "window_of (c # rows) key = (if tc_key c = key then Some (tc_count c, window_ends_at c) else window_of rows key)"
  by (simp add: window_of_def)

lemma window_of_None: "window_of rows key = None \<longleftrightarrow> key \<notin> set (map tc_key rows)"
  by (induction rows) auto

lemma window_of_notin [simp]: "key \<notin> tc_key ` set rows \<Longrightarrow> window_of rows key = None"
  by (simp add: window_of_None)

lemma window_of_append:
  "window_of (xs @ ys) key = (case window_of xs key of None \<Rightarrow> window_of ys key | Some v \<Rightarrow> Some v)"
  by (induction xs) auto

lemma live_rows:
  assumes "unique_keys rows"
  shows "filter (live key t) rows \<noteq> [] \<longleftrightarrow> (\<exists>n ends. window_of rows key = Some (n, ends) \<and> t < ends)"
    and "filter (expired key t) rows \<noteq> [] \<longleftrightarrow> (\<exists>n ends. window_of rows key = Some (n, ends) \<and> ends \<le> t)"
  using assms by (induction rows) (auto simp: unique_keys_def live_def expired_def filter_empty_conv window_of_None)

lemma window_of_live_update:
  assumes "unique_keys rows"
  shows "window_of (snd (live_update key t rows)) =
         (case window_of rows key of
            Some (n, ends) \<Rightarrow> if t < ends then (window_of rows)(key \<mapsto> (n + 1, ends)) else window_of rows
          | None \<Rightarrow> window_of rows)"
  using assms
  by (intro ext, induction rows)
    (auto simp: live_update_def update_rows_def live_def unique_keys_def split: option.splits if_splits)

lemma window_of_expired_update:
  assumes "unique_keys rows"
  shows "window_of (snd (expired_update key t ends_at rows)) =
         (case window_of rows key of
            Some (n, ends) \<Rightarrow> if ends \<le> t then (window_of rows)(key \<mapsto> (1, ends_at)) else window_of rows
          | None \<Rightarrow> window_of rows)"
  using assms
  by (intro ext, induction rows)
    (auto simp: expired_update_def update_rows_def expired_def unique_keys_def split: option.splits if_splits)

lemma window_of_create:
  "create_counter key ends_at rows = Some rows' \<Longrightarrow>
   window_of rows key = None \<and> window_of rows' = (window_of rows)(key \<mapsto> (1, ends_at))"
  by (auto simp: create_counter_def fun_eq_iff window_of_append split: if_splits option.splits)

lemma window_of_remove_old:
  assumes "unique_keys rows"
  shows "window_of (remove_old_rows t rows) = spec_clean t (window_of rows)"
  using assms
  by (intro ext, induction rows)
    (auto simp: remove_old_rows_def spec_clean_def unique_keys_def split: option.splits if_splits)

lemma unique_keys_statements:
  assumes "unique_keys rows"
  shows "unique_keys (snd (live_update key t rows))" and "unique_keys (snd (expired_update key t ends_at rows))"
    and "create_counter key ends_at rows = Some rows' \<Longrightarrow> unique_keys rows'" and "unique_keys (remove_old_rows t rows)"
  using assms
  by (auto simp: unique_keys_def live_update_def expired_update_def create_counter_def remove_old_rows_def
      map_update_rows_same distinct_map_filter split: if_splits)

section \<open>One request alone\<close>

lemma live_update_fst:
  assumes "unique_keys rows"
  shows "fst (live_update key t rows) \<noteq> 0 \<longleftrightarrow> (\<exists>n ends. window_of rows key = Some (n, ends) \<and> t < ends)"
    and "fst (live_update key t rows) = 0 \<Longrightarrow> snd (live_update key t rows) = rows"
proof -
  show "fst (live_update key t rows) \<noteq> 0 \<longleftrightarrow> (\<exists>n ends. window_of rows key = Some (n, ends) \<and> t < ends)"
    using live_rows(1) [OF assms, of key t] by (simp add: live_update_def)
  show "snd (live_update key t rows) = rows" if "fst (live_update key t rows) = 0"
    using that by (auto simp: live_update_def filter_empty_conv intro: update_rows_none)
qed

lemma expired_update_fst:
  assumes "unique_keys rows"
  shows "fst (expired_update key t ends_at rows) \<noteq> 0 \<longleftrightarrow> (\<exists>n ends. window_of rows key = Some (n, ends) \<and> ends \<le> t)"
    and "fst (expired_update key t ends_at rows) = 0 \<Longrightarrow> snd (expired_update key t ends_at rows) = rows"
proof -
  show "fst (expired_update key t ends_at rows) \<noteq> 0 \<longleftrightarrow> (\<exists>n ends. window_of rows key = Some (n, ends) \<and> ends \<le> t)"
    using live_rows(2) [OF assms, of key t] by (simp add: expired_update_def)
  show "snd (expired_update key t ends_at rows) = rows" if "fst (expired_update key t ends_at rows) = 0"
    using that by (auto simp: expired_update_def filter_empty_conv intro: update_rows_none)
qed

lemma hit_loop_alone:
  assumes "unique_keys rows"
  shows "\<exists>k rows'. hit_loop (Suc n) (\<lambda>_ r. r) key t ends_at 0 rows = (Some k, rows') \<and> unique_keys rows' \<and>
     window_of rows' = (if window_of rows key = None then spec_clean t else (\<lambda>m. m)) (spec_hit key t ends_at (window_of rows))"
proof -
  note lu = live_update_fst [OF assms, of key t] and eu = expired_update_fst [OF assms, of key t ends_at]
  note uk = unique_keys_statements [OF assms]
  consider (live) m ends where "window_of rows key = Some (m, ends)" "t < ends"
    | (expired) m ends where "window_of rows key = Some (m, ends)" "ends \<le> t"
    | (absent) "window_of rows key = None" by (cases "window_of rows key") force+
  then show ?thesis
  proof cases
    case live
    with lu window_of_live_update [OF assms, of key t] uk(1) [of key t] show ?thesis
      by (simp add: Let_def case_prod_beta spec_hit_def)
  next
    case expired
    with lu eu window_of_expired_update [OF assms, of key t ends_at] uk(2) [of key t ends_at] show ?thesis
      by (simp add: Let_def case_prod_beta spec_hit_def)
  next
    case absent
    then obtain rows4 where c: "create_counter key ends_at rows = Some rows4"
      by (auto simp: create_counter_def window_of_None)
    with absent lu eu window_of_create [OF c] uk(3) [OF c] window_of_remove_old [of rows4 t]
      unique_keys_statements(4) [of rows4 t] show ?thesis
      by (simp add: Let_def case_prod_beta spec_hit_def)
  qed
qed



section \<open>Among other requests\<close>

text \<open>
  What another request does in one statement, seen from a hit that started at \<open>t\<close>: its own clock
  is less than a window behind (the window it would start ends after \<open>t\<close>) and no more than the
  grace period ahead.
\<close>

inductive other_statement :: "time \<Rightarrow> counters \<Rightarrow> counters \<Rightarrow> bool" for t where
  "other_statement t rows (snd (live_update key t' rows))"
| "t < ends \<Longrightarrow> other_statement t rows (snd (expired_update key t' ends rows))"
| "t < ends \<Longrightarrow> create_counter key ends rows = Some rows' \<Longrightarrow> other_statement t rows rows'"
| "t' \<le> t + EXPIRED_ROW_GRACE \<Longrightarrow> other_statement t rows (remove_old_rows t' rows)"

definition is_live :: "string \<Rightarrow> time \<Rightarrow> counters \<Rightarrow> bool" where
  "is_live key t rows \<longleftrightarrow> (\<exists>n ends. window_of rows key = Some (n, ends) \<and> t < ends)"

definition rely :: "string \<Rightarrow> time \<Rightarrow> counters \<Rightarrow> counters \<Rightarrow> bool" where
  "rely key t rows rows' \<longleftrightarrow>
     unique_keys rows' \<and> (is_live key t rows \<longrightarrow> is_live key t rows') \<and>
     (window_of rows key = None \<longrightarrow> window_of rows' key = None \<or> is_live key t rows')"

lemma other_statement_rely:
  assumes "other_statement t rows rows'" and "unique_keys rows"
  shows "rely key t rows rows'"
  using assms
  by cases
    (auto simp: rely_def is_live_def unique_keys_statements window_of_live_update window_of_expired_update
      window_of_remove_old spec_clean_def dest: window_of_create split: option.splits if_splits)

lemma other_statements_rely:
  assumes "(other_statement t)\<^sup>*\<^sup>* rows rows'" and "unique_keys rows"
  shows "rely key t rows rows'"
  using assms(1)
proof induction
  case base
  then show ?case using assms(2) by (auto simp: rely_def)
next
  case (step y z)
  then show ?case using other_statement_rely [of t y z key] by (auto simp: rely_def is_live_def)
qed

lemma hit_loop_live:
  assumes "is_live key t rows" and "unique_keys rows"
    and "\<And>k rows. unique_keys rows \<Longrightarrow> rely key t rows (others k rows)"
  shows "\<exists>rows'. hit_loop (Suc n) others key t ends_at k rows = (Some (Suc k), rows')"
proof -
  have "is_live key t (others k rows)" "unique_keys (others k rows)"
    using assms(3) [OF assms(2), of k] assms(1) by (auto simp: rely_def)
  with live_update_fst(1) [of "others k rows" key t] show ?thesis
    by (auto simp: is_live_def Let_def split: prod.splits)
qed

lemma hit_loop_two_rounds:
  assumes "unique_keys rows" and rely: "\<And>k rows. unique_keys rows \<Longrightarrow> rely key t rows (others k rows)"
  shows "\<exists>k' rows'. hit_loop (Suc (Suc n)) others key t ends_at k rows = (Some k', rows') \<and> k' \<le> k + 4"
proof -
  let ?r0 = "others k rows"
  let ?r1 = "snd (live_update key t ?r0)"
  have u0: "unique_keys ?r0" using rely [OF assms(1)] by (simp add: rely_def)
  show ?thesis
  proof (cases "fst (live_update key t ?r0) = 0")
    case False
    then show ?thesis by (auto simp: Let_def split: prod.splits)
  next
    case lost: True
    let ?r2 = "others (Suc k) ?r1"
    have u2: "unique_keys ?r2" using rely [OF unique_keys_statements(1) [OF u0]] by (simp add: rely_def)
    show ?thesis
    proof (cases "fst (expired_update key t ends_at ?r2) = 0")
      case False
      with lost show ?thesis by (auto simp: Let_def split: prod.splits)
    next
      case True
      note same = expired_update_fst(2) [OF u2 True]
      let ?r3 = "others (Suc (Suc k)) ?r2"
      have u3: "unique_keys ?r3" using rely [OF u2] by (simp add: rely_def)
      have "window_of ?r2 key = None \<or> is_live key t ?r2"
        using expired_update_fst(1) [OF u2, of key t ends_at] True
        by (cases "window_of ?r2 key") (auto simp: is_live_def not_le)
      then have r3: "window_of ?r3 key = None \<or> is_live key t ?r3"
        using rely [OF u2, of "Suc (Suc k)"] by (auto simp: rely_def)
      show ?thesis
      proof (cases "create_counter key ends_at ?r3")
        case None
        then have "is_live key t ?r3" using r3 by (auto simp: create_counter_def window_of_None split: if_splits)
        from hit_loop_live [where others = others and n = n and ends_at = ends_at and k = "Suc (Suc (Suc k))", OF this u3 rely]
          None lost True same show ?thesis
          by (auto simp: Let_def case_prod_beta simp del: hit_loop.simps(2) simp: hit_loop.simps(2) [of "Suc n"])
      next
        case (Some rows4)
        with lost True same show ?thesis by (auto simp: Let_def case_prod_beta)
      qed
    qed
  qed
qed

text \<open>However many other requests work on the counters between the statements of a hit, the hit
  is counted in at most two rounds (four statements), so the five attempts are never used up and
  the error is never raised.\<close>

theorem hit_never_gives_up:
  assumes "unique_keys rows"
    and "\<forall>k rows. unique_keys rows \<longrightarrow> (other_statement t)\<^sup>*\<^sup>* rows (others k rows)"
  shows "(\<exists>reading rows'. hit others key window_seconds t t1 t2 rows = (Inr reading, rows')) \<and>
         (\<exists>k rows'. hit_loop 2 others key t (t + seconds window_seconds) 0 rows = (Some k, rows') \<and> k \<le> 4)"
proof -
  have rely: "rely key t rows (others k rows)" if "unique_keys rows" for k rows
    using assms(2) that other_statements_rely by blast
  have "MAX_HIT_ATTEMPTS = Suc (Suc 3)" by (simp add: MAX_HIT_ATTEMPTS_def)
  with hit_loop_two_rounds [where others = others and n = 3 and k = 0, OF assms(1) rely, of "t + seconds window_seconds"]
  have "\<exists>reading rows'. hit others key window_seconds t t1 t2 rows = (Inr reading, rows')"
    by (auto simp: hit_def Let_def simp del: hit_loop.simps)
  moreover have "\<exists>k rows'. hit_loop 2 others key t (t + seconds window_seconds) 0 rows = (Some k, rows') \<and> k \<le> 4"
    using hit_loop_two_rounds [where others = others and n = 0 and k = 0, OF assms(1) rely, of "t + seconds window_seconds"]
    by (simp add: numeral_2_eq_2)
  ultimately show ?thesis by blast
qed

theorem hit_never_gives_up_witness:
  "\<exists>reading rows'. hit (\<lambda>k rows. snd (live_update ''k'' 5 rows)) ''k'' 60 0 1 2 [] = (Inr reading, rows')"
proof -
  have "unique_keys []" by (simp add: unique_keys_def)
  moreover have "\<forall>k rows. unique_keys rows \<longrightarrow> (other_statement 0)\<^sup>*\<^sup>* rows (snd (live_update ''k'' 5 rows))"
    by (auto intro: other_statement.intros)
  ultimately show ?thesis
    using hit_never_gives_up [of "[]" 0 "\<lambda>k rows. snd (live_update ''k'' 5 rows)" "''k''" 60 1 2] by simp
qed

end
