(* ===== verification/Throttle_Race.thy ===== *)
theory Throttle_Race
  imports Throttle_Counter
begin

text \<open>
  Many requests hitting one key at once, at the level of the statements of \<open>hit\<close>: the example of
  its docstring, for any number of requests and any interleaving.  No hit is lost and none is
  counted twice.
\<close>

section \<open>The step relation\<close>

text \<open>The statement a request runs next; \<open>AtClean\<close> and \<open>Counted\<close> have counted their hit.\<close>

datatype hit_phase = AtLive | AtExpired | AtCreate | AtClean | Counted

record hit_race =
  table :: counters
  at :: "nat \<Rightarrow> hit_phase"

text \<open>Request \<open>i\<close> started at \<open>t i\<close>; all of them count \<open>key\<close> in windows of \<open>window\<close> seconds.\<close>

inductive hit_step :: "string \<Rightarrow> int \<Rightarrow> (nat \<Rightarrow> time) \<Rightarrow> nat set \<Rightarrow> hit_race \<Rightarrow> hit_race \<Rightarrow> bool"
  for key window t requests where
  live_hit: "i \<in> requests \<Longrightarrow> at s i = AtLive \<Longrightarrow> live_update key (t i) (table s) = (n, rows) \<Longrightarrow>
     hit_step key window t requests s
       (s\<lparr>table := rows, at := (at s)(i := if n \<noteq> 0 then Counted else AtExpired)\<rparr>)"
| expired_hit: "i \<in> requests \<Longrightarrow> at s i = AtExpired \<Longrightarrow>
     expired_update key (t i) (t i + seconds window) (table s) = (n, rows) \<Longrightarrow>
     hit_step key window t requests s
       (s\<lparr>table := rows, at := (at s)(i := if n \<noteq> 0 then Counted else AtCreate)\<rparr>)"
| created: "i \<in> requests \<Longrightarrow> at s i = AtCreate \<Longrightarrow>
     create_counter key (t i + seconds window) (table s) = Some rows \<Longrightarrow>
     hit_step key window t requests s (s\<lparr>table := rows, at := (at s)(i := AtClean)\<rparr>)"
| clash: "i \<in> requests \<Longrightarrow> at s i = AtCreate \<Longrightarrow>
     create_counter key (t i + seconds window) (table s) = None \<Longrightarrow>
     hit_step key window t requests s (s\<lparr>at := (at s)(i := AtLive)\<rparr>)"
| cleaned: "i \<in> requests \<Longrightarrow> at s i = AtClean \<Longrightarrow>
     hit_step key window t requests s
       (s\<lparr>table := remove_old_rows (t i) (table s), at := (at s)(i := Counted)\<rparr>)"

inductive hit_reachable ::
    "string \<Rightarrow> int \<Rightarrow> (nat \<Rightarrow> time) \<Rightarrow> nat set \<Rightarrow> counters \<Rightarrow> hit_race \<Rightarrow> bool"
  for key window t requests rows where
  hit_start: "hit_reachable key window t requests rows \<lparr>table = rows, at = (\<lambda>_. AtLive)\<rparr>"
| hit_next: "hit_reachable key window t requests rows s \<Longrightarrow> hit_step key window t requests s s' \<Longrightarrow>
     hit_reachable key window t requests rows s'"

section \<open>Counting exactly\<close>

definition counted_hits :: "nat set \<Rightarrow> hit_race \<Rightarrow> nat set" where
  "counted_hits requests s = {i \<in> requests. at s i \<in> {AtClean, Counted}}"

text \<open>All requests fall into one window: each of them starts before any window another would open ends.\<close>

definition one_window :: "int \<Rightarrow> (nat \<Rightarrow> time) \<Rightarrow> nat set \<Rightarrow> bool" where
  "one_window window t requests \<longleftrightarrow> (\<forall>i \<in> requests. \<forall>j \<in> requests. t i < t j + seconds window)"

definition hit_inv :: "string \<Rightarrow> int \<Rightarrow> (nat \<Rightarrow> time) \<Rightarrow> nat set \<Rightarrow> hit_race \<Rightarrow> bool" where
  "hit_inv key window t requests s \<longleftrightarrow>
     unique_keys (table s) \<and>
     (case window_of (table s) key of
        None \<Rightarrow> counted_hits requests s = {}
      | Some (n, ends) \<Rightarrow>
          (\<forall>i \<in> requests. t i < ends) \<and> n = int (card (counted_hits requests s)) \<or>
          (\<forall>i \<in> requests. ends \<le> t i) \<and> counted_hits requests s = {})"

lemma counted_hits_upd:
  assumes "finite requests" and "i \<in> requests" and "at s i \<notin> {AtClean, Counted}"
  shows "p \<in> {AtClean, Counted} \<Longrightarrow>
         card (counted_hits requests (s\<lparr>table := rows, at := (at s)(i := p)\<rparr>)) = Suc (card (counted_hits requests s))"
    and "p \<notin> {AtClean, Counted} \<Longrightarrow>
         counted_hits requests (s\<lparr>table := rows, at := (at s)(i := p)\<rparr>) = counted_hits requests s"
proof -
  have "counted_hits requests (s\<lparr>table := rows, at := (at s)(i := p)\<rparr>) = insert i (counted_hits requests s)"
    if "p \<in> {AtClean, Counted}"
    using that assms(2,3) by (auto simp: counted_hits_def)
  moreover have "i \<notin> counted_hits requests s" and "finite (counted_hits requests s)"
    using assms by (auto simp: counted_hits_def)
  ultimately show "p \<in> {AtClean, Counted} \<Longrightarrow>
      card (counted_hits requests (s\<lparr>table := rows, at := (at s)(i := p)\<rparr>)) = Suc (card (counted_hits requests s))"
    by simp
  show "p \<notin> {AtClean, Counted} \<Longrightarrow>
      counted_hits requests (s\<lparr>table := rows, at := (at s)(i := p)\<rparr>) = counted_hits requests s"
    using assms(3) by (auto simp: counted_hits_def)
qed

lemma hit_step_inv:
  assumes "hit_step key window t requests s s'" and "hit_inv key window t requests s"
    and "finite requests" and "one_window window t requests"
  shows "hit_inv key window t requests s'"
  using assms(1)
proof cases
  case (live_hit i n rows)
  have u: "unique_keys (table s)" using assms(2) by (simp add: hit_inv_def)
  note up = window_of_live_update [OF u, of key "t i"] unique_keys_statements(1) [OF u, of key "t i"]
    live_update_fst [OF u, of key "t i"] live_hit(4)
  note card = counted_hits_upd [OF assms(3) live_hit(2), of s _ rows]
  show ?thesis
  proof (cases "n = 0")
    case True
    with up have "rows = table s" by simp
    with True card(2) live_hit assms(2) show ?thesis by (auto simp: hit_inv_def split: option.splits)
  next
    case False
    with up obtain m ends where w: "window_of (table s) key = Some (m, ends)" "t i < ends" by auto
    with assms(2) live_hit(2) have "\<forall>j \<in> requests. t j < ends" "m = int (card (counted_hits requests s))"
      by (force simp: hit_inv_def)+
    with False w up card(1) live_hit show ?thesis by (simp add: hit_inv_def)
  qed
next
  case (expired_hit i n rows)
  have u: "unique_keys (table s)" using assms(2) by (simp add: hit_inv_def)
  let ?ends = "t i + seconds window"
  note up = window_of_expired_update [OF u, of key "t i" ?ends] unique_keys_statements(2) [OF u, of key "t i" ?ends]
    expired_update_fst [OF u, of key "t i" ?ends] expired_hit(4)
  note card = counted_hits_upd [OF assms(3) expired_hit(2), of s _ rows]
  show ?thesis
  proof (cases "n = 0")
    case True
    with up have "rows = table s" by simp
    with True card(2) expired_hit assms(2) show ?thesis by (auto simp: hit_inv_def split: option.splits)
  next
    case False
    with up obtain m ends where w: "window_of (table s) key = Some (m, ends)" "ends \<le> t i" by auto
    with assms(2) expired_hit(2) have "counted_hits requests s = {}" by (force simp: hit_inv_def)
    moreover have "\<forall>j \<in> requests. t j < ?ends" using assms(4) expired_hit(2) by (simp add: one_window_def)
    ultimately show ?thesis using False w up card(1) expired_hit by (simp add: hit_inv_def)
  qed
next
  case (created i rows)
  have u: "unique_keys (table s)" using assms(2) by (simp add: hit_inv_def)
  note new = window_of_create [OF created(4)]
  have "counted_hits requests s = {}" using assms(2) new by (simp add: hit_inv_def)
  moreover have "\<forall>j \<in> requests. t j < t i + seconds window" using assms(4) created(2) by (simp add: one_window_def)
  ultimately show ?thesis
    using counted_hits_upd(1) [OF assms(3) created(2), of s AtClean rows] created new
      unique_keys_statements(3) [OF u created(4)] by (simp add: hit_inv_def)
next
  case (clash i)
  then show ?thesis
    using assms(2) counted_hits_upd(2) [OF assms(3) clash(2), of s AtLive "table s"]
    by (auto simp: hit_inv_def split: option.splits)
next
  case (cleaned i)
  have u: "unique_keys (table s)" using assms(2) by (simp add: hit_inv_def)
  have same: "counted_hits requests s' = counted_hits requests s" and some: "counted_hits requests s \<noteq> {}"
    using cleaned by (auto simp: counted_hits_def)
  with assms(2) obtain n ends where w: "window_of (table s) key = Some (n, ends)"
    "\<forall>j \<in> requests. t j < ends" "n = int (card (counted_hits requests s))"
    by (auto simp: hit_inv_def split: option.splits)
  have "\<not> ends < t i - EXPIRED_ROW_GRACE" using w(2) cleaned(2) by (force simp: EXPIRED_ROW_GRACE_def seconds_def)
  with w same cleaned window_of_remove_old [OF u, of "t i"] unique_keys_statements(4) [OF u, of "t i"] show ?thesis
    by (simp add: hit_inv_def spec_clean_def)
qed

lemma hit_reachable_inv:
  assumes "hit_reachable key window t requests rows s" and "unique_keys rows" and "finite requests"
    and "one_window window t requests"
    and "\<forall>n ends. window_of rows key = Some (n, ends) \<longrightarrow> (\<forall>i \<in> requests. ends \<le> t i)"
  shows "hit_inv key window t requests s"
  using assms(1)
proof induction
  case hit_start
  then show ?case using assms(2,5) by (auto simp: hit_inv_def counted_hits_def split: option.split)
next
  case (hit_next s s')
  then show ?case using hit_step_inv assms(3,4) by blast
qed


text \<open>Two requests on a new key: the second loses the race to create the row and adds to it instead.\<close>

lemma demo_hits:
  "hit_reachable ''k'' 60 (\<lambda>_. 0) {0, 1} []
     \<lparr>table = [\<lparr>tc_key = ''k'', tc_count = 2, window_ends_at = 60000000\<rparr>],
      at = (\<lambda>_. AtLive)(0 := Counted, 1 := Counted)\<rparr>"
proof -
  let ?reach = "hit_reachable ''k'' 60 (\<lambda>_. 0) {0, 1 :: nat} []"
  let ?row = "\<lambda>n. \<lparr>tc_key = ''k'', tc_count = n, window_ends_at = 60000000\<rparr>"
  have r0: "?reach \<lparr>table = [], at = (\<lambda>_. AtLive)\<rparr>" by (rule hit_start)
  have r1: "?reach \<lparr>table = [], at = (\<lambda>_. AtLive)(0 := AtExpired)\<rparr>"
    using hit_next [OF r0 live_hit [of 0 _ _ "''k''" "\<lambda>_. 0" 0 "[]"]] by (simp add: live_update_def update_rows_def)
  have r2: "?reach \<lparr>table = [], at = (\<lambda>_. AtLive)(0 := AtCreate)\<rparr>"
    using hit_next [OF r1 expired_hit [of 0 _ _ "''k''" "\<lambda>_. 0" _ 0 "[]"]] by (simp add: expired_update_def update_rows_def)
  have r3: "?reach \<lparr>table = [?row 1], at = (\<lambda>_. AtLive)(0 := AtClean)\<rparr>"
    using hit_next [OF r2 created [of 0 _ _ "''k''" "\<lambda>_. 0" _ "[?row 1]"]] by (simp add: create_counter_def seconds_def)
  have r4: "?reach \<lparr>table = [?row 1], at = (\<lambda>_. AtLive)(0 := Counted)\<rparr>"
    using hit_next [OF r3 cleaned [of 0]] by (simp add: remove_old_rows_def EXPIRED_ROW_GRACE_def seconds_def)
  show ?thesis
    using hit_next [OF r4 live_hit [of 1 _ _ "''k''" "\<lambda>_. 0" 1 "[?row 2]"]]
    by (simp add: live_update_def update_rows_def live_def)
qed


end
