(* ===== verification/Ip_Address.thy ===== *)
theory Ip_Address
  imports Dice_Prelude
begin

text \<open>
  What the code uses of Python's \<open>ipaddress\<close>: reading and writing addresses (a scope after \<open>%\<close>
  included), the IPv4 address inside an IPv4-mapped one, networks and membership.  An address is
  kept as its octets or hextets.  The main lemma is that an address survives its text form.
\<close>

section \<open>Splitting\<close>

text \<open>Python's \<open>text.split(sep)\<close> for a one-character separator.\<close>

fun split_char :: "char \<Rightarrow> string \<Rightarrow> string list" where
  "split_char sep [] = [[]]"
| "split_char sep (c # s) =
     (if c = sep then [] # split_char sep s
      else case split_char sep s of p # ps \<Rightarrow> (c # p) # ps | [] \<Rightarrow> [[c]])"

definition is_space :: "char \<Rightarrow> bool" where
  "is_space c \<longleftrightarrow> (let n = (of_char c :: nat) in 9 \<le> n \<and> n \<le> 13 \<or> 28 \<le> n \<and> n \<le> 32 \<or> n = 133 \<or> n = 160)"

definition strip :: "string \<Rightarrow> string" where
  "strip s = rev (dropWhile is_space (rev (dropWhile is_space s)))"

lemma split_char_nonempty [simp]: "split_char sep s \<noteq> []"
  by (cases s) (auto split: list.split)

lemma split_char_no_sep: "sep \<notin> set s \<Longrightarrow> split_char sep s = [s]"
  by (induction s) auto

lemma split_char_append: "sep \<notin> set s \<Longrightarrow> split_char sep (s @ sep # t) = s # split_char sep t"
  by (induction s) auto

lemma split_char_join:
  "ps \<noteq> [] \<Longrightarrow> \<forall>p \<in> set ps. sep \<notin> set p \<Longrightarrow> split_char sep (join [sep] ps) = ps"
  by (induction "[sep]" ps rule: join.induct)
    (auto simp: split_char_no_sep split_char_append)

section \<open>Addresses\<close>

datatype ip = IPv4 "nat list" | IPv6 "nat list" "string option"

fun ip_ok :: "ip \<Rightarrow> bool" where
  "ip_ok (IPv4 os) \<longleftrightarrow> length os = 4 \<and> (\<forall>n \<in> set os. n < 256)"
| "ip_ok (IPv6 hs scope) \<longleftrightarrow> length hs = 8 \<and> (\<forall>n \<in> set hs. n < 65536) \<and>
     (\<forall>s. scope = Some s \<longrightarrow> s \<noteq> [] \<and> CHR ''%'' \<notin> set s \<and> CHR ''/'' \<notin> set s)"

definition parse_octet :: "string \<Rightarrow> nat option" where
  "parse_octet s =
     (if s = '''' \<or> (\<exists>c \<in> set s. \<not> is_digit c) \<or> 3 < length s \<or> (s \<noteq> ''0'' \<and> hd s = CHR ''0'') then None
      else if digits_value s \<le> 255 then Some (digits_value s) else None)"

fun all_some :: "'a option list \<Rightarrow> 'a list option" where
  "all_some [] = Some []"
| "all_some (x # xs) = (case x of None \<Rightarrow> None | Some v \<Rightarrow> map_option ((#) v) (all_some xs))"

definition parse_ipv4 :: "string \<Rightarrow> nat list option" where
  "parse_ipv4 s =
     (let octets = split_char (CHR ''.'') s
      in if length octets \<noteq> 4 then None else all_some (map parse_octet octets))"

definition hex_value :: "char \<Rightarrow> nat option" where
  "hex_value c =
     (let n = (of_char c :: nat)
      in if 48 \<le> n \<and> n \<le> 57 then Some (n - 48)
         else if 97 \<le> n \<and> n \<le> 102 then Some (n - 87)
         else if 65 \<le> n \<and> n \<le> 70 then Some (n - 55) else None)"

definition parse_hextet :: "string \<Rightarrow> nat option" where
  "parse_hextet s =
     (if s = '''' \<or> 4 < length s then None
      else map_option (foldl (\<lambda>n d. 16 * n + d) 0) (all_some (map hex_value s)))"

text \<open>\<open>'%x' % n\<close>.\<close>

definition low_hex :: "nat \<Rightarrow> char" where
  "low_hex d = char_of (if d < 10 then 48 + d else 87 + d)"

fun str_hex :: "nat \<Rightarrow> string" where
  "str_hex n = (if n < 16 then [low_hex n] else str_hex (n div 16) @ [low_hex (n mod 16)])"

declare str_hex.simps [simp del]

text \<open>The parts of an IPv6 text after a trailing IPv4 part has been rewritten as two hextets.\<close>

definition v4_suffix :: "string list \<Rightarrow> string list option" where
  "v4_suffix parts =
     (if CHR ''.'' \<notin> set (last parts) then Some parts
      else case parse_ipv4 (last parts) of
             Some [a, b, c, d] \<Rightarrow> Some (butlast parts @ [str_hex (256 * a + b), str_hex (256 * c + d)])
           | _ \<Rightarrow> None)"

text \<open>The positions of empty parts other than the two ends.\<close>

definition inner_gaps :: "string list \<Rightarrow> nat list" where
  "inner_gaps parts = filter (\<lambda>i. parts ! i = '''') [1 ..< length parts - 1]"

definition parse_parts :: "string list \<Rightarrow> nat list option" where
  "parse_parts parts =
     (if 9 < length parts then None
      else case inner_gaps parts of
             [] \<Rightarrow> if length parts \<noteq> 8 then None else all_some (map parse_hextet parts)
           | [skip] \<Rightarrow>
               (let hi = (if hd parts = '''' then skip - 1 else skip);
                    lo = (if last parts = '''' then length parts - skip - 2 else length parts - skip - 1)
                in if hd parts = '''' \<and> hi \<noteq> 0 \<or> last parts = '''' \<and> lo \<noteq> 0 \<or> 8 \<le> hi + lo then None
                   else case (all_some (map parse_hextet (take hi parts)),
                              all_some (map parse_hextet (drop (length parts - lo) parts))) of
                          (Some front, Some back) \<Rightarrow> Some (front @ replicate (8 - (hi + lo)) 0 @ back)
                        | _ \<Rightarrow> None)
           | _ \<Rightarrow> None)"

definition parse_ipv6_int :: "string \<Rightarrow> nat list option" where
  "parse_ipv6_int s =
     (let parts = split_char (CHR '':'') s
      in if length parts < 3 then None
         else case v4_suffix parts of None \<Rightarrow> None | Some parts' \<Rightarrow> parse_parts parts')"

definition parse_ipv6 :: "string \<Rightarrow> ip option" where
  "parse_ipv6 s =
     (if CHR ''/'' \<in> set s then None
      else let addr = takeWhile (\<lambda>c. c \<noteq> CHR ''%'') s; rest = dropWhile (\<lambda>c. c \<noteq> CHR ''%'') s
           in if rest = '''' then map_option (\<lambda>hs. IPv6 hs None) (parse_ipv6_int addr)
              else if tl rest = '''' \<or> CHR ''%'' \<in> set (tl rest) then None
              else map_option (\<lambda>hs. IPv6 hs (Some (tl rest))) (parse_ipv6_int addr))"

definition ip_address :: "string \<Rightarrow> ip option" where
  "ip_address s = (case parse_ipv4 s of Some os \<Rightarrow> Some (IPv4 os) | None \<Rightarrow> parse_ipv6 s)"

section \<open>Writing\<close>

definition str_ipv4 :: "nat list \<Rightarrow> string" where
  "str_ipv4 os = join ''.'' (map str_nat os)"

text \<open>
  \<open>_compress_hextets\<close>: the loop that finds the longest run of zeros, the first of the longest ones.
  Its variables: the best run so far, the current run (start and length).
\<close>

fun longest_zeros :: "nat \<Rightarrow> nat \<times> nat \<Rightarrow> nat \<times> nat \<Rightarrow> nat list \<Rightarrow> nat \<times> nat" where
  "longest_zeros i best cur [] = best"
| "longest_zeros i (bs, bl) (cs, cl) (h # hs) =
     (if h = 0
      then let start = (if cl = 0 then i else cs); len = cl + 1
           in longest_zeros (i + 1) (if bl < len then (start, len) else (bs, bl)) (start, len) hs
      else longest_zeros (i + 1) (bs, bl) (0, 0) hs)"

definition compress_hextets :: "nat list \<Rightarrow> string list" where
  "compress_hextets hs =
     (let (start, len) = longest_zeros 0 (0, 0) (0, 0) hs; parts = map str_hex hs
      in if len \<le> 1 then parts
         else (if start = 0 then [''''] else []) @ take start parts @ [''''] @ drop (start + len) parts
              @ (if start + len = length hs then [''''] else []))"

fun str_ip :: "ip \<Rightarrow> string" where
  "str_ip (IPv4 os) = str_ipv4 os"
| "str_ip (IPv6 hs scope) =
     join '':'' (compress_hextets hs) @ (case scope of None \<Rightarrow> '''' | Some s \<Rightarrow> ''%'' @ s)"

section \<open>Mapped addresses and networks\<close>

fun ipv4_mapped :: "ip \<Rightarrow> nat list option" where
  "ipv4_mapped (IPv4 os) = None"
| "ipv4_mapped (IPv6 hs scope) =
     (if take 6 hs = [0, 0, 0, 0, 0, 65535]
      then Some [hs ! 6 div 256, hs ! 6 mod 256, hs ! 7 div 256, hs ! 7 mod 256] else None)"

text \<open>
  \<open>ip_network(f"{ip}/64", strict=False).network_address\<close>: when the host part is already 0 the address
  is kept as it is, scope included; otherwise it is made anew without one.
\<close>

definition network_64 :: "nat list \<Rightarrow> string option \<Rightarrow> ip" where
  "network_64 hs scope =
     (if drop 4 hs = [0, 0, 0, 0] then IPv6 hs scope else IPv6 (take 4 hs @ [0, 0, 0, 0]) None)"

definition base_value :: "nat \<Rightarrow> nat list \<Rightarrow> nat" where
  "base_value b ds = foldl (\<lambda>n d. b * n + d) 0 ds"

text \<open>A network as its address and prefix length.\<close>

fun in_network :: "ip \<Rightarrow> ip \<times> nat \<Rightarrow> bool" where
  "in_network (IPv4 os) (IPv4 ns, p) \<longleftrightarrow> base_value 256 os div 2 ^ (32 - p) = base_value 256 ns div 2 ^ (32 - p)"
| "in_network (IPv6 hs s) (IPv6 ns s', p) \<longleftrightarrow>
     base_value 65536 hs div 2 ^ (128 - p) = base_value 65536 ns div 2 ^ (128 - p)"
| "in_network a n \<longleftrightarrow> False"

fun network_width :: "ip \<Rightarrow> nat" where
  "network_width (IPv4 os) = 32"
| "network_width (IPv6 hs s) = 128"

fun network_value :: "ip \<Rightarrow> nat" where
  "network_value (IPv4 os) = base_value 256 os"
| "network_value (IPv6 hs s) = base_value 65536 hs"

text \<open>\<open>ip_network(cidr)\<close> for text of the form address/length; \<open>None\<close> where it raises.\<close>

definition ip_network :: "string \<Rightarrow> (ip \<times> nat) option" where
  "ip_network cidr =
     (case split_char (CHR ''/'') cidr of
        [addr, len] \<Rightarrow>
          (case ip_address addr of
             None \<Rightarrow> None
           | Some a \<Rightarrow>
               if len = '''' \<or> (\<exists>c \<in> set len. \<not> is_digit c) \<or> network_width a < digits_value len then None
               else if network_value a mod 2 ^ (network_width a - digits_value len) \<noteq> 0 then None
               else Some (a, digits_value len))
      | _ \<Rightarrow> None)"

section \<open>Reading back what was written\<close>

lemma all_some_map: "(\<And>x. x \<in> set xs \<Longrightarrow> f x = Some (g x)) \<Longrightarrow> all_some (map f xs) = Some (map g xs)"
  by (induction xs) auto

lemma all_some_map_Some [simp]: "all_some (map Some ys) = Some ys"
  by (induction ys) simp_all

lemma all_some_Some: "all_some xs = Some ys \<longleftrightarrow> xs = map Some ys"
proof
  show "all_some xs = Some ys \<Longrightarrow> xs = map Some ys"
    by (induction xs arbitrary: ys) (auto split: option.splits)
qed simp

lemma str_nat_leading: "hd (str_nat n) = CHR ''0'' \<Longrightarrow> n = 0"
proof (induction n rule: str_nat.induct)
  case (1 n)
  show ?case
  proof (cases "n < 10")
    case True
    with 1(2) have "(of_char (digit_char n) :: nat) = of_char (CHR ''0'')" by (simp add: str_nat.simps [of n])
    with True show ?thesis by (simp add: of_digit_char)
  next
    case False
    with 1 show ?thesis by (simp add: str_nat.simps [of n])
  qed
qed

lemma str_nat_0 [simp]: "str_nat 0 = ''0''"
  by (simp add: str_nat.simps [of 0] digit_char_def char_of_eq_iff)

lemma parse_octet_str: "n < 256 \<Longrightarrow> parse_octet (str_nat n) = Some n"
  using str_nat_digits [of _ n] str_nat_length [of n 3] str_nat_leading [of n]
  by (auto simp: parse_octet_def)

lemma parse_octet_le: "parse_octet s = Some n \<Longrightarrow> n < 256"
  by (auto simp: parse_octet_def split: if_splits)

lemma dot_not_digit: "CHR ''.'' \<notin> set (str_nat n)"
  using str_nat_digits by (fastforce simp: is_digit_def)

lemma parse_ipv4_str:
  assumes "length os = 4" and "\<forall>n \<in> set os. n < 256"
  shows "parse_ipv4 (str_ipv4 os) = Some os"
proof -
  have "split_char (CHR ''.'') (str_ipv4 os) = map str_nat os"
    unfolding str_ipv4_def using assms(1) dot_not_digit by (intro split_char_join) auto
  moreover have "all_some (map parse_octet (map str_nat os)) = Some (map (\<lambda>n. n) os)"
    unfolding map_map using assms(2) by (intro all_some_map) (simp add: parse_octet_str)
  ultimately show ?thesis using assms(1) by (simp add: parse_ipv4_def)
qed

lemma parse_ipv4_ok: "parse_ipv4 s = Some os \<Longrightarrow> length os = 4 \<and> (\<forall>n \<in> set os. n < 256)"
proof -
  assume "parse_ipv4 s = Some os"
  then have len: "length (split_char (CHR ''.'') s) = 4"
    and os: "map parse_octet (split_char (CHR ''.'') s) = map Some os"
    by (auto simp: parse_ipv4_def Let_def all_some_Some split: if_splits)
  from os have "length os = 4" using len by (metis length_map)
  moreover have "n < 256" if "n \<in> set os" for n
  proof -
    from that have "Some n \<in> set (map parse_octet (split_char (CHR ''.'') s))" by (simp add: os)
    then show ?thesis by (auto dest!: sym [of "Some n"] parse_octet_le)
  qed
  ultimately show ?thesis by simp
qed

lemma split_char_set: "set s \<subseteq> {sep} \<union> \<Union> (set ` set (split_char sep s))"
proof (induction s)
  case (Cons c s)
  then show ?case by (cases "split_char sep s") (auto split: list.splits)
qed simp

lemma parse_ipv4_chars:
  assumes "parse_ipv4 s = Some os" and "c \<in> set s"
  shows "c = CHR ''.'' \<or> is_digit c"
proof -
  have "\<exists>n. parse_octet p = Some n" if "p \<in> set (split_char (CHR ''.'') s)" for p
  proof -
    have "map parse_octet (split_char (CHR ''.'') s) = map Some os"
      using assms(1) by (auto simp: parse_ipv4_def Let_def all_some_Some split: if_splits)
    then have "parse_octet p \<in> set (map Some os)" using that by (metis image_eqI list.set_map)
    then show ?thesis by auto
  qed
  then have "\<forall>p \<in> set (split_char (CHR ''.'') s). \<forall>c \<in> set p. is_digit c"
    by (metis option.distinct(1) parse_octet_def)
  with split_char_set [of s "CHR ''.''"] assms(2) show ?thesis by blast
qed

text \<open>Hextets.\<close>

lemma of_low_hex: "d < 16 \<Longrightarrow> (of_char (low_hex d) :: nat) = (if d < 10 then 48 + d else 87 + d)"
  by (simp add: low_hex_def)

lemma hex_value_low: "d < 16 \<Longrightarrow> hex_value (low_hex d) = Some d"
  by (simp add: hex_value_def of_low_hex Let_def)

lemma str_hex_value:
  "\<exists>ds. map hex_value (str_hex n) = map Some ds \<and> foldl (\<lambda>n d. 16 * n + d) 0 ds = n"
proof (induction n rule: str_hex.induct)
  case (1 n)
  show ?case
  proof (cases "n < 16")
    case True
    then show ?thesis by (intro exI [of _ "[n]"]) (simp add: str_hex.simps [of n] hex_value_low)
  next
    case False
    then obtain ds where "map hex_value (str_hex (n div 16)) = map Some ds" "foldl (\<lambda>n d. 16 * n + d) 0 ds = n div 16"
      using 1 by blast
    with False show ?thesis
      by (intro exI [of _ "ds @ [n mod 16]"]) (simp add: str_hex.simps [of n] hex_value_low)
  qed
qed

lemma str_hex_nonempty [simp]: "str_hex n \<noteq> []"
  by (subst str_hex.simps) simp

lemma str_hex_nonempty' [simp]: "[] \<noteq> str_hex n"
  using str_hex_nonempty [of n] by metis

lemma str_hex_length: "n < 16 ^ k \<Longrightarrow> 0 < k \<Longrightarrow> length (str_hex n) \<le> k"
proof (induction k arbitrary: n)
  case (Suc k)
  show ?case
  proof (cases "n < 16")
    case True
    then show ?thesis by (simp add: str_hex.simps [of n])
  next
    case False
    with Suc.prems have "n div 16 < 16 ^ k" and "0 < k"
      by (auto simp: div_less_iff_less_mult intro: ccontr)
    with Suc.IH False show ?thesis by (simp add: str_hex.simps [of n])
  qed
qed simp

lemma str_hex_chars: "c \<in> set (str_hex n) \<Longrightarrow> \<exists>d. hex_value c = Some d"
  using str_hex_value [of n] by (metis imageE image_eqI list.set_map)

lemma str_hex_not [simp]:
  "CHR '':'' \<notin> set (str_hex n)" "CHR ''.'' \<notin> set (str_hex n)" "CHR ''%'' \<notin> set (str_hex n)"
  "CHR ''/'' \<notin> set (str_hex n)"
proof -
  have "c \<notin> set (str_hex n)" if "hex_value c = None" for c using that str_hex_chars [of c n] by auto
  then show "CHR '':'' \<notin> set (str_hex n)" "CHR ''.'' \<notin> set (str_hex n)" "CHR ''%'' \<notin> set (str_hex n)"
    "CHR ''/'' \<notin> set (str_hex n)" by (simp_all add: hex_value_def)
qed

lemma parse_hextet_str: "n < 65536 \<Longrightarrow> parse_hextet (str_hex n) = Some n"
  using str_hex_value [of n] str_hex_length [of n 4] by (auto simp: parse_hextet_def all_some_Some)

lemma foldl_hex_less: "\<forall>d \<in> set ds. d < 16 \<Longrightarrow> foldl (\<lambda>n d. 16 * n + d) 0 ds < (16 :: nat) ^ length ds"
proof (induction ds rule: rev_induct)
  case (snoc d ds)
  then have "foldl (\<lambda>n d. 16 * n + d) 0 ds + 1 \<le> (16 :: nat) ^ length ds" by auto
  then have "16 * foldl (\<lambda>n d. 16 * n + d) 0 ds + 16 \<le> (16 :: nat) ^ Suc (length ds)" by simp
  with snoc.prems show ?case by simp
qed simp

lemma parse_hextet_less: "parse_hextet s = Some n \<Longrightarrow> n < 65536"
proof -
  assume "parse_hextet s = Some n"
  then obtain ds where ds: "map hex_value s = map Some ds" "n = foldl (\<lambda>n d. 16 * n + d) 0 ds" "length s \<le> 4"
    by (auto simp: parse_hextet_def all_some_Some split: if_splits)
  have "d < 16" if "d \<in> set ds" for d
  proof -
    from that have "Some d \<in> set (map hex_value s)" by (simp add: ds(1))
    then show ?thesis by (auto simp: hex_value_def Let_def split: if_splits)
  qed
  then have "n < 16 ^ length ds" using foldl_hex_less ds(2) by blast
  moreover have "length ds \<le> 4" using ds(1,3) by (metis length_map)
  then have "(16 :: nat) ^ length ds \<le> 16 ^ 4" by (intro power_increasing) simp_all
  ultimately show ?thesis by simp
qed

text \<open>The longest run of zeros is a run of zeros.\<close>

definition zero_run :: "nat list \<Rightarrow> nat \<times> nat \<Rightarrow> bool" where
  "zero_run hs run \<longleftrightarrow> (case run of (start, len) \<Rightarrow>
     start + len \<le> length hs \<and> (\<forall>i. start \<le> i \<and> i < start + len \<longrightarrow> hs ! i = 0))"

lemma longest_zeros_run:
  assumes "zero_run xs best" and "cl = 0 \<or> zero_run xs (cs, cl) \<and> cs + cl = length xs"
  shows "zero_run (xs @ hs) (longest_zeros (length xs) best (cs, cl) hs)"
  using assms
proof (induction hs arbitrary: xs best cs cl)
  case Nil
  then show ?case by simp
next
  case (Cons h hs)
  have grow: "zero_run (xs @ [h]) run" if "zero_run xs run" for run
    using that by (auto simp: zero_run_def nth_append split: prod.splits)
  obtain bs bl where best: "best = (bs, bl)" by (metis prod.exhaust)
  show ?case
  proof (cases "h = 0")
    case True
    let ?start = "if cl = 0 then length xs else cs"
    have cur: "zero_run (xs @ [h]) (?start, cl + 1)" "?start + (cl + 1) = length (xs @ [h])"
      using Cons.prems(2) True by (auto simp: zero_run_def nth_append less_Suc_eq)
    have "zero_run (xs @ [h]) (if bl < cl + 1 then (?start, cl + 1) else (bs, bl))"
      using cur(1) grow Cons.prems(1) best by simp
    from Cons.IH [OF this, of "cl + 1" ?start] cur True best show ?thesis
      by (simp add: Let_def split: if_splits)
  next
    case False
    with Cons.IH [OF grow [OF Cons.prems(1)], of 0 0] best show ?thesis by simp
  qed
qed

lemma zero_run_split:
  assumes "zero_run hs (start, len)"
  shows "hs = take start hs @ replicate len 0 @ drop (start + len) hs"
proof -
  have "take len (drop start hs) = replicate len 0"
    using assms by (intro nth_equalityI) (auto simp: zero_run_def)
  then show ?thesis
    using assms by (metis add.commute append_take_drop_id drop_drop)
qed

text \<open>A list of parts with one gap inside.\<close>

lemma inner_gaps_one:
  assumes "xs \<noteq> []" and "ys \<noteq> []" and "'''' \<notin> set (tl xs)" and "'''' \<notin> set (butlast ys)"
  shows "inner_gaps (xs @ [''''] @ ys) = [length xs]"
proof -
  let ?ps = "xs @ [''''] @ ys"
  have up: "[1 ..< length ?ps - 1] = [1 ..< length xs] @ [length xs] @ [Suc (length xs) ..< length xs + length ys]"
    using assms(1,2)
    by (metis (no_types, lifting) One_nat_def Suc_leI add.commute add_diff_cancel_left' append_Cons append_Nil
        le_add1 length_append length_greater_0_conv list.size(3,4) plus_1_eq_Suc upt_add_eq_append upt_conv_Cons
        less_add_same_cancel1 add_Suc_right)
  have left: "?ps ! i \<noteq> ''''" if "i \<in> set [1 ..< length xs]" for i
  proof -
    have i: "1 \<le> i" "i < length xs" using that by auto
    then have "?ps ! i = tl xs ! (i - 1)" by (simp add: nth_append nth_tl)
    moreover have "tl xs ! (i - 1) \<in> set (tl xs)" using that by (intro nth_mem) auto
    ultimately show ?thesis using assms(3) by auto
  qed
  have right: "?ps ! i \<noteq> ''''" if "i \<in> set [Suc (length xs) ..< length xs + length ys]" for i
  proof -
    have "?ps ! i = ys ! (i - Suc (length xs))" using that by (auto simp: nth_append nth_Cons')
    moreover have "ys ! (i - Suc (length xs)) = butlast ys ! (i - Suc (length xs))"
      using that by (auto simp: nth_butlast)
    moreover have "butlast ys ! (i - Suc (length xs)) \<in> set (butlast ys)" using that by (intro nth_mem) auto
    ultimately show ?thesis using assms(4) by auto
  qed
  have "filter (\<lambda>i. ?ps ! i = '''') [1 ..< length xs] = []"
    "filter (\<lambda>i. ?ps ! i = '''') [Suc (length xs) ..< length xs + length ys] = []"
    using left right by (simp_all only: filter_empty_conv) blast+
  then show ?thesis unfolding inner_gaps_def up by simp
qed

lemma all_some_hextets: "\<forall>n \<in> set ns. n < 65536 \<Longrightarrow> all_some (map parse_hextet (map str_hex ns)) = Some ns"
  using all_some_map [of ns "parse_hextet \<circ> str_hex" "\<lambda>n. n"] by (simp add: parse_hextet_str)

lemma parse_parts_gap:
  assumes "\<forall>n \<in> set (as @ bs). n < 65536" and "length as + length bs < 8"
  shows "parse_parts ((if as = [] then [''''] else map str_hex as) @ [''''] @
            (if bs = [] then [''''] else map str_hex bs)) =
         Some (as @ replicate (8 - (length as + length bs)) 0 @ bs)"
proof -
  let ?xs = "if as = [] then [''''] else map str_hex as"
  let ?ys = "if bs = [] then [''''] else map str_hex bs"
  let ?ps = "?xs @ [''''] @ ?ys"
  have gaps: "inner_gaps ?ps = [length ?xs]"
    by (rule inner_gaps_one)
      (auto simp: image_iff eq_commute [of "[]"] dest!: in_set_butlastD list.set_sel(2) [rotated] split: if_splits)
  have len: "length ?ps = length ?xs + 1 + length ?ys" "length ?ps \<le> 9" using assms(2) by auto
  have ends: "hd ?ps = '''' \<longleftrightarrow> as = []" "last ?ps = '''' \<longleftrightarrow> bs = []"
    by (auto simp: hd_append hd_map last_map)
  have hi: "(if hd ?ps = '''' then length ?xs - 1 else length ?xs) = length as" using ends(1) by simp
  have lo: "(if last ?ps = '''' then length ?ps - length ?xs - 2 else length ?ps - length ?xs - 1) = length bs"
    using ends(2) len(1) by simp
  have cut: "take (length as) ?ps = map str_hex as" "drop (length ?ps - length bs) ?ps = map str_hex bs"
    by auto
  show ?thesis
    unfolding parse_parts_def gaps list.case Let_def hi lo cut ends
    using assms len(2) all_some_hextets [of as] all_some_hextets [of bs] by auto
qed

lemma inner_gaps_none: "'''' \<notin> set ps \<Longrightarrow> inner_gaps ps = []"
  by (auto simp: inner_gaps_def filter_empty_conv) (metis less_imp_le_nat less_le_trans diff_le_self nth_mem)

lemma compress_hextets_parts:
  assumes "length hs = 8" and "\<forall>n \<in> set hs. n < 65536"
  shows "parse_parts (compress_hextets hs) = Some hs"
    and "3 \<le> length (compress_hextets hs)"
    and "\<forall>p \<in> set (compress_hextets hs). p = '''' \<or> (\<exists>n. p = str_hex n)"
proof -
  obtain start len where run: "longest_zeros 0 (0, 0) (0, 0) hs = (start, len)" by (metis prod.exhaust)
  have zr: "zero_run hs (start, len)"
    using longest_zeros_run [of "[]" "(0, 0)" 0 0 hs] run by (simp add: zero_run_def)
  then have fits: "start + len \<le> 8" using assms(1) by (simp add: zero_run_def)
  let ?as = "take start hs" and ?bs = "drop (start + len) hs"
  have hs: "hs = ?as @ replicate len 0 @ ?bs" by (rule zero_run_split [OF zr])
  show "\<forall>p \<in> set (compress_hextets hs). p = '''' \<or> (\<exists>n. p = str_hex n)"
    using set_take_subset [of start "map str_hex hs"] set_drop_subset [of "start + len" "map str_hex hs"]
    by (auto simp: compress_hextets_def run Let_def split: if_splits)
  show "3 \<le> length (compress_hextets hs)"
    using fits assms(1) by (auto simp: compress_hextets_def run Let_def)
  show "parse_parts (compress_hextets hs) = Some hs"
  proof (cases "len \<le> 1")
    case True
    then have "compress_hextets hs = map str_hex hs" by (simp add: compress_hextets_def run)
    moreover have "inner_gaps (map str_hex hs) = []" by (rule inner_gaps_none) auto
    ultimately show ?thesis using assms all_some_hextets [of hs] by (simp add: parse_parts_def)
  next
    case False
    have empty: "?as = [] \<longleftrightarrow> start = 0" "?bs = [] \<longleftrightarrow> start + len = length hs" using fits assms(1) False by auto
    have c: "compress_hextets hs = (if ?as = [] then [''''] else map str_hex ?as) @ [''''] @
        (if ?bs = [] then [''''] else map str_hex ?bs)"
      using False fits assms(1) unfolding empty
      by (auto simp: compress_hextets_def run take_map drop_map Let_def)
    have lens: "length ?as + length ?bs = 8 - len" "8 - (8 - len) = len" "8 - len < 8"
      using fits assms(1) False by simp_all
    moreover have "\<forall>n \<in> set (?as @ ?bs). n < 65536"
      using assms(2) by (auto dest: in_set_takeD in_set_dropD)
    ultimately have "parse_parts (compress_hextets hs) = Some (?as @ replicate len 0 @ ?bs)"
      unfolding c using parse_parts_gap [of ?as ?bs] by (simp only: lens)
    with hs show ?thesis by metis
  qed
qed

lemma parse_ipv6_int_str:
  assumes "length hs = 8" and "\<forall>n \<in> set hs. n < 65536"
  shows "parse_ipv6_int (join '':'' (compress_hextets hs)) = Some hs"
proof -
  note facts = compress_hextets_parts [OF assms]
  have ne: "compress_hextets hs \<noteq> []" using facts(2) by auto
  have "split_char (CHR '':'') (join '':'' (compress_hextets hs)) = compress_hextets hs"
    using facts(3) ne by (intro split_char_join) auto
  moreover have "CHR ''.'' \<notin> set (last (compress_hextets hs))" using facts(3) last_in_set [OF ne] by auto
  ultimately show ?thesis using facts(1,2) by (simp add: parse_ipv6_int_def v4_suffix_def)
qed

lemma join_set: "set (join sep ps) \<subseteq> set sep \<union> \<Union> (set ` set ps)"
  by (induction sep ps rule: join.induct) auto

lemma join_sep: "2 \<le> length ps \<Longrightarrow> set sep \<subseteq> set (join sep ps)"
  by (induction sep ps rule: join.induct) auto

text \<open>An address survives its text: \<open>ip_address(str(ip)) == ip\<close>.\<close>

lemma ip_address_str: "ip_ok a \<Longrightarrow> ip_address (str_ip a) = Some a"
proof (cases a)
  case (IPv4 os)
  then show "ip_ok a \<Longrightarrow> ?thesis" by (simp add: ip_address_def parse_ipv4_str)
next
  case (IPv6 hs scope)
  assume ok: "ip_ok a"
  then have hs: "length hs = 8" "\<forall>n \<in> set hs. n < 65536" using IPv6 by simp_all
  let ?t = "join '':'' (compress_hextets hs)"
  let ?s = "case scope of None \<Rightarrow> '''' | Some s \<Rightarrow> ''%'' @ s"
  note facts = compress_hextets_parts [OF hs]
  have chars: "c = CHR '':'' \<or> (\<exists>n. c \<in> set (str_hex n))" if "c \<in> set ?t" for c
  proof (cases "c = CHR '':''")
    case False
    with that join_set [of "'':''" "compress_hextets hs"] obtain p where
      p: "p \<in> set (compress_hextets hs)" "c \<in> set p" by auto
    with facts(3) show ?thesis by (metis empty_iff list.set(1))
  qed simp
  have none: "CHR ''%'' \<notin> set ?t" "CHR ''/'' \<notin> set ?t" using chars [of "CHR ''%''"] chars [of "CHR ''/''"] by auto
  have "CHR '':'' \<in> set ?t" using join_sep [of "compress_hextets hs" "'':''"] facts(2) by simp
  then have v4: "parse_ipv4 (str_ip a) = None"
    using parse_ipv4_chars [of "str_ip a" _ "CHR '':''"] IPv6
    by (cases "parse_ipv4 (str_ip a)") (auto simp: is_digit_def)
  have slash: "CHR ''/'' \<notin> set (?t @ ?s)" using none(2) ok IPv6 by (auto split: option.split)
  have parse: "parse_ipv6_int ?t = Some hs" by (rule parse_ipv6_int_str [OF hs])
  have "parse_ipv6 (?t @ ?s) = Some a"
  proof (cases scope)
    case None
    have all: "\<forall>c \<in> set ?t. c \<noteq> CHR ''%''" using none(1) by auto
    then have "takeWhile (\<lambda>c. c \<noteq> CHR ''%'') ?t = ?t" "dropWhile (\<lambda>c. c \<noteq> CHR ''%'') ?t = []" by auto
    with None parse slash IPv6 show ?thesis
      by (simp add: parse_ipv6_def del: takeWhile_eq_all_conv dropWhile_eq_Nil_conv)
  next
    case (Some s)
    have all: "\<And>c. c \<in> set ?t \<Longrightarrow> c \<noteq> CHR ''%''" using none(1) by auto
    then have "takeWhile (\<lambda>c. c \<noteq> CHR ''%'') (?t @ CHR ''%'' # s) = ?t"
      "dropWhile (\<lambda>c. c \<noteq> CHR ''%'') (?t @ CHR ''%'' # s) = CHR ''%'' # s"
      by (simp_all add: takeWhile_append2 dropWhile_append2)
    with Some parse slash IPv6 ok show ?thesis by (simp add: parse_ipv6_def)
  qed
  with v4 IPv6 show ?thesis by (simp add: ip_address_def)
qed

text \<open>What is read is an address.\<close>

lemma all_some_length: "all_some xs = Some ys \<Longrightarrow> length ys = length xs"
  by (auto simp: all_some_Some)

lemma all_some_less: "all_some (map parse_hextet ps) = Some ns \<Longrightarrow> n \<in> set ns \<Longrightarrow> n < 65536"
proof -
  assume "all_some (map parse_hextet ps) = Some ns" "n \<in> set ns"
  then have "Some n \<in> set (map parse_hextet ps)" by (simp add: all_some_Some)
  then show ?thesis by (auto dest!: sym [of "Some n"] parse_hextet_less)
qed

lemma parse_parts_ok:
  assumes "parse_parts ps = Some hs" and "ps \<noteq> []"
  shows "length hs = 8 \<and> (\<forall>n \<in> set hs. n < 65536)"
proof (cases "inner_gaps ps")
  case Nil
  with assms show ?thesis by (auto simp: parse_parts_def dest: all_some_length all_some_less split: if_splits)
next
  case (Cons skip rest)
  with assms have rest: "rest = []" by (auto simp: parse_parts_def split: if_splits list.splits)
  have "skip \<in> set (inner_gaps ps)" using Cons by simp
  then have skip: "skip < length ps" by (auto simp: inner_gaps_def)
  let ?hi = "if hd ps = '''' then skip - 1 else skip"
  let ?lo = "if last ps = '''' then length ps - skip - 2 else length ps - skip - 1"
  from assms(1) Cons rest obtain as bs where ab: "all_some (map parse_hextet (take ?hi ps)) = Some as"
    "all_some (map parse_hextet (drop (length ps - ?lo) ps)) = Some bs"
    "hs = as @ replicate (8 - (?hi + ?lo)) 0 @ bs" "\<not> 8 \<le> ?hi + ?lo"
    by (auto simp: parse_parts_def Let_def split: if_splits option.splits)
  have "length as = ?hi" "length bs = ?lo"
    using all_some_length [OF ab(1)] all_some_length [OF ab(2)] skip by auto
  moreover have "n < 65536" if "n \<in> set hs" for n
    using that ab(3) all_some_less [OF ab(1)] all_some_less [OF ab(2)] by (auto simp: in_set_replicate)
  ultimately show ?thesis using ab(3,4) by simp
qed

lemma ip_address_ok: "ip_address s = Some a \<Longrightarrow> ip_ok a"
proof -
  have v6: "length hs = 8 \<and> (\<forall>n \<in> set hs. n < 65536)" if p: "parse_ipv6_int t = Some hs" for t hs
  proof -
    obtain ps where "v4_suffix (split_char (CHR '':'') t) = Some ps" "parse_parts ps = Some hs"
      using p by (auto simp: parse_ipv6_int_def Let_def split: if_splits option.splits)
    moreover from this(1) have "ps \<noteq> []"
      by (auto simp: v4_suffix_def split: if_splits option.splits list.splits)
    ultimately show ?thesis using parse_parts_ok by blast
  qed
  have tail: "set (tl (dropWhile p s)) \<subseteq> set s" for p
    by (metis dropWhile_eq_drop drop_Suc set_drop_subset tl_drop)
  assume "ip_address s = Some a"
  then show ?thesis
    using v6 tail [of "\<lambda>c. c \<noteq> CHR ''%''"] parse_ipv4_ok [of s]
    by (auto simp: ip_address_def parse_ipv6_def Let_def split: option.splits if_splits)
qed

end
