(* ===== verification/Client_IP.thy ===== *)
theory Client_IP
  imports Ip_Address Account_Models
begin

text \<open>
  \<^verbatim>\<open>api/client_ip.py\<close>: which address a request counts under, however it reached the app.  \<open>None\<close>
  stands for a \<open>ValueError\<close> raised by \<open>ipaddress\<close>.  The theorems: the lookup never raises, the part of
  the forwarding header a caller can write does not matter, Cloudflare's header is believed only
  from Cloudflare, and callers of one IPv6 network share one key.
\<close>

section \<open>Working out the address\<close>

record request_meta =
  http_x_forwarded_for :: "string option"
  remote_addr :: "string option"
  http_cf_connecting_ip :: "string option"

record ip_settings =
  TRUSTED_PROXY_HOPS :: int
  CLOUDFLARE_IP_RANGES :: "string list"

definition UNKNOWN_IP :: string where
  "UNKNOWN_IP = ''unknown''"

definition networks :: "string list \<Rightarrow> (ip \<times> nat) list option" where
  "networks ranges = all_some (map ip_network ranges)"

definition valid_ip :: "string option \<Rightarrow> string option" where
  "valid_ip value = map_option str_ip (ip_address (strip (case value of None \<Rightarrow> '''' | Some v \<Rightarrow> v)))"

definition caller_key :: "string \<Rightarrow> string option" where
  "caller_key address =
     (if address = UNKNOWN_IP then Some address
      else case ip_address address of
             None \<Rightarrow> None
           | Some (IPv4 os) \<Rightarrow> Some address
           | Some (IPv6 hs scope) \<Rightarrow>
               (case ipv4_mapped (IPv6 hs scope) of
                  Some os \<Rightarrow> Some (str_ip (IPv4 os))
                | None \<Rightarrow> Some (str_ip (network_64 hs scope))))"

definition is_cloudflare :: "ip_settings \<Rightarrow> string \<Rightarrow> bool option" where
  "is_cloudflare conf address =
     (if address = UNKNOWN_IP then Some False
      else case (ip_address address, networks (CLOUDFLARE_IP_RANGES conf)) of
             (Some a, Some nets) \<Rightarrow> Some (\<exists>n \<in> set nets. in_network a n)
           | _ \<Rightarrow> None)"

definition forwarded_parts :: "request_meta \<Rightarrow> string list" where
  "forwarded_parts req =
     map strip (filter (\<lambda>p. p \<noteq> '''')
       (split_char (CHR '','') (case http_x_forwarded_for req of None \<Rightarrow> '''' | Some h \<Rightarrow> h)))"

definition connecting_address :: "ip_settings \<Rightarrow> request_meta \<Rightarrow> string" where
  "connecting_address conf req =
     (let hops = TRUSTED_PROXY_HOPS conf; forwarded = forwarded_parts req;
          direct = (case valid_ip (remote_addr req) of Some a \<Rightarrow> a | None \<Rightarrow> UNKNOWN_IP)
      in if 0 < hops \<and> hops \<le> int (length forwarded)
         then case valid_ip (Some (forwarded ! (length forwarded - nat hops))) of
                Some a \<Rightarrow> a
              | None \<Rightarrow> direct
         else direct)"

definition client_ip :: "ip_settings \<Rightarrow> request_meta \<Rightarrow> string option" where
  "client_ip conf req =
     (let connecting = connecting_address conf req
      in case is_cloudflare conf connecting of
           None \<Rightarrow> None
         | Some True \<Rightarrow>
             caller_key (case valid_ip (http_cf_connecting_ip req) of Some a \<Rightarrow> a | None \<Rightarrow> connecting)
         | Some False \<Rightarrow> caller_key connecting)"

definition build_counter_key :: "ip_settings \<Rightarrow> ThrottleScope \<Rightarrow> request_meta \<Rightarrow> string option" where
  "build_counter_key conf scope req = map_option (\<lambda>ip. scope_value scope @ '':'' @ ip) (client_ip conf req)"

section \<open>Lemmas\<close>

text \<open>A text the code treats as an address: the standard form of one, or "unknown".\<close>

definition address_text :: "string \<Rightarrow> bool" where
  "address_text s \<longleftrightarrow> s = UNKNOWN_IP \<or> (\<exists>a. ip_ok a \<and> s = str_ip a)"

lemma valid_ip_text: "valid_ip v = Some s \<Longrightarrow> \<exists>a. ip_ok a \<and> s = str_ip a"
  by (auto simp: valid_ip_def dest: ip_address_ok)

lemma connecting_address_text: "address_text (connecting_address conf req)"
  using valid_ip_text by (auto simp: connecting_address_def address_text_def Let_def split: option.split)

lemma network_64_ok: "ip_ok (IPv6 hs scope) \<Longrightarrow> ip_ok (network_64 hs scope)"
  by (auto simp: network_64_def dest: in_set_takeD)

lemma ipv4_mapped_ok: "ip_ok (IPv6 hs scope) \<Longrightarrow> ipv4_mapped (IPv6 hs scope) = Some os \<Longrightarrow> ip_ok (IPv4 os)"
proof -
  assume ok: "ip_ok (IPv6 hs scope)" and "ipv4_mapped (IPv6 hs scope) = Some os"
  then have os: "os = [hs ! 6 div 256, hs ! 6 mod 256, hs ! 7 div 256, hs ! 7 mod 256]" by (simp split: if_splits)
  have "hs ! 6 < 65536" "hs ! 7 < 65536" using ok by simp_all
  then have "hs ! 6 div 256 < 256" "hs ! 7 div 256 < 256" by simp_all
  with os show ?thesis by simp
qed

lemma caller_key_text: "address_text s \<Longrightarrow> \<exists>k. caller_key s = Some k \<and> address_text k"
proof (cases "s = UNKNOWN_IP")
  case True
  then show ?thesis by (simp add: caller_key_def address_text_def)
next
  case False
  assume "address_text s"
  with False obtain a where a: "ip_ok a" "s = str_ip a" by (auto simp: address_text_def)
  then have parse: "ip_address s = Some a" by (simp add: ip_address_str)
  show ?thesis
  proof (cases a)
    case (IPv4 os)
    with parse a False have "caller_key s = Some s" by (simp add: caller_key_def)
    with a show ?thesis unfolding address_text_def by blast
  next
    case (IPv6 hs scope)
    with a(1) have ok: "ip_ok (IPv6 hs scope)" by simp
    show ?thesis
    proof (cases "ipv4_mapped (IPv6 hs scope)")
      case None
      with parse False IPv6 have "caller_key s = Some (str_ip (network_64 hs scope))"
        by (simp add: caller_key_def)
      with network_64_ok [OF ok] show ?thesis by (auto simp: address_text_def)
    next
      case (Some os)
      with parse False IPv6 have "caller_key s = Some (str_ip (IPv4 os))" by (simp add: caller_key_def)
      with ipv4_mapped_ok [OF ok Some] show ?thesis unfolding address_text_def by blast
    qed
  qed
qed

text \<open>Working out a caller's address never fails, whatever the headers say, as long as the
  configured ranges can be read: the text of an address is always read back as that address.
  The result is the standard form of a valid address or the word unknown, never raw header text.\<close>

theorem client_ip_always_answers:
  assumes "networks (CLOUDFLARE_IP_RANGES conf) = Some nets"
  shows "\<exists>k. client_ip conf req = Some k \<and> (k = UNKNOWN_IP \<or> (\<exists>a. ip_address k = Some a \<and> k = str_ip a))"
proof -
  let ?c = "connecting_address conf req"
  have c: "address_text ?c" by (rule connecting_address_text)
  then have "\<exists>b. is_cloudflare conf ?c = Some b"
    using assms by (auto simp: address_text_def is_cloudflare_def ip_address_str)
  moreover have "address_text (case valid_ip (http_cf_connecting_ip req) of Some a \<Rightarrow> a | None \<Rightarrow> ?c)"
    using c valid_ip_text [of "http_cf_connecting_ip req"] by (auto simp: address_text_def split: option.split)
  ultimately obtain k where "client_ip conf req = Some k" "address_text k"
    using caller_key_text [OF c] caller_key_text by (force simp: client_ip_def Let_def split: bool.splits)
  then show ?thesis by (auto simp: address_text_def ip_address_str)
qed

definition demo_ip_settings :: ip_settings where
  "demo_ip_settings = \<lparr>TRUSTED_PROXY_HOPS = 1, CLOUDFLARE_IP_RANGES = []\<rparr>"

theorem client_ip_always_answers_witness:
  "\<exists>k. client_ip demo_ip_settings
     \<lparr>http_x_forwarded_for = Some ''evil, 2001:db8::1%x'', remote_addr = None, http_cf_connecting_ip = Some ''?''\<rparr> = Some k"
  using client_ip_always_answers [of demo_ip_settings "[]"] by (auto simp: demo_ip_settings_def networks_def)

text \<open>C26: a caller cannot choose the address it counts under by writing the forwarding header: with
  one trusted proxy, only the entry the proxy appended decides, whatever stands before it.\<close>

theorem forged_forwarding_entries_are_ignored:
  assumes "TRUSTED_PROXY_HOPS conf = 1" and "CHR '','' \<notin> set entry" and "entry \<noteq> ''''"
  shows "client_ip conf (req\<lparr>http_x_forwarded_for := Some (forged @ '','' @ entry)\<rparr>) =
         client_ip conf (req\<lparr>http_x_forwarded_for := Some entry\<rparr>)"
proof -
  let ?a = "req\<lparr>http_x_forwarded_for := Some (forged @ '','' @ entry)\<rparr>"
  let ?b = "req\<lparr>http_x_forwarded_for := Some entry\<rparr>"
  have split: "\<exists>ps. split_char (CHR '','') (forged @ CHR '','' # entry) = ps @ [entry]"
  proof (induction forged)
    case Nil
    with assms(2) show ?case by (simp add: split_char_no_sep)
  next
    case (Cons c f)
    then obtain ps where ps: "split_char (CHR '','') (f @ CHR '','' # entry) = ps @ [entry]" by blast
    show ?case
    proof (cases ps)
      case Nil
      have "2 \<le> length (split_char (CHR '','') (f @ CHR '','' # entry))"
        using split_char_nonempty [of "CHR '',''" entry]
        by (induction f) (auto simp: Suc_le_eq split: list.splits simp del: split_char_nonempty)
      with ps Nil show ?thesis by simp
    next
      case (Cons p rest)
      with ps show ?thesis by (auto intro: exI [of _ "[] # ps"] exI [of _ "(c # p) # rest"])
    qed
  qed
  then obtain ps where ps: "forwarded_parts ?a = ps @ [strip entry]"
    using assms(3) by (auto simp: forwarded_parts_def)
  moreover have "forwarded_parts ?b = [strip entry]"
    using assms(2,3) by (simp add: forwarded_parts_def split_char_no_sep)
  ultimately have "connecting_address conf ?a = connecting_address conf ?b"
    using assms(1) by (simp add: connecting_address_def Let_def)
  then show ?thesis by (simp add: client_ip_def Let_def split: option.split bool.split)
qed

theorem forged_forwarding_entries_are_ignored_witness:
  "client_ip demo_ip_settings \<lparr>http_x_forwarded_for = Some ''1.1.1.1,2.2.2.2'', remote_addr = None, http_cf_connecting_ip = None\<rparr> =
   client_ip demo_ip_settings \<lparr>http_x_forwarded_for = Some ''2.2.2.2'', remote_addr = None, http_cf_connecting_ip = None\<rparr>"
  using forged_forwarding_entries_are_ignored [of demo_ip_settings "''2.2.2.2''" "''1.1.1.1''"
      "\<lparr>http_x_forwarded_for = None, remote_addr = None, http_cf_connecting_ip = None\<rparr>"]
  by (simp add: demo_ip_settings_def)

text \<open>Cloudflare's own header is believed only when Cloudflare is the one connecting: for any other
  connecting address, whatever the header says makes no difference.\<close>

theorem cloudflare_header_needs_cloudflare:
  assumes "is_cloudflare conf (connecting_address conf req) \<noteq> Some True"
  shows "client_ip conf (req\<lparr>http_cf_connecting_ip := header\<rparr>) = client_ip conf req"
proof -
  have "connecting_address conf (req\<lparr>http_cf_connecting_ip := header\<rparr>) = connecting_address conf req"
    by (simp add: connecting_address_def forwarded_parts_def)
  with assms show ?thesis by (auto simp: client_ip_def Let_def split: option.split bool.split)
qed

theorem cloudflare_header_needs_cloudflare_witness:
  "client_ip demo_ip_settings
     \<lparr>http_x_forwarded_for = None, remote_addr = None, http_cf_connecting_ip = Some ''9.9.9.9''\<rparr> =
   client_ip demo_ip_settings \<lparr>http_x_forwarded_for = None, remote_addr = None, http_cf_connecting_ip = None\<rparr>"
proof -
  let ?req = "\<lparr>http_x_forwarded_for = None, remote_addr = None, http_cf_connecting_ip = None\<rparr>"
  have "is_cloudflare demo_ip_settings s \<noteq> Some True" for s
    by (simp add: is_cloudflare_def networks_def demo_ip_settings_def split: option.split)
  then show ?thesis
    using cloudflare_header_needs_cloudflare [of demo_ip_settings ?req "Some ''9.9.9.9''"] by simp
qed

lemma unknown_is_no_address: "ip_address UNKNOWN_IP = None"
  by (simp add: UNKNOWN_IP_def ip_address_def parse_ipv4_def parse_ipv6_def parse_ipv6_int_def Let_def)

lemma caller_key_ipv6:
  assumes "ip_ok (IPv6 hs scope)"
  shows "caller_key (str_ip (IPv6 hs scope)) =
     (case ipv4_mapped (IPv6 hs scope) of
        Some os \<Rightarrow> Some (str_ip (IPv4 os)) | None \<Rightarrow> Some (str_ip (network_64 hs scope)))"
proof -
  have "str_ip (IPv6 hs scope) \<noteq> UNKNOWN_IP"
    using ip_address_str [OF assms] unknown_is_no_address by (metis option.distinct(1))
  then show ?thesis using ip_address_str [OF assms] by (simp add: caller_key_def split: option.split)
qed

lemma caller_key_ipv4: "ip_ok (IPv4 os) \<Longrightarrow> caller_key (str_ip (IPv4 os)) = Some (str_ip (IPv4 os))"
  using ip_address_str [of "IPv4 os"] unknown_is_no_address by (auto simp: caller_key_def)

text \<open>All addresses of one IPv6 network of 64 bits count under one key, and an IPv4 address counts
  under the same key whether it is written plainly or inside IPv6.\<close>

theorem network_shares_one_key:
  assumes "ip_ok (IPv6 (net @ host1) None)" and "ip_ok (IPv6 (net @ host2) None)" and "length net = 4"
    and "net \<noteq> [0, 0, 0, 0]" and "ip_ok (IPv4 [a, b, c, d])"
  shows "caller_key (str_ip (IPv6 (net @ host1) None)) = caller_key (str_ip (IPv6 (net @ host2) None)) \<and>
         caller_key (str_ip (IPv6 [0, 0, 0, 0, 0, 65535, 256 * a + b, 256 * c + d] None)) =
           caller_key (str_ip (IPv4 [a, b, c, d]))"
proof
  have key: "caller_key (str_ip (IPv6 (net @ host) None)) = Some (str_ip (IPv6 (net @ [0, 0, 0, 0]) None))"
    if "ip_ok (IPv6 (net @ host) None)" for host
  proof -
    have "take 6 (net @ host) \<noteq> [0, 0, 0, 0, 0, 65535]"
    proof
      assume "take 6 (net @ host) = [0, 0, 0, 0, 0, 65535]"
      then have "take 4 (take 6 (net @ host)) = [0, 0, 0, 0]" by simp
      with assms(3,4) show False by simp
    qed
    then have "ipv4_mapped (IPv6 (net @ host) None) = None" by simp
    moreover have "network_64 (net @ host) None = IPv6 (net @ [0, 0, 0, 0]) None"
      using assms(3) by (simp add: network_64_def)
    ultimately show ?thesis using caller_key_ipv6 [OF that] by simp
  qed
  show "caller_key (str_ip (IPv6 (net @ host1) None)) = caller_key (str_ip (IPv6 (net @ host2) None))"
    using key [OF assms(1)] key [OF assms(2)] by simp
  have small: "a < 256" "b < 256" "c < 256" "d < 256" using assms(5) by simp_all
  then have "ip_ok (IPv6 [0, 0, 0, 0, 0, 65535, 256 * a + b, 256 * c + d] None)" by simp
  from caller_key_ipv6 [OF this] small have
    "caller_key (str_ip (IPv6 [0, 0, 0, 0, 0, 65535, 256 * a + b, 256 * c + d] None)) = Some (str_ip (IPv4 [a, b, c, d]))"
    by (simp del: str_ip.simps)
  with caller_key_ipv4 [OF assms(5)] show
    "caller_key (str_ip (IPv6 [0, 0, 0, 0, 0, 65535, 256 * a + b, 256 * c + d] None)) =
       caller_key (str_ip (IPv4 [a, b, c, d]))" by simp
qed

theorem network_shares_one_key_witness:
  "caller_key (str_ip (IPv6 [8193, 3512, 0, 1, 0, 0, 0, 1] None)) = caller_key (str_ip (IPv6 [8193, 3512, 0, 1, 7, 7, 7, 7] None))"
  using network_shares_one_key [of "[8193, 3512, 0, 1]" "[0, 0, 0, 1]" "[7, 7, 7, 7]" 1 2 3 4] by (simp del: str_ip.simps)

section \<open>How long a key can get\<close>

lemma join_length: "\<forall>p \<in> set ps. length p \<le> n \<Longrightarrow> length (join sep ps) \<le> length ps * (n + length sep)"
  by (induction sep ps rule: join.induct) auto

lemma str_ip_length:
  assumes "ip_ok a" and "\<forall>hs s. a \<noteq> IPv6 hs (Some s)"
  shows "length (str_ip a) \<le> 50"
proof (cases a)
  case (IPv4 os)
  have "length (str_nat n) \<le> 3" if "n \<in> set os" for n
    using str_nat_length [of n 3] that assms(1) IPv4 by fastforce
  with join_length [of "map str_nat os" 3 "''.''"] assms(1) IPv4 show ?thesis by (simp add: str_ipv4_def)
next
  case (IPv6 hs scope)
  with assms(2) have none: "scope = None" by (cases scope) auto
  have hs: "length hs = 8" "\<forall>n \<in> set hs. n < 65536" using assms(1) IPv6 by simp_all
  let ?ps = "compress_hextets hs"
  have "length (str_hex n) \<le> 4" if "n \<in> set hs" for n using str_hex_length [of n 4] that hs(2) by simp
  then have short: "\<forall>p \<in> set ?ps. length p \<le> 4"
    by (auto simp: compress_hextets_def Let_def split: prod.splits if_splits dest!: in_set_takeD in_set_dropD)
  have "length ?ps \<le> 10" using hs(1) by (auto simp: compress_hextets_def Let_def split: prod.splits)
  with join_length [OF short, of "'':''"] none IPv6 show ?thesis by simp
qed

text \<open>The counter key of an address without a scope is an address text again and fits the column
  of 100 characters it is stored in.\<close>

theorem counter_key_fits:
  assumes "ip_ok a" and "\<forall>hs s. a \<noteq> IPv6 hs (Some s)"
  shows "\<exists>k. caller_key (str_ip a) = Some k \<and> length (scope_value scope @ '':'' @ k) \<le> 100"
proof -
  have scope: "length (scope_value scope) \<le> 11" by (cases scope) simp_all
  obtain b where b: "caller_key (str_ip a) = Some (str_ip b)" "ip_ok b" "\<forall>hs s. b \<noteq> IPv6 hs (Some s)"
  proof (cases a)
    case (IPv4 os)
    with caller_key_ipv4 [of os] assms that [of a] show ?thesis by simp
  next
    case (IPv6 hs sc)
    with assms(2) have ok: "ip_ok (IPv6 hs None)" "a = IPv6 hs None" using assms(1) by (cases sc; simp)+
    show ?thesis
    proof (cases "ipv4_mapped (IPv6 hs None)")
      case None
      have "\<forall>hs' s. network_64 hs None \<noteq> IPv6 hs' (Some s)" by (simp add: network_64_def)
      with None caller_key_ipv6 [OF ok(1)] network_64_ok [OF ok(1)] ok(2) that show ?thesis
        by (simp del: str_ip.simps ipv4_mapped.simps)
    next
      case (Some os)
      with caller_key_ipv6 [OF ok(1)] ipv4_mapped_ok [OF ok(1) Some] ok(2) that [of "IPv4 os"] show ?thesis
        by (simp del: str_ip.simps ipv4_mapped.simps)
    qed
  qed
  with str_ip_length [OF b(2,3)] scope show ?thesis by auto
qed

theorem counter_key_fits_witness:
  "\<exists>k. caller_key (str_ip (IPv4 [9, 9, 9, 9])) = Some k \<and> length (scope_value CLIENT_IP @ '':'' @ k) \<le> 100"
  by (rule counter_key_fits) simp_all

text \<open>An address with a scope escapes this bound: when its host part is 0, the scope's text stays in
  the key, so that there is no limit to a key's length and one network has as many keys as there are
  scopes.\<close>

theorem scoped_keys_are_unbounded:
  "\<forall>n. \<exists>a k. ip_ok a \<and> caller_key (str_ip a) = Some k \<and> n < length k"
proof
  fix n
  let ?a = "IPv6 [8193, 3512, 0, 0, 0, 0, 0, 0] (Some (replicate (Suc n) (CHR ''x'')))"
  have ok: "ip_ok ?a" by auto
  moreover have "caller_key (str_ip ?a) = Some (str_ip ?a)"
    using caller_key_ipv6 [OF ok] by (simp add: network_64_def del: str_ip.simps)
  moreover have "n < length (str_ip ?a)" by simp
  ultimately show "\<exists>a k. ip_ok a \<and> caller_key (str_ip a) = Some k \<and> n < length k" by blast
qed

end
