(* ===== verification/Api_Throttles.thy ===== *)
theory Api_Throttles
  imports Throttle_Counter Client_IP
begin

text \<open>
  \<^verbatim>\<open>api/lockout.py\<close>, \<^verbatim>\<open>api/throttles.py\<close> and \<^verbatim>\<open>api/authentication.py\<close>: the lockout after wrong
  tokens, the per-address cap on every endpoint, and the token login that applies the first.  They
  rely on the counters through the locale \<open>counter_store\<close>.
\<close>

section \<open>The counters as the throttles see them\<close>

locale counter_store =
  fixes lookup :: "'s \<Rightarrow> string \<Rightarrow> (int \<times> time) option"
    and bump :: "string \<Rightarrow> int \<Rightarrow> time \<Rightarrow> 's \<Rightarrow> 's"
    and ok :: "'s \<Rightarrow> bool"
  assumes bump_ok: "ok s \<Longrightarrow> ok (bump k d t s)"
    and bump_same: "ok s \<Longrightarrow> 0 \<le> d \<Longrightarrow> lookup (bump k d t s) k =
          (case lookup s k of
             Some (n, ends) \<Rightarrow> if t < ends then Some (n + 1, ends) else Some (1, t + seconds d)
           | None \<Rightarrow> Some (1, t + seconds d))"
    and bump_other: "ok s \<Longrightarrow> k \<noteq> k' \<Longrightarrow> lookup (bump k d t s) k' = lookup s k' \<or>
          lookup (bump k d t s) k' = None \<and> (\<exists>n ends. lookup s k' = Some (n, ends) \<and> ends < t)"
begin

definition live_count :: "'s \<Rightarrow> string \<Rightarrow> time \<Rightarrow> int" where
  "live_count s k t = (case lookup s k of Some (n, ends) \<Rightarrow> if t < ends then n else 0 | None \<Rightarrow> 0)"

lemma other_keys_do_not_count:
  assumes "ok s" and "k \<noteq> k'" and "t \<le> t'"
  shows "live_count (bump k d t s) k' t' = live_count s k' t'"
  using bump_other [OF assms(1,2), of d t] assms(3) by (auto simp: live_count_def split: option.splits)

text \<open>Hits that fall into the window the first of them opens.\<close>

lemma hits_in_one_window:
  assumes "ok s" and "0 < d" and "live_count s k t = 0 \<and> (\<forall>n ends. lookup s k = Some (n, ends) \<longrightarrow> ends \<le> t)"
    and "\<forall>u \<in> set ts. t \<le> u \<and> u < t + seconds d"
  shows "lookup (fold (bump k d) (t # ts) s) k = Some (int (length ts) + 1, t + seconds d)"
    and "ok (fold (bump k d) (t # ts) s)"
proof -
  have first: "lookup (bump k d t s) k = Some (1, t + seconds d)"
    using bump_same [OF assms(1), of d k t] assms(2,3) by (auto simp: not_less split: option.splits)
  have "lookup (fold (bump k d) us s') k = Some (n + int (length us), t + seconds d) \<and> ok (fold (bump k d) us s')"
    if "ok s'" "lookup s' k = Some (n, t + seconds d)" "\<forall>u \<in> set us. u < t + seconds d" for us s' n
    using that
  proof (induction us arbitrary: s' n)
    case Nil
    then show ?case by simp
  next
    case (Cons u us)
    then have "lookup (bump k d u s') k = Some (n + 1, t + seconds d)"
      using bump_same [of s' d k u] assms(2) by simp
    from Cons.IH [OF bump_ok [OF Cons.prems(1)] this] Cons.prems(3) show ?case by simp
  qed
  from this [OF bump_ok [OF assms(1)] first, of ts] assms(4) show
    "lookup (fold (bump k d) (t # ts) s) k = Some (int (length ts) + 1, t + seconds d)"
    "ok (fold (bump k d) (t # ts) s)" by simp_all
qed

end

text \<open>Counting alone, all clock readings of one hit at the same moment.\<close>

definition bump_rows :: "string \<Rightarrow> int \<Rightarrow> time \<Rightarrow> counters \<Rightarrow> counters" where
  "bump_rows key window_seconds t rows = snd (hit (\<lambda>_ r. r) key window_seconds t t t rows)"

lemma hit_alone:
  assumes "unique_keys rows"
  shows "hit (\<lambda>_ r. r) key d t t1 t2 rows = (Inr (read_at key t1 t2 (bump_rows key d t rows)), bump_rows key d t rows)"
    and "unique_keys (bump_rows key d t rows)"
    and "window_of (bump_rows key d t rows) = (if window_of rows key = None then spec_clean t else (\<lambda>m. m))
            (spec_hit key t (t + seconds d) (window_of rows))"
proof -
  have five: "MAX_HIT_ATTEMPTS = Suc 4" by (simp add: MAX_HIT_ATTEMPTS_def)
  obtain k rows' where "hit_loop MAX_HIT_ATTEMPTS (\<lambda>_ r. r) key t (t + seconds d) 0 rows = (Some k, rows')"
    "unique_keys rows'" "window_of rows' = (if window_of rows key = None then spec_clean t else (\<lambda>m. m))
            (spec_hit key t (t + seconds d) (window_of rows))"
    unfolding five using hit_loop_alone [OF assms, of 4 key t "t + seconds d"] by blast
  then show "hit (\<lambda>_ r. r) key d t t1 t2 rows = (Inr (read_at key t1 t2 (bump_rows key d t rows)), bump_rows key d t rows)"
    "unique_keys (bump_rows key d t rows)"
    "window_of (bump_rows key d t rows) = (if window_of rows key = None then spec_clean t else (\<lambda>m. m))
            (spec_hit key t (t + seconds d) (window_of rows))"
    by (simp_all add: hit_def bump_rows_def Let_def)
qed

interpretation counters: counter_store window_of bump_rows unique_keys
proof unfold_locales
  fix rows :: counters and k k' :: string and d :: int and t :: time
  assume u: "unique_keys rows"
  show "unique_keys (bump_rows k d t rows)" by (rule hit_alone(2) [OF u])
  show "window_of (bump_rows k d t rows) k =
      (case window_of rows k of
         Some (n, ends) \<Rightarrow> if t < ends then Some (n + 1, ends) else Some (1, t + seconds d)
       | None \<Rightarrow> Some (1, t + seconds d))" if "0 \<le> d"
  proof -
    have "0 \<le> seconds d" "0 \<le> EXPIRED_ROW_GRACE" using that by (simp_all add: EXPIRED_ROW_GRACE_def)
    then have "\<not> t + seconds d < t - EXPIRED_ROW_GRACE" by linarith
    then show ?thesis using hit_alone(3) [OF u, of k d t] by (auto simp: spec_hit_def spec_clean_def split: option.splits)
  qed
  show "window_of (bump_rows k d t rows) k' = window_of rows k' \<or>
      window_of (bump_rows k d t rows) k' = None \<and> (\<exists>n ends. window_of rows k' = Some (n, ends) \<and> ends < t)"
    if "k \<noteq> k'"
    using hit_alone(3) [OF u, of k d t] that
    by (auto simp: spec_hit_def spec_clean_def EXPIRED_ROW_GRACE_def seconds_def split: option.splits)
qed

lemma read_at_count:
  assumes "unique_keys rows"
  shows "cr_count (read_at key t t' rows) = counters.live_count rows key t"
  using assms unfolding counters.live_count_def
  by (induction rows) (auto simp: read_at_def live_def unique_keys_def split: option.splits if_splits)

section \<open>Lockout and login\<close>

record rates =
  drf :: drf_parser
  DEFAULT_THROTTLE_RATES :: "ThrottleScope \<Rightarrow> string"

text \<open>How a login ends.  \<open>Misconfigured\<close>: the rate or the address ranges cannot be read.\<close>

datatype auth_result =
    Anonymous
  | Authenticated nat
  | WrongToken
  | Throttled int
  | Misconfigured
  | CounterError string

record FailedAuthLockout =
  max_failures :: int
  lockout_window :: int
  counter_key :: string

definition make_lockout :: "rates \<Rightarrow> ip_settings \<Rightarrow> request_meta \<Rightarrow> FailedAuthLockout option" where
  "make_lockout rs ips req =
     (case (rate_for (drf rs) (DEFAULT_THROTTLE_RATES rs) FAILED_AUTH, build_counter_key ips FAILED_AUTH req) of
        (Inr (n, secs), Some key) \<Rightarrow> Some \<lparr>max_failures = n, lockout_window = secs, counter_key = key\<rparr>
      | _ \<Rightarrow> None)"

text \<open>\<open>check\<close>: the wait to answer with, if the address is locked out.\<close>

definition lockout_check :: "FailedAuthLockout \<Rightarrow> (nat \<Rightarrow> time) \<Rightarrow> counters \<Rightarrow> int option" where
  "lockout_check l clk rows =
     (let reading = read_at (counter_key l) (clk 0) (clk 1) rows
      in if max_failures l \<le> cr_count reading then Some (cr_seconds_left reading) else None)"

definition lockout_record ::
    "FailedAuthLockout \<Rightarrow> (nat \<Rightarrow> counters \<Rightarrow> counters) \<Rightarrow> (nat \<Rightarrow> time) \<Rightarrow> counters \<Rightarrow> (string + CounterReading) \<times> counters" where
  "lockout_record l others clk rows = hit others (counter_key l) (lockout_window l) (clk 2) (clk 3) (clk 4) rows"

text \<open>
  The login.  \<open>token_login\<close> is what the token library answers for this request: no token, a user, or
  a wrong token.  \<open>clk\<close> gives the request's clock readings.
\<close>

definition authenticate ::
    "rates \<Rightarrow> ip_settings \<Rightarrow> (request_meta \<Rightarrow> auth_result) \<Rightarrow> (nat \<Rightarrow> counters \<Rightarrow> counters) \<Rightarrow> (nat \<Rightarrow> time) \<Rightarrow>
      request_meta \<Rightarrow> counters \<Rightarrow> auth_result \<times> counters" where
  "authenticate rs ips token_login others clk req rows =
     (case make_lockout rs ips req of
        None \<Rightarrow> (Misconfigured, rows)
      | Some l \<Rightarrow>
          (case lockout_check l clk rows of
             Some wait \<Rightarrow> (Throttled wait, rows)
           | None \<Rightarrow>
               (case token_login req of
                  WrongToken \<Rightarrow>
                    (case lockout_record l others clk rows of
                       (Inl m, rows1) \<Rightarrow> (CounterError m, rows1)
                     | (Inr _, rows1) \<Rightarrow> (WrongToken, rows1))
                | res \<Rightarrow> (res, rows))))"

section \<open>The cap per address\<close>

definition is_unlimited_account :: "ServiceAccount list \<Rightarrow> nat option \<Rightarrow> bool" where
  "is_unlimited_account accounts user =
     (case for_user accounts user of None \<Rightarrow> False | Some a \<Rightarrow> is_unlimited a)"

text \<open>
  \<open>allow_request\<close> and what \<open>wait\<close> then answers; \<open>None\<close> where reading the rate, the address or the
  counter raises.
\<close>

definition allow_request ::
    "rates \<Rightarrow> ip_settings \<Rightarrow> ServiceAccount list \<Rightarrow> nat option \<Rightarrow> (nat \<Rightarrow> counters \<Rightarrow> counters) \<Rightarrow> (nat \<Rightarrow> time) \<Rightarrow>
      request_meta \<Rightarrow> counters \<Rightarrow> (bool \<times> int) option \<times> counters" where
  "allow_request rs ips accounts user others clk req rows =
     (case rate_for (drf rs) (DEFAULT_THROTTLE_RATES rs) CLIENT_IP of
        Inl _ \<Rightarrow> (None, rows)
      | Inr (n, secs) \<Rightarrow>
          if is_unlimited_account accounts user then (Some (True, 0), rows)
          else case build_counter_key ips CLIENT_IP req of
                 None \<Rightarrow> (None, rows)
               | Some key \<Rightarrow>
                   (case hit others key secs (clk 0) (clk 1) (clk 2) rows of
                      (Inl _, rows1) \<Rightarrow> (None, rows1)
                    | (Inr reading, rows1) \<Rightarrow> (Some (cr_count reading \<le> n, cr_seconds_left reading), rows1)))"

section \<open>What they promise\<close>

text \<open>Once an address has used up its failures, every further login from it is refused until its
  window ends, the right token included: the token is not even looked at, and nothing is counted.\<close>

theorem locked_out_address_cannot_log_in:
  assumes "unique_keys rows" and "make_lockout rs ips req = Some l"
    and "window_of rows (counter_key l) = Some (n, ends)" and "max_failures l \<le> n" and "clk 0 < ends"
  shows "\<exists>wait. authenticate rs ips token_login others clk req rows = (Throttled wait, rows)"
proof -
  have "cr_count (read_at (counter_key l) (clk 0) (clk 1) rows) = n"
    using read_at_count [OF assms(1)] assms(3,5) by (simp add: counters.live_count_def)
  with assms(2,4) show ?thesis by (simp add: authenticate_def lockout_check_def Let_def)
qed

text \<open>Several wrong tokens from one address, one after the other; each request at one moment.\<close>

fun guess_all :: "rates \<Rightarrow> ip_settings \<Rightarrow> request_meta \<Rightarrow> time list \<Rightarrow> counters \<Rightarrow> auth_result list \<times> counters" where
  "guess_all rs ips req [] rows = ([], rows)"
| "guess_all rs ips req (t # ts) rows =
     (let (res, rows1) = authenticate rs ips (\<lambda>_. WrongToken) (\<lambda>_ r. r) (\<lambda>_. t) req rows;
          (results, rows2) = guess_all rs ips req ts rows1
      in (res # results, rows2))"

lemma wrong_token_counts:
  assumes "unique_keys rows" and "make_lockout rs ips req = Some l"
  shows "authenticate rs ips (\<lambda>_. WrongToken) (\<lambda>_ r. r) (\<lambda>_. t) req rows =
     (if max_failures l \<le> counters.live_count rows (counter_key l) t
      then (Throttled (cr_seconds_left (read_at (counter_key l) t t rows)), rows)
      else (WrongToken, bump_rows (counter_key l) (lockout_window l) t rows))"
  using assms read_at_count [OF assms(1)] hit_alone(1) [OF assms(1)]
  by (simp add: authenticate_def lockout_check_def lockout_record_def Let_def)

lemma guess_all_from:
  assumes "unique_keys rows" and "make_lockout rs ips req = Some l"
    and "window_of rows (counter_key l) = Some (n, ends)" and "\<forall>t \<in> set ts. t < ends" and "n \<le> max_failures l"
    and "0 < lockout_window l"
  shows "map (\<lambda>res. res = WrongToken) (fst (guess_all rs ips req ts rows)) =
         map (\<lambda>i. n + int i < max_failures l) [0 ..< length ts]"
  using assms
proof (induction ts arbitrary: rows n)
  case Nil
  then show ?case by simp
next
  case (Cons t ts)
  have live: "counters.live_count rows (counter_key l) t = n" using Cons.prems(3,4) by (simp add: counters.live_count_def)
  note auth = wrong_token_counts [OF Cons.prems(1,2), of t]
  have shift: "map f [0 ..< Suc m] = f 0 # map (\<lambda>i. f (Suc i)) [0 ..< m]" for f :: "nat \<Rightarrow> bool" and m
    by (simp add: map_Suc_upt [symmetric] upt_conv_Cons del: upt_Suc)
  show ?case
  proof (cases "n < max_failures l")
    case True
    let ?rows = "bump_rows (counter_key l) (lockout_window l) t rows"
    have "window_of ?rows (counter_key l) = Some (n + 1, ends)"
      using counters.bump_same [OF Cons.prems(1), of "lockout_window l" "counter_key l" t] Cons.prems(3,4,6) by simp
    from Cons.IH [OF hit_alone(2) [OF Cons.prems(1)] Cons.prems(2) this] Cons.prems(4,6) True auth live show ?thesis
      by (simp add: Let_def shift case_prod_beta ac_simps del: upt_Suc)
  next
    case False
    with Cons.prems(5) have "n = max_failures l" by simp
    with Cons.IH [OF Cons.prems(1-3)] Cons.prems(4-6) auth live show ?thesis
      by (simp add: Let_def shift case_prod_beta del: upt_Suc)
  qed
qed


text \<open>A login setup for the witnesses: two failures an hour, requests without any headers.\<close>

definition demo_rates :: rates where
  "demo_rates = \<lparr>drf = (\<lambda>_. Some (Some 2, Some 3600)), DEFAULT_THROTTLE_RATES = (\<lambda>_. ''2/hour'')\<rparr>"

definition demo_request :: request_meta where
  "demo_request = \<lparr>http_x_forwarded_for = None, remote_addr = None, http_cf_connecting_ip = None\<rparr>"

lemma demo_client_ip: "client_ip demo_ip_settings demo_request = Some UNKNOWN_IP"
  by (simp add: client_ip_def connecting_address_def forwarded_parts_def demo_request_def demo_ip_settings_def
      valid_ip_def strip_def ip_address_def parse_ipv4_def parse_ipv6_def parse_ipv6_int_def is_cloudflare_def
      caller_key_def Let_def)

lemma demo_lockout:
  "make_lockout demo_rates demo_ip_settings demo_request =
   Some \<lparr>max_failures = 2, lockout_window = 3600, counter_key = ''failed_auth:unknown''\<rparr>"
  by (simp add: make_lockout_def rate_for_def parse_rate_def demo_rates_def build_counter_key_def demo_client_ip
      UNKNOWN_IP_def)

theorem locked_out_address_cannot_log_in_witness:
  "\<exists>wait. authenticate demo_rates demo_ip_settings (\<lambda>_. Authenticated 3) (\<lambda>_ r. r) (\<lambda>_. 5) demo_request
      [\<lparr>tc_key = ''failed_auth:unknown'', tc_count = 2, window_ends_at = 9\<rparr>] =
     (Throttled wait, [\<lparr>tc_key = ''failed_auth:unknown'', tc_count = 2, window_ends_at = 9\<rparr>])"
  by (rule locked_out_address_cannot_log_in [OF _ demo_lockout, where n = 2 and ends = 9])
    (simp_all add: unique_keys_def)


text \<open>Requests of one address to any endpoint, each at one moment.\<close>

fun request_all ::
    "rates \<Rightarrow> ip_settings \<Rightarrow> ServiceAccount list \<Rightarrow> nat option \<Rightarrow> request_meta \<Rightarrow> time list \<Rightarrow> counters \<Rightarrow>
      (bool \<times> int) option list \<times> counters" where
  "request_all rs ips accounts user req [] rows = ([], rows)"
| "request_all rs ips accounts user req (t # ts) rows =
     (let (res, rows1) = allow_request rs ips accounts user (\<lambda>_ r. r) (\<lambda>_. t) req rows;
          (results, rows2) = request_all rs ips accounts user req ts rows1
      in (res # results, rows2))"

lemma request_all_from:
  assumes "unique_keys rows" and "rate_for (drf rs) (DEFAULT_THROTTLE_RATES rs) CLIENT_IP = Inr (n, secs)"
    and "build_counter_key ips CLIENT_IP req = Some key" and "\<not> is_unlimited_account accounts user"
    and "window_of rows key = Some (m, ends)" and "\<forall>t \<in> set ts. t < ends" and "0 < secs"
  shows "map (\<lambda>res. \<exists>w. res = Some (True, w)) (fst (request_all rs ips accounts user req ts rows)) =
         map (\<lambda>i. m + int i < n) [0 ..< length ts]"
  using assms
proof (induction ts arbitrary: rows m)
  case Nil
  then show ?case by simp
next
  case (Cons t ts)
  let ?rows = "bump_rows key secs t rows"
  have w: "window_of ?rows key = Some (m + 1, ends)"
    using counters.bump_same [OF Cons.prems(1), of secs key t] Cons.prems(5-7) by simp
  have u: "unique_keys ?rows" by (rule hit_alone(2) [OF Cons.prems(1)])
  have "cr_count (read_at key t t ?rows) = m + 1"
    using read_at_count [OF u] w Cons.prems(6) by (simp add: counters.live_count_def)
  with hit_alone(1) [OF Cons.prems(1), of key secs t t t] Cons.prems(2-4)
  have "allow_request rs ips accounts user (\<lambda>_ r. r) (\<lambda>_. t) req rows =
      (Some (m + 1 \<le> n, cr_seconds_left (read_at key t t ?rows)), ?rows)"
    by (simp add: allow_request_def)
  moreover have "map f [0 ..< Suc k] = f 0 # map (\<lambda>i. f (Suc i)) [0 ..< k]" for f :: "nat \<Rightarrow> bool" and k
    by (simp add: map_Suc_upt [symmetric] upt_conv_Cons del: upt_Suc)
  ultimately show ?case
    using Cons.IH [OF u Cons.prems(2-4) w] Cons.prems(6,7) by (auto simp: Let_def case_prod_beta ac_simps simp del: upt_Suc)
qed

text \<open>An address that is not an unlimited account's gets exactly its rate of requests through in a
  window: request number i within the window is let through if i is below the rate and refused
  after that.\<close>

theorem address_cap_is_exact:
  assumes "unique_keys rows" and "rate_for (drf rs) (DEFAULT_THROTTLE_RATES rs) CLIENT_IP = Inr (n, secs)"
    and "build_counter_key ips CLIENT_IP req = Some key" and "\<not> is_unlimited_account accounts user" and "0 < secs"
    and "\<forall>m ends. window_of rows key = Some (m, ends) \<longrightarrow> ends \<le> t"
    and "\<forall>u \<in> set ts. t \<le> u \<and> u < t + seconds secs"
  shows "map (\<lambda>res. \<exists>w. res = Some (True, w)) (fst (request_all rs ips accounts user req (t # ts) rows)) =
         map (\<lambda>i. int i < n) [0 ..< Suc (length ts)]"
proof -
  let ?rows = "bump_rows key secs t rows"
  have none: "counters.live_count rows key t = 0"
    using assms(6) by (auto simp: counters.live_count_def split: option.split)
  have w: "window_of ?rows key = Some (1, t + seconds secs)"
    using counters.hits_in_one_window(1) [OF assms(1,5), of key t "[]"] none assms(6) by simp
  have u: "unique_keys ?rows" by (rule hit_alone(2) [OF assms(1)])
  have "cr_count (read_at key t t ?rows) = 1"
    using read_at_count [OF u] w assms(5) by (simp add: counters.live_count_def)
  with hit_alone(1) [OF assms(1), of key secs t t t] assms(2-4)
  have "allow_request rs ips accounts user (\<lambda>_ r. r) (\<lambda>_. t) req rows =
      (Some (1 \<le> n, cr_seconds_left (read_at key t t ?rows)), ?rows)"
    by (simp add: allow_request_def)
  moreover have "map f [0 ..< Suc k] = f 0 # map (\<lambda>i. f (Suc i)) [0 ..< k]" for f :: "nat \<Rightarrow> bool" and k
    by (simp add: map_Suc_upt [symmetric] upt_conv_Cons del: upt_Suc)
  ultimately show ?thesis
    using request_all_from [OF u assms(2-4) w, of ts] assms(5,7)
    by (auto simp: Let_def case_prod_beta ac_simps simp del: upt_Suc)
qed

theorem address_cap_is_exact_witness:
  "map (\<lambda>res. \<exists>w. res = Some (True, w))
     (fst (request_all demo_rates demo_ip_settings [] None demo_request [0, 1, 2] [])) = [True, True, False]"
proof -
  have "map (\<lambda>res. \<exists>w. res = Some (True, w))
      (fst (request_all demo_rates demo_ip_settings [] None demo_request (0 # [1, 2]) [])) =
      map (\<lambda>i. int i < 2) [0 ..< Suc (length [1, 2 :: int])]"
  proof (rule address_cap_is_exact)
    show "rate_for (drf demo_rates) (DEFAULT_THROTTLE_RATES demo_rates) CLIENT_IP = Inr (2, 3600)"
      by (simp add: rate_for_def parse_rate_def demo_rates_def)
    show "build_counter_key demo_ip_settings CLIENT_IP demo_request = Some ''client_ip:unknown''"
      by (simp add: build_counter_key_def demo_client_ip UNKNOWN_IP_def)
  qed (simp_all add: unique_keys_def seconds_def is_unlimited_account_def for_user_def)
  then show ?thesis by (simp add: upt_rec)
qed

text \<open>A hit can report fewer uses than it counted.  When the window ends between the update and
  the reading, the reading is 0 although the row says one more than the rate, and the request over
  the cap is let through.\<close>

theorem hit_can_report_too_few:
  "\<exists>rows rows' t1. window_of rows ''client_ip:unknown'' = Some (2, 1) \<and>
     allow_request demo_rates demo_ip_settings [] None (\<lambda>_ r. r) (\<lambda>k. if k = 0 then 0 else t1) demo_request rows =
       (Some (True, 0), rows') \<and>
     window_of rows' ''client_ip:unknown'' = Some (3, 1)"
proof (intro exI conjI)
  let ?rows = "[\<lparr>tc_key = ''client_ip:unknown'', tc_count = 2, window_ends_at = 1\<rparr>]"
  let ?rows' = "[\<lparr>tc_key = ''client_ip:unknown'', tc_count = 3, window_ends_at = 1\<rparr>]"
  show "window_of ?rows ''client_ip:unknown'' = Some (2, 1)" by simp
  show "window_of ?rows' ''client_ip:unknown'' = Some (3, 1)" by simp
  have loop: "hit_loop MAX_HIT_ATTEMPTS (\<lambda>_ r. r) ''client_ip:unknown'' 0 (seconds 3600) 0 ?rows = (Some 1, ?rows')"
    by (simp add: MAX_HIT_ATTEMPTS_def numeral_eq_Suc live_update_def live_def update_rows_def)
  show "allow_request demo_rates demo_ip_settings [] None (\<lambda>_ r. r) (\<lambda>k. if k = 0 then 0 else 2) demo_request ?rows =
       (Some (True, 0), ?rows')"
    by (simp add: allow_request_def rate_for_def parse_rate_def demo_rates_def is_unlimited_account_def for_user_def
        build_counter_key_def demo_client_ip UNKNOWN_IP_def hit_def loop live_def read_at_def Let_def)
qed

end
