(* ===== verification/Url.thy ===== *)
theory Url
  imports Ip_Address
begin

text \<open>
  What the code uses of Python's \<open>urllib.parse\<close>: the scheme, host name and port of a URL, joining a
  base address and an absolute path; and of \<open>ipaddress\<close>: whether an address is globally reachable.
  \<open>None\<close> stands for a \<open>ValueError\<close>.
\<close>

section \<open>Splitting a URL\<close>

record SplitResult =
  url_scheme :: string
  url_netloc :: string

definition cut_at :: "char \<Rightarrow> string \<Rightarrow> string \<times> string" where
  "cut_at c s = (takeWhile (\<lambda>x. x \<noteq> c) s, tl (dropWhile (\<lambda>x. x \<noteq> c) s))"

definition is_alpha :: "char \<Rightarrow> bool" where
  "is_alpha c \<longleftrightarrow> (let n = (of_char c :: nat) in 65 \<le> n \<and> n \<le> 90 \<or> 97 \<le> n \<and> n \<le> 122)"

definition is_scheme_char :: "char \<Rightarrow> bool" where
  "is_scheme_char c \<longleftrightarrow> is_alpha c \<or> is_digit c \<or> c \<in> set ''+-.''"

definition clean_url :: "string \<Rightarrow> string" where
  "clean_url s =
     filter (\<lambda>c. (of_char c :: nat) \<notin> {9, 10, 13}) (dropWhile (\<lambda>c. (of_char c :: nat) \<le> 32) s)"

definition split_scheme :: "string \<Rightarrow> string \<times> string" where
  "split_scheme s =
     (let head = takeWhile (\<lambda>c. c \<noteq> CHR '':'') s
      in if CHR '':'' \<in> set s \<and> head \<noteq> '''' \<and> is_alpha (hd head) \<and> list_all is_scheme_char head
         then (lower head, drop (Suc (length head)) s) else ('''', s))"

text \<open>Brackets in a host must hold an IPv6 address (or a future version's form).\<close>

definition bracket_ok :: "string \<Rightarrow> bool" where
  "bracket_ok h =
     (if startswith h ''v''
      then (let d = takeWhile (\<lambda>c. hex_value c \<noteq> None) (tl h); rest = dropWhile (\<lambda>c. hex_value c \<noteq> None) (tl h)
            in d \<noteq> '''' \<and> startswith rest ''.'' \<and> 1 < length rest)
      else case ip_address h of Some (IPv6 hs s) \<Rightarrow> True | _ \<Rightarrow> False)"

definition urlsplit :: "string \<Rightarrow> SplitResult option" where
  "urlsplit url =
     (let (scheme, rest) = split_scheme (clean_url url)
      in if \<not> startswith rest ''//'' then Some \<lparr>url_scheme = scheme, url_netloc = ''''\<rparr>
         else let netloc = takeWhile (\<lambda>c. c \<notin> set ''/?#'') (drop 2 rest);
                  opened = CHR ''['' \<in> set netloc; closed = CHR '']'' \<in> set netloc
              in if opened \<noteq> closed then None
                 else if opened \<and> \<not> bracket_ok (fst (cut_at (CHR '']'') (snd (cut_at (CHR ''['') netloc)))) then None
                 else Some \<lparr>url_scheme = scheme, url_netloc = netloc\<rparr>)"

definition hostinfo :: "SplitResult \<Rightarrow> string \<times> string" where
  "hostinfo u =
     (let info = rev (takeWhile (\<lambda>c. c \<noteq> CHR ''@'') (rev (url_netloc u)))
      in if CHR ''['' \<in> set info
         then let (host, rest) = cut_at (CHR '']'') (snd (cut_at (CHR ''['') info))
              in (host, snd (cut_at (CHR '':'') rest))
         else cut_at (CHR '':'') info)"

definition url_hostname :: "SplitResult \<Rightarrow> string" where
  "url_hostname u =
     (let host = fst (hostinfo u); name = takeWhile (\<lambda>c. c \<noteq> CHR ''%'') host
      in lower name @ dropWhile (\<lambda>c. c \<noteq> CHR ''%'') host)"

text \<open>The port: \<open>Some None\<close> when there is none.\<close>

definition url_port :: "SplitResult \<Rightarrow> nat option option" where
  "url_port u =
     (let p = snd (hostinfo u)
      in if p = '''' then Some None
         else if list_all is_digit p \<and> digits_value p \<le> 65535 then Some (Some (digits_value p)) else None)"

text \<open>\<open>urljoin(base, path)\<close> for an absolute path and a base with a scheme and a host.\<close>

definition urljoin_path :: "string \<Rightarrow> string \<Rightarrow> string" where
  "urljoin_path base path =
     (case urlsplit base of
        Some u \<Rightarrow> (if url_scheme u = '''' then '''' else url_scheme u @ '':'')
                  @ (if url_netloc u = '''' then '''' else ''//'' @ url_netloc u) @ path
      | None \<Rightarrow> path)"

section \<open>Globally reachable addresses\<close>

definition v4 :: "nat list \<Rightarrow> nat \<Rightarrow> ip \<times> nat" where
  "v4 os p = (IPv4 os, p)"

definition v6 :: "nat list \<Rightarrow> nat \<Rightarrow> ip \<times> nat" where
  "v6 hs p = (IPv6 hs None, p)"

definition private_v4 :: "(ip \<times> nat) list" where
  "private_v4 =
     [v4 [0, 0, 0, 0] 8, v4 [10, 0, 0, 0] 8, v4 [127, 0, 0, 0] 8, v4 [169, 254, 0, 0] 16, v4 [172, 16, 0, 0] 12,
      v4 [192, 0, 0, 0] 24, v4 [192, 0, 0, 170] 31, v4 [192, 0, 2, 0] 24, v4 [192, 168, 0, 0] 16,
      v4 [198, 18, 0, 0] 15, v4 [198, 51, 100, 0] 24, v4 [203, 0, 113, 0] 24, v4 [240, 0, 0, 0] 4,
      v4 [255, 255, 255, 255] 32]"

definition private_v4_exceptions :: "(ip \<times> nat) list" where
  "private_v4_exceptions = [v4 [192, 0, 0, 9] 32, v4 [192, 0, 0, 10] 32]"

definition private_v6 :: "(ip \<times> nat) list" where
  "private_v6 =
     [v6 [0, 0, 0, 0, 0, 0, 0, 1] 128, v6 [0, 0, 0, 0, 0, 0, 0, 0] 128, v6 [0, 0, 0, 0, 0, 65535, 0, 0] 96,
      v6 [100, 65435, 1, 0, 0, 0, 0, 0] 48, v6 [256, 0, 0, 0, 0, 0, 0, 0] 64, v6 [8193, 0, 0, 0, 0, 0, 0, 0] 23,
      v6 [8193, 3512, 0, 0, 0, 0, 0, 0] 32, v6 [8194, 0, 0, 0, 0, 0, 0, 0] 16, v6 [64512, 0, 0, 0, 0, 0, 0, 0] 7,
      v6 [65152, 0, 0, 0, 0, 0, 0, 0] 10]"

definition private_v6_exceptions :: "(ip \<times> nat) list" where
  "private_v6_exceptions =
     [v6 [8193, 1, 0, 0, 0, 0, 0, 1] 128, v6 [8193, 1, 0, 0, 0, 0, 0, 2] 128, v6 [8193, 3, 0, 0, 0, 0, 0, 0] 32,
      v6 [8193, 4, 274, 0, 0, 0, 0, 0] 48, v6 [8193, 32, 0, 0, 0, 0, 0, 0] 28, v6 [8193, 48, 0, 0, 0, 0, 0, 0] 28]"

definition is_private_v4 :: "nat list \<Rightarrow> bool" where
  "is_private_v4 os \<longleftrightarrow>
     (\<exists>n \<in> set private_v4. in_network (IPv4 os) n) \<and> (\<forall>n \<in> set private_v4_exceptions. \<not> in_network (IPv4 os) n)"

fun is_global :: "ip \<Rightarrow> bool" where
  "is_global (IPv4 os) \<longleftrightarrow> \<not> in_network (IPv4 os) (v4 [100, 64, 0, 0] 10) \<and> \<not> is_private_v4 os"
| "is_global (IPv6 hs scope) \<longleftrightarrow>
     (case ipv4_mapped (IPv6 hs scope) of
        Some os \<Rightarrow> \<not> is_private_v4 os
      | None \<Rightarrow> \<not> ((\<exists>n \<in> set private_v6. in_network (IPv6 hs scope) n) \<and>
                   (\<forall>n \<in> set private_v6_exceptions. \<not> in_network (IPv6 hs scope) n)))"

section \<open>Internal addresses\<close>

lemma base_value_4: "base_value 256 [a, b, c, d] = 16777216 * a + 65536 * b + 256 * c + d"
  by (simp add: base_value_def algebra_simps)

text \<open>The loopback, private, link-local (metadata server) and "this network" ranges.\<close>

definition internal_v4 :: "nat list \<Rightarrow> bool" where
  "internal_v4 os \<longleftrightarrow>
     (case os of
        [a, b, c, d] \<Rightarrow> a = 0 \<or> a = 10 \<or> a = 127 \<or> a = 169 \<and> b = 254 \<or> a = 172 \<and> 16 \<le> b \<and> b < 32 \<or> a = 192 \<and> b = 168
      | _ \<Rightarrow> False)"

lemma internal_v4_not_global:
  assumes "ip_ok (IPv4 os)" and "internal_v4 os"
  shows "\<not> is_global (IPv4 os)"
proof -
  obtain a b c d where os: "os = [a, b, c, d]"
    using assms(2) by (auto simp: internal_v4_def split: list.splits)
  have small: "b < 256" "c < 256" "d < 256" using assms(1) os by simp_all
  then have net8: "base_value 256 os div 2 ^ 24 = a" unfolding os base_value_4 by simp
  have net16: "base_value 256 os div 2 ^ 16 = 256 * a + b" unfolding os base_value_4 using small by simp
  have net12: "base_value 256 os div 2 ^ 20 = 16 * a + b div 16"
  proof -
    have "base_value 256 os div 2 ^ 20 = (base_value 256 os div 2 ^ 16) div 2 ^ 4"
      using div_mult2_eq [of "base_value 256 os" "2 ^ 16" "2 ^ 4"] by simp
    also have "\<dots> = (256 * a + b) div 16" using net16 by simp
    also have "\<dots> = 16 * a + b div 16" by simp
    finally show ?thesis .
  qed
  have exc: "in_network (IPv4 os) n \<Longrightarrow> n \<in> set private_v4_exceptions \<Longrightarrow> a = 192 \<and> b = 0" for n
  proof -
    assume "in_network (IPv4 os) n" "n \<in> set private_v4_exceptions"
    then have "base_value 256 os = 3221225481 \<or> base_value 256 os = 3221225482"
      by (auto simp: private_v4_exceptions_def v4_def base_value_4)
    then have "256 * a + b = 49152" using net16 by auto
    with small(1) show "a = 192 \<and> b = 0" by presburger
  qed
  have in8: "in_network (IPv4 os) (v4 [x, 0, 0, 0] 8) \<longleftrightarrow> a = x" for x
    using net8 by (simp add: v4_def base_value_4)
  have in16: "in_network (IPv4 os) (v4 [x, y, 0, 0] 16) \<longleftrightarrow> 256 * a + b = 256 * x + y" for x y
    using net16 by (simp add: v4_def base_value_4)
  have in12: "in_network (IPv4 os) (v4 [172, 16, 0, 0] 12) \<longleftrightarrow> 16 * a + b div 16 = 2753"
    using net12 by (simp add: v4_def base_value_4)
  have cases: "a = 0 \<or> a = 10 \<or> a = 127 \<or> a = 169 \<and> b = 254 \<or> a = 172 \<and> 16 \<le> b \<and> b < 32 \<or> a = 192 \<and> b = 168"
    using assms(2) os by (simp add: internal_v4_def)
  have "b div 16 = 1" if "16 \<le> b" "b < 32" using that by presburger
  with cases have "\<exists>n \<in> {v4 [0, 0, 0, 0] 8, v4 [10, 0, 0, 0] 8, v4 [127, 0, 0, 0] 8, v4 [169, 254, 0, 0] 16,
      v4 [172, 16, 0, 0] 12, v4 [192, 168, 0, 0] 16}. in_network (IPv4 os) n"
    by (auto simp: in8 in12 in16 simp del: in_network.simps)
  then have "\<exists>n \<in> set private_v4. in_network (IPv4 os) n"
    unfolding private_v4_def by (auto simp del: in_network.simps)
  moreover have "\<forall>n \<in> set private_v4_exceptions. \<not> in_network (IPv4 os) n"
    using exc assms(2) os by (auto simp: internal_v4_def)
  ultimately show ?thesis by (simp add: is_private_v4_def)
qed

end
