(* ===== verification/Artifact_Steps.thy ===== *)
theory Artifact_Steps
  imports Remediation_Service
begin

text \<open>
  The pipeline step services of \<^verbatim>\<open>remediation/services.py\<close>: the mixin \<open>ArtifactService\<close>, the two
  verification services, the five services that transform the document, and \<open>ScoringService\<close>.
  The adapters they are built with (the interfaces of \<^verbatim>\<open>remediation/adapters/base.py\<close>) are a
  parameter: each call may answer differently every time, so it also gets the number of the call.
\<close>

section \<open>Adapter interfaces\<close>

text \<open>A local file is its name and contents; an adapter's output path may have no file behind it.\<close>

type_synonym local_file = "string \<times> bytes"
type_synonym output_file = "string \<times> bytes option"

record VerificationOutcome =
  vo_is_compliant :: bool
  vo_failed_rules :: "FailedRule list"
  vo_verapdf_version :: string

record FigureCandidate =
  fc_ref :: "int \<times> int"
  fc_page_number :: int
  fc_image_bytes :: bytes
  fc_media_type :: string
  fc_decorative :: bool

record ScoringResult =
  res_score :: int
  res_grade :: string
  res_manual_review_items :: "string list"

record adapters =
  ad_validate :: "nat \<Rightarrow> local_file \<Rightarrow> exn + VerificationOutcome"
  ad_extract :: "nat \<Rightarrow> local_file \<Rightarrow> exn + output_file"
  ad_repair_fonts :: "nat \<Rightarrow> local_file \<Rightarrow> exn + output_file"
  ad_finalize :: "nat \<Rightarrow> local_file \<Rightarrow> string \<Rightarrow> string \<Rightarrow> exn + output_file"
  ad_repair_links :: "nat \<Rightarrow> local_file \<Rightarrow> exn + output_file"
  ad_collect_figures :: "nat \<Rightarrow> local_file \<Rightarrow> exn + FigureCandidate list"
  ad_describe :: "nat \<Rightarrow> bytes \<Rightarrow> string \<Rightarrow> string \<Rightarrow> int \<Rightarrow> exn + string"
  ad_write_alt_text :: "nat \<Rightarrow> local_file \<Rightarrow> (int \<times> int \<rightharpoonup> string) \<Rightarrow> exn + output_file"
  ad_score :: "nat \<Rightarrow> local_file \<Rightarrow> exn + ScoringResult"

text \<open>One call of an adapter, and sequencing of fallible operations.\<close>

definition call_adapter :: "(nat \<Rightarrow> exn + 'a) \<Rightarrow> world \<Rightarrow> 'a outcome" where
  "call_adapter f w = (f (ticks w), w\<lparr>ticks := Suc (ticks w)\<rparr>)"

definition bind_outcome :: "'a outcome \<Rightarrow> ('a \<Rightarrow> world \<Rightarrow> 'b outcome) \<Rightarrow> 'b outcome" where
  "bind_outcome m f = (case m of (Inl x, w) \<Rightarrow> (Inl x, w) | (Inr a, w) \<Rightarrow> f a w)"

section \<open>The mixin\<close>

definition setting_name :: "Step \<Rightarrow> string" where
  "setting_name s = ''RUN_'' @ step_name s"

definition is_disabled :: "env \<Rightarrow> Step \<Rightarrow> bool" where
  "is_disabled e s \<longleftrightarrow> \<not> RUN (conf e) s"

definition report_exception :: "exn \<Rightarrow> Step \<Rightarrow> Remediation \<Rightarrow> world \<Rightarrow> world" where
  "report_exception exc s r w = w\<lparr>error_reports := error_reports w @ [(exn_str exc, s, rid r)]\<rparr>"

definition construct_output_dir :: "Step \<Rightarrow> Remediation \<Rightarrow> string" where
  "construct_output_dir s r =
     ''remediations/'' @ str_nat (service_account r) @ ''/'' @ content_hash r @ ''/'' @ rid r @ ''/''
       @ step_value s @ ''/''"

definition local_input_copy :: "env \<Rightarrow> string \<Rightarrow> world \<Rightarrow> local_file outcome" where
  "local_input_copy e pdf_uri w =
     (case st_open (storage_of e) (files w) pdf_uri of
        Inl x \<Rightarrow> (Inl x, w)
      | Inr contents \<Rightarrow>
          if basename pdf_uri = '''' then (Inl (OtherException ''IsADirectoryError''), w)
          else (Inr (basename pdf_uri, contents), w))"

definition persist_output :: "env \<Rightarrow> output_file \<Rightarrow> string \<Rightarrow> world \<Rightarrow> string outcome" where
  "persist_output e out dest_uri w =
     (let st = storage_of e
      in case st_exists st (files w) dest_uri of
           Inl x \<Rightarrow> (Inl x, w)
         | Inr there \<Rightarrow>
             bind_outcome
               (if there then (case st_delete st (files w) dest_uri of (res, fs) \<Rightarrow> (res, w\<lparr>files := fs\<rparr>))
                else (Inr (), w))
               (\<lambda>_ w1. case snd out of
                  None \<Rightarrow> (Inl (OtherException ''FileNotFoundError''), w1)
                | Some contents \<Rightarrow>
                    (case st_save st (files w1) dest_uri contents of
                       (res, fs) \<Rightarrow> (res, w1\<lparr>files := fs\<rparr>))))"

definition completed_output_uri :: "Step \<Rightarrow> Remediation \<Rightarrow> world \<Rightarrow> string option" where
  "completed_output_uri s r w =
     map_option art_output_uri
       (List.find (\<lambda>a. art_remediation a = rid r \<and> art_step a = s \<and> art_status a = STEP_COMPLETED)
          (artifacts w))"

definition mark_status ::
    "env \<Rightarrow> Step \<Rightarrow> Remediation \<Rightarrow> StepStatus \<Rightarrow> string \<Rightarrow> string \<Rightarrow> world \<Rightarrow> world" where
  "mark_status e s r st output_uri err w =
     (let (t, w1) = now (clock e) w
      in upsert_artifact \<lparr>art_remediation = rid r, art_step = s, art_status = st,
                          art_output_uri = output_uri, art_error = err, art_created_at = t\<rparr> w1)"

definition mark_completed :: "env \<Rightarrow> Step \<Rightarrow> Remediation \<Rightarrow> string \<Rightarrow> world \<Rightarrow> world" where
  "mark_completed e s r output_uri w = mark_status e s r STEP_COMPLETED output_uri '''' w"

definition mark_skipped :: "env \<Rightarrow> Step \<Rightarrow> Remediation \<Rightarrow> string \<Rightarrow> world \<Rightarrow> world" where
  "mark_skipped e s r reason w = mark_status e s r STEP_SKIPPED '''' reason w"

definition mark_failed :: "env \<Rightarrow> Step \<Rightarrow> Remediation \<Rightarrow> string \<Rightarrow> world \<Rightarrow> world" where
  "mark_failed e s r err w = mark_status e s r STEP_FAILED '''' err w"

definition record_skip :: "env \<Rightarrow> Step \<Rightarrow> Remediation \<Rightarrow> world \<Rightarrow> world" where
  "record_skip e s r w = mark_skipped e s r (setting_name s @ '' is disabled'') w"

section \<open>Verification\<close>

definition handle_result :: "Step \<Rightarrow> bool \<Rightarrow> FailedRule list \<Rightarrow> exn option" where
  "handle_result s is_compliant failed_rules =
     (case s of
        PRECHECK \<Rightarrow> if is_compliant then Some AlreadyCompliant else None
      | POSTCHECK \<Rightarrow> if \<not> is_compliant then Some (NotCompliant failed_rules) else None
      | _ \<Rightarrow> Some (OtherException ''NotImplementedError''))"

definition handle_verification_error :: "Step \<Rightarrow> string \<Rightarrow> exn option" where
  "handle_verification_error s err =
     (if s = POSTCHECK then Some (PostCheckUnavailable (''postcheck could not run: '' @ err)) else None)"

definition raise_or :: "exn option \<Rightarrow> 'a \<Rightarrow> world \<Rightarrow> 'a outcome" where
  "raise_or x a w = (case x of Some exc \<Rightarrow> (Inl exc, w) | None \<Rightarrow> (Inr a, w))"

definition verification_resume_completed :: "Step \<Rightarrow> Remediation \<Rightarrow> string \<Rightarrow> world \<Rightarrow> string outcome" where
  "verification_resume_completed s r output_uri w =
     (case List.find (\<lambda>v. vr_remediation v = rid r \<and> vr_step v = s) (verification_results w) of
        None \<Rightarrow> (Inl (DoesNotExist ''VerificationResult matching query does not exist.''), w)
      | Some previous \<Rightarrow>
          (case rules_of_dicts (vr_failed_rules previous) of
             None \<Rightarrow> (Inl (ValueError ''not a valid Severity''), w)
           | Some rules \<Rightarrow> raise_or (handle_result s (vr_is_compliant previous) rules) output_uri w))"

definition verification_run :: "adapters \<Rightarrow> env \<Rightarrow> Step \<Rightarrow> Remediation \<Rightarrow> string \<Rightarrow> world \<Rightarrow> string outcome" where
  "verification_run ad e s r pdf_uri w =
     (case bind_outcome (local_input_copy e pdf_uri w)
             (\<lambda>f. call_adapter (\<lambda>n. ad_validate ad n f)) of
        (Inl exc, w1) \<Rightarrow>
          raise_or (handle_verification_error s (exn_str exc)) pdf_uri
            (mark_failed e s r (exn_str exc) (report_exception exc s r w1))
      | (Inr res, w1) \<Rightarrow>
          (let (t, w2) = now (clock e) w1
           in bind_outcome
                (insert_verification_result
                   \<lparr>vr_remediation = rid r, vr_step = s, vr_is_compliant = vo_is_compliant res,
                    vr_verapdf_version = vo_verapdf_version res,
                    vr_failed_rules = map rule_to_dict (vo_failed_rules res), vr_created_at = t\<rparr> w2)
                (\<lambda>_ w3. raise_or (handle_result s (vo_is_compliant res) (vo_failed_rules res)) pdf_uri
                          (mark_completed e s r pdf_uri w3))))"

section \<open>Transforming steps\<close>

text \<open>
  The body the five transforming services share: copy the input to a local file, let the adapter
  write its output, store that under the step's own directory; on any exception report it, mark the
  step failed and pass the input on.
\<close>

definition transform_run ::
    "env \<Rightarrow> Step \<Rightarrow> (local_file \<Rightarrow> world \<Rightarrow> output_file outcome) \<Rightarrow> Remediation \<Rightarrow> string \<Rightarrow> world \<Rightarrow> string outcome" where
  "transform_run e s work r pdf_uri w =
     (case bind_outcome (local_input_copy e pdf_uri w)
             (\<lambda>f w1. bind_outcome (work f w1)
                (\<lambda>out. persist_output e out (construct_output_dir s r @ basename (fst out)))) of
        (Inl exc, w1) \<Rightarrow> (Inr pdf_uri, mark_failed e s r (exn_str exc) (report_exception exc s r w1))
      | (Inr output_uri, w1) \<Rightarrow> (Inr output_uri, mark_completed e s r output_uri w1))"

definition OCRService_run :: "adapters \<Rightarrow> env \<Rightarrow> Remediation \<Rightarrow> string \<Rightarrow> world \<Rightarrow> string outcome" where
  "OCRService_run ad e = transform_run e OCR (\<lambda>f. call_adapter (\<lambda>n. ad_extract ad n f))"

definition FontRepairService_run :: "adapters \<Rightarrow> env \<Rightarrow> Remediation \<Rightarrow> string \<Rightarrow> world \<Rightarrow> string outcome" where
  "FontRepairService_run ad e = transform_run e FONT_REPAIR (\<lambda>f. call_adapter (\<lambda>n. ad_repair_fonts ad n f))"

definition DEFAULT_TITLE :: string where
  "DEFAULT_TITLE = ''Untitled document''"

text \<open>
  \<open>os.path.splitext(p)[0]\<close>: the path up to its last dot, if that dot lies in the last component and
  some character of the component before it is not a dot.
\<close>

definition splitext_root :: "string \<Rightarrow> string" where
  "splitext_root p =
     (let base = basename p; ext = takeWhile (\<lambda>c. c \<noteq> CHR ''.'') (rev base);
          stem = take (length base - Suc (length ext)) base
      in if length ext < length base \<and> (\<exists>c \<in> set stem. c \<noteq> CHR ''.'')
         then take (length p - Suc (length ext)) p else p)"

definition derive_title :: "Remediation \<Rightarrow> string" where
  "derive_title r = (let stem = splitext_root (original_filename r)
                     in if stem = '''' then DEFAULT_TITLE else stem)"

definition MetadataService_run :: "adapters \<Rightarrow> env \<Rightarrow> Remediation \<Rightarrow> string \<Rightarrow> world \<Rightarrow> string outcome" where
  "MetadataService_run ad e r =
     transform_run e FINALIZE_METADATA
       (\<lambda>f. call_adapter (\<lambda>n. ad_finalize ad n f (derive_title r) (LANGUAGE_CODE (conf e)))) r"

definition LinkService_run :: "adapters \<Rightarrow> env \<Rightarrow> Remediation \<Rightarrow> string \<Rightarrow> world \<Rightarrow> string outcome" where
  "LinkService_run ad e = transform_run e LINK_TAG (\<lambda>f. call_adapter (\<lambda>n. ad_repair_links ad n f))"

fun describe_all ::
    "adapters \<Rightarrow> string \<Rightarrow> FigureCandidate list \<Rightarrow> (int \<times> int \<rightharpoonup> string) \<Rightarrow> world \<Rightarrow> (int \<times> int \<rightharpoonup> string) outcome" where
  "describe_all ad title [] alts w = (Inr alts, w)"
| "describe_all ad title (c # cs) alts w =
     (if fc_decorative c then describe_all ad title cs (alts(fc_ref c \<mapsto> '''')) w
      else bind_outcome
             (call_adapter (\<lambda>n. ad_describe ad n (fc_image_bytes c) (fc_media_type c) title (fc_page_number c)) w)
             (\<lambda>text. describe_all ad title cs (alts(fc_ref c \<mapsto> text))))"

definition AltTextService_run :: "adapters \<Rightarrow> env \<Rightarrow> Remediation \<Rightarrow> string \<Rightarrow> world \<Rightarrow> string outcome" where
  "AltTextService_run ad e r =
     transform_run e ALT_TEXT
       (\<lambda>f w. bind_outcome (call_adapter (\<lambda>n. ad_collect_figures ad n f) w)
          (\<lambda>candidates w1. bind_outcome (describe_all ad (derive_title r) candidates Map.empty w1)
             (\<lambda>alts. call_adapter (\<lambda>n. ad_write_alt_text ad n f alts)))) r"

section \<open>Scoring\<close>

definition ScoringService_run :: "adapters \<Rightarrow> env \<Rightarrow> Remediation \<Rightarrow> string \<Rightarrow> world \<Rightarrow> string outcome" where
  "ScoringService_run ad e r pdf_uri w =
     (case bind_outcome (local_input_copy e pdf_uri w) (\<lambda>f. call_adapter (\<lambda>n. ad_score ad n f)) of
        (Inl exc, w1) \<Rightarrow>
          (Inr pdf_uri, mark_failed e SCORING r (exn_str exc) (report_exception exc SCORING r w1))
      | (Inr res, w1) \<Rightarrow>
          (let (t, w2) = now (clock e) w1
           in bind_outcome
                (insert_score \<lparr>sc_remediation = rid r, sc_score = res_score res, sc_grade = res_grade res,
                               sc_manual_review_items = res_manual_review_items res, sc_created_at = t\<rparr> w2)
                (\<lambda>_ w3. (Inr pdf_uri, mark_completed e SCORING r pdf_uri w3))))"

section \<open>Running a step\<close>

fun step_run :: "adapters \<Rightarrow> env \<Rightarrow> Step \<Rightarrow> Remediation \<Rightarrow> string \<Rightarrow> world \<Rightarrow> string outcome" where
  "step_run ad e PRECHECK = verification_run ad e PRECHECK"
| "step_run ad e OCR = OCRService_run ad e"
| "step_run ad e FONT_REPAIR = FontRepairService_run ad e"
| "step_run ad e FINALIZE_METADATA = MetadataService_run ad e"
| "step_run ad e LINK_TAG = LinkService_run ad e"
| "step_run ad e ALT_TEXT = AltTextService_run ad e"
| "step_run ad e SCORING = ScoringService_run ad e"
| "step_run ad e POSTCHECK = verification_run ad e POSTCHECK"

definition resume_completed :: "Step \<Rightarrow> Remediation \<Rightarrow> string \<Rightarrow> world \<Rightarrow> string outcome" where
  "resume_completed s r output_uri w =
     (if s \<in> {PRECHECK, POSTCHECK} then verification_resume_completed s r output_uri w
      else (Inr output_uri, w))"

definition run :: "adapters \<Rightarrow> env \<Rightarrow> Step \<Rightarrow> Remediation \<Rightarrow> string \<Rightarrow> world \<Rightarrow> string outcome" where
  "run ad e s r pdf_uri w =
     (case completed_output_uri s r w of
        Some existing_output_uri \<Rightarrow> resume_completed s r existing_output_uri w
      | None \<Rightarrow> step_run ad e s r pdf_uri w)"

end
