(* ===== verification/Pipeline.thy ===== *)
theory Pipeline
  imports Artifact_Steps
begin

text \<open>
  \<open>process_remediation\<close> of \<^verbatim>\<open>remediation/tasks.py\<close>: the loop over the step services, the five ways
  a job ends, and the notifications queued whatever happens.  The locales \<open>step_effects\<close> and
  \<open>job_effects\<close> reduce a claim about everything a step or a job may do to the primitive writes a
  step is made of.
\<close>

section \<open>The task\<close>

definition PIPELINE_STEPS :: "Step list" where
  "PIPELINE_STEPS =
     [PRECHECK, OCR, FONT_REPAIR, FINALIZE_METADATA, LINK_TAG, ALT_TEXT, SCORING, POSTCHECK]"

text \<open>The loop: the exception it was left with (if any) and the document's current URI.\<close>

fun run_steps ::
    "adapters \<Rightarrow> env \<Rightarrow> Remediation \<Rightarrow> Step list \<Rightarrow> string \<Rightarrow> world \<Rightarrow> (exn option \<times> string) \<times> world" where
  "run_steps ad e r [] pdf_uri w = ((None, pdf_uri), w)"
| "run_steps ad e r (s # steps) pdf_uri w =
     (if is_disabled e s then run_steps ad e r steps pdf_uri (record_skip e s r w)
      else case run ad e s r pdf_uri w of
             (Inl exc, w1) \<Rightarrow> ((Some exc, pdf_uri), w1)
           | (Inr output_uri, w1) \<Rightarrow> run_steps ad e r steps output_uri w1)"

text \<open>The \<open>except\<close> and \<open>else\<close> clauses.\<close>

definition finish_job :: "env \<Rightarrow> Remediation \<Rightarrow> exn option \<Rightarrow> string \<Rightarrow> world \<Rightarrow> unit outcome" where
  "finish_job e r raised pdf_uri w =
     (let done = (\<lambda>m. case m of (Inl x, w1) \<Rightarrow> (Inl x, w1) | (Inr _, w1) \<Rightarrow> (Inr (), w1))
      in case raised of
           None \<Rightarrow> done (if is_disabled e POSTCHECK then mark_skipped_job e r pdf_uri w
                         else mark_compliant e r pdf_uri w)
         | Some AlreadyCompliant \<Rightarrow> done (mark_compliant e r (source_pdf_uri r) w)
         | Some (NotCompliant rules) \<Rightarrow>
             done (mark_noncompliant e r (''postcheck: '' @ exn_str (NotCompliant rules)) pdf_uri w)
         | Some (PostCheckUnavailable m) \<Rightarrow>
             done (mark_error e r (''postcheck: '' @ exn_str (PostCheckUnavailable m)) pdf_uri w)
         | Some exc \<Rightarrow> bind_outcome (mark_error e r (exn_str exc) pdf_uri w) (\<lambda>_ w1. (Inl exc, w1)))"

text \<open>The \<open>finally\<close> clause.\<close>

definition callbacks_of :: "Remediation \<Rightarrow> world \<Rightarrow> RemediationCallback list" where
  "callbacks_of r w = filter (\<lambda>c. cb_remediation c = rid r) (callbacks w)"

definition enqueue_notifications :: "Remediation \<Rightarrow> world \<Rightarrow> world" where
  "enqueue_notifications r w =
     w\<lparr>queue := queue w @ map (\<lambda>c. SendWebhookNotification (cb_pk c) 1 None) (callbacks_of r w)\<rparr>"

definition process_remediation :: "adapters \<Rightarrow> env \<Rightarrow> uuid \<Rightarrow> world \<Rightarrow> unit outcome" where
  "process_remediation ad e i w =
     (case get i w of
        Inl x \<Rightarrow> (Inl x, w)
      | Inr r \<Rightarrow>
          if status r \<in> set FINISHED_STATUSES then (Inr (), w)
          else case mark_running e r w of
                 (Inl x, w1) \<Rightarrow> (Inl x, w1)
               | (Inr r1, w1) \<Rightarrow>
                   (let ((raised, pdf_uri), w2) = run_steps ad e r1 PIPELINE_STEPS (source_pdf_uri r1) w1;
                        (res, w3) = finish_job e r1 raised pdf_uri w2
                    in (res, enqueue_notifications r1 w3)))"

section \<open>What a step may do\<close>

text \<open>
  A step of an attempt \<open>r\<close> writes in a few ways only.  If a relation between worlds holds across each
  of them, it holds across the step.
\<close>

locale step_effects =
  fixes e :: env and r :: Remediation and R :: "Step \<Rightarrow> world \<Rightarrow> world \<Rightarrow> bool"
  assumes eff_refl: "R s w w"
    and eff_trans: "R s w w1 \<Longrightarrow> R s w1 w2 \<Longrightarrow> R s w w2"
    and eff_ticks: "R s w (w\<lparr>ticks := n\<rparr>)"
    and eff_report: "R s w (w\<lparr>error_reports := rep\<rparr>)"
    and eff_delete: "R s w (w\<lparr>files := snd (st_delete (storage_of e) (files w)
                               (construct_output_dir s r @ basename f))\<rparr>)"
    and eff_save: "R s w (w\<lparr>files := snd (st_save (storage_of e) (files w)
                               (construct_output_dir s r @ basename f) b)\<rparr>)"
    and eff_artifact: "art_remediation a = rid r \<Longrightarrow> art_step a = s \<Longrightarrow> R s w (upsert_artifact a w)"
    and eff_verdict: "vr_remediation v = rid r \<Longrightarrow> vr_step v = s \<Longrightarrow> R s w (snd (insert_verification_result v w))"
    and eff_score: "sc_remediation c = rid r \<Longrightarrow> s = SCORING \<Longrightarrow> R s w (snd (insert_score c w))"
begin

lemma eff_bind:
  assumes "R s w (snd m)" and "\<And>a w1. m = (Inr a, w1) \<Longrightarrow> R s w1 (snd (f a w1))"
  shows "R s w (snd (bind_outcome m f))"
  using assms eff_trans by (cases m; cases "fst m") (fastforce simp: bind_outcome_def)+

lemma eff_call: "R s w (snd (call_adapter f w))"
  by (simp add: call_adapter_def eff_ticks)

lemma eff_copy: "R s w (snd (local_input_copy e u w))"
  by (simp add: local_input_copy_def eff_refl split: sum.split)

lemma eff_persist: "R s w (snd (persist_output e out (construct_output_dir s r @ basename f) w))"
proof -
  let ?d = "construct_output_dir s r @ basename f" and ?st = "storage_of e"
  have del: "R s w (snd (case st_delete ?st (files w) ?d of (res, fs) \<Rightarrow> (res, w\<lparr>files := fs\<rparr>)))"
    using eff_delete [of s w f] by (simp add: case_prod_beta)
  have save: "R s w1 (snd (case st_save ?st (files w1) ?d b of (res, fs) \<Rightarrow> (res, w1\<lparr>files := fs\<rparr>)))"
    for w1 b using eff_save [of s w1 f b] by (simp add: case_prod_beta)
  show ?thesis
    unfolding persist_output_def Let_def
    by (auto split: sum.split option.split intro!: eff_bind eff_refl del save)
qed

lemma eff_mark: "R s w (mark_status e s r st u err w)"
  unfolding mark_status_def Let_def now_def prod.case
  by (rule eff_trans [OF eff_ticks eff_artifact]) simp_all

lemma eff_failed: "R s w (mark_failed e s r err (report_exception exc s r w))"
  unfolding mark_failed_def report_exception_def by (rule eff_trans [OF eff_report eff_mark])

lemma eff_skip: "R s w (record_skip e s r w)"
  by (simp add: record_skip_def mark_skipped_def eff_mark)

lemma eff_try:
  assumes "R s w (snd m)"
    and "\<And>exc w1. R s w1 (snd (h exc w1))" and "\<And>a w1. R s w1 (snd (f a w1))"
  shows "R s w (snd (case m of (Inl exc, w1) \<Rightarrow> h exc w1 | (Inr a, w1) \<Rightarrow> f a w1))"
  using assms eff_trans by (cases m; cases "fst m") (fastforce)+

lemma eff_raise_or: "R s w w1 \<Longrightarrow> R s w (snd (raise_or x a w1))"
  by (simp add: raise_or_def split: option.split)

lemma eff_transform:
  assumes "\<And>f w. R s w (snd (work f w))"
  shows "R s w (snd (transform_run e s work r u w))"
  unfolding transform_run_def
  by (rule eff_try)
    (auto intro!: eff_bind eff_copy assms eff_persist eff_failed simp: mark_completed_def eff_mark)

lemma eff_describe: "R s w (snd (describe_all ad title cs alts w))"
proof (induction cs arbitrary: alts w)
  case Nil
  then show ?case by (simp add: eff_refl)
next
  case (Cons c cs)
  then show ?case by (auto intro!: eff_bind eff_call)
qed

lemma eff_verification: "R s w (snd (verification_run ad e s r u w))"
  unfolding verification_run_def
  by (rule eff_try)
    (auto intro!: eff_bind eff_copy eff_call eff_raise_or eff_failed eff_verdict
        eff_trans [OF eff_ticks eff_verdict] simp: now_def mark_completed_def eff_mark)

lemma eff_scoring: "R SCORING w (snd (ScoringService_run ad e r u w))"
  unfolding ScoringService_run_def
  by (rule eff_try)
    (auto intro!: eff_bind eff_copy eff_call eff_failed eff_trans [OF eff_ticks eff_score]
        simp: now_def mark_completed_def eff_mark)

lemma eff_step_run: "R s w (snd (step_run ad e s r u w))"
  by (cases s)
    (auto intro!: eff_verification eff_scoring eff_transform eff_call eff_bind eff_describe
        simp: OCRService_run_def FontRepairService_run_def MetadataService_run_def LinkService_run_def
          AltTextService_run_def)

lemma eff_resume: "R s w (snd (resume_completed s r u w))"
  by (auto simp: resume_completed_def verification_resume_completed_def eff_refl eff_raise_or
      split: option.split)

lemma eff_run: "R s w (snd (run ad e s r u w))"
  by (simp add: run_def eff_step_run eff_resume split: option.split)

end

text \<open>The same for a whole job: what every step keeps, the loop keeps.\<close>

locale job_effects = step_effects +
  fixes Q :: "world \<Rightarrow> world \<Rightarrow> bool"
  assumes job_refl: "Q w w"
    and job_trans: "Q w w1 \<Longrightarrow> Q w1 w2 \<Longrightarrow> Q w w2"
    and job_step: "R s w w1 \<Longrightarrow> Q w w1"
begin

lemma job_run_steps: "Q w (snd (run_steps ad e r steps u w))"
proof (induction steps arbitrary: u w)
  case Nil
  then show ?case by (simp add: job_refl)
next
  case (Cons s steps)
  have skip: "Q w (record_skip e s r w)" by (rule job_step [OF eff_skip])
  have one: "Q w (snd (run ad e s r u w))" by (rule job_step [OF eff_run])
  show ?case
    using one Cons.IH job_trans [OF skip Cons.IH]
    by (cases "run ad e s r u w"; cases "fst (run ad e s r u w)") (auto intro: job_trans)
qed

end

end
