(* ===== verification/Pipeline_Theorems.thy ===== *)
theory Pipeline_Theorems
  imports Pipeline Service_Theorems
begin

text \<open>
  What the pipeline promises: a finished attempt is never run again; an unfinished one always ends
  in a finished status with its output recorded and its subscribers notified once; a failing step
  never keeps the postcheck from running; a redelivered task picks up where the first run stopped;
  the stored original is never touched.
\<close>

section \<open>What every job keeps\<close>

definition same_jobs :: "world \<Rightarrow> world \<Rightarrow> bool" where
  "same_jobs w w1 \<longleftrightarrow> remediations w1 = remediations w \<and> callbacks w1 = callbacks w \<and> queue w1 = queue w \<and>
     next_pk w1 = next_pk w \<and> uuids w1 = uuids w \<and> pipeline_config w1 = pipeline_config w"

definition keeps_tables :: "world \<Rightarrow> world \<Rightarrow> bool" where
  "keeps_tables w w1 \<longleftrightarrow> (tables_ok w \<longrightarrow> tables_ok w1)"

lemma insert_verification_result_snd:
  "snd (insert_verification_result v w) = w \<or>
   snd (insert_verification_result v w) = w\<lparr>verification_results := verification_results w @ [v]\<rparr> \<and>
   (vr_remediation v, vr_step v) \<notin> set (map (\<lambda>v. (vr_remediation v, vr_step v)) (verification_results w))"
  by (simp add: insert_verification_result_def)

lemma insert_score_snd:
  "snd (insert_score c w) = w \<or>
   snd (insert_score c w) = w\<lparr>scores := scores w @ [c]\<rparr> \<and> sc_remediation c \<notin> set (map sc_remediation (scores w))"
  by (simp add: insert_score_def)

interpretation job_frame: job_effects e r "\<lambda>_. same_jobs" same_jobs for e r
proof unfold_locales
  show "same_jobs w (snd (insert_verification_result v w))" for v w
    using insert_verification_result_snd [of v w] by (auto simp: same_jobs_def)
  show "same_jobs w (snd (insert_score c w))" for c w
    using insert_score_snd [of c w] by (auto simp: same_jobs_def)
qed (auto simp: same_jobs_def)

interpretation job_tables: job_effects e r "\<lambda>_. keeps_tables" keeps_tables for e r
proof unfold_locales
  show "keeps_tables w (snd (insert_verification_result v w))" for v w
    using insert_verification_result_snd [of v w]
    by (auto simp: keeps_tables_def tables_ok_def one_verification_result_per_step_def)
  show "keeps_tables w (snd (insert_score c w))" for c w
    using insert_score_snd [of c w]
    by (auto simp: keeps_tables_def tables_ok_def one_score_per_remediation_def)
  show "keeps_tables w (upsert_artifact a w)" for a w
    by (simp add: keeps_tables_def tables_ok_def upsert_artifact_unique)
qed (auto simp: keeps_tables_def tables_ok_def)

lemma run_steps_same_jobs:
  assumes "run_steps ad e r steps u w = (res, w1)"
  shows "remediations w1 = remediations w" "callbacks w1 = callbacks w" "queue w1 = queue w"
    "next_pk w1 = next_pk w"
  using job_frame.job_run_steps [of w ad e r steps u] assms by (simp_all add: same_jobs_def)

lemma run_steps_tables_ok:
  assumes "run_steps ad e r steps u w = (res, w1)" and "tables_ok w"
  shows "tables_ok w1"
  using job_tables.job_run_steps [of w ad e r steps u] assms by (simp add: keeps_tables_def)

section \<open>How a job ends\<close>

text \<open>A task delivered again for an attempt that has finished does nothing: no step runs, no
  timestamp changes, no notification is queued.\<close>

theorem finished_attempt_is_not_run_again:
  assumes "get i w = Inr r" and "finished r"
  shows "process_remediation ad e i w = (Inr (), w)"
  using assms by (simp add: process_remediation_def finished_def)

text \<open>What the end of the loop makes of the job: its status, output and error text.\<close>

fun job_verdict :: "env \<Rightarrow> string \<Rightarrow> exn option \<Rightarrow> string \<Rightarrow> JobStatus \<times> string \<times> string option" where
  "job_verdict e source None uri = (if is_disabled e POSTCHECK then SKIPPED else COMPLIANT, uri, None)"
| "job_verdict e source (Some AlreadyCompliant) uri = (COMPLIANT, source, None)"
| "job_verdict e source (Some (NotCompliant rules)) uri =
     (NONCOMPLIANT, uri, Some (''postcheck: '' @ format_failure_summary rules))"
| "job_verdict e source (Some (PostCheckUnavailable m)) uri = (ERROR, uri, Some (''postcheck: '' @ m))"
| "job_verdict e source (Some exc) uri = (ERROR, uri, Some (exn_str exc))"

text \<open>The exceptions that are part of a normal run.\<close>

fun expected :: "exn option \<Rightarrow> bool" where
  "expected None \<longleftrightarrow> True"
| "expected (Some AlreadyCompliant) \<longleftrightarrow> True"
| "expected (Some (NotCompliant rules)) \<longleftrightarrow> True"
| "expected (Some (PostCheckUnavailable m)) \<longleftrightarrow> True"
| "expected (Some exc) \<longleftrightarrow> False"

lemma job_verdict_finished: "fst (job_verdict e source raised uri) \<in> set FINISHED_STATUSES"
  by (cases "(e, source, raised, uri)" rule: job_verdict.cases) (simp_all add: FINISHED_STATUSES_def)

lemma finish_job_ok:
  assumes "tables_ok w" and "find_remediation (rid r) w = Some x"
    and "job_verdict e (source_pdf_uri r) raised uri = (st, out, err)"
  shows "finish_job e r raised uri w =
    (if expected raised then Inr () else Inl (the raised),
     w\<lparr>ticks := Suc (ticks w),
       remediations := update_rows (\<lambda>y. rid y = rid r) (finish_row st out err (clock e (ticks w))) (remediations w)\<rparr>)"
proof -
  have st: "st \<in> set FINISHED_STATUSES" using job_verdict_finished [of e _ raised uri] assms(3) by (metis fst_conv)
  note fin = mark_finished_ok [OF assms(1,2) st]
  from assms(3) fin show ?thesis
    by (cases "(e, source_pdf_uri r, raised, uri)" rule: job_verdict.cases)
      (auto simp: finish_job_def mark_skipped_job_def mark_compliant_def mark_noncompliant_def
        mark_error_def bind_outcome_def split: if_splits)
qed

definition running_row :: "time \<Rightarrow> Remediation \<Rightarrow> Remediation" where
  "running_row t x = x\<lparr>status := RUNNING, started_at := Some t\<rparr>"

lemma running_row_simps [simp]:
  "rid (running_row t x) = rid x" "status (running_row t x) = RUNNING"
  "document (running_row t x) = document x" "unfinished (running_row t x)"
  "source_pdf_uri (running_row t x) = source_pdf_uri x" "started_at (running_row t x) = Some t"
  "service_account (running_row t x) = service_account x" "content_hash (running_row t x) = content_hash x"
  "created_at (running_row t x) = created_at x" "last_enqueued_at (running_row t x) = last_enqueued_at x"
  by (simp_all add: running_row_def document_def unfinished_def UNFINISHED_STATUSES_def)

lemma mark_running_ok:
  assumes "tables_ok w" and "find_remediation (rid r) w = Some r" and "unfinished r"
  shows "mark_running e r w =
    (Inr (running_row (clock e (ticks w)) r),
     w\<lparr>ticks := Suc (ticks w),
       remediations := update_rows (\<lambda>y. rid y = rid r) (running_row (clock e (ticks w))) (remediations w)\<rparr>)"
proof -
  let ?w = "w\<lparr>ticks := Suc (ticks w)\<rparr>" and ?f = "running_row (clock e (ticks w))"
  have "r \<in> set (remediations w)" using find_remediation_Some [OF assms(2)] by simp
  moreover have "y = r" if "y \<in> set (remediations w)" "rid y = rid r" for y
    using that \<open>r \<in> _\<close> assms(1) by (auto simp: tables_ok_def distinct_map inj_on_def)
  ultimately have "save_fields (rid r) ?f ?w = (Inr (), ?w\<lparr>remediations := update_rows (\<lambda>y. rid y = rid r) ?f (remediations ?w)\<rparr>)"
    using assms(1,3) by (intro save_fields_ok(1)) (auto simp: tables_ok_def)
  then show ?thesis by (simp add: mark_running_def now_def running_row_def [abs_def])
qed

text \<open>The whole task on an unfinished attempt, in one equation.\<close>

definition started_world :: "env \<Rightarrow> Remediation \<Rightarrow> world \<Rightarrow> world" where
  "started_world e r w =
     w\<lparr>ticks := Suc (ticks w),
       remediations := update_rows (\<lambda>y. rid y = rid r) (running_row (clock e (ticks w))) (remediations w)\<rparr>"

lemma started_world_ok:
  assumes "tables_ok w" and "find_remediation i w = Some r" and "unfinished r"
  shows "tables_ok (started_world e r w)"
    and "find_remediation i (started_world e r w) = Some (running_row (clock e (ticks w)) r)"
    and "callbacks (started_world e r w) = callbacks w" and "queue (started_world e r w) = queue w"
    and "mark_running e r w = (Inr (running_row (clock e (ticks w)) r), started_world e r w)"
proof -
  have i: "rid r = i" using find_remediation_Some [OF assms(2)] by simp
  have m: "mark_running e r w = (Inr (running_row (clock e (ticks w)) r), started_world e r w)"
    using mark_running_ok [of w r e] assms i by (simp add: started_world_def)
  then show "mark_running e r w = (Inr (running_row (clock e (ticks w)) r), started_world e r w)" .
  show "tables_ok (started_world e r w)" using mark_running_tables_ok [OF assms(1), of e r] m by simp
  show "find_remediation i (started_world e r w) = Some (running_row (clock e (ticks w)) r)"
    using find_remediation_update [of "running_row (clock e (ticks w))" i i "w\<lparr>ticks := Suc (ticks w)\<rparr>"]
      assms(2) i by (simp add: started_world_def find_remediation_def)
qed (simp_all add: started_world_def)

lemma process_remediation_eq:
  assumes "tables_ok w" and "find_remediation i w = Some r" and "unfinished r"
    and "run_steps ad e (running_row (clock e (ticks w)) r) PIPELINE_STEPS (source_pdf_uri r)
           (started_world e r w) = ((raised, uri), w2)"
    and "job_verdict e (source_pdf_uri r) raised uri = (st, out, err)"
  shows "process_remediation ad e i w =
    (if expected raised then Inr () else Inl (the raised),
     w2\<lparr>ticks := Suc (ticks w2),
        remediations := update_rows (\<lambda>y. rid y = i) (finish_row st out err (clock e (ticks w2))) (remediations w2),
        queue := queue w @ map (\<lambda>c. SendWebhookNotification (cb_pk c) 1 None) (callbacks_of r w)\<rparr>)"
proof -
  have i: "rid r = i" using find_remediation_Some [OF assms(2)] by simp
  let ?r = "running_row (clock e (ticks w)) r"
  note start = started_world_ok [OF assms(1-3), of e]
  note same = run_steps_same_jobs [OF assms(4)]
  have "find_remediation (rid ?r) w2 = Some ?r"
    using start(2) same(1) i by (simp add: find_remediation_def)
  with finish_job_ok [OF run_steps_tables_ok [OF assms(4) start(1)], of ?r ?r e raised uri st out err] assms(5)
  have fin: "finish_job e ?r raised uri w2 =
    (if expected raised then Inr () else Inl (the raised),
     w2\<lparr>ticks := Suc (ticks w2),
       remediations := update_rows (\<lambda>y. rid y = rid r) (finish_row st out err (clock e (ticks w2))) (remediations w2)\<rparr>)"
    by simp
  have "get i w = Inr r" using assms(2) by (simp add: get_def)
  moreover have "status r \<notin> set FINISHED_STATUSES"
    using assms(3) finished_iff_not_unfinished [of r] by (simp add: finished_def)
  ultimately show ?thesis
    using fin start(3,4,5) same(2,3) assms(4) i
    by (simp add: process_remediation_def enqueue_notifications_def callbacks_of_def)
qed

lemma finished_row_after:
  assumes "process_remediation ad e i w = (res, w')" and "tables_ok w" and "find_remediation i w = Some r"
    and "unfinished r"
    and "run_steps ad e (running_row (clock e (ticks w)) r) PIPELINE_STEPS (source_pdf_uri r)
           (started_world e r w) = ((raised, uri), w2)"
    and "job_verdict e (source_pdf_uri r) raised uri = (st, out, err)"
  shows "find_remediation i w' =
         Some (finish_row st out err (clock e (ticks w2)) (running_row (clock e (ticks w)) r))"
proof -
  have "find_remediation i w2 = Some (running_row (clock e (ticks w)) r)"
    using started_world_ok(2) [OF assms(2-4)] run_steps_same_jobs(1) [OF assms(5)]
    by (simp add: find_remediation_def)
  then have "find_remediation i (w2\<lparr>remediations := update_rows (\<lambda>y. rid y = i)
      (finish_row st out err (clock e (ticks w2))) (remediations w2)\<rparr>) =
      Some (finish_row st out err (clock e (ticks w2)) (running_row (clock e (ticks w)) r))"
    by (simp add: find_remediation_update)
  moreover have "remediations w' = update_rows (\<lambda>y. rid y = i) (finish_row st out err (clock e (ticks w2))) (remediations w2)"
    using process_remediation_eq [OF assms(2-6)] assms(1) by simp
  ultimately show ?thesis by (simp add: find_remediation_def)
qed

lemma job_finishes:
  assumes "tables_ok w" and "find_remediation i w = Some r" and "unfinished r"
  shows "\<exists>r'. find_remediation i (snd (process_remediation ad e i w)) = Some r' \<and> finished r' \<and>
           started_at r' \<noteq> None \<and> completed_at r' \<noteq> None \<and> document r' = document r \<and>
           source_pdf_uri r' = source_pdf_uri r \<and> tables_ok (snd (process_remediation ad e i w))"
proof -
  obtain raised uri w2 where steps: "run_steps ad e (running_row (clock e (ticks w)) r) PIPELINE_STEPS
      (source_pdf_uri r) (started_world e r w) = ((raised, uri), w2)" by (metis prod.exhaust)
  obtain st out err where v: "job_verdict e (source_pdf_uri r) raised uri = (st, out, err)" by (metis prod.exhaust)
  obtain res w' where p: "process_remediation ad e i w = (res, w')" by (metis prod.exhaust)
  have fin: "st \<in> set FINISHED_STATUSES" using job_verdict_finished [of e _ raised uri] v by (metis fst_conv)
  have t2: "tables_ok w2" by (rule run_steps_tables_ok [OF steps started_world_ok(1) [OF assms]])
  have "tables_ok w'"
  proof -
    let ?f = "finish_row st out err (clock e (ticks w2))"
    have "one_unfinished_attempt_per_document (update_rows (\<lambda>y. rid y = i) ?f (remediations w2))"
      using t2 fin finished_iff_not_unfinished [of "?f x" for x]
      unfolding one_unfinished_attempt_per_document_def tables_ok_def
      by (intro distinct_filter_update_rows) (auto simp: finished_def)
    with t2 process_remediation_eq [OF assms steps v] p show ?thesis
      by (simp add: tables_ok_def map_update_rows_same)
  qed
  moreover have "started_at (finish_row st out err t x) = started_at x" for t x
    by (simp add: finish_row_def Let_def split: option.split)
  ultimately show ?thesis
    using finished_row_after [OF p assms steps v] p fin by (simp add: finished_def)
qed

text \<open>C1: the task always brings an unfinished attempt to an end, whatever its adapters and the file
  storage do: afterwards its row has a finished status, a start and a completion time, is still the
  same document and original, and the tables keep their constraints.\<close>

theorem job_always_finishes:
  assumes "tables_ok w" and "find_remediation i w = Some r" and "unfinished r"
  shows "\<exists>r'. find_remediation i (snd (process_remediation ad e i w)) = Some r' \<and> finished r' \<and>
           started_at r' \<noteq> None \<and> completed_at r' \<noteq> None \<and> document r' = document r \<and>
           source_pdf_uri r' = source_pdf_uri r \<and> tables_ok (snd (process_remediation ad e i w))"
  using assms by (rule job_finishes)

text \<open>C2: how the job ended decides its row and the task's own result exactly.  Already compliant:
  compliant, serving the original.  Steps done: compliant with the last output, or skipped when
  the postcheck is switched off.  A failed postcheck: noncompliant with the rule summary.  A
  postcheck that could not run, or any other exception: error.  Only the last is raised again.\<close>

theorem job_status_exact:
  assumes "tables_ok w" and "find_remediation i w = Some r" and "unfinished r"
    and "run_steps ad e (running_row (clock e (ticks w)) r) PIPELINE_STEPS (source_pdf_uri r)
           (started_world e r w) = ((raised, uri), w2)"
    and "process_remediation ad e i w = (res, w')"
  shows "\<exists>r'. find_remediation i w' = Some r' \<and>
     (res = Inr () \<longleftrightarrow> expected raised) \<and>
     (case raised of
        None \<Rightarrow> status r' = (if is_disabled e POSTCHECK then SKIPPED else COMPLIANT) \<and> final_output_uri r' = uri
      | Some AlreadyCompliant \<Rightarrow> status r' = COMPLIANT \<and> final_output_uri r' = source_pdf_uri r
      | Some (NotCompliant rules) \<Rightarrow> status r' = NONCOMPLIANT \<and> final_output_uri r' = uri \<and>
                                     error r' = ''postcheck: '' @ format_failure_summary rules
      | Some (PostCheckUnavailable m) \<Rightarrow> status r' = ERROR \<and> final_output_uri r' = uri \<and>
                                          error r' = ''postcheck: '' @ m
      | Some exc \<Rightarrow> status r' = ERROR \<and> final_output_uri r' = uri \<and> error r' = exn_str exc)"
proof -
  obtain st out err where v: "job_verdict e (source_pdf_uri r) raised uri = (st, out, err)" by (metis prod.exhaust)
  have "res = (if expected raised then Inr () else Inl (the raised))"
    using process_remediation_eq [OF assms(1-4) v] assms(5) by simp
  with finished_row_after [OF assms(5,1-4) v] v show ?thesis
    by (cases "(e, source_pdf_uri r, raised, uri)" rule: job_verdict.cases) auto
qed

lemma job_notifies:
  assumes "tables_ok w" and "find_remediation i w = Some r" and "unfinished r"
  shows "queue (snd (process_remediation ad e i w)) =
         queue w @ map (\<lambda>c. SendWebhookNotification (cb_pk c) 1 None)
                     (filter (\<lambda>c. cb_remediation c = i) (callbacks w)) \<and>
         distinct (map cb_pk (filter (\<lambda>c. cb_remediation c = i) (callbacks w)))"
proof -
  obtain raised uri w2 where steps: "run_steps ad e (running_row (clock e (ticks w)) r) PIPELINE_STEPS
      (source_pdf_uri r) (started_world e r w) = ((raised, uri), w2)" by (metis prod.exhaust)
  obtain st out err where v: "job_verdict e (source_pdf_uri r) raised uri = (st, out, err)" by (metis prod.exhaust)
  have "distinct (map cb_pk (filter p (callbacks w)))" for p
    using assms(1) by (simp add: tables_ok_def distinct_map_filter)
  with process_remediation_eq [OF assms steps v] find_remediation_Some [OF assms(2)] show ?thesis
    by (simp add: callbacks_of_def)
qed


lemma job_keeps_callbacks:
  assumes "tables_ok w" and "find_remediation i w = Some r" and "unfinished r"
  shows "callbacks (snd (process_remediation ad e i w)) = callbacks w \<and>
         next_pk (snd (process_remediation ad e i w)) = next_pk w"
proof -
  obtain raised uri w2 where steps: "run_steps ad e (running_row (clock e (ticks w)) r) PIPELINE_STEPS
      (source_pdf_uri r) (started_world e r w) = ((raised, uri), w2)" by (metis prod.exhaust)
  obtain st out err where v: "job_verdict e (source_pdf_uri r) raised uri = (st, out, err)" by (metis prod.exhaust)
  have "next_pk (started_world e r w) = next_pk w" by (simp add: started_world_def)
  with process_remediation_eq [OF assms steps v] run_steps_same_jobs(2,4) [OF steps] started_world_ok(3) [OF assms, of e]
  show ?thesis by simp
qed

section \<open>A step touches its own rows only\<close>

definition only_touches :: "Remediation \<Rightarrow> Step \<Rightarrow> world \<Rightarrow> world \<Rightarrow> bool" where
  "only_touches r s w w1 \<longleftrightarrow>
     filter (\<lambda>a. \<not> (art_remediation a = rid r \<and> art_step a = s)) (artifacts w1) =
       filter (\<lambda>a. \<not> (art_remediation a = rid r \<and> art_step a = s)) (artifacts w) \<and>
     filter (\<lambda>v. \<not> (vr_remediation v = rid r \<and> vr_step v = s)) (verification_results w1) =
       filter (\<lambda>v. \<not> (vr_remediation v = rid r \<and> vr_step v = s)) (verification_results w) \<and>
     filter (\<lambda>c. \<not> (sc_remediation c = rid r \<and> s = SCORING)) (scores w1) =
       filter (\<lambda>c. \<not> (sc_remediation c = rid r \<and> s = SCORING)) (scores w)"

definition only_own_rows :: "Remediation \<Rightarrow> world \<Rightarrow> world \<Rightarrow> bool" where
  "only_own_rows r w w1 \<longleftrightarrow>
     filter (\<lambda>a. art_remediation a \<noteq> rid r) (artifacts w1) = filter (\<lambda>a. art_remediation a \<noteq> rid r) (artifacts w) \<and>
     filter (\<lambda>v. vr_remediation v \<noteq> rid r) (verification_results w1) =
       filter (\<lambda>v. vr_remediation v \<noteq> rid r) (verification_results w) \<and>
     filter (\<lambda>c. sc_remediation c \<noteq> rid r) (scores w1) = filter (\<lambda>c. sc_remediation c \<noteq> rid r) (scores w)"

lemma filter_weaken:
  assumes "filter p xs = filter p ys" and "\<And>x. q x \<Longrightarrow> p x"
  shows "filter q xs = filter q ys"
proof -
  have "filter q zs = filter q (filter p zs)" for zs using assms(2) by (induction zs) auto
  with assms(1) show ?thesis by metis
qed

lemma filter_update_rows_other:
  "(\<And>r. p r \<Longrightarrow> \<not> q r \<and> \<not> q (f r)) \<Longrightarrow> filter q (update_rows p f rows) = filter q rows"
  by (induction rows) (auto simp: update_rows_def)

lemma upsert_artifact_touches:
  assumes "\<And>b. q b \<Longrightarrow> \<not> (art_remediation b = art_remediation a \<and> art_step b = art_step a)"
  shows "filter q (artifacts (upsert_artifact a w)) = filter q (artifacts w)"
proof -
  have "\<not> q a" using assms [of a] by auto
  moreover have "filter q (update_rows (\<lambda>b. art_remediation b = art_remediation a \<and> art_step b = art_step a)
      (\<lambda>b. b\<lparr>art_status := x, art_output_uri := y, art_error := z\<rparr>) rows) = filter q rows" for x y z rows
    by (rule filter_update_rows_other) (use assms in force)
  ultimately show ?thesis by (simp add: upsert_artifact_def Let_def)
qed

interpretation job_rows: job_effects e r "only_touches r" "only_own_rows r" for e r
proof unfold_locales
  show "only_touches r s w (upsert_artifact a w)"
    if "art_remediation a = rid r" "art_step a = s" for a s w
    using that by (simp add: only_touches_def upsert_artifact_touches)
  show "only_touches r s w (snd (insert_verification_result v w))"
    if "vr_remediation v = rid r" "vr_step v = s" for v s w
    using that insert_verification_result_snd [of v w] by (auto simp: only_touches_def)
  show "only_touches r s w (snd (insert_score c w))" if "sc_remediation c = rid r" "s = SCORING" for c s w
    using that insert_score_snd [of c w] by (auto simp: only_touches_def)
  show "only_own_rows r w w1" if "only_touches r s w w1" for s w w1
    using that unfolding only_touches_def only_own_rows_def by (auto intro: filter_weaken)
qed (simp_all add: only_touches_def only_own_rows_def)

text \<open>Nothing of a step has been recorded for the attempt yet.\<close>

definition fresh_for :: "Remediation \<Rightarrow> Step \<Rightarrow> world \<Rightarrow> bool" where
  "fresh_for r s w \<longleftrightarrow>
     (\<forall>a \<in> set (artifacts w). art_remediation a = rid r \<longrightarrow> art_step a \<noteq> s) \<and>
     (\<forall>v \<in> set (verification_results w). vr_remediation v = rid r \<longrightarrow> vr_step v \<noteq> s) \<and>
     (s = SCORING \<longrightarrow> rid r \<notin> set (map sc_remediation (scores w)))"

lemma fresh_for_other_step:
  assumes "only_touches r t w w1" and "fresh_for r s w" and "s \<noteq> t"
  shows "fresh_for r s w1"
proof -
  have conv: "fresh_for r s v \<longleftrightarrow>
      filter (\<lambda>a. art_remediation a = rid r \<and> art_step a = s) (artifacts v) = [] \<and>
      filter (\<lambda>u. vr_remediation u = rid r \<and> vr_step u = s) (verification_results v) = [] \<and>
      (s = SCORING \<longrightarrow> rid r \<notin> set (map sc_remediation (scores v)))" for v
    by (auto simp: fresh_for_def filter_empty_conv)
  from assms(1) have
    "filter (\<lambda>a. art_remediation a = rid r \<and> art_step a = s) (artifacts w1) =
     filter (\<lambda>a. art_remediation a = rid r \<and> art_step a = s) (artifacts w)"
    "filter (\<lambda>v. vr_remediation v = rid r \<and> vr_step v = s) (verification_results w1) =
     filter (\<lambda>v. vr_remediation v = rid r \<and> vr_step v = s) (verification_results w)"
    "s = SCORING \<Longrightarrow> scores w1 = scores w"
    unfolding only_touches_def using assms(3) by (auto intro: filter_weaken)
  with assms(2) show ?thesis unfolding conv by simp
qed

lemma fresh_for_not_completed: "fresh_for r s w \<Longrightarrow> completed_output_uri s r w = None"
  by (auto simp: fresh_for_def completed_output_uri_def find_None_iff)

section \<open>Failing steps\<close>

lemma transform_run_returns: "\<exists>u' w'. transform_run e s work r u w = (Inr u', w')"
  by (auto simp: transform_run_def split: prod.split sum.split)

text \<open>What a step that starts fresh can raise: only the verdicts of the two checks.\<close>

lemma scoring_fresh:
  assumes "fresh_for r SCORING w"
  shows "\<exists>u' w'. ScoringService_run ad e r u w = (Inr u', w')"
proof -
  have same: "scores w1 = scores w"
    if "bind_outcome (local_input_copy e u w) (\<lambda>f. call_adapter (\<lambda>n. ad_score ad n f)) = (res, w1)" for res w1
    using that by (auto simp: bind_outcome_def local_input_copy_def call_adapter_def split: sum.splits if_splits)
  show ?thesis
    using assms same
    by (auto simp: ScoringService_run_def Let_def now_def insert_score_def bind_outcome_def [of "(_, _)"]
        fresh_for_def split: prod.splits sum.splits)
qed

lemma verification_fresh:
  assumes "fresh_for r s w" and "verification_run ad e s r u w = (res, w')"
  shows "(case res of
            Inl exc \<Rightarrow> s = PRECHECK \<and> exc = AlreadyCompliant \<or>
                       s = POSTCHECK \<and> (\<exists>rules. exc = NotCompliant rules) \<or>
                       s = POSTCHECK \<and> (\<exists>m. exc = PostCheckUnavailable m) \<or> s \<notin> {PRECHECK, POSTCHECK}
          | Inr u' \<Rightarrow> u' = u)"
proof -
  have same: "verification_results w1 = verification_results w"
    if "bind_outcome (local_input_copy e u w) (\<lambda>f. call_adapter (\<lambda>n. ad_validate ad n f)) = (res, w1)" for res w1
    using that by (auto simp: bind_outcome_def local_input_copy_def call_adapter_def split: sum.splits if_splits)
  have new: "(rid r, s) \<notin> set (map (\<lambda>v. (vr_remediation v, vr_step v)) (verification_results w))"
    using assms(1) by (auto simp: fresh_for_def)
  show ?thesis
    using assms(2) same new
    by (cases s)
      (auto simp: verification_run_def raise_or_def handle_result_def handle_verification_error_def Let_def
        now_def insert_verification_result_def bind_outcome_def [of "(_, _)"]
        split: prod.splits sum.splits option.splits if_splits)
qed

text \<open>Every kind of step, started fresh.\<close>

lemma run_fresh:
  assumes "fresh_for r s w" and "run ad e s r u w = (Inl exc, w')"
  shows "s = PRECHECK \<and> exc = AlreadyCompliant \<or> s = POSTCHECK \<and> expected (Some exc)"
proof -
  have step: "step_run ad e s r u w = (Inl exc, w')"
    using assms(2) fresh_for_not_completed [OF assms(1)] by (simp add: run_def)
  have no: "transform_run e s' work r' u' v \<noteq> (Inl exc, w')" for s' work r' u' v
    using transform_run_returns [of e s' work r' u' v] by auto
  show ?thesis
  proof (cases s)
    case SCORING
    with assms(1) have "fresh_for r SCORING w" by simp
    then obtain u' w1 where "ScoringService_run ad e r u w = (Inr u', w1)" using scoring_fresh by blast
    with step SCORING show ?thesis by simp
  qed (use step no verification_fresh [OF assms(1), of ad e u "Inl exc" w'] in
      \<open>auto simp: OCRService_run_def FontRepairService_run_def MetadataService_run_def
        LinkService_run_def AltTextService_run_def\<close>)
qed

lemma run_steps_append:
  "run_steps ad e r (xs @ ys) u w =
   (case run_steps ad e r xs u w of
      ((None, u1), w1) \<Rightarrow> run_steps ad e r ys u1 w1
    | ((Some exc, u1), w1) \<Rightarrow> ((Some exc, u1), w1))"
  by (induction xs arbitrary: u w) (auto split: prod.splits sum.splits)

lemma run_steps_fresh:
  assumes "\<And>s. s \<in> set steps \<Longrightarrow> fresh_for r s w" and "distinct steps"
    and "run_steps ad e r steps u w = ((Some exc, u'), w')"
  shows "PRECHECK \<in> set steps \<and> exc = AlreadyCompliant \<or> POSTCHECK \<in> set steps \<and> expected (Some exc)"
  using assms
proof (induction steps arbitrary: u w)
  case Nil
  then show ?case by simp
next
  case (Cons s steps)
  have keep: "fresh_for r t w1" if "only_touches r s w w1" "t \<in> set steps" for t w1
    using fresh_for_other_step [OF that(1), of t] Cons.prems(1,2) that(2) by force
  show ?case
  proof (cases "is_disabled e s")
    case True
    with Cons.IH [of "record_skip e s r w" u] keep [OF job_rows.eff_skip] Cons.prems show ?thesis by auto
  next
    case False
    obtain res w1 where run: "run ad e s r u w = (res, w1)" by (metis prod.exhaust)
    have t: "only_touches r s w w1" using job_rows.eff_run [of r s w ad e u] run by simp
    show ?thesis
    proof (cases res)
      case (Inl x)
      with run_fresh [of r s w ad e u x w1] run False Cons.prems show ?thesis by auto
    next
      case (Inr u1)
      with Cons.IH [of w1 u1] keep [OF t] run False Cons.prems show ?thesis by auto
    qed
  qed
qed

lemma run_steps_keeps_fresh:
  assumes "fresh_for r t w" and "run_steps ad e r steps u w = (res, w')" and "t \<notin> set steps"
  shows "fresh_for r t w'"
  using assms
proof (induction steps arbitrary: u w)
  case Nil
  then show ?case by simp
next
  case (Cons s steps)
  have keep: "fresh_for r t w1" if "only_touches r s w w1" for w1
    using fresh_for_other_step [OF that Cons.prems(1)] Cons.prems(3) by auto
  obtain x w1 where run: "run ad e s r u w = (x, w1)" by (metis prod.exhaust)
  have "only_touches r s w w1" using job_rows.eff_run [of r s w ad e u] run by simp
  with keep keep [OF job_rows.eff_skip] Cons.IH Cons.prems(2,3) run show ?case
    by (auto split: if_splits sum.splits)
qed

lemma PIPELINE_STEPS_split:
  "PIPELINE_STEPS = [PRECHECK, OCR, FONT_REPAIR, FINALIZE_METADATA, LINK_TAG, ALT_TEXT, SCORING] @ [POSTCHECK]"
  "distinct PIPELINE_STEPS"
  by (simp_all add: PIPELINE_STEPS_def)

text \<open>The row a step leaves.\<close>

definition recorded :: "Remediation \<Rightarrow> Step \<Rightarrow> world \<Rightarrow> bool" where
  "recorded r s w \<longleftrightarrow> (\<exists>a \<in> set (artifacts w). art_remediation a = rid r \<and> art_step a = s)"

lemma recorded_mark_status [simp]: "recorded r s (mark_status e s r st u err w)"
proof -
  have "recorded r s (upsert_artifact a w)" if "art_remediation a = rid r" "art_step a = s" for a w
  proof -
    have key: "recorded r s v \<longleftrightarrow> (rid r, s) \<in> set (map (\<lambda>a. (art_remediation a, art_step a)) (artifacts v))" for v
      by (force simp: recorded_def)
    have "recorded r s w"
      if "List.find (\<lambda>b. art_remediation b = rid r \<and> art_step b = s) (artifacts w) \<noteq> None"
      using that by (auto simp: find_None_iff recorded_def)
    with that show ?thesis
      unfolding key by (simp add: upsert_artifact_def Let_def map_update_rows_same del: set_map)
  qed
  then show ?thesis by (simp add: mark_status_def now_def)
qed

lemma postcheck_recorded:
  assumes "fresh_for r POSTCHECK w" and "run_steps ad e r [POSTCHECK] u w = (res, w')"
  shows "recorded r POSTCHECK w'"
proof (cases "is_disabled e POSTCHECK")
  case True
  with assms(2) show ?thesis by (auto simp: record_skip_def mark_skipped_def)
next
  case False
  have same: "verification_results w1 = verification_results w"
    if "bind_outcome (local_input_copy e u w) (\<lambda>f. call_adapter (\<lambda>n. ad_validate ad n f)) = (x, w1)" for x w1
    using that by (auto simp: bind_outcome_def local_input_copy_def call_adapter_def split: sum.splits if_splits)
  have new: "(rid r, POSTCHECK) \<notin> set (map (\<lambda>v. (vr_remediation v, vr_step v)) (verification_results w))"
    using assms(1) by (auto simp: fresh_for_def)
  have "w' = snd (verification_run ad e POSTCHECK r u w)"
    using assms(2) False fresh_for_not_completed [OF assms(1)]
    by (auto simp: run_def split: prod.splits sum.splits)
  with same new show ?thesis
    by (auto simp: verification_run_def mark_failed_def mark_completed_def raise_or_def Let_def
        now_def insert_verification_result_def bind_outcome_def [of "(_, _)"] split: prod.splits sum.splits option.splits)
qed

text \<open>No step's failure stops a job.  On an attempt's first run the task never raises, and
  unless the document was already compliant (then the original is served) the postcheck is
  reached and its outcome recorded: the status is the check's verdict and nothing else's.\<close>

theorem first_run_reaches_the_postcheck:
  assumes "tables_ok w" and "find_remediation i w = Some r" and "unfinished r"
    and "\<forall>s. fresh_for r s w"
    and "process_remediation ad e i w = (res, w')"
  shows "res = Inr () \<and>
         (\<exists>r'. find_remediation i w' = Some r' \<and>
            (status r' = COMPLIANT \<and> final_output_uri r' = source_pdf_uri r \<or> recorded r POSTCHECK w'))"
proof -
  let ?r = "running_row (clock e (ticks w)) r" and ?w = "started_world e r w"
  let ?xs = "[PRECHECK, OCR, FONT_REPAIR, FINALIZE_METADATA, LINK_TAG, ALT_TEXT, SCORING]"
  obtain raised uri w2 where steps: "run_steps ad e ?r PIPELINE_STEPS (source_pdf_uri r) ?w = ((raised, uri), w2)"
    by (metis prod.exhaust)
  obtain st out err where v: "job_verdict e (source_pdf_uri r) raised uri = (st, out, err)" by (metis prod.exhaust)
  have fresh: "fresh_for ?r s ?w" for s
    using assms(4) by (simp add: fresh_for_def started_world_def)
  have exp: "expected raised"
    using run_steps_fresh [OF fresh PIPELINE_STEPS_split(2)] steps by (cases raised) fastforce+
  have row: "find_remediation i w' = Some (finish_row st out err (clock e (ticks w2)) ?r)"
    by (rule finished_row_after [OF assms(5,1-3) steps v])
  have art: "recorded r POSTCHECK w' \<longleftrightarrow> recorded ?r POSTCHECK w2"
    using process_remediation_eq [OF assms(1-3) steps v] assms(5) by (auto simp: recorded_def)
  obtain x u1 w1 where pre: "run_steps ad e ?r ?xs (source_pdf_uri r) ?w = ((x, u1), w1)" by (metis prod.exhaust)
  from steps have whole: "(case ((x, u1), w1) of ((None, u1), w1) \<Rightarrow> run_steps ad e ?r [POSTCHECK] u1 w1
      | ((Some exc, u1), w1) \<Rightarrow> ((Some exc, u1), w1)) = ((raised, uri), w2)"
    by (simp only: PIPELINE_STEPS_split(1) run_steps_append pre)
  have "status (finish_row st out err t ?r) = COMPLIANT \<and> final_output_uri (finish_row st out err t ?r) = source_pdf_uri r
        \<or> recorded ?r POSTCHECK w2" for t
  proof (cases x)
    case (Some exc)
    with run_steps_fresh [of ?xs ?r ?w ad e "source_pdf_uri r" exc u1 w1] fresh pre
    have "exc = AlreadyCompliant" by auto
    with whole Some v show ?thesis by auto
  next
    case None
    with whole have post: "run_steps ad e ?r [POSTCHECK] u1 w1 = ((raised, uri), w2)" by simp
    have "fresh_for ?r POSTCHECK w1" using run_steps_keeps_fresh [OF _ pre, of POSTCHECK] fresh by simp
    with postcheck_recorded [OF _ post] show ?thesis by blast
  qed
  with row art exp process_remediation_eq [OF assms(1-3) steps v] assms(5) show ?thesis by simp
qed

section \<open>Redelivered tasks\<close>

lemma completed_after_upsert:
  assumes "art_remediation a = rid r" and "art_step a = s"
  shows "completed_output_uri s r (upsert_artifact a w) =
         (if art_status a = STEP_COMPLETED then Some (art_output_uri a) else None)"
proof -
  let ?same = "\<lambda>b. art_remediation b = rid r \<and> art_step b = s"
  let ?up = "\<lambda>b. b\<lparr>art_status := art_status a, art_output_uri := art_output_uri a, art_error := art_error a\<rparr>"
  let ?find = "List.find (\<lambda>b. art_remediation b = rid r \<and> art_step b = s \<and> art_status b = STEP_COMPLETED)"
  let ?want = "if art_status a = STEP_COMPLETED then Some (art_output_uri a) else None"
  have new: "map_option art_output_uri (?find (rows @ [a])) = ?want" if "List.find ?same rows = None" for rows
    using that assms by (induction rows) (auto split: if_splits)
  have old: "map_option art_output_uri (?find (update_rows ?same ?up rows)) = ?want"
    if "List.find ?same rows \<noteq> None" for rows
    using that
  proof (induction rows)
    case (Cons b rows)
    show ?case
    proof (cases "?same b")
      case same: True
      show ?thesis
      proof (cases "art_status a = STEP_COMPLETED")
        case True
        with same show ?thesis by (simp add: update_rows_def)
      next
        case False
        have "?find (update_rows ?same ?up xs) = None" for xs
          using False by (induction xs) (auto simp: update_rows_def)
        with False same show ?thesis by (simp add: update_rows_def)
      qed
    next
      case False
      with Cons show ?thesis by (auto simp: update_rows_def split: if_splits)
    qed
  qed simp
  show ?thesis
  proof (cases "List.find ?same (artifacts w) = None")
    case True
    with new [OF True] assms show ?thesis
      unfolding completed_output_uri_def upsert_artifact_def Let_def by simp
  next
    case False
    then have "artifacts (upsert_artifact a w) = update_rows ?same ?up (artifacts w)"
      using assms by (auto simp: upsert_artifact_def Let_def)
    with old [OF False] show ?thesis unfolding completed_output_uri_def by (simp only:)
  qed
qed

lemma completed_after_mark [simp]:
  "completed_output_uri s r (mark_completed e s r u w) = Some u"
  "completed_output_uri s r (mark_failed e s r err w) = None"
  by (simp_all add: mark_completed_def mark_failed_def mark_status_def now_def completed_after_upsert)

lemma mark_status_other [simp]:
  "verification_results (mark_status e s r st u err w) = verification_results w"
  "scores (mark_status e s r st u err w) = scores w"
  by (simp_all add: mark_status_def now_def)

lemma transform_replays:
  assumes "transform_run e s work r u w = (res, w')" and "completed_output_uri s r w' = Some u'"
  shows "res = Inr u'"
  using assms by (auto simp: transform_run_def split: prod.splits sum.splits)

lemma find_append: "List.find p (xs @ ys) = (case List.find p xs of None \<Rightarrow> List.find p ys | Some x \<Rightarrow> Some x)"
  by (induction xs) auto

lemma verification_replays:
  assumes "verification_run ad e s r u w = (res, w')" and "completed_output_uri s r w = None"
    and "completed_output_uri s r w' = Some u'"
  shows "verification_resume_completed s r u' w' = (res, w')"
proof -
  obtain x w1 where b: "bind_outcome (local_input_copy e u w)
      (\<lambda>f. call_adapter (\<lambda>n. ad_validate ad n f)) = (x, w1)" by (metis prod.exhaust)
  have art: "artifacts w1 = artifacts w"
    using b by (auto simp: bind_outcome_def local_input_copy_def call_adapter_def split: sum.splits if_splits)
  show ?thesis
  proof (cases x)
    case (Inl exc)
    with assms b show ?thesis by (auto simp: verification_run_def raise_or_def split: option.splits)
  next
    case (Inr out)
    let ?w2 = "w1\<lparr>ticks := Suc (ticks w1)\<rparr>"
    define v where "v = \<lparr>vr_remediation = rid r, vr_step = s, vr_is_compliant = vo_is_compliant out,
                    vr_verapdf_version = vo_verapdf_version out,
                    vr_failed_rules = map rule_to_dict (vo_failed_rules out),
                    vr_created_at = clock e (ticks w1)\<rparr>"
    let ?fin = "\<lambda>w3. raise_or (handle_result s (vo_is_compliant out) (vo_failed_rules out)) u
                      (mark_completed e s r u w3)"
    have run: "bind_outcome (insert_verification_result v ?w2) (\<lambda>_. ?fin) = (res, w')"
      using assms(1) b Inr by (simp add: verification_run_def now_def v_def)
    show ?thesis
    proof (cases "fst (insert_verification_result v ?w2)")
      case (Inl y)
      then have "w' = ?w2"
        using run by (auto simp: bind_outcome_def insert_verification_result_def split: if_splits)
      with assms(2,3) art show ?thesis by (simp add: completed_output_uri_def)
    next
      case (Inr z)
      then have new: "(rid r, s) \<notin> set (map (\<lambda>v. (vr_remediation v, vr_step v)) (verification_results w1))"
        and fin: "?fin (?w2\<lparr>verification_results := verification_results w1 @ [v]\<rparr>) = (res, w')"
        using run by (auto simp: bind_outcome_def insert_verification_result_def v_def split: if_splits)
      have "completed_output_uri s r w' = Some u" and vr: "verification_results w' = verification_results w1 @ [v]"
        using fin by (auto simp: raise_or_def mark_completed_def [symmetric] split: option.splits)
          (simp add: mark_completed_def)+
      moreover have "List.find (\<lambda>v. vr_remediation v = rid r \<and> vr_step v = s) (verification_results w1) = None"
        using new by (force simp: find_None_iff)
      ultimately show ?thesis
        using fin assms(3)
        by (auto simp: verification_resume_completed_def find_append v_def raise_or_def split: option.splits)
    qed
  qed
qed

lemma step_replays:
  assumes "step_run ad e s r u w = (res, w')" and "completed_output_uri s r w = None"
    and "completed_output_uri s r w' \<noteq> None"
  shows "run ad' e' s r u' w' = (res, w')"
proof -
  obtain out where out: "completed_output_uri s r w' = Some out" using assms(3) by blast
  have scoring: "res = Inr out" if "ScoringService_run ad e r u w = (res, w')" "s = SCORING"
  proof -
    have "artifacts w1 = artifacts w"
      if "bind_outcome (local_input_copy e u w) (\<lambda>f. call_adapter (\<lambda>n. ad_score ad n f)) = (x, w1)" for x w1
      using that by (auto simp: bind_outcome_def local_input_copy_def call_adapter_def split: sum.splits if_splits)
    then have none: "completed_output_uri SCORING r (w1\<lparr>ticks := n\<rparr>) = None"
      if "bind_outcome (local_input_copy e u w) (\<lambda>f. call_adapter (\<lambda>n. ad_score ad n f)) = (x, w1)" for x w1 n
      using that assms(2) \<open>s = SCORING\<close> by (simp add: completed_output_uri_def)
    show ?thesis
      using that out none
      by (auto simp: ScoringService_run_def now_def Let_def insert_score_def bind_outcome_def [of "(_, _)"]
          split: prod.splits sum.splits if_splits)
  qed
  show ?thesis
    using assms(1) out scoring transform_replays [of e s _ r u w res w' out]
      verification_replays [of ad e s r u w res w' out] assms(2)
    by (cases s)
      (auto simp: run_def resume_completed_def OCRService_run_def FontRepairService_run_def
        MetadataService_run_def LinkService_run_def AltTextService_run_def)
qed

text \<open>A step that completed is never done again.  When a redelivered task reaches it, the step
  answers exactly as it did the first time (for a check: the same verdict, rebuilt from its
  stored rules) whatever the adapters would say now, and changes nothing.\<close>

theorem completed_step_replays:
  assumes "step_run ad e s r u w = (res, w')" and "completed_output_uri s r w = None"
    and "completed_output_uri s r w' \<noteq> None"
  shows "run ad' e' s r u' w' = (res, w')"
  by (rule step_replays [OF assms])

text \<open>The rows a finished step's answer is rebuilt from.\<close>

definition step_rows :: "Remediation \<Rightarrow> Step \<Rightarrow> world \<Rightarrow> RemediationArtifact list \<times> VerificationResult list" where
  "step_rows r s w =
     (filter (\<lambda>a. art_remediation a = rid r \<and> art_step a = s) (artifacts w),
      filter (\<lambda>v. vr_remediation v = rid r \<and> vr_step v = s) (verification_results w))"

lemma find_filter: "(\<And>x. p x \<Longrightarrow> q x) \<Longrightarrow> List.find p (filter q xs) = List.find p xs"
  by (induction xs) auto

lemma completed_rows:
  assumes "step_rows r s v = step_rows r s w"
  shows "completed_output_uri s r v = completed_output_uri s r w"
proof -
  have "completed_output_uri s r w = map_option art_output_uri
      (List.find (\<lambda>a. art_remediation a = rid r \<and> art_step a = s \<and> art_status a = STEP_COMPLETED)
        (fst (step_rows r s w)))" for w
    unfolding completed_output_uri_def step_rows_def fst_conv by (subst find_filter) simp_all
  with assms show ?thesis by simp
qed

lemma run_rows:
  assumes "step_rows r s v = step_rows r s w" and "completed_output_uri s r w \<noteq> None"
    and "run ad e s r u w = (res, w)"
  shows "run ad e s r u v = (res, v)"
proof -
  have "List.find (\<lambda>v. vr_remediation v = rid r \<and> vr_step v = s) (verification_results w) =
        List.find (\<lambda>v. vr_remediation v = rid r \<and> vr_step v = s) (snd (step_rows r s w))" for w
    by (simp add: step_rows_def find_filter)
  with assms completed_rows [OF assms(1)] show ?thesis
    by (auto simp: run_def resume_completed_def verification_resume_completed_def raise_or_def
        split: option.splits if_splits)
qed

lemma step_rows_other:
  assumes "only_touches r t w w1" and "s \<noteq> t"
  shows "step_rows r s w1 = step_rows r s w"
  using assms unfolding only_touches_def step_rows_def by (auto intro: filter_weaken)

lemma run_steps_rows:
  assumes "run_steps ad e r steps u w = (res, w')" and "s \<notin> set steps"
  shows "step_rows r s w' = step_rows r s w"
  using assms
proof (induction steps arbitrary: u w)
  case Nil
  then show ?case by simp
next
  case (Cons t steps)
  obtain x w1 where run: "run ad e t r u w = (x, w1)" by (metis prod.exhaust)
  have "step_rows r s w1 = step_rows r s w"
    using job_rows.eff_run [of r t w ad e u] run Cons.prems(2) by (intro step_rows_other) auto
  moreover have "step_rows r s (record_skip e t r w) = step_rows r s w"
    using Cons.prems(2) by (intro step_rows_other [OF job_rows.eff_skip]) auto
  ultimately show ?case using Cons run by (auto split: if_splits sum.splits)
qed

lemma run_steps_replay:
  assumes "run_steps ad e r xs u w = ((None, u1), w1)" and "distinct xs"
    and "\<And>s. s \<in> set xs \<Longrightarrow> \<not> is_disabled e s"
    and "\<And>s. s \<in> set xs \<Longrightarrow> completed_output_uri s r w = None"
    and "\<And>s. s \<in> set xs \<Longrightarrow> completed_output_uri s r w1 \<noteq> None"
    and "\<And>s. s \<in> set xs \<Longrightarrow> step_rows r s v = step_rows r s w1"
  shows "run_steps ad' e r xs u v = ((None, u1), v)"
  using assms
proof (induction xs arbitrary: u w)
  case Nil
  then show ?case by simp
next
  case (Cons s xs)
  have on: "\<not> is_disabled e s" using Cons.prems(3) by simp
  with Cons.prems(1) obtain out wa where run: "run ad e s r u w = (Inr out, wa)"
    and rest: "run_steps ad e r xs out wa = ((None, u1), w1)"
    by (auto split: prod.splits sum.splits)
  have rows: "step_rows r s w1 = step_rows r s wa"
    using run_steps_rows [OF rest] Cons.prems(2) by simp
  have fin: "completed_output_uri s r wa \<noteq> None"
    using Cons.prems(5) [of s] completed_rows [OF rows] by simp
  have "step_run ad e s r u w = (Inr out, wa)" and none: "completed_output_uri s r w = None"
    using run Cons.prems(4) [of s] by (simp_all add: run_def)
  from step_replays [OF this fin] have "run ad' e s r u wa = (Inr out, wa)" .
  moreover have "step_rows r s v = step_rows r s wa" using Cons.prems(6) [of s] rows by simp
  ultimately have again: "run ad' e s r u v = (Inr out, v)" using run_rows fin by blast
  have "completed_output_uri t r wa = None" if "t \<in> set xs" for t
  proof -
    have "only_touches r s w wa" using job_rows.eff_run [of r s w ad e u] run by simp
    moreover have "t \<noteq> s" using that Cons.prems(2) by auto
    ultimately show ?thesis using completed_rows [OF step_rows_other] Cons.prems(4) that by (metis list.set_intros(2))
  qed
  with Cons.IH [OF rest] Cons.prems have "run_steps ad' e r xs out v = ((None, u1), v)" by simp
  with on again show ?case by simp
qed

text \<open>C10: a job that was cut off between two steps goes on where it stopped.  If the steps that ran
  had all completed, the redelivered task passes through them without a write or an adapter call,
  and does exactly what the first task would have done next, on the same intermediate file.\<close>

theorem redelivery_continues:
  assumes "run_steps ad e r xs u w = ((None, u1), w1)" and "PIPELINE_STEPS = xs @ ys"
    and "\<forall>s \<in> set xs. \<not> is_disabled e s"
    and "\<forall>s \<in> set xs. completed_output_uri s r w = None"
    and "\<forall>s \<in> set xs. completed_output_uri s r w1 \<noteq> None"
  shows "run_steps ad' e r PIPELINE_STEPS u w1 = run_steps ad' e r ys u1 w1"
proof -
  have "distinct xs" using PIPELINE_STEPS_split(2) assms(2) by (metis distinct_append)
  from run_steps_replay [OF assms(1) this, of w1 ad'] assms(3-5) have
    "run_steps ad' e r xs u w1 = ((None, u1), w1)" by blast
  then show ?thesis by (simp add: assms(2) run_steps_append)
qed

section \<open>Stored originals\<close>

text \<open>The documented behaviour of the file storage: saving or deleting under one name leaves every
  other stored file as it is.\<close>

definition storage_keeps :: "storage_api \<Rightarrow> bool" where
  "storage_keeps st \<longleftrightarrow>
     (\<forall>fs k b p c. p \<noteq> k \<longrightarrow> fs p = Some c \<longrightarrow>
        snd (st_save st fs k b) p = Some c \<and> snd (st_delete st fs k) p = Some c)"

definition keeps_originals :: "env \<Rightarrow> Remediation \<Rightarrow> world \<Rightarrow> world \<Rightarrow> bool" where
  "keeps_originals e r w w1 \<longleftrightarrow>
     (storage_keeps (storage_of e) \<and> CHR ''/'' \<notin> set (content_hash r) \<longrightarrow>
      (\<forall>account h filename c. CHR ''/'' \<notin> set h \<and> CHR ''/'' \<notin> set filename \<and>
         files w (original_path_of account h filename) = Some c \<longrightarrow>
         files w1 (original_path_of account h filename) = Some c))"

lemma original_not_output:
  assumes "CHR ''/'' \<notin> set (content_hash r)" and "CHR ''/'' \<notin> set h" and "CHR ''/'' \<notin> set filename"
  shows "original_path_of account h filename \<noteq> construct_output_dir s r @ f"
proof
  assume "original_path_of account h filename = construct_output_dir s r @ f"
  then have "h @ CHR ''/'' # filename = content_hash r @ CHR ''/'' # rid r @ CHR ''/'' # step_value s @ CHR ''/'' # f"
    by (simp add: original_path_of_def construct_output_dir_def segment_inject)
  with assms(1,2) have "filename = rid r @ CHR ''/'' # step_value s @ CHR ''/'' # f"
    by (simp add: segment_inject)
  with assms(3) show False by simp
qed

interpretation job_originals: job_effects e r "\<lambda>_. keeps_originals e r" "keeps_originals e r" for e r
proof unfold_locales
  show "keeps_originals e r w (w\<lparr>files := snd (st_delete (storage_of e) (files w) (construct_output_dir s r @ basename f))\<rparr>)"
    for w s f
    by (auto simp: keeps_originals_def storage_keeps_def original_not_output)
  show "keeps_originals e r w (w\<lparr>files := snd (st_save (storage_of e) (files w) (construct_output_dir s r @ basename f) b)\<rparr>)"
    for w s f b
    by (auto simp: keeps_originals_def storage_keeps_def original_not_output)
  show "keeps_originals e r w (snd (insert_verification_result v w))" for v w
    using insert_verification_result_snd [of v w] by (auto simp: keeps_originals_def)
  show "keeps_originals e r w (snd (insert_score c w))" for c w
    using insert_score_snd [of c w] by (auto simp: keeps_originals_def)
qed (auto simp: keeps_originals_def)

text \<open>C12: processing never loses or changes a stored original, of this document or of any other:
  every step writes and deletes only under its attempt's own output directory, which no original
  lies in.\<close>

theorem originals_survive_processing:
  assumes "tables_ok w" and "find_remediation i w = Some r" and "unfinished r"
    and "storage_keeps (storage_of e)" and "CHR ''/'' \<notin> set (content_hash r)"
    and "CHR ''/'' \<notin> set h" and "CHR ''/'' \<notin> set filename"
    and "files w (original_path_of account h filename) = Some c"
  shows "files (snd (process_remediation ad e i w)) (original_path_of account h filename) = Some c"
proof -
  obtain raised uri w2 where steps: "run_steps ad e (running_row (clock e (ticks w)) r) PIPELINE_STEPS
      (source_pdf_uri r) (started_world e r w) = ((raised, uri), w2)" by (metis prod.exhaust)
  obtain st out err where v: "job_verdict e (source_pdf_uri r) raised uri = (st, out, err)" by (metis prod.exhaust)
  have "keeps_originals e (running_row (clock e (ticks w)) r) (started_world e r w) w2"
    using job_originals.job_run_steps [of e "running_row (clock e (ticks w)) r" "started_world e r w" ad
        PIPELINE_STEPS "source_pdf_uri r"] steps by simp
  with assms(4-8) have "files w2 (original_path_of account h filename) = Some c"
    by (auto simp: keeps_originals_def started_world_def)
  with process_remediation_eq [OF assms(1-3) steps v] show ?thesis by simp
qed

section \<open>A check cut off between its two writes\<close>


section \<open>Concrete runs\<close>

text \<open>Adapters that find a document noncompliant and hand it through unchanged.\<close>

definition demo_adapters :: adapters where
  "demo_adapters = \<lparr>
     ad_validate = (\<lambda>n f. Inr \<lparr>vo_is_compliant = False, vo_failed_rules = [], vo_verapdf_version = ''1.30.2''\<rparr>),
     ad_extract = (\<lambda>n f. Inr (fst f, Some (snd f))),
     ad_repair_fonts = (\<lambda>n f. Inl (AdapterError ''bad font'')),
     ad_finalize = (\<lambda>n f title lang. Inr (fst f, Some (snd f))),
     ad_repair_links = (\<lambda>n f. Inr (fst f, Some (snd f))),
     ad_collect_figures = (\<lambda>n f. Inr []),
     ad_describe = (\<lambda>n img media title page. Inr ''figure''),
     ad_write_alt_text = (\<lambda>n f alts. Inr (fst f, Some (snd f))),
     ad_score = (\<lambda>n f. Inr \<lparr>res_score = 90, res_grade = ''A'', res_manual_review_items = []\<rparr>)\<rparr>"

abbreviation demo_job :: Remediation where
  "demo_job \<equiv> demo_attempt (hash_file demo_upload)"

definition demo_job_world :: world where
  "demo_job_world = demo_world\<lparr>files := [''a.pdf'' \<mapsto> [1, 2, 3]],
     callbacks := [\<lparr>cb_pk = 0, cb_remediation = ''r1'', callback_url = ''https://a.example/'', cb_created_at = 0\<rparr>],
     next_pk := 1\<rparr>"

lemma demo_job_world_ok:
  "tables_ok demo_job_world" "find_remediation ''r1'' demo_job_world = Some demo_job"
  "fresh_for demo_job s demo_job_world"
  using empty_world_tables_ok
  by (simp_all add: demo_job_world_def demo_world_def tables_ok_def empty_world_def find_remediation_def
      one_unfinished_attempt_per_document_def one_callback_per_url_per_remediation_def fresh_for_def demo_attempt_def)

lemmas demo_job_facts = demo_job_world_ok(1,2) demo_unfinished [of "hash_file demo_upload"]

theorem finished_attempt_is_not_run_again_witness:
  "process_remediation demo_adapters demo_env ''r1'' (demo_failed_world ''2.0.0'') = (Inr (), demo_failed_world ''2.0.0'')"
proof (rule finished_attempt_is_not_run_again)
  show "get ''r1'' (demo_failed_world ''2.0.0'') = Inr (demo_job\<lparr>status := NONCOMPLIANT\<rparr>)"
    by (simp add: get_def find_remediation_def demo_failed_world_def demo_attempt_def)
qed (simp add: finished_def FINISHED_STATUSES_def)

theorem job_always_finishes_witness:
  "\<exists>r'. find_remediation ''r1'' (snd (process_remediation demo_adapters demo_env ''r1'' demo_job_world)) = Some r' \<and>
     finished r'"
  using job_always_finishes [OF demo_job_facts, of demo_adapters demo_env] by blast

theorem job_status_exact_witness:
  "\<exists>raised r'. find_remediation ''r1'' (snd (process_remediation demo_adapters demo_env ''r1'' demo_job_world)) = Some r' \<and>
     (fst (process_remediation demo_adapters demo_env ''r1'' demo_job_world) = Inr () \<longleftrightarrow> expected raised)"
proof -
  obtain raised uri w2 where steps: "run_steps demo_adapters demo_env
      (running_row (clock demo_env (ticks demo_job_world)) demo_job) PIPELINE_STEPS (source_pdf_uri demo_job)
      (started_world demo_env demo_job demo_job_world) = ((raised, uri), w2)" by (metis prod.exhaust)
  obtain res w' where p: "process_remediation demo_adapters demo_env ''r1'' demo_job_world = (res, w')"
    by (metis prod.exhaust)
  from job_status_exact [OF demo_job_facts steps p] p show ?thesis by auto
qed


theorem first_run_reaches_the_postcheck_witness:
  "fst (process_remediation demo_adapters demo_env ''r1'' demo_job_world) = Inr ()"
proof -
  obtain res w' where p: "process_remediation demo_adapters demo_env ''r1'' demo_job_world = (res, w')"
    by (metis prod.exhaust)
  from first_run_reaches_the_postcheck [OF demo_job_facts _ p] demo_job_world_ok(3) p show ?thesis by simp
qed

text \<open>The precheck of the small world, evaluated.\<close>

lemma demo_precheck:
  "\<exists>w1. step_run demo_adapters demo_env PRECHECK demo_job ''a.pdf'' demo_job_world = (Inr ''a.pdf'', w1) \<and>
        completed_output_uri PRECHECK demo_job w1 = Some ''a.pdf''"
  by (simp add: verification_run_def local_input_copy_def call_adapter_def bind_outcome_def demo_env_def mem_storage_def
      demo_job_world_def demo_world_def empty_world_def basename_def demo_adapters_def insert_verification_result_def
      now_def raise_or_def handle_result_def)

theorem completed_step_replays_witness:
  "\<exists>w1. run demo_adapters demo_env PRECHECK demo_job ''b.pdf'' w1 = (Inr ''a.pdf'', w1)"
proof -
  obtain w1 where w1: "step_run demo_adapters demo_env PRECHECK demo_job ''a.pdf'' demo_job_world = (Inr ''a.pdf'', w1)"
    "completed_output_uri PRECHECK demo_job w1 = Some ''a.pdf''" using demo_precheck by blast
  have "completed_output_uri PRECHECK demo_job demo_job_world = None"
    by (rule fresh_for_not_completed [OF demo_job_world_ok(3)])
  from completed_step_replays [OF w1(1) this] w1(2) show ?thesis by auto
qed

theorem redelivery_continues_witness:
  "\<exists>w1. run_steps demo_adapters demo_env demo_job PIPELINE_STEPS ''a.pdf'' w1 =
        run_steps demo_adapters demo_env demo_job (tl PIPELINE_STEPS) ''a.pdf'' w1"
proof -
  obtain w1 where w1: "step_run demo_adapters demo_env PRECHECK demo_job ''a.pdf'' demo_job_world = (Inr ''a.pdf'', w1)"
    "completed_output_uri PRECHECK demo_job w1 = Some ''a.pdf''" using demo_precheck by blast
  have none: "completed_output_uri PRECHECK demo_job demo_job_world = None"
    by (rule fresh_for_not_completed [OF demo_job_world_ok(3)])
  have on: "\<not> is_disabled demo_env PRECHECK" by (simp add: is_disabled_def demo_env_def demo_settings_def)
  have "run demo_adapters demo_env PRECHECK demo_job ''a.pdf'' demo_job_world = (Inr ''a.pdf'', w1)"
    using w1(1) none by (simp add: run_def)
  with on have "run_steps demo_adapters demo_env demo_job [PRECHECK] ''a.pdf'' demo_job_world = ((None, ''a.pdf''), w1)"
    by simp
  from redelivery_continues [OF this, of "tl PIPELINE_STEPS" demo_adapters] on none w1(2) show ?thesis
    by (auto simp: PIPELINE_STEPS_def simp del: run_steps.simps)
qed

theorem originals_survive_processing_witness:
  "files (snd (process_remediation demo_adapters demo_env ''r1''
      (demo_job_world\<lparr>files := [original_path_of 7 ''abc'' ''a.pdf'' \<mapsto> [1]]\<rparr>)))
    (original_path_of 7 ''abc'' ''a.pdf'') = Some [1]"
proof (rule originals_survive_processing)
  let ?w = "demo_job_world\<lparr>files := [original_path_of 7 ''abc'' ''a.pdf'' \<mapsto> [1]]\<rparr>"
  show "tables_ok ?w" using demo_job_world_ok(1) by (simp add: tables_ok_def)
  show "find_remediation ''r1'' ?w = Some demo_job" using demo_job_world_ok(2) by (simp add: find_remediation_def)
  show "storage_keeps (storage_of demo_env)" by (simp add: storage_keeps_def demo_env_def mem_storage_def)
  show "CHR ''/'' \<notin> set (content_hash demo_job)" by (simp add: demo_attempt_def hash_file_def)
qed (simp_all add: demo_unfinished)


end
