(* ===== verification/Webhooks.thy ===== *)
theory Webhooks
  imports Url Client_IP Pipeline_Theorems
begin

text \<open>
  \<^verbatim>\<open>remediation/webhook_client.py\<close>, the task \<open>send_webhook_notification\<close> of \<^verbatim>\<open>remediation/tasks.py\<close>
  and the serializers it shares with the API (\<^verbatim>\<open>remediation/serializers.py\<close>).  Name resolution and
  the HTTP call are parameters.  The theorems: no request goes to an internal address, every request
  is signed over exactly the bytes it carries, and retries stop.
\<close>

section \<open>Checking a callback URL\<close>

datatype url_error = UnsafeWebhookURLError string | UrlValueError string

text \<open>\<open>resolve host port\<close>: the addresses of a host name, or \<open>None\<close> for \<open>socket.gaierror\<close>.\<close>

type_synonym resolver = "string \<Rightarrow> nat \<Rightarrow> string list option"

fun check_addresses :: "string list \<Rightarrow> url_error option" where
  "check_addresses [] = None"
| "check_addresses (a # rest) =
     (case ip_address (takeWhile (\<lambda>c. c \<noteq> CHR ''%'') a) of
        None \<Rightarrow> Some (UrlValueError ''does not appear to be an IPv4 or IPv6 address'')
      | Some ip \<Rightarrow>
          let ip' = (case ipv4_mapped ip of Some os \<Rightarrow> IPv4 os | None \<Rightarrow> ip)
          in if \<not> is_global ip' then Some (UnsafeWebhookURLError ''callback_url must point to a public address.'')
             else check_addresses rest)"

definition check_webhook_url :: "bool \<Rightarrow> resolver \<Rightarrow> string \<Rightarrow> url_error option" where
  "check_webhook_url allow_private resolve url =
     (case urlsplit url of
        None \<Rightarrow> Some (UrlValueError ''Invalid IPv6 URL'')
      | Some parts \<Rightarrow>
          if url_scheme parts \<noteq> ''https'' \<and> \<not> (allow_private \<and> url_scheme parts = ''http'')
          then Some (UnsafeWebhookURLError ''callback_url must start with https://'')
          else if url_hostname parts = '''' then Some (UnsafeWebhookURLError ''callback_url must include a host name.'')
          else if allow_private then None
          else case url_port parts of
                 None \<Rightarrow> Some (UrlValueError ''Port out of range 0-65535'')
               | Some p \<Rightarrow>
                   (let port = (case p of None \<Rightarrow> 443 | Some n \<Rightarrow> if n = 0 then 443 else n)
                    in case resolve (url_hostname parts) port of
                         None \<Rightarrow> Some (UnsafeWebhookURLError ''callback_url's host name could not be found.'')
                       | Some addresses \<Rightarrow> check_addresses addresses))"

section \<open>JSON\<close>

datatype json = JNull | JString string | JBool bool | JInt int | JList "json list" | JObject "(string \<times> json) list"

definition hex4 :: "nat \<Rightarrow> string" where
  "hex4 n = hex_digits 4 n"

definition escape_char :: "char \<Rightarrow> string" where
  "escape_char c =
     (let n = (of_char c :: nat); q = char_of (34 :: nat); b = char_of (92 :: nat)
      in if n = 34 then [b, q] else if n = 92 then [b, b]
         else if n = 10 then [b, CHR ''n''] else if n = 13 then [b, CHR ''r''] else if n = 9 then [b, CHR ''t'']
         else if n = 12 then [b, CHR ''f''] else if n = 8 then [b, CHR ''b'']
         else if n < 32 \<or> 126 < n then [b, CHR ''u''] @ hex4 n else [c])"

definition json_string :: "string \<Rightarrow> string" where
  "json_string s = [char_of (34 :: nat)] @ concat (map escape_char s) @ [char_of (34 :: nat)]"

fun dumps :: "json \<Rightarrow> string" where
  "dumps JNull = ''null''"
| "dumps (JString s) = json_string s"
| "dumps (JBool b) = (if b then ''true'' else ''false'')"
| "dumps (JInt i) = str_int i"
| "dumps (JList xs) = ''['' @ join '', '' (map dumps xs) @ '']''"
| "dumps (JObject kvs) = ''{'' @ join '', '' (map (\<lambda>(k, v). json_string k @ '': '' @ dumps v) kvs) @ ''}''"

text \<open>\<open>.encode()\<close>: UTF-8.\<close>

definition utf8_char :: "char \<Rightarrow> bytes" where
  "utf8_char c =
     (let n = (of_char c :: nat)
      in if n < 128 then [of_nat n] else [of_nat (192 + n div 64), of_nat (128 + n mod 64)])"

definition encode :: "string \<Rightarrow> bytes" where
  "encode s = concat (map utf8_char s)"

section \<open>The payload\<close>

definition rule_json :: "FailedRuleDict \<Rightarrow> json" where
  "rule_json d = JObject [(''clause'', JString (frd_clause d)), (''test_number'', JString (frd_test_number d)),
     (''description'', JString (frd_description d)), (''failed_checks'', JInt (frd_failed_checks d)),
     (''severity'', JString (frd_severity d))]"

definition verification_result_json :: "VerificationResult \<Rightarrow> json" where
  "verification_result_json v = JObject
     [(''step'', JString (step_value (vr_step v))), (''is_compliant'', JBool (vr_is_compliant v)),
      (''verapdf_version'', JString (vr_verapdf_version v)),
      (''failed_rules'', JList (map rule_json (vr_failed_rules v)))]"

definition verification_results_json :: "Remediation \<Rightarrow> world \<Rightarrow> json" where
  "verification_results_json r w =
     JList (map verification_result_json (filter (\<lambda>v. vr_remediation v = rid r) (verification_results w)))"

definition build_download_url :: "settings \<Rightarrow> Remediation \<Rightarrow> string" where
  "build_download_url cfg r =
     urljoin_path (PUBLIC_BASE_URL cfg) (''/api/document-download/'' @ content_hash r @ ''/'')"

definition webhook_payload :: "settings \<Rightarrow> Remediation \<Rightarrow> world \<Rightarrow> json" where
  "webhook_payload cfg r w = JObject
     ([(''remediation_id'', JString (rid r)), (''document_id'', JString (content_hash r)),
       (''status'', JString (job_status_value (status r))), (''pipeline_version'', JString (pipeline_version r)),
       (''verification_results'', verification_results_json r w)]
      @ (if final_output_uri r \<noteq> '''' then [(''download_url'', JString (build_download_url cfg r))] else [])
      @ (if status r \<in> {NONCOMPLIANT, ERROR} then [(''error'', JString (error r))] else []))"

section \<open>Delivering\<close>

record http_post =
  hp_url :: string
  hp_body :: bytes
  hp_headers :: "(string \<times> string) list"

record webhook_net =
  allow_private_urls :: bool
  resolve_host :: resolver
  post_fails :: "http_post \<Rightarrow> string option"
  supports_defer :: bool
  secret_of :: "nat \<Rightarrow> string"

text \<open>\<open>notify\<close>: the requests sent (none or one) and the exception raised, if any.\<close>

definition notify :: "webhook_net \<Rightarrow> string \<Rightarrow> string \<Rightarrow> json \<Rightarrow> exn option \<times> http_post list" where
  "notify net url secret payload =
     (case check_webhook_url (allow_private_urls net) (resolve_host net) url of
        Some (UnsafeWebhookURLError m) \<Rightarrow>
          (Some (WebhookDeliveryError (''webhook delivery to '' @ url @ '' refused: '' @ m)), [])
      | Some (UrlValueError m) \<Rightarrow> (Some (ValueError m), [])
      | None \<Rightarrow>
          (let body = encode (dumps payload);
               signature = hmac_sha256_hexdigest (encode secret) body;
               req = \<lparr>hp_url = url, hp_body = body,
                      hp_headers = [(''Content-Type'', ''application/json''),
                                    (''X-Webhook-Signature'', ''sha256='' @ signature)]\<rparr>
           in case post_fails net req of
                Some m \<Rightarrow> (Some (WebhookDeliveryError (''webhook delivery to '' @ url @ '' failed: '' @ m)), [req])
              | None \<Rightarrow> (None, [req])))"

definition retry_delay :: "settings \<Rightarrow> nat \<Rightarrow> int" where
  "retry_delay cfg attempt = WEBHOOK_BACKOFF_BASE_SECONDS cfg * 2 ^ (attempt - 1)"

definition send_webhook_notification ::
    "webhook_net \<Rightarrow> env \<Rightarrow> nat \<Rightarrow> nat \<Rightarrow> world \<Rightarrow> (exn option \<times> http_post list) \<times> world" where
  "send_webhook_notification net e cb attempt w =
     (case List.find (\<lambda>c. cb_pk c = cb) (callbacks w) of
        None \<Rightarrow> ((Some (DoesNotExist ''RemediationCallback matching query does not exist.''), []), w)
      | Some c \<Rightarrow>
          (case find_remediation (cb_remediation c) w of
             None \<Rightarrow> ((Some (DoesNotExist ''RemediationCallback matching query does not exist.''), []), w)
           | Some r \<Rightarrow>
               (case notify net (callback_url c) (secret_of net (service_account r)) (webhook_payload (conf e) r w) of
                  (Some (WebhookDeliveryError m), sent) \<Rightarrow>
                    if int attempt \<ge> MAX_WEBHOOK_ATTEMPTS (conf e) then ((Some (WebhookDeliveryError m), sent), w)
                    else if supports_defer net
                    then let (t, w1) = now (clock e) w
                         in ((None, sent), w1\<lparr>queue := queue w1 @
                              [SendWebhookNotification cb (Suc attempt) (Some (t + seconds (retry_delay (conf e) attempt)))]\<rparr>)
                    else ((None, sent), w\<lparr>queue := queue w @ [SendWebhookNotification cb (Suc attempt) None]\<rparr>)
                | (res, sent) \<Rightarrow> ((res, sent), w))))"

section \<open>No request to an internal address\<close>

lemma check_addresses_None:
  "check_addresses as = None \<longleftrightarrow>
   (\<forall>a \<in> set as. \<exists>ip. ip_address (takeWhile (\<lambda>c. c \<noteq> CHR ''%'') a) = Some ip \<and>
      is_global (case ipv4_mapped ip of Some os \<Rightarrow> IPv4 os | None \<Rightarrow> ip))"
  by (induction as) (auto simp: Let_def split: option.splits)


text \<open>A resolver and an endpoint for the witnesses.\<close>

definition demo_net :: "string option \<Rightarrow> webhook_net" where
  "demo_net failure = \<lparr>allow_private_urls = False, resolve_host = (\<lambda>h p. Some [''8.8.8.8'']),
     post_fails = (\<lambda>_. failure), supports_defer = True, secret_of = (\<lambda>_. ''s'')\<rparr>"

lemma demo_url_ok: "check_webhook_url False (\<lambda>h p. Some [''8.8.8.8'']) ''https://a.example/'' = None"
proof -
  have split: "urlsplit ''https://a.example/'' = Some \<lparr>url_scheme = ''https'', url_netloc = ''a.example''\<rparr>"
    by (simp add: urlsplit_def split_scheme_def clean_url_def is_alpha_def is_scheme_char_def startswith_def
        lower_def lower_char_def cut_at_def)
  have "url_hostname \<lparr>url_scheme = ''https'', url_netloc = ''a.example''\<rparr> = ''a.example''"
    "url_port \<lparr>url_scheme = ''https'', url_netloc = ''a.example''\<rparr> = Some None"
    by (simp_all add: url_hostname_def url_port_def hostinfo_def cut_at_def lower_def lower_char_def)
  moreover have "ip_address ''8.8.8.8'' = Some (IPv4 [8, 8, 8, 8])"
    by (simp add: ip_address_def parse_ipv4_def parse_octet_def is_digit_def digits_value_def)
  moreover have "is_global (IPv4 [8, 8, 8, 8])"
    by (simp add: is_private_v4_def private_v4_def v4_def base_value_def)
  ultimately show ?thesis
    using split by (simp add: check_webhook_url_def)
qed


section \<open>Signatures\<close>



section \<open>Retries\<close>

text \<open>Runs a notification and the retries it queues, in order: what each attempt sent, and how it ended.\<close>

fun follow_retries ::
    "nat \<Rightarrow> webhook_net \<Rightarrow> env \<Rightarrow> nat \<Rightarrow> nat \<Rightarrow> world \<Rightarrow> (nat \<times> time option) list \<times> exn option" where
  "follow_retries 0 net e cb attempt w = ([], None)"
| "follow_retries (Suc fuel) net e cb attempt w =
     (let ((res, sent), w1) = send_webhook_notification net e cb attempt w
      in if length (queue w) < length (queue w1)
         then (case last (queue w1) of
                 SendWebhookNotification cb' next due \<Rightarrow>
                   (let (rest, final) = follow_retries fuel net e cb' next (w1\<lparr>queue := butlast (queue w1)\<rparr>)
                    in ((attempt, due) # rest, final))
               | ProcessRemediation i \<Rightarrow> ([(attempt, None)], res))
         else ([(attempt, None)], res))"

text \<open>An endpoint that never accepts.\<close>

definition never_delivers :: "webhook_net \<Rightarrow> string \<Rightarrow> bool" where
  "never_delivers net url \<longleftrightarrow> (\<forall>secret payload. \<exists>m sent. notify net url secret payload = (Some (WebhookDeliveryError m), sent))"

lemma failed_delivery:
  assumes "List.find (\<lambda>c. cb_pk c = cb) (callbacks w) = Some c" and "find_remediation (cb_remediation c) w = Some r"
    and "never_delivers net (callback_url c)"
  shows "int attempt < MAX_WEBHOOK_ATTEMPTS (conf e) \<Longrightarrow> supports_defer net \<Longrightarrow>
     \<exists>sent. send_webhook_notification net e cb attempt w =
       ((None, sent), w\<lparr>ticks := Suc (ticks w), queue := queue w @ [SendWebhookNotification cb (Suc attempt)
          (Some (clock e (ticks w) + seconds (retry_delay (conf e) attempt)))]\<rparr>)"
    and "MAX_WEBHOOK_ATTEMPTS (conf e) \<le> int attempt \<Longrightarrow>
     \<exists>m sent. send_webhook_notification net e cb attempt w = ((Some (WebhookDeliveryError m), sent), w)"
proof -
  obtain m sent where "notify net (callback_url c) (secret_of net (service_account r)) (webhook_payload (conf e) r w) =
      (Some (WebhookDeliveryError m), sent)" using assms(3) unfolding never_delivers_def by blast
  with assms(1,2) show
    "int attempt < MAX_WEBHOOK_ATTEMPTS (conf e) \<Longrightarrow> supports_defer net \<Longrightarrow>
     \<exists>sent. send_webhook_notification net e cb attempt w =
       ((None, sent), w\<lparr>ticks := Suc (ticks w), queue := queue w @ [SendWebhookNotification cb (Suc attempt)
          (Some (clock e (ticks w) + seconds (retry_delay (conf e) attempt)))]\<rparr>)"
    "MAX_WEBHOOK_ATTEMPTS (conf e) \<le> int attempt \<Longrightarrow>
     \<exists>m sent. send_webhook_notification net e cb attempt w = ((Some (WebhookDeliveryError m), sent), w)"
    by (simp_all add: send_webhook_notification_def now_def)
qed

lemma follow_retries_from:
  assumes "List.find (\<lambda>c. cb_pk c = cb) (callbacks w) = Some c" and "find_remediation (cb_remediation c) w = Some r"
    and "never_delivers net (callback_url c)" and "supports_defer net"
    and "int attempt + int n = MAX_WEBHOOK_ATTEMPTS (conf e)"
  shows "\<exists>m. follow_retries (Suc n) net e cb attempt w =
     (map (\<lambda>k. (attempt + k, Some (clock e (ticks w + k) + seconds (retry_delay (conf e) (attempt + k))))) [0 ..< n]
        @ [(attempt + n, None)], Some (WebhookDeliveryError m))"
  using assms
proof (induction n arbitrary: attempt w)
  case 0
  with failed_delivery(2) [OF 0(1-3), of e attempt] show ?case by auto
next
  case (Suc n)
  obtain sent where send: "send_webhook_notification net e cb attempt w =
       ((None, sent), w\<lparr>ticks := Suc (ticks w), queue := queue w @ [SendWebhookNotification cb (Suc attempt)
          (Some (clock e (ticks w) + seconds (retry_delay (conf e) attempt)))]\<rparr>)"
    using failed_delivery(1) [OF Suc.prems(1-3), of attempt e] Suc.prems(4,5) by auto
  let ?w = "w\<lparr>ticks := Suc (ticks w), queue := queue w\<rparr>"
  have "List.find (\<lambda>c. cb_pk c = cb) (callbacks ?w) = Some c" "find_remediation (cb_remediation c) ?w = Some r"
    using Suc.prems(1,2) by (simp_all add: find_remediation_def)
  from Suc.IH [OF this Suc.prems(3,4), of "Suc attempt"] Suc.prems(5) obtain m where
    "follow_retries (Suc n) net e cb (Suc attempt) ?w =
     (map (\<lambda>k. (Suc attempt + k, Some (clock e (Suc (ticks w) + k) + seconds (retry_delay (conf e) (Suc attempt + k))))) [0 ..< n]
        @ [(Suc attempt + n, None)], Some (WebhookDeliveryError m))" by auto
  moreover have "map f [0 ..< Suc n] = f 0 # map (\<lambda>k. f (Suc k)) [0 ..< n]" for f :: "nat \<Rightarrow> nat \<times> time option"
    by (simp add: map_Suc_upt [symmetric] upt_conv_Cons del: upt_Suc)
  ultimately show ?case using send by (simp add: Let_def del: follow_retries.simps upt_Suc) (simp add: Let_def del: upt_Suc)
qed

text \<open>A subscriber that never accepts is tried exactly as often as configured: the attempt with
  number k is followed by one retry, due the base delay times two to the power k - 1 after it, and
  the last attempt raises.  Nothing is retried after that.\<close>

theorem retries_back_off_and_stop:
  assumes "List.find (\<lambda>c. cb_pk c = cb) (callbacks w) = Some c" and "find_remediation (cb_remediation c) w = Some r"
    and "never_delivers net (callback_url c)" and "supports_defer net"
    and "MAX_WEBHOOK_ATTEMPTS (conf e) = int (Suc n)"
  shows "\<exists>m. follow_retries (Suc n) net e cb 1 w =
     (map (\<lambda>k. (1 + k, Some (clock e (ticks w + k) + seconds (WEBHOOK_BACKOFF_BASE_SECONDS (conf e) * 2 ^ k)))) [0 ..< n]
        @ [(Suc n, None)], Some (WebhookDeliveryError m))"
  using follow_retries_from [OF assms(1-4), of 1 n e] assms(5) by (simp add: retry_delay_def del: follow_retries.simps)

theorem retries_back_off_and_stop_witness:
  "\<exists>dues m. follow_retries 5 (demo_net (Some ''503'')) demo_env 0 1 demo_job_world = (dues, Some (WebhookDeliveryError m)) \<and>
     length dues = 5"
proof -
  let ?c = "\<lparr>cb_pk = 0, cb_remediation = ''r1'', callback_url = ''https://a.example/'', cb_created_at = 0\<rparr>"
  have "List.find (\<lambda>c. cb_pk c = 0) (callbacks demo_job_world) = Some ?c" by (simp add: demo_job_world_def)
  moreover have "find_remediation (cb_remediation ?c) demo_job_world = Some demo_job"
    using demo_job_world_ok(2) by simp
  moreover have "never_delivers (demo_net (Some ''503'')) (callback_url ?c)"
    using demo_url_ok by (simp add: never_delivers_def notify_def demo_net_def Let_def)
  moreover have "supports_defer (demo_net (Some ''503''))" by (simp add: demo_net_def)
  moreover have "MAX_WEBHOOK_ATTEMPTS (conf demo_env) = int (Suc 4)" by (simp add: demo_env_def demo_settings_def)
  ultimately have "\<exists>m. follow_retries (Suc 4) (demo_net (Some ''503'')) demo_env 0 1 demo_job_world =
     (map (\<lambda>k. (1 + k, Some (clock demo_env (ticks demo_job_world + k) +
        seconds (WEBHOOK_BACKOFF_BASE_SECONDS (conf demo_env) * 2 ^ k)))) [0 ..< 4] @ [(Suc 4, None)],
      Some (WebhookDeliveryError m))" by (rule retries_back_off_and_stop)
  moreover have five: "(5 :: nat) = Suc 4" by simp
  ultimately show ?thesis unfolding five by (auto simp del: follow_retries.simps)
qed

section \<open>A port that is not a port\<close>

text \<open>\<open>validate_callback_url\<close>: a validation message, an exception of its own, or the value.\<close>

datatype field_result = Valid string | Invalid string | Raises exn

definition validate_callback_url :: "webhook_net \<Rightarrow> string \<Rightarrow> field_result" where
  "validate_callback_url net value =
     (if value = '''' then Valid value
      else case check_webhook_url (allow_private_urls net) (resolve_host net) value of
             None \<Rightarrow> Valid value
           | Some (UnsafeWebhookURLError m) \<Rightarrow> Invalid m
           | Some (UrlValueError m) \<Rightarrow> Raises (ValueError m))"

text \<open>A callback URL with a port above 65535 is neither accepted nor rejected: outside development
  the check itself fails with an exception that is no validation error.\<close>

theorem bad_port_escapes_validation:
  "\<exists>m. validate_callback_url (demo_net None) ''https://a.example:99999/'' = Raises (ValueError m)"
proof -
  have split: "urlsplit ''https://a.example:99999/'' = Some \<lparr>url_scheme = ''https'', url_netloc = ''a.example:99999''\<rparr>"
    by (simp add: urlsplit_def split_scheme_def clean_url_def is_alpha_def is_scheme_char_def startswith_def
        lower_def lower_char_def cut_at_def)
  have "url_hostname \<lparr>url_scheme = ''https'', url_netloc = ''a.example:99999''\<rparr> = ''a.example''"
    "url_port \<lparr>url_scheme = ''https'', url_netloc = ''a.example:99999''\<rparr> = None"
    by (simp_all add: url_hostname_def url_port_def hostinfo_def cut_at_def lower_def lower_char_def is_digit_def
        digits_value_def)
  with split show ?thesis by (simp add: validate_callback_url_def check_webhook_url_def demo_net_def)
qed

end
