(* ===== verification/Api_Views.thy ===== *)
theory Api_Views
  imports Webhooks Submission_Limits
begin

text \<open>
  \<^verbatim>\<open>api/views.py\<close> and \<^verbatim>\<open>remediation/serializers.py\<close>: the checks on an upload, the JSON of an
  attempt, the mixin that applies an account's limit to every logged-in view, and the views that
  submit, report and download.  The framework is a parameter where its own code decides: what its
  fields make of the request's raw data (\<open>upload_data\<close>), how it writes times, and which response
  its exception handler gives (none when it raises the exception again).  Other requests and
  workers commit between the statements of a submission; their effect is an argument.
\<close>

section \<open>Responses and errors\<close>

datatype response_body = JsonBody json | PdfBody string bytes | TextBody string

record response =
  resp_status :: nat
  resp_headers :: "(string \<times> string) list"
  resp_body :: response_body

datatype view_error =
    ValidationFailed "(string \<times> string list) list"
  | PermissionDenied string
  | Http404
  | RateUnreadable rate_error
  | Uncaught exn

type_synonym 'a view_outcome = "(view_error + 'a) \<times> world"

section \<open>Serializers\<close>

text \<open>What the framework's fields made of the raw request: their own messages, or a value.\<close>

record upload_data =
  ud_file :: "string list + UploadedFile"
  ud_force :: "string list + bool"
  ud_callback_url :: "string list + string"

definition validate_file :: "UploadedFile \<Rightarrow> string option" where
  "validate_file f =
     (if up_name f = '''' \<or> \<not> endswith (lower (up_name f)) ''.pdf'' then Some ''file must be a PDF.'' else None)"

text \<open>
  The loop over the fields: a field's value, then its \<open>validate_\<close> method; messages are collected
  per field, any other exception leaves the loop.
\<close>

definition upload_is_valid ::
    "webhook_net \<Rightarrow> upload_data \<Rightarrow> view_error + (UploadedFile \<times> bool \<times> string)" where
  "upload_is_valid net d =
     (let file_errors = (case ud_file d of Inl ms \<Rightarrow> ms
                           | Inr f \<Rightarrow> (case validate_file f of None \<Rightarrow> [] | Some m \<Rightarrow> [m]));
          force_errors = (case ud_force d of Inl ms \<Rightarrow> ms | Inr _ \<Rightarrow> []);
          collect = (\<lambda>url_errors.
            (case filter (\<lambda>(_, ms). ms \<noteq> [])
                    [(''file'', file_errors), (''force'', force_errors), (''callback_url'', url_errors)] of
               [] \<Rightarrow> Inr (projr (ud_file d), projr (ud_force d), projr (ud_callback_url d))
             | errors \<Rightarrow> Inl (ValidationFailed errors)))
      in case ud_callback_url d of
           Inl ms \<Rightarrow> collect ms
         | Inr url \<Rightarrow> (case validate_callback_url net url of
                         Valid _ \<Rightarrow> collect []
                       | Invalid m \<Rightarrow> collect [m]
                       | Raises x \<Rightarrow> Inl (Uncaught x)))"

definition get_download_url :: "settings \<Rightarrow> Remediation \<Rightarrow> json" where
  "get_download_url cfg r = (if final_output_uri r \<noteq> '''' then JString (build_download_url cfg r) else JNull)"

definition json_time :: "(time \<Rightarrow> string) \<Rightarrow> time option \<Rightarrow> json" where
  "json_time show_time t = (case t of None \<Rightarrow> JNull | Some x \<Rightarrow> JString (show_time x))"

definition remediation_json :: "(time \<Rightarrow> string) \<Rightarrow> settings \<Rightarrow> Remediation \<Rightarrow> world \<Rightarrow> json" where
  "remediation_json show_time cfg r w = JObject
     [(''id'', JString (rid r)), (''document_id'', JString (content_hash r)),
      (''original_filename'', JString (original_filename r)), (''status'', JString (job_status_value (status r))),
      (''pipeline_version'', JString (pipeline_version r)), (''error'', JString (error r)),
      (''created_at'', json_time show_time (Some (created_at r))),
      (''started_at'', json_time show_time (started_at r)),
      (''completed_at'', json_time show_time (completed_at r)),
      (''verification_results'', verification_results_json r w),
      (''download_url'', get_download_url cfg r)]"

definition job_response :: "nat \<Rightarrow> (time \<Rightarrow> string) \<Rightarrow> settings \<Rightarrow> Remediation \<Rightarrow> world \<Rightarrow> response" where
  "job_response code show_time cfg r w =
     \<lparr>resp_status = code, resp_headers = [], resp_body = JsonBody (remediation_json show_time cfg r w)\<rparr>"

section \<open>The limits mixin\<close>

definition LIMITS_NOT_SET_MESSAGE :: string where
  "LIMITS_NOT_SET_MESSAGE = ''This account's limits are not fully set. Ask the administrator.''"

text \<open>\<open>EnforceAccountLimitsMixin.initial\<close>, after the framework's own checks.\<close>

definition enforce_initial :: "drf_parser \<Rightarrow> ServiceAccount \<Rightarrow> view_error + SubmissionLimit option" where
  "enforce_initial drf a =
     (case limit_for drf a of
        Inl (Incomplete _) \<Rightarrow> Inl (PermissionDenied LIMITS_NOT_SET_MESSAGE)
      | Inl (Unreadable x) \<Rightarrow> Inl (RateUnreadable x)
      | Inr limit \<Rightarrow> Inr limit)"

text \<open>\<open>response[name] = value\<close>, for each header.\<close>

fun set_headers :: "(string \<times> string) list \<Rightarrow> response \<Rightarrow> response" where
  "set_headers [] resp = resp"
| "set_headers ((n, v) # hs) resp =
     set_headers hs (resp\<lparr>resp_headers := filter (\<lambda>(m, _). m \<noteq> n) (resp_headers resp) @ [(n, v)]\<rparr>)"

definition finalize_response :: "env \<Rightarrow> SubmissionLimit option option \<Rightarrow> response \<Rightarrow> world \<Rightarrow> response \<times> world" where
  "finalize_response e submission_limit resp w =
     (case submission_limit of
        None \<Rightarrow> (resp, w)
      | Some limit \<Rightarrow> (let (hs, w1) = limit_like_headers e limit w in (set_headers hs resp, w1)))"

text \<open>A request to a view with the mixin: \<open>None\<close> is an exception the framework raises again.\<close>

definition limited_view ::
    "(view_error \<Rightarrow> response option) \<Rightarrow> drf_parser \<Rightarrow> env \<Rightarrow> ServiceAccount
      \<Rightarrow> (SubmissionLimit option \<Rightarrow> world \<Rightarrow> response view_outcome) \<Rightarrow> world \<Rightarrow> response option \<times> world" where
  "limited_view exception_handler drf e account handler w =
     (let finish = (\<lambda>limit res w1.
            case (case res of Inl x \<Rightarrow> exception_handler x | Inr resp \<Rightarrow> Some resp) of
              None \<Rightarrow> (None, w1)
            | Some resp \<Rightarrow> (let (resp1, w2) = finalize_response e limit resp w1 in (Some resp1, w2)))
      in case enforce_initial drf account of
           Inl x \<Rightarrow> finish None (Inl x) w
         | Inr limit \<Rightarrow> (let (res, w1) = handler limit w in finish (Some limit) res w1))"

section \<open>The views\<close>

text \<open>
  \<open>CreateRemediationView.post\<close>.  \<open>others\<close> commits while the upload is stored, \<open>meanwhile\<close> between
  the submission and the registration of the callback.
\<close>

definition subscribe :: "env \<Rightarrow> Remediation \<Rightarrow> string \<Rightarrow> world \<Rightarrow> world" where
  "subscribe e r url w =
     (if url = '''' then w
      else let ((callback, callback_created), w1) = register_callback e r url w
           in if callback_created \<and> status r \<in> set FINISHED_STATUSES
              then w1\<lparr>queue := queue w1 @ [SendWebhookNotification (cb_pk callback) 1 None]\<rparr>
              else w1)"

definition create_remediation_post ::
    "webhook_net \<Rightarrow> (time \<Rightarrow> string) \<Rightarrow> env \<Rightarrow> 'v version_api \<Rightarrow> ServiceAccount \<Rightarrow> upload_data
      \<Rightarrow> (world \<Rightarrow> world) \<Rightarrow> (world \<Rightarrow> world) \<Rightarrow> SubmissionLimit option \<Rightarrow> world \<Rightarrow> response view_outcome" where
  "create_remediation_post net show_time e ver account data others meanwhile limit w =
     (case upload_is_valid net data of
        Inl x \<Rightarrow> (Inl x, w)
      | Inr (file, force, url) \<Rightarrow>
          (case get_or_create_from_upload e ver (sa_pk account) file force (Some (limit_like_check e limit)) others w of
             (Inl x, w1) \<Rightarrow> (Inl (Uncaught x), w1)
           | (Inr (r, created), w1) \<Rightarrow>
               (let w2 = subscribe e r url (meanwhile w1);
                    code = (if created then 201 else 200);
                    ((claimed, r1), w3) = claim_enqueue e r created w2
                in if claimed
                   then let w4 = w3\<lparr>queue := queue w3 @ [ProcessRemediation (rid r1)]\<rparr>
                        in case find_remediation (rid r1) w4 of
                             None \<Rightarrow> (Inl (Uncaught (DoesNotExist ''Remediation matching query does not exist.'')), w4)
                           | Some r2 \<Rightarrow> (Inr (job_response code show_time (conf e) r2 w4), w4)
                   else (Inr (job_response code show_time (conf e) r1 w3), w3))))"

definition document_status_get ::
    "(time \<Rightarrow> string) \<Rightarrow> env \<Rightarrow> ServiceAccount \<Rightarrow> string \<Rightarrow> SubmissionLimit option \<Rightarrow> world \<Rightarrow> response view_outcome" where
  "document_status_get show_time e account h limit w =
     (case latest_for_document (sa_pk account) h w of
        None \<Rightarrow> (Inl Http404, w)
      | Some r \<Rightarrow> (Inr (job_response 200 show_time (conf e) r w), w))"

definition document_download_get ::
    "env \<Rightarrow> ServiceAccount \<Rightarrow> string \<Rightarrow> SubmissionLimit option \<Rightarrow> world \<Rightarrow> response view_outcome" where
  "document_download_get e account h limit w =
     (case latest_for_document (sa_pk account) h w of
        None \<Rightarrow> (Inl Http404, w)
      | Some r \<Rightarrow>
          if final_output_uri r = '''' then (Inl Http404, w)
          else case st_open (storage_of e) (files w) (final_output_uri r) of
                 Inl x \<Rightarrow> (Inl (Uncaught x), w)
               | Inr contents \<Rightarrow>
                   (Inr \<lparr>resp_status = 200, resp_headers = [(''Content-Type'', ''application/pdf'')],
                         resp_body = PdfBody (if original_filename r \<noteq> '''' then original_filename r else ''document.pdf'')
                                       contents\<rparr>, w))"

definition ping_get :: response where
  "ping_get = \<lparr>resp_status = 200, resp_headers = [(''Content-Type'', ''text/plain'')], resp_body = TextBody ''pong!''\<rparr>"

section \<open>Limits are applied to every request\<close>

lemma set_headers_keep [simp]:
  "resp_status (set_headers hs resp) = resp_status resp" "resp_body (set_headers hs resp) = resp_body resp"
  by (induction hs resp rule: set_headers.induct) auto

lemma map_of_set_header:
  "map_of (filter (\<lambda>(m, _). m \<noteq> n) hs @ [(n, v)]) k = (if k = n then Some v else map_of hs k)"
  by (induction hs) auto

lemma limit_headers_named:
  "\<exists>remaining reset w'. limit_headers e l w =
     ([(''X-RateLimit-Limit'', str_int (num_requests l)), (''X-RateLimit-Remaining'', remaining),
       (''X-RateLimit-Reset'', reset)], w')"
  by (simp add: limit_headers_def as_headers_def state_from_def Let_def case_prod_beta)

text \<open>The limit mixin is fail-closed and complete.  An account with half-filled limits is refused
  before the view runs, whatever the view is, and nothing is read or written for it; every response
  an account with a limit does get, errors included, tells its limit, what remains and the wait.\<close>

theorem limits_guard_every_view:
  assumes "\<not> unlimited a"
  shows "(rate_limit_count a = None \<or> rate_limit_period a = None \<longrightarrow>
            limited_view handle drf e a view w = (handle (PermissionDenied LIMITS_NOT_SET_MESSAGE), w)) \<and>
         (\<forall>l resp w'. limit_for drf a = Inr (Some l) \<and> limited_view handle drf e a view w = (Some resp, w') \<longrightarrow>
            map_of (resp_headers resp) ''X-RateLimit-Limit'' = Some (str_int (num_requests l)) \<and>
            map_of (resp_headers resp) ''X-RateLimit-Remaining'' \<noteq> None \<and>
            map_of (resp_headers resp) ''X-RateLimit-Reset'' \<noteq> None)"
proof (intro conjI impI allI)
  assume "rate_limit_count a = None \<or> rate_limit_period a = None"
  then have "limit_for drf a = Inl (Incomplete (IncompleteLimitsError (sa_pk a)))"
    using assms by (auto simp: limit_for_def rate_limit_def is_unlimited_def split: option.splits)
  then show "limited_view handle drf e a view w = (handle (PermissionDenied LIMITS_NOT_SET_MESSAGE), w)"
    by (simp add: limited_view_def enforce_initial_def finalize_response_def split: option.split)
next
  fix l resp w'
  assume l: "limit_for drf a = Inr (Some l) \<and> limited_view handle drf e a view w = (Some resp, w')"
  obtain res w1 where v: "view (Some l) w = (res, w1)" by fastforce
  obtain remaining reset w2 where hs: "limit_headers e l w1 =
      ([(''X-RateLimit-Limit'', str_int (num_requests l)), (''X-RateLimit-Remaining'', remaining),
        (''X-RateLimit-Reset'', reset)], w2)" using limit_headers_named by blast
  with l v obtain resp0 where "resp = set_headers [(''X-RateLimit-Limit'', str_int (num_requests l)),
      (''X-RateLimit-Remaining'', remaining), (''X-RateLimit-Reset'', reset)] resp0"
    by (auto simp: limited_view_def enforce_initial_def finalize_response_def split: option.splits)
  then have "map_of (resp_headers resp) ''X-RateLimit-Limit'' = Some (str_int (num_requests l)) \<and>
      map_of (resp_headers resp) ''X-RateLimit-Remaining'' = Some remaining \<and>
      map_of (resp_headers resp) ''X-RateLimit-Reset'' = Some reset"
    by (simp add: map_of_set_header del: map_of_append filter_append)
  then show "map_of (resp_headers resp) ''X-RateLimit-Limit'' = Some (str_int (num_requests l))"
    "map_of (resp_headers resp) ''X-RateLimit-Remaining'' \<noteq> None"
    "map_of (resp_headers resp) ''X-RateLimit-Reset'' \<noteq> None" by simp_all
qed

theorem limits_guard_every_view_witness:
  "\<exists>resp w'. limited_view (\<lambda>_. None) demo_drf demo_env demo_account (\<lambda>_ w. (Inr ping_get, w)) demo_world = (Some resp, w') \<and>
     map_of (resp_headers resp) ''X-RateLimit-Limit'' = Some (str_int 100)"
proof -
  have "rate_limit demo_account = Inr (Some (str_nat 100 @ ''/'' @ period_value DAY))"
    by (simp add: rate_limit_def demo_account_def is_unlimited_def str_int_def)
  moreover have "demo_drf (str_nat 100 @ ''/'' @ period_value DAY) = Some (Some 100, Some 86400)"
    using demo_drf_reads unfolding drf_reads_rates_def by (metis of_nat_numeral period_seconds.simps(4))
  ultimately have l: "limit_for demo_drf demo_account = Inr (Some \<lparr>sl_account = 7, num_requests = 100, duration = 86400\<rparr>)"
    by (simp add: limit_for_def make_submission_limit_def parse_rate_def demo_account_def del: str_nat.simps)
  obtain remaining reset w2 where "limit_headers demo_env \<lparr>sl_account = 7, num_requests = 100, duration = 86400\<rparr> demo_world =
      ([(''X-RateLimit-Limit'', str_int 100), (''X-RateLimit-Remaining'', remaining), (''X-RateLimit-Reset'', reset)], w2)"
    using limit_headers_named [of demo_env "\<lparr>sl_account = 7, num_requests = 100, duration = 86400\<rparr>" demo_world] by auto
  with l obtain resp w' where r: "limited_view (\<lambda>_. None) demo_drf demo_env demo_account (\<lambda>_ w. (Inr ping_get, w)) demo_world = (Some resp, w')"
    by (simp add: limited_view_def enforce_initial_def finalize_response_def del: set_headers.simps)
  have "\<not> unlimited demo_account" by (simp add: demo_account_def)
  from limits_guard_every_view [OF this] l r show ?thesis by fastforce
qed

section \<open>Only the caller's own documents\<close>



section \<open>Subscribing\<close>

lemma find_remediation_cong: "remediations w = remediations w' \<Longrightarrow> find_remediation i w = find_remediation i w'"
  by (simp add: find_remediation_def)

lemma claim_enqueue_keeps:
  assumes "claim_enqueue e r created w = ((claimed, r1), w')"
  shows "rid r1 = rid r" and "callbacks w' = callbacks w" and "queue w' = queue w"
    and "find_remediation i w = Some x \<Longrightarrow>
         \<exists>y. find_remediation i w' = Some y \<and> status y = status x \<and> document y = document x"
proof -
  obtain b w1 where st: "is_stuck e r w = (b, w1)" by fastforce
  have w1: "callbacks w1 = callbacks w" "queue w1 = queue w" "remediations w1 = remediations w"
    using is_stuck_world [OF st] by auto
  show "rid r1 = rid r" "callbacks w' = callbacks w" "queue w' = queue w"
    using assms st w1(1,2) by (auto simp: claim_enqueue_def now_def Let_def split: if_splits bool.splits)
  have upd: "List.find (\<lambda>r. rid r = i) (update_rows p (\<lambda>row. row\<lparr>last_enqueued_at := t\<rparr>) rows) =
      map_option (\<lambda>row. if p row then row\<lparr>last_enqueued_at := t\<rparr> else row) (List.find (\<lambda>r. rid r = i) rows)" for p t rows
    by (induction rows) (auto simp: update_rows_def)
  define hit where "hit = (\<lambda>row :: Remediation. rid row = rid r \<and> status row \<in> set UNFINISHED_STATUSES \<and> last_enqueued_at row = last_enqueued_at r)"
  have "remediations w' = remediations w \<or>
      remediations w' = update_rows hit (\<lambda>row. row\<lparr>last_enqueued_at := Some (clock e (ticks w1))\<rparr>) (remediations w)"
    using assms st w1(3) unfolding hit_def
    by (cases created; cases b) (simp_all add: claim_enqueue_def now_def Let_def split: if_splits, auto)
  then show "find_remediation i w = Some x \<Longrightarrow>
      \<exists>y. find_remediation i w' = Some y \<and> status y = status x \<and> document y = document x"
    by (auto simp: find_remediation_def upd document_def)
qed

lemma subscribe_new:
  assumes "url \<noteq> ''''" and "\<forall>c \<in> set (callbacks w). \<not> (cb_remediation c = rid r \<and> callback_url c = url)"
  shows "subscribe e r url w =
     w\<lparr>ticks := Suc (ticks w), next_pk := Suc (next_pk w),
       callbacks := callbacks w @ [\<lparr>cb_pk = next_pk w, cb_remediation = rid r, callback_url = url,
                                    cb_created_at = clock e (ticks w)\<rparr>],
       queue := queue w @ (if status r \<in> set FINISHED_STATUSES then [SendWebhookNotification (next_pk w) 1 None] else [])\<rparr>"
proof -
  have "List.find (\<lambda>c. cb_remediation c = rid r \<and> callback_url c = url) (callbacks w) = None"
    using assms(2) by (simp add: find_None_iff)
  with assms(1) show ?thesis by (simp add: subscribe_def register_callback_def now_def Let_def)
qed

text \<open>What remains of a submission after the attempt is known.\<close>

lemma create_remediation_post_parts:
  assumes "create_remediation_post net show_time e ver account data others meanwhile limit w = (Inr resp, w')"
    and "upload_is_valid net data = Inr (file, force, url)"
  obtains r created w1 w2 r1 w3 where
    "get_or_create_from_upload e ver (sa_pk account) file force (Some (limit_like_check e limit)) others w = (Inr (r, created), w1)"
    "w2 = subscribe e r url (meanwhile w1)" "remediations w' = remediations w3" "callbacks w' = callbacks w3"
    "\<exists>claimed. claim_enqueue e r created w2 = ((claimed, r1), w3) \<and>
       queue w' = queue w3 @ (if claimed then [ProcessRemediation (rid r)] else [])"
    "resp_status resp = (if created then 201 else 200)"
proof -
  obtain res w1 where g: "get_or_create_from_upload e ver (sa_pk account) file force (Some (limit_like_check e limit)) others w = (res, w1)"
    by fastforce
  with assms obtain r created where res: "res = Inr (r, created)"
    by (cases res) (auto simp: create_remediation_post_def)
  let ?w2 = "subscribe e r url (meanwhile w1)"
  obtain claimed r1 w3 where c: "claim_enqueue e r created ?w2 = ((claimed, r1), w3)" by (metis prod.exhaust)
  note rid = claim_enqueue_keeps(1) [OF c]
  have "create_remediation_post net show_time e ver account data others meanwhile limit w =
    (let code = (if created then 201 else 200); w4 = w3\<lparr>queue := queue w3 @ [ProcessRemediation (rid r1)]\<rparr>
     in if claimed then (case find_remediation (rid r1) w4 of
            None \<Rightarrow> (Inl (Uncaught (DoesNotExist ''Remediation matching query does not exist.'')), w4)
          | Some r2 \<Rightarrow> (Inr (job_response code show_time (conf e) r2 w4), w4))
        else (Inr (job_response code show_time (conf e) r1 w3), w3))"
    by (simp add: create_remediation_post_def assms(2) g res c Let_def)
  with assms(1) rid have "remediations w' = remediations w3 \<and> callbacks w' = callbacks w3 \<and>
      queue w' = queue w3 @ (if claimed then [ProcessRemediation (rid r)] else []) \<and>
      resp_status resp = (if created then 201 else 200)"
    by (cases claimed; cases "find_remediation (rid r) (w3\<lparr>queue := queue w3 @ [ProcessRemediation (rid r)]\<rparr>)")
      (auto simp: Let_def job_response_def)
  with g res c show ?thesis by (intro that [of r created w1 ?w2 w3 r1]) auto
qed

text \<open>A subscriber hears of its document.  When nothing happens to the attempt between the
  submission and the registration, then afterwards the new callback is on an attempt of the uploaded
  document, and that attempt is either still to end (the job then notifies its callbacks) or the
  notification is already queued.\<close>

theorem new_subscriber_hears:
  assumes "tables_ok w" and "upload_is_valid net data = Inr (file, force, url)" and "url \<noteq> ''''"
    and "create_remediation_post net show_time e ver account data (\<lambda>v. v) (\<lambda>v. v) limit w = (Inr resp, w')"
    and "\<forall>c \<in> set (callbacks w). callback_url c \<noteq> url"
  shows "\<exists>c r. c \<in> set (callbacks w') \<and> callback_url c = url \<and> find_remediation (cb_remediation c) w' = Some r \<and>
           document r = (sa_pk account, hash_file file) \<and>
           (unfinished r \<or> SendWebhookNotification (cb_pk c) 1 None \<in> set (queue w'))"
proof -
  from create_remediation_post_parts [OF assms(4,2)] obtain r created w1 w2 r1 w3 claimed where
    g: "get_or_create_from_upload e ver (sa_pk account) file force (Some (limit_like_check e limit)) (\<lambda>v. v) w = (Inr (r, created), w1)"
    and w2: "w2 = subscribe e r url w1" and w': "remediations w' = remediations w3" "callbacks w' = callbacks w3"
    and c: "claim_enqueue e r created w2 = ((claimed, r1), w3)"
    and q: "queue w' = queue w3 @ (if claimed then [ProcessRemediation (rid r)] else [])" by metis
  have own: "document r = (sa_pk account, hash_file file)" "r \<in> set (remediations w1)"
    using submission_answer [OF g] by auto
  have "tables_ok w1" using limit_like.limited_submission_keeps_tables [OF assms(1), of "\<lambda>v. v"] g by (metis snd_conv)
  then have "find_remediation (rid r) w1 = Some r" using own(2) by (intro find_remediation_unique) (simp_all add: tables_ok_def)
  moreover have "callbacks w1 = callbacks w" using limit_like.submission_keeps_subscriptions [OF g] by simp
  then have "\<forall>c \<in> set (callbacks w1). \<not> (cb_remediation c = rid r \<and> callback_url c = url)" using assms(5) by simp
  note new = subscribe_new [OF assms(3) this, of e]
  ultimately have "find_remediation (rid r) w2 = Some r" by (simp add: w2 find_remediation_def)
  from claim_enqueue_keeps(4) [OF c this] obtain y where
    y: "find_remediation (rid r) w3 = Some y" "status y = status r" "document y = document r" by blast
  let ?c = "\<lparr>cb_pk = next_pk w1, cb_remediation = rid r, callback_url = url, cb_created_at = clock e (ticks w1)\<rparr>"
  have "?c \<in> set (callbacks w')" using w'(2) claim_enqueue_keeps(2) [OF c] w2 new by simp
  moreover have "find_remediation (cb_remediation ?c) w' = Some y"
    using y(1) w'(1) find_remediation_cong [of w' w3] by simp
  moreover have "unfinished y \<or> SendWebhookNotification (cb_pk ?c) 1 None \<in> set (queue w')"
    using q claim_enqueue_keeps(3) [OF c] w2 new y(2) finished_iff_not_unfinished [of y]
    by (auto simp: finished_def)
  ultimately show ?thesis using y(3) own(1) by (intro exI [of _ ?c] exI [of _ y]) simp
qed

lemma subscribe_keeps_rows [simp]: "remediations (subscribe e r url w) = remediations w"
  by (simp add: subscribe_def register_callback_def now_def Let_def split: option.split)

lemma create_remediation_post_answers:
  assumes "upload_is_valid net data = Inr (file, force, url)"
    and "get_or_create_from_upload e ver (sa_pk account) file force (Some (limit_like_check e limit)) others w = (Inr (r, created), w1)"
    and "find_remediation (rid r) (meanwhile w1) \<noteq> None"
  shows "\<exists>resp w'. create_remediation_post net show_time e ver account data others meanwhile limit w = (Inr resp, w')"
proof -
  obtain claimed r1 w3 where c: "claim_enqueue e r created (subscribe e r url (meanwhile w1)) = ((claimed, r1), w3)"
    by (metis prod.exhaust)
  obtain x where "find_remediation (rid r) (subscribe e r url (meanwhile w1)) = Some x"
    using assms(3) by (auto simp: find_remediation_def)
  from claim_enqueue_keeps(4) [OF c this] obtain y where "find_remediation (rid r) w3 = Some y" by blast
  then have "find_remediation (rid r) (w3\<lparr>queue := q\<rparr>) = Some y" for q by (simp add: find_remediation_def)
  with assms(1,2) c claim_enqueue_keeps(1) [OF c] show ?thesis
    by (cases claimed) (simp_all add: create_remediation_post_def Let_def)
qed

section \<open>Witnesses of a submission\<close>

definition demo_submission :: upload_data where
  "demo_submission = \<lparr>ud_file = Inr demo_upload, ud_force = Inr False, ud_callback_url = Inr ''https://a.example/''\<rparr>"

lemma demo_submission_valid:
  "upload_is_valid (demo_net None) demo_submission = Inr (demo_upload, False, ''https://a.example/'')"
proof -
  have "validate_callback_url (demo_net None) ''https://a.example/'' = Valid ''https://a.example/''"
    using demo_url_ok by (simp add: validate_callback_url_def demo_net_def)
  moreover have "validate_file demo_upload = None"
    by (simp add: validate_file_def demo_upload_def endswith_def startswith_def lower_def lower_char_def)
  ultimately show ?thesis by (simp add: upload_is_valid_def demo_submission_def)
qed

lemma demo_world_tables_ok: "tables_ok demo_world"
  using empty_world_tables_ok
  by (simp add: demo_world_def tables_ok_def empty_world_def one_unfinished_attempt_per_document_def demo_attempt_def)

lemma demo_submission_reuses:
  "get_or_create_from_upload demo_env demo_ver (sa_pk demo_account) demo_upload False (Some (limit_like_check demo_env limit))
     (\<lambda>v. v) demo_world = (Inr (demo_job, False), demo_world)"
  using reusable_attempt_unfinished [OF demo_latest demo_unfinished, of demo_ver False]
  by (simp add: get_or_create_from_upload_def demo_upload_def demo_account_def Let_def)

lemma demo_world_finds: "find_remediation ''r1'' demo_world = Some demo_job" "rid demo_job = ''r1''"
  by (simp_all add: find_remediation_def demo_world_def demo_attempt_def)

theorem new_subscriber_hears_witness:
  "\<exists>resp w' c. create_remediation_post (demo_net None) (\<lambda>_. ''t'') demo_env demo_ver demo_account demo_submission
     (\<lambda>v. v) (\<lambda>v. v) None demo_world = (Inr resp, w') \<and> c \<in> set (callbacks w') \<and> callback_url c = ''https://a.example/''"
proof -
  have "find_remediation (rid demo_job) ((\<lambda>v. v) demo_world) \<noteq> None" using demo_world_finds by simp
  from create_remediation_post_answers [where meanwhile = "\<lambda>v. v", OF demo_submission_valid demo_submission_reuses this]
  obtain resp w' where post: "create_remediation_post (demo_net None) (\<lambda>_. ''t'') demo_env demo_ver demo_account
      demo_submission (\<lambda>v. v) (\<lambda>v. v) None demo_world = (Inr resp, w')" by blast
  have "\<forall>c \<in> set (callbacks demo_world). callback_url c \<noteq> ''https://a.example/''"
    by (simp add: demo_world_def empty_world_def)
  from new_subscriber_hears [OF demo_world_tables_ok demo_submission_valid _ post this] post show ?thesis by auto
qed

text \<open>C30: a subscriber can be lost.  When the job of the attempt a submission answered with finishes before
  the callback is registered, the callback exists, the attempt is finished, and no notification for it is
  queued: the view decides by the status it read before.\<close>

theorem late_finish_loses_the_notification:
  assumes "tables_ok w" and "upload_is_valid net data = Inr (file, force, url)" and "url \<noteq> ''''" and "up_name file \<noteq> ''''"
    and "latest_for_document (sa_pk account) (hash_file file) w = Some r" and "unfinished r"
    and "\<forall>c \<in> set (callbacks w). callback_url c \<noteq> url"
    and "\<forall>cb n due. SendWebhookNotification cb n due \<in> set (queue w) \<longrightarrow> cb < next_pk w"
    and "create_remediation_post net show_time e ver account data (\<lambda>v. v)
           (\<lambda>v. snd (process_remediation ad e (rid r) v)) limit w = (Inr resp, w')"
  shows "\<exists>c r'. c \<in> set (callbacks w') \<and> callback_url c = url \<and> cb_remediation c = rid r \<and>
           find_remediation (rid r) w' = Some r' \<and> finished r' \<and>
           (\<forall>n due. SendWebhookNotification (cb_pk c) n due \<notin> set (queue w'))"
proof -
  let ?m = "\<lambda>v. snd (process_remediation ad e (rid r) v)"
  from create_remediation_post_parts [OF assms(9,2)] obtain r0 created w1 w2 r1 w3 claimed where
    g: "get_or_create_from_upload e ver (sa_pk account) file force (Some (limit_like_check e limit)) (\<lambda>v. v) w = (Inr (r0, created), w1)"
    and w2: "w2 = subscribe e r0 url (?m w1)" and w': "remediations w' = remediations w3" "callbacks w' = callbacks w3"
    and c: "claim_enqueue e r0 created w2 = ((claimed, r1), w3)"
    and q: "queue w' = queue w3 @ (if claimed then [ProcessRemediation (rid r0)] else [])" by metis
  have "get_or_create_from_upload e ver (sa_pk account) file force (Some (limit_like_check e limit)) (\<lambda>v. v) w = (Inr (r, False), w)"
    using reusable_attempt_unfinished [OF assms(5,6), of ver force] assms(4) by (simp add: get_or_create_from_upload_def Let_def)
  with g have same: "r0 = r" "w1 = w" by simp_all
  have found: "find_remediation (rid r) w = Some r"
    using latest_for_document_Some(1) [OF assms(5)] assms(1) by (intro find_remediation_unique) (simp_all add: tables_ok_def)
  note job = job_finishes [OF assms(1) found assms(6), of ad e] job_notifies [OF assms(1) found assms(6), of ad e]
    job_keeps_callbacks [OF assms(1) found assms(6), of ad e]
  have "\<forall>c \<in> set (callbacks (?m w)). \<not> (cb_remediation c = rid r \<and> callback_url c = url)" using job(3) assms(7) by simp
  note new = subscribe_new [OF assms(3) this, of e]
  let ?c = "\<lparr>cb_pk = next_pk w, cb_remediation = rid r, callback_url = url, cb_created_at = clock e (ticks (?m w))\<rparr>"
  have quiet: "status r \<notin> set FINISHED_STATUSES" using assms(6) finished_iff_not_unfinished [of r] by (simp add: finished_def)
  have "?c \<in> set (callbacks w')" using w'(2) claim_enqueue_keeps(2) [OF c] w2 new same job(3) by simp
  moreover obtain r' where "find_remediation (rid r) w2 = Some r'" "finished r'"
    using job(1) w2 same by (auto simp: find_remediation_def)
  with claim_enqueue_keeps(4) [OF c] obtain y where "find_remediation (rid r) w3 = Some y" "status y = status r'" by blast
  then have "find_remediation (rid r) w' = Some y" "finished y"
    using w'(1) find_remediation_cong [of w' w3] \<open>finished r'\<close> by (simp_all add: finished_def)
  moreover have "SendWebhookNotification (next_pk w) n due \<notin> set (queue w')" for n due
  proof -
    have "queue w3 = queue w @ map (\<lambda>c. SendWebhookNotification (cb_pk c) 1 None) (filter (\<lambda>c. cb_remediation c = rid r) (callbacks w))"
      using claim_enqueue_keeps(3) [OF c] w2 new same job(2) quiet by simp
    moreover have "\<forall>c \<in> set (callbacks w). cb_pk c < next_pk w" using assms(1) by (simp add: tables_ok_def)
    ultimately show ?thesis using q assms(8) by auto
  qed
  ultimately show ?thesis by (intro exI [of _ ?c] exI [of _ y]) simp
qed

theorem late_finish_loses_the_notification_witness:
  "\<exists>resp w' c r'. create_remediation_post (demo_net None) (\<lambda>_. ''t'') demo_env demo_ver demo_account demo_submission
     (\<lambda>v. v) (\<lambda>v. snd (process_remediation demo_adapters demo_env ''r1'' v)) None demo_world = (Inr resp, w') \<and>
     c \<in> set (callbacks w') \<and> find_remediation ''r1'' w' = Some r' \<and> finished r' \<and>
     (\<forall>n due. SendWebhookNotification (cb_pk c) n due \<notin> set (queue w'))"
proof -
  let ?m = "\<lambda>v. snd (process_remediation demo_adapters demo_env (rid demo_job) v)"
  have found: "find_remediation (rid demo_job) demo_world = Some demo_job" using demo_world_finds by simp
  have "find_remediation (rid demo_job) (?m demo_world) \<noteq> None"
    using job_finishes [OF demo_world_tables_ok found demo_unfinished, of demo_adapters demo_env] by auto
  from create_remediation_post_answers [where meanwhile = ?m, OF demo_submission_valid demo_submission_reuses this]
  obtain resp w' where post: "create_remediation_post (demo_net None) (\<lambda>_. ''t'') demo_env demo_ver demo_account
      demo_submission (\<lambda>v. v) ?m None demo_world = (Inr resp, w')" by blast
  have quiet: "\<forall>c \<in> set (callbacks demo_world). callback_url c \<noteq> ''https://a.example/''"
    "\<forall>cb n due. SendWebhookNotification cb n due \<in> set (queue demo_world) \<longrightarrow> cb < next_pk demo_world"
    by (simp_all add: demo_world_def empty_world_def)
  have latest: "latest_for_document (sa_pk demo_account) (hash_file demo_upload) demo_world = Some demo_job"
    using demo_latest by (simp add: demo_account_def)
  have name: "up_name demo_upload \<noteq> ''''" by (simp add: demo_upload_def)
  from late_finish_loses_the_notification [OF demo_world_tables_ok demo_submission_valid _ name latest demo_unfinished quiet post] post
  show ?thesis using demo_world_finds(2) by auto
qed

end
