(* ===== verification/Pdf_Objects.thy ===== *)
theory Pdf_Objects
  imports Remediation_Models "HOL-Library.AList"
begin

text \<open>
  The part of the PDF library's object model that the adapters use.  A document is a store:
  containers (dictionaries, arrays, streams) live at addresses, so that two entries that refer to
  the same container share it, as the library's objects do; every other value is immediate.  An
  indirect object has a positive object number, a direct one has number 0 (the library's documented
  \<open>objgen\<close>).  Reading an entry of something that is no dictionary or stream raises.
\<close>

section \<open>Values and containers\<close>

datatype val =
    VNull
  | VBool bool
  | VInt int
  | VName string
  | VStr string
  | VAt nat

datatype node =
    NDict "(string \<times> val) list"
  | NArray "val list"
  | NStream "(string \<times> val) list" bytes

record pdf =
  heap :: "nat \<rightharpoonup> node"
  object_number :: "nat \<Rightarrow> nat"
  root_at :: nat
  page_list :: "nat list"
  free_at :: nat
  free_number :: nat

section \<open>Reading\<close>

text \<open>\<open>isinstance(v, pikepdf.Dictionary)\<close> and \<open>isinstance(v, pikepdf.Array)\<close>, with what they hold.\<close>

definition dict_at :: "pdf \<Rightarrow> nat \<Rightarrow> (string \<times> val) list option" where
  "dict_at d a = (case heap d a of Some (NDict kvs) \<Rightarrow> Some kvs | _ \<Rightarrow> None)"

fun as_dict :: "pdf \<Rightarrow> val \<Rightarrow> nat option" where
  "as_dict d (VAt a) = (if dict_at d a = None then None else Some a)"
| "as_dict d v = None"

fun as_array :: "pdf \<Rightarrow> val \<Rightarrow> val list option" where
  "as_array d (VAt a) = (case heap d a of Some (NArray vs) \<Rightarrow> Some vs | _ \<Rightarrow> None)"
| "as_array d v = None"

text \<open>The entry of a dictionary; a null entry is no entry.\<close>

definition entry :: "(string \<times> val) list \<Rightarrow> string \<Rightarrow> val option" where
  "entry kvs k = (case map_of kvs k of Some VNull \<Rightarrow> None | r \<Rightarrow> r)"

text \<open>\<open>v.get(k)\<close>: raises on anything without entries.\<close>

fun get_entry :: "pdf \<Rightarrow> val \<Rightarrow> string \<Rightarrow> exn + val option" where
  "get_entry d (VAt a) k =
     (case heap d a of
        Some (NDict kvs) \<Rightarrow> Inr (entry kvs k)
      | Some (NStream kvs _) \<Rightarrow> Inr (entry kvs k)
      | _ \<Rightarrow> Inl (OtherException ''ValueError''))"
| "get_entry d v k = Inl (OtherException ''AttributeError'')"

text \<open>The same for an address known to hold a dictionary.\<close>

definition get_at :: "pdf \<Rightarrow> nat \<Rightarrow> string \<Rightarrow> val option" where
  "get_at d a k = (case dict_at d a of Some kvs \<Rightarrow> entry kvs k | None \<Rightarrow> None)"

text \<open>\<open>str(v)\<close>; the representation of a container is not looked into.\<close>

fun str_val :: "val \<Rightarrow> string" where
  "str_val VNull = ''None''"
| "str_val (VBool b) = (if b then ''True'' else ''False'')"
| "str_val (VInt i) = str_int i"
| "str_val (VName n) = n"
| "str_val (VStr s) = s"
| "str_val (VAt a) = ''<container>''"

text \<open>\<open>str(obj.get(k, ""))\<close> on a dictionary.\<close>

definition str_entry :: "pdf \<Rightarrow> nat \<Rightarrow> string \<Rightarrow> string" where
  "str_entry d a k = (case get_at d a k of None \<Rightarrow> '''' | Some v \<Rightarrow> str_val v)"

text \<open>\<open>bool(v)\<close>.\<close>

fun truthy :: "pdf \<Rightarrow> val \<Rightarrow> bool" where
  "truthy d VNull \<longleftrightarrow> False"
| "truthy d (VBool b) \<longleftrightarrow> b"
| "truthy d (VInt i) \<longleftrightarrow> i \<noteq> 0"
| "truthy d (VName n) \<longleftrightarrow> n \<noteq> ''''"
| "truthy d (VStr s) \<longleftrightarrow> s \<noteq> ''''"
| "truthy d (VAt a) \<longleftrightarrow>
     (case heap d a of Some (NDict kvs) \<Rightarrow> kvs \<noteq> [] | Some (NArray vs) \<Rightarrow> vs \<noteq> [] | Some (NStream _ b) \<Rightarrow> b \<noteq> [] | None \<Rightarrow> False)"

text \<open>\<open>str(v.get(k, ""))\<close>.\<close>

definition str_of_entry :: "pdf \<Rightarrow> val \<Rightarrow> string \<Rightarrow> exn + string" where
  "str_of_entry d v k = map_sum id (\<lambda>r. case r of None \<Rightarrow> '''' | Some x \<Rightarrow> str_val x) (get_entry d v k)"

text \<open>\<open>int(v)\<close>.\<close>

fun int_of_val :: "val \<Rightarrow> exn + int" where
  "int_of_val (VInt i) = Inr i"
| "int_of_val (VBool b) = Inr (if b then 1 else 0)"
| "int_of_val v = Inl (OtherException ''TypeError'')"

text \<open>\<open>v if isinstance(v, Dictionary) else pdf.get_object(v.objgen)\<close>: no object has number 0.\<close>

fun item_object :: "pdf \<Rightarrow> val \<Rightarrow> exn + val" where
  "item_object d (VAt a) =
     (if dict_at d a = None \<and> object_number d a = 0 then Inl (OtherException ''AttributeError'') else Inr (VAt a))"
| "item_object d v = Inl (OtherException ''AttributeError'')"

text \<open>
  The items a loop over \<open>v\<close> sees that can be used as keys of \<open>v\<close>, with their values: the entries of a
  dictionary or a stream; the items of an array cannot be.  A null entry is no entry.
\<close>

fun entries_of :: "pdf \<Rightarrow> val \<Rightarrow> exn + (string \<times> val) list" where
  "entries_of d (VAt a) =
     (case heap d a of
        Some (NDict kvs) \<Rightarrow> Inr (filter (\<lambda>(k, v). v \<noteq> VNull) kvs)
      | Some (NStream kvs _) \<Rightarrow> Inr (filter (\<lambda>(k, v). v \<noteq> VNull) kvs)
      | Some (NArray _) \<Rightarrow> Inr []
      | None \<Rightarrow> Inl (OtherException ''TypeError''))"
| "entries_of d v = Inl (OtherException ''TypeError'')"

text \<open>The containers a loop over \<open>v\<close> sees: the items of an array; the keys of a dictionary are texts.\<close>

fun items_of :: "pdf \<Rightarrow> val \<Rightarrow> exn + val list" where
  "items_of d (VAt a) =
     (case heap d a of
        Some (NArray vs) \<Rightarrow> Inr vs
      | Some _ \<Rightarrow> Inr []
      | None \<Rightarrow> Inl (OtherException ''TypeError''))"
| "items_of d v = Inl (OtherException ''TypeError'')"

text \<open>\<open>v.objgen[0]\<close>.\<close>

fun number_of :: "pdf \<Rightarrow> val \<Rightarrow> nat" where
  "number_of d (VAt a) = object_number d a"
| "number_of d v = 0"

text \<open>The kids of a structure element: an array's items, a single kid, or none.\<close>

definition kids_at :: "pdf \<Rightarrow> nat \<Rightarrow> val list" where
  "kids_at d a =
     (case get_at d a ''/K'' of
        None \<Rightarrow> []
      | Some v \<Rightarrow> (case as_array d v of Some vs \<Rightarrow> vs | None \<Rightarrow> [v]))"

section \<open>Writing\<close>

definition set_entry :: "nat \<Rightarrow> string \<Rightarrow> val \<Rightarrow> pdf \<Rightarrow> pdf" where
  "set_entry a k v d =
     (case heap d a of
        Some (NDict kvs) \<Rightarrow> d\<lparr>heap := (heap d)(a \<mapsto> NDict (AList.update k v kvs))\<rparr>
      | Some (NStream kvs b) \<Rightarrow> d\<lparr>heap := (heap d)(a \<mapsto> NStream (AList.update k v kvs) b)\<rparr>
      | _ \<Rightarrow> d)"

definition append_item :: "nat \<Rightarrow> val \<Rightarrow> pdf \<Rightarrow> pdf" where
  "append_item a v d =
     (case heap d a of Some (NArray vs) \<Rightarrow> d\<lparr>heap := (heap d)(a \<mapsto> NArray (vs @ [v]))\<rparr> | _ \<Rightarrow> d)"

text \<open>A new container, direct or (\<open>make_indirect\<close>) indirect.\<close>

definition new_direct :: "node \<Rightarrow> pdf \<Rightarrow> nat \<times> pdf" where
  "new_direct n d =
     (free_at d, d\<lparr>heap := (heap d)(free_at d \<mapsto> n), object_number := (object_number d)(free_at d := 0),
                   free_at := Suc (free_at d)\<rparr>)"

definition new_indirect :: "node \<Rightarrow> pdf \<Rightarrow> nat \<times> pdf" where
  "new_indirect n d =
     (free_at d, d\<lparr>heap := (heap d)(free_at d \<mapsto> n),
                   object_number := (object_number d)(free_at d := free_number d),
                   free_at := Suc (free_at d), free_number := Suc (free_number d)\<rparr>)"

section \<open>Well-formed stores\<close>

fun val_below :: "nat \<Rightarrow> val \<Rightarrow> bool" where
  "val_below n (VAt a) \<longleftrightarrow> a < n"
| "val_below n v \<longleftrightarrow> True"

fun node_below :: "nat \<Rightarrow> node \<Rightarrow> bool" where
  "node_below n (NDict kvs) \<longleftrightarrow> (\<forall>kv \<in> set kvs. val_below n (snd kv))"
| "node_below n (NArray vs) \<longleftrightarrow> (\<forall>v \<in> set vs. val_below n v)"
| "node_below n (NStream kvs b) \<longleftrightarrow> (\<forall>kv \<in> set kvs. val_below n (snd kv))"

text \<open>Addresses and numbers in use lie below the free ones; two containers never share a number.\<close>

definition pdf_ok :: "pdf \<Rightarrow> bool" where
  "pdf_ok d \<longleftrightarrow>
     (\<forall>a n. heap d a = Some n \<longrightarrow> a < free_at d \<and> node_below (free_at d) n) \<and>
     0 < free_number d \<and> (\<forall>a. object_number d a < free_number d) \<and>
     (\<forall>a b. object_number d a = object_number d b \<and> object_number d a \<noteq> 0 \<longrightarrow> a = b) \<and>
     root_at d < free_at d \<and> (\<forall>p \<in> set (page_list d). p < free_at d)"

section \<open>Lemmas\<close>

lemma map_sum_Inr: "map_sum id f m = Inr b \<longleftrightarrow> (\<exists>a. m = Inr a \<and> b = f a)"
  by (cases m) auto

lemma AList_update_below:
  "\<forall>kv \<in> set kvs. val_below n (snd kv) \<Longrightarrow> val_below n v \<Longrightarrow>
   kv \<in> set (AList.update k v kvs) \<Longrightarrow> val_below n (snd kv)"
  by (induction kvs) (auto split: if_splits)

lemma entry_update: "entry (AList.update k v kvs) j = (if j = k then (if v = VNull then None else Some v) else entry kvs j)"
  by (auto simp: entry_def AList.update_conv' split: val.split)

lemma get_at_set_entry:
  assumes "dict_at d a \<noteq> None" and "v \<noteq> VNull"
  shows "get_at (set_entry a k v d) b j = (if b = a \<and> j = k then Some v else get_at d b j)"
  using assms
  by (auto simp: get_at_def dict_at_def set_entry_def entry_update split: option.splits node.splits)

lemma dict_at_set_entry: "dict_at (set_entry a k v d) b = None \<longleftrightarrow> dict_at d b = None"
  by (auto simp: dict_at_def set_entry_def split: option.splits node.splits)

lemma as_dict_set_entry [simp]: "as_dict (set_entry a k v d) x = as_dict d x"
  by (cases x) (auto simp: dict_at_set_entry)

lemma as_array_set_entry [simp]: "as_array (set_entry a k v d) x = as_array d x"
  by (cases x) (auto simp: set_entry_def split: option.splits node.splits)

lemma set_entry_other [simp]:
  "object_number (set_entry a k v d) = object_number d" "root_at (set_entry a k v d) = root_at d"
  "page_list (set_entry a k v d) = page_list d" "free_at (set_entry a k v d) = free_at d"
  "free_number (set_entry a k v d) = free_number d"
  by (auto simp: set_entry_def split: option.splits node.splits)

text \<open>The writing operations keep a store well-formed.\<close>

lemma val_below_mono: "val_below n v \<Longrightarrow> n \<le> m \<Longrightarrow> val_below m v"
  by (cases v) auto

lemma node_below_mono: "node_below n x \<Longrightarrow> n \<le> m \<Longrightarrow> node_below m x"
  by (cases x) (auto intro: val_below_mono)

lemma heap_below: "pdf_ok d \<Longrightarrow> heap d a = Some n \<Longrightarrow> a < free_at d \<and> node_below (free_at d) n"
  by (simp add: pdf_ok_def)

lemma pdf_ok_alone: "pdf_ok d \<Longrightarrow> object_number d a = object_number d b \<Longrightarrow> object_number d a \<noteq> 0 \<Longrightarrow> a = b"
  unfolding pdf_ok_def by blast

lemma pdf_ok_numbers: "pdf_ok d \<Longrightarrow> 0 < free_number d \<and> object_number d a < free_number d"
  unfolding pdf_ok_def by blast

lemma pdf_okI:
  assumes "\<And>a n. heap d a = Some n \<Longrightarrow> a < free_at d \<and> node_below (free_at d) n"
    and "\<And>a. object_number d a < free_number d"
    and "\<And>a b. object_number d a = object_number d b \<Longrightarrow> object_number d a \<noteq> 0 \<Longrightarrow> a = b"
    and "root_at d < free_at d" and "\<And>p. p \<in> set (page_list d) \<Longrightarrow> p < free_at d"
  shows "pdf_ok d"
proof -
  have "0 < free_number d" using assms(2) [of 0] by simp
  with assms show ?thesis unfolding pdf_ok_def by blast
qed

lemma fst_new [simp]: "fst (new_direct n d) = free_at d" "fst (new_indirect n d) = free_at d"
  by (simp_all add: new_direct_def new_indirect_def)

lemma new_fields [simp]:
  "free_at (snd (new_direct n d)) = Suc (free_at d)" "free_at (snd (new_indirect n d)) = Suc (free_at d)"
  "heap (snd (new_direct n d)) = (heap d)(free_at d \<mapsto> n)" "heap (snd (new_indirect n d)) = (heap d)(free_at d \<mapsto> n)"
  "page_list (snd (new_direct n d)) = page_list d" "page_list (snd (new_indirect n d)) = page_list d"
  "root_at (snd (new_direct n d)) = root_at d" "root_at (snd (new_indirect n d)) = root_at d"
  "object_number (snd (new_direct n d)) = (object_number d)(free_at d := 0)"
  "object_number (snd (new_indirect n d)) = (object_number d)(free_at d := free_number d)"
  "free_number (snd (new_direct n d)) = free_number d" "free_number (snd (new_indirect n d)) = Suc (free_number d)"
  by (simp_all add: new_direct_def new_indirect_def)

lemma pdf_ok_new:
  assumes "pdf_ok d" and "node_below (Suc (free_at d)) n" and "m < f" and "free_number d \<le> f"
    and "m = 0 \<or> free_number d \<le> m"
  shows "pdf_ok (d\<lparr>heap := (heap d)(free_at d \<mapsto> n), object_number := (object_number d)(free_at d := m),
                   free_at := Suc (free_at d), free_number := f\<rparr>)"
proof -
  note numbers = pdf_ok_numbers [OF assms(1), THEN conjunct2]
  have alone: "a = b" if "((object_number d)(free_at d := m)) a = ((object_number d)(free_at d := m)) b"
    and "((object_number d)(free_at d := m)) a \<noteq> 0" for a b
    using that assms(5) numbers [of a] numbers [of b] pdf_ok_alone [OF assms(1), of a b] by (auto split: if_splits)
  have nodes: "a < Suc (free_at d) \<and> node_below (Suc (free_at d)) x" if "((heap d)(free_at d \<mapsto> n)) a = Some x" for a x
    using that assms(2) heap_below [OF assms(1), of a x] by (auto intro: node_below_mono split: if_splits)
  have "((object_number d)(free_at d := m)) a < f" for a
    using assms(3,4) numbers [of a] by simp
  moreover have "root_at d < Suc (free_at d)" "p \<in> set (page_list d) \<Longrightarrow> p < Suc (free_at d)" for p
    using assms(1) by (auto simp: pdf_ok_def less_SucI)
  moreover define d' where "d' = d\<lparr>heap := (heap d)(free_at d \<mapsto> n), object_number := (object_number d)(free_at d := m),
                   free_at := Suc (free_at d), free_number := f\<rparr>"
  moreover have "heap d' = (heap d)(free_at d \<mapsto> n)" "object_number d' = (object_number d)(free_at d := m)"
    "free_at d' = Suc (free_at d)" "free_number d' = f" "root_at d' = root_at d" "page_list d' = page_list d"
    by (simp_all add: d'_def)
  ultimately have "pdf_ok d'" using nodes alone by (intro pdf_okI) (simp_all only:)
  then show ?thesis by (simp only: d'_def)
qed

lemma new_direct_ok: "pdf_ok d \<Longrightarrow> node_below (Suc (free_at d)) n \<Longrightarrow> pdf_ok (snd (new_direct n d))"
  using pdf_ok_new [of d n 0 "free_number d"] pdf_ok_numbers [of d] by (simp add: new_direct_def)

lemma new_indirect_ok: "pdf_ok d \<Longrightarrow> node_below (Suc (free_at d)) n \<Longrightarrow> pdf_ok (snd (new_indirect n d))"
  using pdf_ok_new [of d n "free_number d" "Suc (free_number d)"] by (simp add: new_indirect_def)

lemma set_entry_ok: "pdf_ok d \<Longrightarrow> val_below (free_at d) v \<Longrightarrow> pdf_ok (set_entry a k v d)"
proof -
  assume ok: "pdf_ok d" and v: "val_below (free_at d) v"
  have "node_below (free_at d) (NDict (AList.update k v kvs))" if "heap d a = Some (NDict kvs)" for kvs
    using heap_below [OF ok that] v by (auto dest: AList_update_below)
  moreover have "node_below (free_at d) (NStream (AList.update k v kvs) b)" if "heap d a = Some (NStream kvs b)" for kvs b
    using heap_below [OF ok that] v by (auto dest: AList_update_below)
  ultimately have "heap (set_entry a k v d) b = Some n \<Longrightarrow> b < free_at d \<and> node_below (free_at d) n" for b n
    using heap_below [OF ok] by (auto simp: set_entry_def simp del: node_below.simps split: option.splits node.splits if_splits)
  with pdf_ok_alone [OF ok] show ?thesis
    using ok by (intro pdf_okI) (simp_all add: pdf_ok_def)
qed

lemma append_item_fields [simp]:
  "object_number (append_item a v d) = object_number d" "root_at (append_item a v d) = root_at d"
  "page_list (append_item a v d) = page_list d" "free_at (append_item a v d) = free_at d"
  "free_number (append_item a v d) = free_number d"
  by (auto simp: append_item_def split: option.splits node.splits)

lemma append_item_ok: "pdf_ok d \<Longrightarrow> val_below (free_at d) v \<Longrightarrow> pdf_ok (append_item a v d)"
proof -
  assume ok: "pdf_ok d" and v: "val_below (free_at d) v"
  have "heap (append_item a v d) b = Some n \<Longrightarrow> b < free_at d \<and> node_below (free_at d) n" for b n
    using ok v by (force simp: pdf_ok_def append_item_def split: option.splits node.splits if_splits)
  with pdf_ok_alone [OF ok] show ?thesis
    using ok by (intro pdf_okI) (simp_all add: pdf_ok_def)
qed

end
