(* ===== verification/Unicode_Text.thy ===== *)
theory Unicode_Text
  imports Dice_Prelude
begin

text \<open>
  Text as the adapters read it from a document: a list of code points, with the tables of the Unicode
  database that the code relies on as parameters.
\<close>

type_synonym utext = "int list"

record unicode =
  nfkc :: "utext \<Rightarrow> utext"
  is_decimal :: "int \<Rightarrow> bool"

text \<open>\<open>str.isspace\<close>, which \<open>split()\<close>, \<open>strip()\<close> and \<open>\s\<close> go by.\<close>

definition white_space :: "int \<Rightarrow> bool" where
  "white_space c \<longleftrightarrow> 9 \<le> c \<and> c \<le> 13 \<or> 28 \<le> c \<and> c \<le> 32 \<or> c \<in> {133, 160, 5760, 8232, 8233, 8239, 8287, 12288} \<or>
     8192 \<le> c \<and> c \<le> 8202"

definition strip_space :: "utext \<Rightarrow> utext" where
  "strip_space t = rev (dropWhile white_space (rev (dropWhile white_space t)))"

definition capital :: "int \<Rightarrow> bool" where
  "capital c \<longleftrightarrow> 65 \<le> c \<and> c \<le> 90"

end
