(* ===== verification/Font_Repair.thy ===== *)
theory Font_Repair
  imports Pdf_Objects Unicode_Text Complex_Main
begin

unbundle bit_operations_syntax

text \<open>
  \<^verbatim>\<open>remediation/adapters/font_repair/pike_pdf.py\<close>: guessing the constant offset between a
  font's codes and Unicode, the CMap that records it, the codes shown on a page, and the complete
  CIDSet of an embedded font.  Text is a list of code points.  Ratios of counts are exact fractions
  (the quotients of counts far below \<open>2 ^ 26\<close> that the code computes as floats compare the same way).
  The content stream parser and the font file parser are parameters.
\<close>

section \<open>Reading text\<close>

definition COMMON_WORDS :: "string list" where
  "COMMON_WORDS = [
    ''the'', ''of'', ''and'', ''to'', ''in'', ''a'', ''is'', ''that'', ''for'', ''on'', ''with'', ''as'',
    ''this'', ''by'', ''be'', ''or'', ''at'', ''from'', ''an'', ''are'', ''it'', ''was'', ''will'', ''shall'',
    ''not'', ''department'', ''board'', ''county'', ''employee'', ''employees'', ''plan'', ''date'', ''name'',
    ''title'', ''form'', ''please'', ''action'', ''if'', ''any'', ''all'', ''may'', ''must'', ''should'',
    ''request'', ''requested'', ''description'', ''background'', ''funding'', ''source'', ''amount'', ''purpose'',
    ''prepared'', ''subject'', ''specific'', ''meeting'', ''proposed'', ''budget'', ''number'', ''street'',
    ''city'', ''state'', ''zip'', ''phone'', ''email'', ''office'', ''administrator'', ''commissioner'',
    ''director'', ''manager'', ''staff'', ''public'', ''agenda'', ''item'', ''resolution'', ''motion'',
    ''approve'', ''approved'', ''denied'', ''vote'', ''yes'', ''no'', ''signature'', ''print'', ''effective'',
    ''january'', ''february'', ''march'', ''april'', ''june'', ''july'', ''august'', ''september'', ''october'',
    ''november'', ''december'', ''monday'', ''tuesday'', ''wednesday'', ''thursday'', ''friday'', ''saturday'',
    ''sunday'', ''page'', ''attachment'', ''exhibit'', ''section'', ''article'', ''division'', ''fund'',
    ''account'', ''general'', ''information'', ''contact'', ''address'', ''telephone'', ''fax'', ''website'',
    ''michigan'', ''sheriff'', ''clerk'', ''treasurer'', ''prosecutor'', ''court'', ''dispatch'', ''department'',
    ''program'', ''services'', ''employer'', ''contribution'', ''benefit'', ''compensation'', ''adoption'',
    ''agreement'', ''committee'', ''resolution'', ''ordinance'', ''permit'', ''application'']"

definition MIN_PRINTABLE_RATIO :: rat where "MIN_PRINTABLE_RATIO = 95 / 100"
definition MIN_WORD_HIT_RATIO :: rat where "MIN_WORD_HIT_RATIO = 2 / 10"
definition MIN_USED_CODES :: nat where "MIN_USED_CODES = 8"

definition printable :: "int \<Rightarrow> bool" where
  "printable c \<longleftrightarrow> 32 \<le> c \<and> c \<le> 126 \<or> c = 10 \<or> c = 13 \<or> c = 9"

definition printable_ratio :: "utext \<Rightarrow> rat" where
  "printable_ratio t =
     (if t = [] then 0 else of_nat (length (filter printable t)) / of_nat (length t))"

definition is_letter :: "int \<Rightarrow> bool" where
  "is_letter c \<longleftrightarrow> 65 \<le> c \<and> c \<le> 90 \<or> 97 \<le> c \<and> c \<le> 122"

text \<open>\<open>re.findall(r"[A-Za-z]{2,}", text)\<close>: the maximal runs of letters, two or more long.\<close>

function letter_runs :: "utext \<Rightarrow> utext list" where
  "letter_runs [] = []"
| "letter_runs (c # cs) =
     (if is_letter c then (c # takeWhile is_letter cs) # letter_runs (dropWhile is_letter cs)
      else letter_runs cs)"
  by pat_completeness auto
termination by (relation "measure length") (auto simp: le_imp_less_Suc length_dropWhile_le)

definition find_words :: "utext \<Rightarrow> utext list" where
  "find_words t = filter (\<lambda>w. 2 \<le> length w) (letter_runs t)"

text \<open>\<open>w.lower() in _COMMON_WORDS\<close> for a word of ASCII letters.\<close>

definition lower_code :: "int \<Rightarrow> int" where
  "lower_code c = (if 65 \<le> c \<and> c \<le> 90 then c + 32 else c)"

definition common_word :: "utext \<Rightarrow> bool" where
  "common_word w \<longleftrightarrow> map lower_code w \<in> set (map (map (\<lambda>ch. int (of_char ch))) COMMON_WORDS)"

definition word_hit_ratio :: "utext \<Rightarrow> rat" where
  "word_hit_ratio t =
     (let ws = find_words t
      in if ws = [] then 0 else of_nat (length (filter common_word ws)) / of_nat (length ws))"

section \<open>The offset\<close>

text \<open>The codes in the order shown; \<open>None\<close> is the boundary after a show operation.\<close>

type_synonym codes = "nat option list"

definition used_codes :: "codes \<Rightarrow> nat list" where
  "used_codes seq = List.map_filter (\<lambda>c. c) seq"

text \<open>\<open>chr\<close> of every shifted code, or the \<open>ValueError\<close>.\<close>

definition shifted :: "codes \<Rightarrow> int \<Rightarrow> utext option" where
  "shifted seq off =
     (if \<forall>c \<in> set (used_codes seq). 0 \<le> int c + off \<and> int c + off \<le> 1114111
      then Some (map (\<lambda>c. case c of None \<Rightarrow> 32 | Some n \<Rightarrow> int n + off) seq) else None)"

text \<open>The body of the loop for one offset: its score, unless the offset is passed over.\<close>

definition offset_score :: "codes \<Rightarrow> int \<Rightarrow> rat option" where
  "offset_score seq off =
     (if off = 0 then None
      else case shifted seq off of
             None \<Rightarrow> None
           | Some candidate \<Rightarrow>
               if printable_ratio candidate < MIN_PRINTABLE_RATIO then None
               else Some (word_hit_ratio candidate))"

fun offset_loop :: "codes \<Rightarrow> int list \<Rightarrow> int option \<Rightarrow> rat \<Rightarrow> int option \<times> rat" where
  "offset_loop seq [] best_offset best_score = (best_offset, best_score)"
| "offset_loop seq (off # offs) best_offset best_score =
     (case offset_score seq off of
        None \<Rightarrow> offset_loop seq offs best_offset best_score
      | Some score \<Rightarrow>
          if best_score < score then offset_loop seq offs (Some off) score
          else offset_loop seq offs best_offset best_score)"

text \<open>\<open>range(-255, 256)\<close>.\<close>

definition OFFSETS :: "int list" where "OFFSETS = [-255..255]"

definition best_offset :: "codes \<Rightarrow> int option" where
  "best_offset seq =
     (if length (used_codes seq) < MIN_USED_CODES then None
      else let (best, score) = offset_loop seq OFFSETS None 0
           in if score < MIN_WORD_HIT_RATIO then None else best)"

section \<open>The CMap\<close>

definition hex_digit_upper :: "nat \<Rightarrow> char" where
  "hex_digit_upper n = (if n < 10 then char_of (48 + n) else char_of (55 + n))"

fun hex_upper :: "nat \<Rightarrow> string" where
  "hex_upper n = (if n < 16 then [hex_digit_upper n] else hex_upper (n div 16) @ [hex_digit_upper (n mod 16)])"

text \<open>The format \<open>:04X\<close>.\<close>

definition hex04 :: "nat \<Rightarrow> string" where
  "hex04 n = (let s = hex_upper n in replicate (4 - length s) CHR ''0'' @ s)"

definition valid_codes :: "int \<Rightarrow> nat list \<Rightarrow> nat list" where
  "valid_codes off chunk = filter (\<lambda>c. 0 \<le> int c + off \<and> int c + off \<le> 65535) chunk"

definition bfchar_line :: "int \<Rightarrow> nat \<Rightarrow> string" where
  "bfchar_line off code = ''<'' @ hex04 code @ ''> <'' @ hex04 (nat (int code + off)) @ ''>''"

fun chunks_of_100 :: "'a list \<Rightarrow> 'a list list" where
  "chunks_of_100 xs = (if xs = [] then [] else take 100 xs # chunks_of_100 (drop 100 xs))"

declare chunks_of_100.simps [simp del]

lemma chunks_of_100_Nil [simp]: "chunks_of_100 [] = []"
  by (subst chunks_of_100.simps) simp

definition bfchar_block :: "int \<Rightarrow> nat list \<Rightarrow> string list" where
  "bfchar_block off chunk =
     (let valid = valid_codes off chunk
      in if valid = [] then []
         else [str_nat (length valid) @ '' beginbfchar''] @ map (bfchar_line off) valid @ [''endbfchar''])"

definition cmap_header :: "string list" where
  "cmap_header = [
    ''/CIDInit /ProcSet findresource begin'', ''12 dict begin'', ''begincmap'',
    ''/CIDSystemInfo << /Registry (Adobe) /Ordering (UCS) /Supplement 0 >> def'',
    ''/CMapName /Adobe-Identity-UCS def'', ''/CMapType 2 def'', ''1 begincodespacerange'',
    ''<0000> <FFFF>'', ''endcodespacerange'']"

definition cmap_footer :: "string list" where
  "cmap_footer = [''endcmap'', ''CMapName currentdict /CMap defineresource pop'', ''end'', ''end'', '''']"

definition cmap_lines :: "nat list \<Rightarrow> int \<Rightarrow> string list" where
  "cmap_lines codes off = cmap_header @ concat (map (bfchar_block off) (chunks_of_100 (sort codes))) @ cmap_footer"

definition ascii_bytes :: "string \<Rightarrow> bytes" where
  "ascii_bytes s = map (\<lambda>c. of_nat (of_char c)) s"

definition build_tounicode_cmap :: "nat list \<Rightarrow> int \<Rightarrow> bytes" where
  "build_tounicode_cmap codes off = ascii_bytes (join ''\<newline>'' (cmap_lines codes off))"

section \<open>The codes on a page\<close>

datatype operand = OpName string | OpString bytes | OpNumber | OpArray "operand list"

datatype token = Instruction "operand list" string | InlineImage

fun collect_codes :: "bytes \<Rightarrow> nat list" where
  "collect_codes (a # b # raw) = unat (push_bit 8 (ucast a :: 16 word) OR ucast b) # collect_codes raw"
| "collect_codes _ = []"

type_synonym sequences = "(string \<times> codes) list"

definition show_codes :: "string \<Rightarrow> nat list \<Rightarrow> sequences \<Rightarrow> sequences" where
  "show_codes font cs seqs = map (\<lambda>(n, s). (n, if n = font then s @ map Some cs else s)) seqs"

definition show_boundary :: "string \<Rightarrow> sequences \<Rightarrow> sequences" where
  "show_boundary font seqs = map (\<lambda>(n, s). (n, if n = font then s @ [None] else s)) seqs"

text \<open>\<open>str\<close> of the first operand of \<open>Tf\<close>; only a name can be a font's resource name.\<close>

fun operand_str :: "operand \<Rightarrow> string" where
  "operand_str (OpName n) = n"
| "operand_str _ = ''''"

fun string_elements :: "operand list \<Rightarrow> bytes list" where
  "string_elements [] = []"
| "string_elements (OpString b # es) = b # string_elements es"
| "string_elements (_ # es) = string_elements es"

text \<open>The loop over the tokens; \<open>None\<close> where an operand of the wrong type raises.\<close>

fun scan_tokens :: "string option \<Rightarrow> sequences \<Rightarrow> token list \<Rightarrow> sequences option" where
  "scan_tokens cur seqs [] = Some seqs"
| "scan_tokens cur seqs (InlineImage # ts) = scan_tokens cur seqs ts"
| "scan_tokens cur seqs (Instruction operands op # ts) =
     (let in_candidates = (case cur of None \<Rightarrow> False | Some n \<Rightarrow> n \<in> fst ` set seqs)
      in if op = ''Tf'' \<and> operands \<noteq> [] then scan_tokens (Some (operand_str (hd operands))) seqs ts
         else if op \<in> {''Tj'', [CHR 0x27], [CHR 0x22]} \<and> in_candidates \<and> operands \<noteq> []
         then (case last operands of
                 OpString b \<Rightarrow> scan_tokens cur (show_boundary (the cur) (show_codes (the cur) (collect_codes b) seqs)) ts
               | _ \<Rightarrow> None)
         else if op = ''TJ'' \<and> in_candidates \<and> operands \<noteq> []
         then (case hd operands of
                 OpArray es \<Rightarrow>
                   scan_tokens cur (show_boundary (the cur)
                     (fold (\<lambda>b. show_codes (the cur) (collect_codes b)) (string_elements es) seqs)) ts
               | _ \<Rightarrow> None)
         else scan_tokens cur seqs ts)"

section \<open>Repairing the fonts of a page\<close>

definition first_descendant :: "pdf \<Rightarrow> val \<Rightarrow> exn + val option" where
  "first_descendant d font =
     (case get_entry d font ''/DescendantFonts'' of
        Inl x \<Rightarrow> Inl x
      | Inr None \<Rightarrow> Inr None
      | Inr (Some v) \<Rightarrow>
          if \<not> truthy d v then Inr None
          else case as_array d v of
                 Some (x # _) \<Rightarrow> Inr (Some x)
               | _ \<Rightarrow> Inl (OtherException ''TypeError''))"

definition is_candidate :: "pdf \<Rightarrow> val \<Rightarrow> exn + bool" where
  "is_candidate d font =
     (case str_of_entry d font ''/Subtype'' of
        Inl x \<Rightarrow> Inl x
      | Inr subtype \<Rightarrow>
          if subtype \<noteq> ''/Type0'' then Inr False
          else case (get_entry d font ''/ToUnicode'', str_of_entry d font ''/Encoding'') of
                 (Inl x, _) \<Rightarrow> Inl x
               | (Inr (Some _), _) \<Rightarrow> Inr False
               | (Inr None, Inl x) \<Rightarrow> Inl x
               | (Inr None, Inr encoding) \<Rightarrow>
                   if encoding \<notin> {''/Identity-H'', ''/Identity-V''} then Inr False
                   else case first_descendant d font of
                          Inl x \<Rightarrow> Inl x
                        | Inr None \<Rightarrow> Inr False
                        | Inr (Some desc) \<Rightarrow>
                            map_sum id (\<lambda>s. s \<in> {''/CIDFontType0'', ''/CIDFontType2''}) (str_of_entry d desc ''/Subtype''))"

text \<open>The fonts of a page's resources, or none; anything but a dictionary raises.\<close>

definition page_fonts :: "pdf \<Rightarrow> nat \<Rightarrow> exn + (string \<times> val) list" where
  "page_fonts d page =
     (case get_entry d (VAt page) ''/Resources'' of
        Inl x \<Rightarrow> Inl x
      | Inr None \<Rightarrow> Inr []
      | Inr (Some resources) \<Rightarrow>
          (case get_entry d resources ''/Font'' of
             Inl x \<Rightarrow> Inl x
           | Inr None \<Rightarrow> Inr []
           | Inr (Some (VAt a)) \<Rightarrow>
               (case dict_at d a of Some kvs \<Rightarrow> Inr kvs | None \<Rightarrow> Inl (OtherException ''TypeError''))
           | Inr (Some _) \<Rightarrow> Inl (OtherException ''TypeError'')))"

fun candidates_of :: "pdf \<Rightarrow> (string \<times> val) list \<Rightarrow> exn + (string \<times> val) list" where
  "candidates_of d [] = Inr []"
| "candidates_of d ((n, font) # fs) =
     (case is_candidate d font of
        Inl x \<Rightarrow> Inl x
      | Inr b \<Rightarrow> map_sum id (\<lambda>rest. if b then (n, font) # rest else rest) (candidates_of d fs))"

definition attach_tounicode :: "val \<Rightarrow> nat list \<Rightarrow> int \<Rightarrow> pdf \<Rightarrow> pdf" where
  "attach_tounicode font codes off d =
     (case font of
        VAt a \<Rightarrow> (let (s, d1) = new_indirect (NStream [] (build_tounicode_cmap (sort codes) off)) d
                  in set_entry a ''/ToUnicode'' (VAt s) d1)
      | _ \<Rightarrow> d)"

fun repair_sequences :: "(string \<times> val) list \<Rightarrow> sequences \<Rightarrow> pdf \<Rightarrow> pdf" where
  "repair_sequences candidates [] d = d"
| "repair_sequences candidates ((n, seq) # seqs) d =
     (let used = remdups (used_codes seq)
      in repair_sequences candidates seqs
           (if used = [] then d
            else case best_offset seq of
                   None \<Rightarrow> d
                 | Some off \<Rightarrow> attach_tounicode (the (map_of candidates n)) used off d))"

definition repair_page_fonts :: "(pdf \<Rightarrow> nat \<Rightarrow> token list option) \<Rightarrow> nat \<Rightarrow> pdf \<Rightarrow> exn + pdf" where
  "repair_page_fonts parse page d =
     (case page_fonts d page of
        Inl x \<Rightarrow> Inl x
      | Inr fonts \<Rightarrow>
          (case candidates_of d fonts of
             Inl x \<Rightarrow> Inl x
           | Inr candidates \<Rightarrow>
               if candidates = [] then Inr d
               else case parse d page of
                      None \<Rightarrow> Inr d
                    | Some tokens \<Rightarrow>
                        (case scan_tokens None (map (\<lambda>(n, _). (n, [])) candidates) tokens of
                           None \<Rightarrow> Inl (OtherException ''TypeError'')
                         | Some seqs \<Rightarrow> Inr (repair_sequences candidates seqs d))))"

section \<open>CIDSets\<close>

definition cidset_bit :: "bytes \<Rightarrow> nat \<Rightarrow> bool" where
  "cidset_bit bs cid = (drop_bit (7 - cid mod 8) (bs ! (cid div 8)) AND 1 \<noteq> 0)"

definition cidset_covers_all_glyphs :: "bytes \<Rightarrow> nat \<Rightarrow> bool" where
  "cidset_covers_all_glyphs bs num_glyphs =
     (if length bs * 8 < num_glyphs then False else list_all (cidset_bit bs) [0 ..< num_glyphs])"

definition mark_cid :: "nat \<Rightarrow> bytes \<Rightarrow> bytes" where
  "mark_cid cid bs = bs[cid div 8 := bs ! (cid div 8) OR push_bit (7 - cid mod 8) 1]"

definition build_full_cidset :: "nat \<Rightarrow> bytes" where
  "build_full_cidset num_glyphs = fold mark_cid [0 ..< num_glyphs] (replicate ((num_glyphs + 7) div 8) 0)"

definition read_bytes :: "pdf \<Rightarrow> val \<Rightarrow> exn + bytes" where
  "read_bytes d v =
     (case v of VAt a \<Rightarrow> (case heap d a of Some (NStream _ b) \<Rightarrow> Inr b | _ \<Rightarrow> Inl (OtherException ''TypeError''))
      | _ \<Rightarrow> Inl (OtherException ''TypeError''))"

definition repair_cidset :: "(bytes \<Rightarrow> nat option) \<Rightarrow> val \<Rightarrow> pdf \<Rightarrow> exn + pdf" where
  "repair_cidset count_glyphs descriptor d =
     (case get_entry d descriptor ''/CIDSet'' of
        Inl x \<Rightarrow> Inl x
      | Inr None \<Rightarrow> Inr d
      | Inr (Some cidset) \<Rightarrow>
          (case get_entry d descriptor ''/FontFile2'' of
             Inl x \<Rightarrow> Inl x
           | Inr None \<Rightarrow> Inr d
           | Inr (Some font_file) \<Rightarrow>
               (case read_bytes d font_file of
                  Inl x \<Rightarrow> Inl x
                | Inr font_data \<Rightarrow>
                    (case count_glyphs font_data of
                       None \<Rightarrow> Inr d
                     | Some num_glyphs \<Rightarrow>
                         (case read_bytes d cidset of
                            Inl x \<Rightarrow> Inl x
                          | Inr current \<Rightarrow>
                              if cidset_covers_all_glyphs current num_glyphs then Inr d
                              else case descriptor of
                                     VAt a \<Rightarrow>
                                       (let (s, d1) = new_indirect (NStream [] (build_full_cidset num_glyphs)) d
                                        in Inr (set_entry a ''/CIDSet'' (VAt s) d1))
                                   | _ \<Rightarrow> Inr d)))))"

text \<open>One font of a page: the descriptor of its first descendant, unless seen before.\<close>

definition repair_font_cidset ::
    "(bytes \<Rightarrow> nat option) \<Rightarrow> val \<Rightarrow> nat set \<times> pdf \<Rightarrow> exn + nat set \<times> pdf" where
  "repair_font_cidset count_glyphs font sd =
     (case sd of (seen, d) \<Rightarrow>
       (case str_of_entry d font ''/Subtype'' of
          Inl x \<Rightarrow> Inl x
        | Inr subtype \<Rightarrow>
            if subtype \<noteq> ''/Type0'' then Inr (seen, d)
            else case first_descendant d font of
                   Inl x \<Rightarrow> Inl x
                 | Inr None \<Rightarrow> Inr (seen, d)
                 | Inr (Some desc) \<Rightarrow>
                     (case get_entry d desc ''/FontDescriptor'' of
                        Inl x \<Rightarrow> Inl x
                      | Inr None \<Rightarrow> Inr (seen, d)
                      | Inr (Some descriptor) \<Rightarrow>
                          (let i = number_of d descriptor
                           in if i \<in> seen then Inr (seen, d)
                              else map_sum id (\<lambda>d1. (insert i seen, d1)) (repair_cidset count_glyphs descriptor d)))))"

fun repair_fonts_cidsets ::
    "(bytes \<Rightarrow> nat option) \<Rightarrow> (string \<times> val) list \<Rightarrow> nat set \<times> pdf \<Rightarrow> exn + nat set \<times> pdf" where
  "repair_fonts_cidsets count_glyphs [] sd = Inr sd"
| "repair_fonts_cidsets count_glyphs ((_, font) # fs) sd =
     (case repair_font_cidset count_glyphs font sd of
        Inl x \<Rightarrow> Inl x
      | Inr sd1 \<Rightarrow> repair_fonts_cidsets count_glyphs fs sd1)"

fun repair_cidsets ::
    "(bytes \<Rightarrow> nat option) \<Rightarrow> nat list \<Rightarrow> nat set \<times> pdf \<Rightarrow> exn + nat set \<times> pdf" where
  "repair_cidsets count_glyphs [] sd = Inr sd"
| "repair_cidsets count_glyphs (p # ps) sd =
     (case page_fonts (snd sd) p of
        Inl x \<Rightarrow> Inl x
      | Inr fonts \<Rightarrow>
          (case repair_fonts_cidsets count_glyphs fonts sd of
             Inl x \<Rightarrow> Inl x
           | Inr sd1 \<Rightarrow> repair_cidsets count_glyphs ps sd1))"

fun repair_pages :: "(pdf \<Rightarrow> nat \<Rightarrow> token list option) \<Rightarrow> nat list \<Rightarrow> pdf \<Rightarrow> exn + pdf" where
  "repair_pages parse [] d = Inr d"
| "repair_pages parse (p # ps) d =
     (case repair_page_fonts parse p d of Inl x \<Rightarrow> Inl x | Inr d1 \<Rightarrow> repair_pages parse ps d1)"

text \<open>\<open>repair\<close>, between opening and saving the file: any exception becomes an \<open>AdapterError\<close>.\<close>

definition repair_fonts ::
    "(pdf \<Rightarrow> nat \<Rightarrow> token list option) \<Rightarrow> (bytes \<Rightarrow> nat option) \<Rightarrow> pdf \<Rightarrow> exn + pdf" where
  "repair_fonts parse count_glyphs d =
     (let failed = (\<lambda>x. Inl (AdapterError (''pikepdf failed to repair fonts: '' @ exn_str x)))
      in case repair_pages parse (page_list d) d of
           Inl x \<Rightarrow> failed x
         | Inr d1 \<Rightarrow>
             (case repair_cidsets count_glyphs (page_list d1) ({}, d1) of
                Inl x \<Rightarrow> failed x
              | Inr (_, d2) \<Rightarrow> Inr d2))"

section \<open>The offset is the best one\<close>

lemma offset_loop_result:
  "offset_loop seq offs bo bs = (b, s) \<Longrightarrow>
   bs \<le> s \<and> (\<forall>off \<in> set offs. \<forall>t. offset_score seq off = Some t \<longrightarrow> t \<le> s) \<and>
   (b = bo \<and> s = bs \<or>
    (\<exists>xs off ys. offs = xs @ off # ys \<and> b = Some off \<and> offset_score seq off = Some s \<and> bs < s \<and>
       (\<forall>j \<in> set xs. \<forall>t. offset_score seq j = Some t \<longrightarrow> t < s)))"
proof (induction offs arbitrary: bo bs)
  case Nil
  then show ?case by simp
next
  case (Cons off offs)
  show ?case
  proof (cases "\<exists>score. offset_score seq off = Some score \<and> bs < score")
    case True
    then obtain score where sc: "offset_score seq off = Some score" "bs < score" by blast
    with Cons.prems have "offset_loop seq offs (Some off) score = (b, s)" by simp
    from Cons.IH [OF this] have ih: "score \<le> s" "\<forall>j \<in> set offs. \<forall>t. offset_score seq j = Some t \<longrightarrow> t \<le> s"
      "b = Some off \<and> s = score \<or> (\<exists>xs k ys. offs = xs @ k # ys \<and> b = Some k \<and> offset_score seq k = Some s \<and> score < s \<and>
         (\<forall>j \<in> set xs. \<forall>t. offset_score seq j = Some t \<longrightarrow> t < s))" by blast+
    from ih(3) show ?thesis
    proof
      assume "b = Some off \<and> s = score"
      then show ?thesis using ih(2) sc by (intro conjI disjI2 exI [of _ "[]"]) auto
    next
      assume "\<exists>xs k ys. offs = xs @ k # ys \<and> b = Some k \<and> offset_score seq k = Some s \<and> score < s \<and>
         (\<forall>j \<in> set xs. \<forall>t. offset_score seq j = Some t \<longrightarrow> t < s)"
      then obtain xs k ys where "offs = xs @ k # ys" "b = Some k" "offset_score seq k = Some s" "score < s"
        "\<forall>j \<in> set xs. \<forall>t. offset_score seq j = Some t \<longrightarrow> t < s" by blast
      then show ?thesis using ih(2) sc by (intro conjI disjI2 exI [of _ "off # xs"]) auto
    qed
  next
    case False
    then have low: "offset_score seq off = Some t \<Longrightarrow> t \<le> bs" for t by force
    have "offset_loop seq offs bo bs = (b, s)" using Cons.prems False by (auto split: option.splits if_splits)
    from Cons.IH [OF this] have ih: "bs \<le> s" "\<forall>j \<in> set offs. \<forall>t. offset_score seq j = Some t \<longrightarrow> t \<le> s"
      "b = bo \<and> s = bs \<or> (\<exists>xs k ys. offs = xs @ k # ys \<and> b = Some k \<and> offset_score seq k = Some s \<and> bs < s \<and>
         (\<forall>j \<in> set xs. \<forall>t. offset_score seq j = Some t \<longrightarrow> t < s))" by blast+
    have le: "\<forall>j \<in> set (off # offs). \<forall>t. offset_score seq j = Some t \<longrightarrow> t \<le> s" using ih(1,2) low by fastforce
    from ih(3) show ?thesis
    proof
      assume "b = bo \<and> s = bs"
      then show ?thesis using le ih(1) by blast
    next
      assume "\<exists>xs k ys. offs = xs @ k # ys \<and> b = Some k \<and> offset_score seq k = Some s \<and> bs < s \<and>
         (\<forall>j \<in> set xs. \<forall>t. offset_score seq j = Some t \<longrightarrow> t < s)"
      then obtain xs k ys where "offs = xs @ k # ys" "b = Some k" "offset_score seq k = Some s" "bs < s"
        "\<forall>j \<in> set xs. \<forall>t. offset_score seq j = Some t \<longrightarrow> t < s" by blast
      moreover have "\<forall>j \<in> set (off # xs). \<forall>t. offset_score seq j = Some t \<longrightarrow> t < s"
        using calculation(4,5) low by fastforce
      ultimately show ?thesis using le ih(1) by (intro conjI disjI2 exI [of _ "off # xs"]) auto
    qed
  qed
qed

lemma OFFSETS_facts: "set OFFSETS = {-255..255}" "sorted OFFSETS"
  by (simp_all only: OFFSETS_def set_upto sorted_upto)

lemma best_offset_iff:
  "best_offset seq = Some off \<longleftrightarrow>
   MIN_USED_CODES \<le> length (used_codes seq) \<and> off \<in> {-255..255} \<and>
   (\<exists>s. offset_score seq off = Some s \<and> MIN_WORD_HIT_RATIO \<le> s \<and>
      (\<forall>j \<in> {-255..255}. \<forall>t. offset_score seq j = Some t \<longrightarrow> t \<le> s \<and> (j < off \<longrightarrow> t < s)))"
  (is "_ \<longleftrightarrow> ?rhs")
proof -
  obtain b s where l: "offset_loop seq OFFSETS None 0 = (b, s)" by fastforce
  note r = offset_loop_result [OF l]
  have le: "\<forall>j \<in> {-255..255}. \<forall>t. offset_score seq j = Some t \<longrightarrow> t \<le> s"
    using r unfolding OFFSETS_facts(1) by blast
  have def: "best_offset seq = Some off \<longleftrightarrow> MIN_USED_CODES \<le> length (used_codes seq) \<and> MIN_WORD_HIT_RATIO \<le> s \<and> b = Some off"
    using l by (auto simp: best_offset_def not_less)
  have first: "off \<in> {-255..255} \<and> offset_score seq off = Some s \<and>
      (\<forall>j \<in> {-255..255}. \<forall>t. offset_score seq j = Some t \<longrightarrow> j < off \<longrightarrow> t < s)" if found: "b = Some off" for off
  proof -
    obtain xs ys where split: "OFFSETS = xs @ off # ys" and off: "offset_score seq off = Some s"
      and before: "\<forall>j \<in> set xs. \<forall>t. offset_score seq j = Some t \<longrightarrow> t < s" using r found by auto
    have "off \<in> set OFFSETS" unfolding split by simp
    moreover have "j \<in> set xs" if "j \<in> {-255..255}" "j < off" for j
    proof -
      have "sorted (xs @ off # ys)" unfolding split [symmetric] by (rule OFFSETS_facts(2))
      moreover have "j \<in> set (xs @ off # ys)" unfolding split [symmetric] OFFSETS_facts(1) by (rule that(1))
      ultimately show ?thesis using that(2) by (auto simp: sorted_append)
    qed
    ultimately show ?thesis using off before unfolding OFFSETS_facts(1) by blast
  qed
  show ?thesis
  proof
    assume "best_offset seq = Some off"
    with def first [of off] le show ?rhs by blast
  next
    assume R: ?rhs
    then obtain t where t: "offset_score seq off = Some t" "MIN_WORD_HIT_RATIO \<le> t" "off \<in> {-255..255}"
      "\<forall>j \<in> {-255..255}. \<forall>u. offset_score seq j = Some u \<longrightarrow> u \<le> t \<and> (j < off \<longrightarrow> u < t)" by blast
    have "t \<le> s" using le t(1,3) by blast
    then have "0 < s" using t(2) by (simp add: MIN_WORD_HIT_RATIO_def)
    then obtain k where k: "b = Some k" using r by auto
    note fk = first [OF k]
    have "s \<le> t" using t(4) fk by blast
    then have "s = t" using \<open>t \<le> s\<close> by simp
    then have "\<not> k < off" "\<not> off < k" using t(1,3,4) fk by force+
    then have "k = off" by simp
    with R def k t(2) \<open>s = t\<close> show "best_offset seq = Some off" by blast
  qed
qed

section \<open>The CMap reads back\<close>

text \<open>The entries a reader of the CMap finds between \<open>beginbfchar\<close> and \<open>endbfchar\<close>.\<close>

definition hex_digit_value :: "char \<Rightarrow> nat" where
  "hex_digit_value c = (let n = of_char c in if n < 58 then n - 48 else n - 55)"

definition hex_number :: "string \<Rightarrow> nat" where
  "hex_number s = foldl (\<lambda>n c. 16 * n + hex_digit_value c) 0 s"

definition bfchar_of_line :: "string \<Rightarrow> nat \<times> nat" where
  "bfchar_of_line l = (hex_number (take 4 (drop 1 l)), hex_number (take 4 (drop 8 l)))"

fun read_bfchars :: "bool \<Rightarrow> string list \<Rightarrow> (nat \<times> nat) list" where
  "read_bfchars inside [] = []"
| "read_bfchars inside (l # ls) =
     (if l = ''endbfchar'' then read_bfchars False ls
      else if endswith l '' beginbfchar'' then read_bfchars True ls
      else if inside then bfchar_of_line l # read_bfchars inside ls
      else read_bfchars inside ls)"

lemma hex_digit_value_upper [simp]: "n < 16 \<Longrightarrow> hex_digit_value (hex_digit_upper n) = n"
  by (simp add: hex_digit_value_def hex_digit_upper_def Let_def)

lemma hex_number_append: "hex_number (s @ [c]) = 16 * hex_number s + hex_digit_value c"
  by (simp add: hex_number_def)

lemma hex_number_upper: "hex_number (hex_upper n) = n"
proof (induction n rule: hex_upper.induct)
  case (1 n)
  show ?case
  proof (cases "n < 16")
    case True
    then show ?thesis by (simp add: hex_number_def)
  next
    case False
    have "hex_number (hex_upper n) = 16 * hex_number (hex_upper (n div 16)) + n mod 16"
      using False by (simp add: hex_number_append)
    then show ?thesis using 1 [OF False] by simp
  qed
qed

lemma hex_number_zeros: "hex_number (replicate k CHR ''0'' @ s) = hex_number s"
proof (induction k)
  case (Suc k)
  have "hex_digit_value CHR ''0'' = 0" by (simp add: hex_digit_value_def)
  with Suc show ?case by (simp add: hex_number_def)
qed simp

lemma hex_upper_length: "n < 16 ^ k \<Longrightarrow> 0 < k \<Longrightarrow> length (hex_upper n) \<le> k"
proof (induction n arbitrary: k rule: hex_upper.induct)
  case (1 n)
  show ?case
  proof (cases "n < 16")
    case True
    with 1 show ?thesis by simp
  next
    case False
    obtain j where k: "k = Suc j" using 1(3) by (cases k) auto
    with 1(2) False have "0 < j" by (cases j) auto
    have "n div 16 < 16 ^ j" using 1(2) k by (simp add: less_mult_imp_div_less mult.commute)
    from 1(1) [OF False this \<open>0 < j\<close>] show ?thesis using False k by simp
  qed
qed

lemma hex04_facts: "n < 65536 \<Longrightarrow> length (hex04 n) = 4 \<and> hex_number (hex04 n) = n"
  using hex_upper_length [of n 4] by (simp add: hex04_def Let_def hex_number_zeros hex_number_upper del: hex_upper.simps)

lemma bfchar_line_reads:
  assumes "code < 65536" and "0 \<le> int code + off" and "int code + off \<le> 65535"
  shows "bfchar_of_line (bfchar_line off code) = (code, nat (int code + off))"
proof -
  have "nat (int code + off) < 65536" using assms by simp
  with hex04_facts [OF assms(1)] hex04_facts [OF this] show ?thesis
    by (simp add: bfchar_of_line_def bfchar_line_def)
qed

lemma bfchar_line_shape: "hd (bfchar_line off code) = CHR ''<''" "last (bfchar_line off code) = CHR ''>''"
  by (simp_all add: bfchar_line_def)

lemma bfchar_line_plain: "bfchar_line off code \<noteq> ''endbfchar''" "\<not> endswith (bfchar_line off code) '' beginbfchar''"
proof -
  show "bfchar_line off code \<noteq> ''endbfchar''" by (auto simp: bfchar_line_def)
  have "last l = CHR ''r''" if "endswith l '' beginbfchar''" for l :: string
    using that by (auto simp: endswith_iff)
  then show "\<not> endswith (bfchar_line off code) '' beginbfchar''" using bfchar_line_shape(2) [of off code] by force
qed

lemma read_bfchars_lines:
  assumes "\<forall>c \<in> set cs. c < 65536 \<and> 0 \<le> int c + off \<and> int c + off \<le> 65535"
  shows "read_bfchars True (map (bfchar_line off) cs @ ls) = map (\<lambda>c. (c, nat (int c + off))) cs @ read_bfchars True ls"
  using assms by (induction cs) (simp_all add: bfchar_line_plain bfchar_line_reads)

lemma not_digit_e: "\<not> is_digit CHR ''e''" by (simp add: is_digit_def)

lemma read_bfchars_block:
  assumes "\<forall>c \<in> set chunk. c < 65536"
  shows "read_bfchars False (bfchar_block off chunk @ ls) =
         map (\<lambda>c. (c, nat (int c + off))) (valid_codes off chunk) @ read_bfchars False ls"
proof (cases "valid_codes off chunk = []")
  case True
  then show ?thesis by (simp add: bfchar_block_def)
next
  case False
  have "str_nat n @ '' beginbfchar'' \<noteq> ''endbfchar''" for n
    by (metis list.sel(1) append_is_Nil_conv hd_append2 list.distinct(1) list.set_sel(1) str_nat_digits
        str_nat_nonempty not_digit_e)
  moreover have "endswith (str_nat n @ '' beginbfchar'') '' beginbfchar''" for n by (simp add: endswith_iff)
  moreover have "read_bfchars True (map (bfchar_line off) (valid_codes off chunk) @ [''endbfchar''] @ ls) =
      map (\<lambda>c. (c, nat (int c + off))) (valid_codes off chunk) @ read_bfchars True ([''endbfchar''] @ ls)"
    using assms by (intro read_bfchars_lines) (auto simp: valid_codes_def)
  ultimately show ?thesis using False by (simp add: bfchar_block_def Let_def)
qed

lemma read_bfchars_header: "read_bfchars False (cmap_header @ ls) = read_bfchars False ls"
  by (simp add: cmap_header_def endswith_def)

lemma read_bfchars_footer: "read_bfchars False cmap_footer = []"
  by (simp add: cmap_footer_def endswith_def)

lemma chunks_of_100_facts:
  "concat (chunks_of_100 xs) = xs" "\<forall>c \<in> set (chunks_of_100 xs). length c \<le> 100 \<and> c \<noteq> []"
proof (induction xs rule: chunks_of_100.induct)
  case (1 xs)
  { case 1 with "1.IH"(1) show ?case by (cases "xs = []") (simp_all add: chunks_of_100.simps [of xs]) }
  { case 2 with "1.IH"(2) show ?case
      by (cases "xs = []") (simp_all add: chunks_of_100.simps [of xs]) }
qed

text \<open>C31: the CMap says what was found out and nothing else: a reader gets, for every code shown whose
  shifted value is a 16-bit code point, that code with its shifted value, in ascending order.  No block
  has more than the 100 entries the format allows, and each announces the number it has.\<close>

theorem cmap_reads_back:
  assumes "\<forall>c \<in> set codes. c < 65536"
  shows "read_bfchars False (cmap_lines codes off) =
           map (\<lambda>c. (c, nat (int c + off))) (filter (\<lambda>c. 0 \<le> int c + off \<and> int c + off \<le> 65535) (sort codes)) \<and>
         (\<forall>chunk \<in> set (chunks_of_100 (sort codes)). bfchar_block off chunk \<noteq> [] \<longrightarrow>
            (\<exists>n \<le> 100. bfchar_block off chunk =
               [str_nat n @ '' beginbfchar''] @ map (bfchar_line off) (valid_codes off chunk) @ [''endbfchar''] \<and>
               n = length (valid_codes off chunk)))"
proof (rule conjI)
  have blocks: "read_bfchars False (concat (map (bfchar_block off) chunks) @ ls) =
      map (\<lambda>c. (c, nat (int c + off))) (valid_codes off (concat chunks)) @ read_bfchars False ls"
    if "\<forall>c \<in> set (concat chunks). c < 65536" for chunks ls
    using that
  proof (induction chunks)
    case (Cons chunk chunks)
    then show ?case by (simp add: read_bfchars_block valid_codes_def)
  qed (simp add: valid_codes_def)
  show "read_bfchars False (cmap_lines codes off) =
      map (\<lambda>c. (c, nat (int c + off))) (filter (\<lambda>c. 0 \<le> int c + off \<and> int c + off \<le> 65535) (sort codes))"
    using assms
    by (simp add: cmap_lines_def read_bfchars_header blocks chunks_of_100_facts(1) read_bfchars_footer valid_codes_def
        del: set_concat)
  show "\<forall>chunk \<in> set (chunks_of_100 (sort codes)). bfchar_block off chunk \<noteq> [] \<longrightarrow>
      (\<exists>n \<le> 100. bfchar_block off chunk =
         [str_nat n @ '' beginbfchar''] @ map (bfchar_line off) (valid_codes off chunk) @ [''endbfchar''] \<and>
         n = length (valid_codes off chunk))"
  proof (intro ballI impI)
    fix chunk
    assume c: "chunk \<in> set (chunks_of_100 (sort codes))" and b: "bfchar_block off chunk \<noteq> []"
    have "length (valid_codes off chunk) \<le> length chunk" by (simp add: valid_codes_def)
    then have "length (valid_codes off chunk) \<le> 100" using c chunks_of_100_facts(2) [of "sort codes"] by force
    with b show "\<exists>n \<le> 100. bfchar_block off chunk =
        [str_nat n @ '' beginbfchar''] @ map (bfchar_line off) (valid_codes off chunk) @ [''endbfchar''] \<and>
        n = length (valid_codes off chunk)"
      by (intro exI [of _ "length (valid_codes off chunk)"]) (simp add: bfchar_block_def Let_def split: if_splits)
  qed
qed

theorem cmap_reads_back_witness:
  "read_bfchars False (cmap_lines [68, 36] 29) = [(36, 65), (68, 97)]"
  using cmap_reads_back [of "[68, 36]" 29] by simp

section \<open>CIDSets are complete\<close>

lemma cidset_bit_iff: "cidset_bit bs cid \<longleftrightarrow> bit (bs ! (cid div 8)) (7 - cid mod 8)"
  by (simp add: cidset_bit_def bit_iff_odd_drop_bit and_one_eq odd_iff_mod_2_eq_one)

lemma mark_cid_length [simp]: "length (mark_cid c bs) = length bs"
  by (simp add: mark_cid_def)

lemma cid_positions: "a div 8 = b div 8 \<Longrightarrow> 7 - a mod 8 = 7 - b mod (8 :: nat) \<Longrightarrow> a = b"
proof -
  assume d: "a div 8 = b div 8" and m: "7 - a mod 8 = 7 - b mod (8 :: nat)"
  have "a mod 8 < 8" "b mod 8 < 8" by simp_all
  with m have "a mod 8 = b mod 8" by linarith
  with d show "a = b" by (metis div_mult_mod_eq)
qed

lemma cidset_bit_mark:
  assumes "c div 8 < length bs" and "cid div 8 < length bs"
  shows "cidset_bit (mark_cid c bs) cid \<longleftrightarrow> cid = c \<or> cidset_bit bs cid"
  using assms cid_positions [of cid c]
  by (cases "cid div 8 = c div 8")
    (auto simp: cidset_bit_iff mark_cid_def bit_or_iff bit_exp_iff)

lemma marked_cids:
  assumes "n \<le> 8 * length bs"
  shows "length (fold mark_cid [0 ..< n] bs) = length bs \<and>
         (\<forall>cid < 8 * length bs. cidset_bit (fold mark_cid [0 ..< n] bs) cid \<longleftrightarrow> cid < n \<or> cidset_bit bs cid)"
  using assms
proof (induction n)
  case (Suc n)
  then have ih: "length (fold mark_cid [0 ..< n] bs) = length bs"
    "\<forall>cid < 8 * length bs. cidset_bit (fold mark_cid [0 ..< n] bs) cid \<longleftrightarrow> cid < n \<or> cidset_bit bs cid" by auto
  have "n div 8 < length bs" using Suc.prems by (simp add: less_mult_imp_div_less)
  then show ?case using ih by (auto simp: cidset_bit_mark less_mult_imp_div_less mult.commute less_Suc_eq)
qed simp

lemma full_cidset:
  "length (build_full_cidset n) = (n + 7) div 8"
  "cid < 8 * length (build_full_cidset n) \<Longrightarrow> cidset_bit (build_full_cidset n) cid \<longleftrightarrow> cid < n"
proof -
  let ?z = "replicate ((n + 7) div 8) (0 :: byte)"
  have room: "n \<le> 8 * length ?z" by simp
  have z: "\<not> cidset_bit ?z c" if "c < 8 * length ?z" for c
    using that by (simp add: cidset_bit_iff less_mult_imp_div_less mult.commute)
  note m = marked_cids [OF room]
  show len: "length (build_full_cidset n) = (n + 7) div 8" using m by (simp add: build_full_cidset_def)
  show "cid < 8 * length (build_full_cidset n) \<Longrightarrow> cidset_bit (build_full_cidset n) cid \<longleftrightarrow> cid < n"
    using m z unfolding len by (simp add: build_full_cidset_def)
qed

text \<open>The rebuilt CIDSet marks exactly the glyphs of the font: every one of them, none beyond, in the
  fewest bytes; the check that decides whether a repair is needed accepts it.\<close>

theorem full_cidset_is_exact:
  "length (build_full_cidset n) = (n + 7) div 8 \<and>
   {cid. cid < 8 * length (build_full_cidset n) \<and> cidset_bit (build_full_cidset n) cid} = {..<n} \<and>
   cidset_covers_all_glyphs (build_full_cidset n) n"
proof -
  have "n \<le> 8 * length (build_full_cidset n)" by (simp add: full_cidset(1))
  then show ?thesis using full_cidset [where n = n] by (auto simp: cidset_covers_all_glyphs_def list_all_iff)
qed

end
