(* ===== verification/Font_Theorems.thy ===== *)
theory Font_Theorems
  imports Font_Repair
begin

text \<open>
  What the font repair of \<^verbatim>\<open>remediation/adapters/font_repair/pike_pdf.py\<close> does to a document: the
  Unicode repair of a page writes missing entries of qualifying fonts only, and repairing a CIDSet
  twice is repairing it once.
\<close>

section \<open>A repair only completes\<close>

text \<open>A node with an entry set, and what a repair of fonts may have made of a document.\<close>

fun with_entry :: "string \<Rightarrow> val \<Rightarrow> node \<Rightarrow> node" where
  "with_entry k v (NDict kvs) = NDict (AList.update k v kvs)"
| "with_entry k v (NStream kvs b) = NStream (AList.update k v kvs) b"
| "with_entry k v (NArray vs) = NArray vs"

definition completed :: "pdf \<Rightarrow> pdf \<Rightarrow> bool" where
  "completed d0 d \<longleftrightarrow> free_at d0 \<le> free_at d \<and>
     (\<forall>a < free_at d0. heap d a = heap d0 a \<or>
        (\<exists>n s seq off. heap d0 a = Some n \<and> is_candidate d0 (VAt a) = Inr True \<and>
           heap d a = Some (with_entry ''/ToUnicode'' (VAt s) n) \<and> free_at d0 \<le> s \<and> s < free_at d \<and>
           best_offset seq = Some off \<and>
           heap d s = Some (NStream [] (build_tounicode_cmap (sort (remdups (used_codes seq))) off))))"

lemma completed_refl [simp]: "completed d d"
  by (simp add: completed_def)

lemma AList_update_twice: "AList.update k v (AList.update k u kvs) = AList.update k v kvs"
  by (induction kvs) auto

lemma with_entry_twice [simp]: "with_entry k v (with_entry k u n) = with_entry k v n"
  by (cases n) (simp_all add: AList_update_twice)

lemma set_entry_heap: "heap d a = Some n \<Longrightarrow> heap (set_entry a k v d) = (heap d)(a \<mapsto> with_entry k v n)"
  by (cases n) (auto simp: set_entry_def)

lemma is_candidate_heap:
  assumes "is_candidate d font = Inr True"
  obtains a n where "font = VAt a" "heap d a = Some n" "\<And>vs. n \<noteq> NArray vs"
proof -
  have "\<exists>s. str_of_entry d font ''/Subtype'' = Inr s" using assms
    by (auto simp: is_candidate_def split: sum.splits)
  then have "\<exists>r. get_entry d font ''/Subtype'' = Inr r" by (cases "get_entry d font ''/Subtype''") (auto simp: str_of_entry_def)
  then obtain a n where "font = VAt a" "heap d a = Some n" "\<And>vs. n \<noteq> NArray vs"
    by (cases font) (auto split: option.splits node.splits)
  then show ?thesis by (rule that)
qed

lemma attach_completes:
  assumes "completed d0 d" and "is_candidate d0 font = Inr True" and "pdf_ok d0" and "best_offset seq = Some off"
  shows "completed d0 (attach_tounicode font (remdups (used_codes seq)) off d)"
proof -
  obtain a n where f: "font = VAt a" "heap d0 a = Some n" "\<And>vs. n \<noteq> NArray vs"
    using is_candidate_heap [OF assms(2)] by metis
  have below: "a < free_at d0" using f(2) assms(3) by (auto simp: pdf_ok_def)
  have free: "free_at d0 \<le> free_at d" using assms(1) by (simp add: completed_def)
  let ?s = "free_at d"
  let ?c = "build_tounicode_cmap (sort (remdups (used_codes seq))) off"
  let ?d1 = "snd (new_indirect (NStream [] ?c) d)"
  obtain m where m: "heap d a = Some m" "with_entry ''/ToUnicode'' (VAt ?s) m = with_entry ''/ToUnicode'' (VAt ?s) n"
    using assms(1) below f(2) by (fastforce simp: completed_def)
  have at: "attach_tounicode font (remdups (used_codes seq)) off d = set_entry a ''/ToUnicode'' (VAt ?s) ?d1"
    by (simp add: attach_tounicode_def f(1) new_indirect_def Let_def)
  have "heap ?d1 a = Some m" using m(1) below free by (simp add: new_indirect_def)
  note heap = set_entry_heap [OF this, of "''/ToUnicode''" "VAt ?s"]
  have old: "heap (set_entry a ''/ToUnicode'' (VAt ?s) ?d1) b = (if b = a then Some (with_entry ''/ToUnicode'' (VAt ?s) n) else
      if b = ?s then Some (NStream [] ?c) else heap d b)" for b
    using heap m(2) below free by (simp add: new_indirect_def)
  have fr: "free_at (set_entry a ''/ToUnicode'' (VAt ?s) ?d1) = Suc ?s" by (simp add: new_indirect_def)
  show ?thesis
    unfolding at completed_def fr
  proof (intro conjI allI impI)
    show "free_at d0 \<le> Suc ?s" using free by simp
    fix b assume b: "b < free_at d0"
    show "heap (set_entry a ''/ToUnicode'' (VAt ?s) ?d1) b = heap d0 b \<or>
        (\<exists>n s seq off. heap d0 b = Some n \<and> is_candidate d0 (VAt b) = Inr True \<and>
           heap (set_entry a ''/ToUnicode'' (VAt ?s) ?d1) b = Some (with_entry ''/ToUnicode'' (VAt s) n) \<and>
           free_at d0 \<le> s \<and> s < Suc ?s \<and> best_offset seq = Some off \<and>
           heap (set_entry a ''/ToUnicode'' (VAt ?s) ?d1) s =
             Some (NStream [] (build_tounicode_cmap (sort (remdups (used_codes seq))) off)))"
    proof (cases "b = a")
      case True
      have "heap (set_entry a ''/ToUnicode'' (VAt ?s) ?d1) ?s = Some (NStream [] ?c)" using old below free by simp
      then show ?thesis using True f(2) assms(2,4) f(1) old free
        by (intro disjI2 exI [of _ n] exI [of _ ?s] exI [of _ seq] exI [of _ off]) simp
    next
      case False
      then have same: "heap (set_entry a ''/ToUnicode'' (VAt ?s) ?d1) b = heap d b" using old b free by simp
      from assms(1) b consider "heap d b = heap d0 b"
        | n1 s1 seq1 off1 where "heap d0 b = Some n1" "is_candidate d0 (VAt b) = Inr True"
          "heap d b = Some (with_entry ''/ToUnicode'' (VAt s1) n1)" "free_at d0 \<le> s1" "s1 < ?s" "best_offset seq1 = Some off1"
          "heap d s1 = Some (NStream [] (build_tounicode_cmap (sort (remdups (used_codes seq1))) off1))"
        unfolding completed_def by blast
      then show ?thesis
      proof cases
        case 1
        then show ?thesis using same by simp
      next
        case 2
        have "heap (set_entry a ''/ToUnicode'' (VAt ?s) ?d1) s1 = heap d s1" using old 2(4,5) below by simp
        then show ?thesis using 2 same
          by (intro disjI2 exI [of _ n1] exI [of _ s1] exI [of _ seq1] exI [of _ off1]) simp
      qed
    qed
  qed
qed

lemma repair_sequences_completes:
  assumes "completed d0 d" and "pdf_ok d0"
    and "\<forall>n \<in> fst ` set seqs. \<exists>f. map_of candidates n = Some f \<and> is_candidate d0 f = Inr True"
  shows "completed d0 (repair_sequences candidates seqs d)"
  using assms
proof (induction candidates seqs d rule: repair_sequences.induct)
  case (2 candidates n seq seqs d)
  let ?d1 = "if remdups (used_codes seq) = [] then d
     else case best_offset seq of None \<Rightarrow> d
          | Some off \<Rightarrow> attach_tounicode (the (map_of candidates n)) (remdups (used_codes seq)) off d"
  have "completed d0 ?d1"
    using 2(2-4) attach_completes [of d0 d _ seq] by (auto split: option.split)
  from 2(1) [OF refl this 2(3)] 2(4) show ?case by (simp add: Let_def)
qed simp

lemma candidates_of_ok:
  "candidates_of d fonts = Inr cs \<Longrightarrow> (n, f) \<in> set cs \<Longrightarrow> is_candidate d f = Inr True"
proof (induction fonts arbitrary: cs)
  case (Cons nf fonts)
  then show ?case by (cases nf; cases "candidates_of d fonts") (auto split: sum.splits if_splits)
qed simp

lemma scan_tokens_names: "scan_tokens cur seqs ts = Some seqs' \<Longrightarrow> fst ` set seqs' = fst ` set seqs"
proof -
  have names: "fst ` set (show_codes f cs sq) = fst ` set sq" "fst ` set (show_boundary f sq) = fst ` set sq" for f cs and sq :: sequences
    by (auto simp: show_codes_def show_boundary_def image_image case_prod_beta)
  have folded: "fst ` set (fold (\<lambda>b. show_codes f (collect_codes b)) bs sq) = fst ` set sq" for f bs and sq :: sequences
    by (induction bs arbitrary: sq) (simp_all add: names)
  show "scan_tokens cur seqs ts = Some seqs' \<Longrightarrow> fst ` set seqs' = fst ` set seqs"
    by (induction cur seqs ts rule: scan_tokens.induct)
      (auto simp: Let_def names folded split: if_splits operand.splits)
qed


text \<open>A document with one page and one font whose codes are 255 above their letters.\<close>

definition demo_font_heap :: "(nat \<times> node) list" where
  "demo_font_heap = [
     (0, NDict []),
     (1, NDict [(''/Resources'', VAt 2)]),
     (2, NDict [(''/Font'', VAt 3)]),
     (3, NDict [(''/F1'', VAt 4)]),
     (4, NDict [(''/Subtype'', VName ''/Type0''), (''/Encoding'', VName ''/Identity-H''), (''/DescendantFonts'', VAt 5)]),
     (5, NArray [VAt 6]),
     (6, NDict [(''/Subtype'', VName ''/CIDFontType2'')])]"

definition demo_font_pdf :: pdf where
  "demo_font_pdf = \<lparr>heap = map_of demo_font_heap, object_number = (\<lambda>a. if a < 7 then Suc a else 0), root_at = 0,
     page_list = [1], free_at = 7, free_number = 8\<rparr>"

definition demo_tokens :: "token list" where
  "demo_tokens = [Instruction [OpName ''/F1''] ''Tf'', Instruction [OpString [1, 115, 1, 103, 1, 100]] ''Tj'',
     Instruction [OpArray [OpString [1, 110], OpNumber, OpString [1, 101]]] ''TJ'',
     Instruction [OpString [1, 115, 1, 103, 1, 100]] ''Tj'']"

definition demo_codes :: codes where
  "demo_codes = [Some 371, Some 359, Some 356, None, Some 366, Some 357, None, Some 371, Some 359, Some 356, None]"

lemma word_hit_ratio_le_1: "word_hit_ratio t \<le> 1"
  by (simp add: word_hit_ratio_def Let_def divide_le_eq)

lemma offset_score_le_1: "offset_score seq off = Some s \<Longrightarrow> s \<le> 1"
  by (auto simp: offset_score_def word_hit_ratio_le_1 split: option.splits if_splits)

lemma demo_best_offset: "best_offset demo_codes = Some (-255)"
proof -
  have "shifted demo_codes (-255) = Some [116, 104, 101, 32, 111, 102, 32, 116, 104, 101, 32]"
    by (simp add: shifted_def demo_codes_def used_codes_def map_filter_simps)
  moreover have "word_hit_ratio [116, 104, 101, 32, 111, 102, 32, 116, 104, 101, 32] = 1"
  proof -
    have "find_words [116, 104, 101, 32, 111, 102, 32, 116, 104, 101, 32] = [[116, 104, 101], [111, 102], [116, 104, 101]]"
      by (simp add: find_words_def is_letter_def)
    moreover have "common_word [116, 104, 101]" "common_word [111, 102]"
      by (simp_all add: common_word_def COMMON_WORDS_def lower_code_def)
    ultimately show ?thesis by (simp add: word_hit_ratio_def)
  qed
  moreover have "printable_ratio [116, 104, 101, 32, 111, 102, 32, 116, 104, 101, 32] = 1"
    by (simp add: printable_ratio_def printable_def)
  ultimately have "offset_score demo_codes (-255) = Some 1"
    by (simp add: offset_score_def MIN_PRINTABLE_RATIO_def)
  moreover have "MIN_USED_CODES \<le> length (used_codes demo_codes)"
    by (simp add: MIN_USED_CODES_def demo_codes_def used_codes_def map_filter_simps)
  ultimately show ?thesis
    unfolding best_offset_iff by (auto simp: MIN_WORD_HIT_RATIO_def dest: offset_score_le_1)
qed

lemma demo_page_repair:
  "repair_page_fonts (\<lambda>_ _. Some demo_tokens) 1 demo_font_pdf =
     Inr (attach_tounicode (VAt 4) (remdups (used_codes demo_codes)) (-255) demo_font_pdf)"
proof -
  have fonts: "page_fonts demo_font_pdf 1 = Inr [(''/F1'', VAt 4)]"
    by (simp add: page_fonts_def demo_font_pdf_def demo_font_heap_def entry_def dict_at_def)
  have cand: "is_candidate demo_font_pdf (VAt 4) = Inr True"
    by (simp add: is_candidate_def str_of_entry_def first_descendant_def demo_font_pdf_def demo_font_heap_def entry_def)
  have "scan_tokens None [(''/F1'', [])] demo_tokens = Some [(''/F1'', demo_codes)]"
    by (simp add: demo_tokens_def demo_codes_def show_codes_def show_boundary_def Let_def)
  moreover have "remdups (used_codes demo_codes) \<noteq> []"
    by (simp add: demo_codes_def used_codes_def map_filter_simps)
  ultimately show ?thesis
    using fonts cand demo_best_offset by (simp add: repair_page_fonts_def Let_def)
qed

lemma demo_font_pdf_ok: "pdf_ok demo_font_pdf"
proof -
  have nodes: "map_of demo_font_heap a = Some n \<Longrightarrow> a < 7 \<and> node_below 7 n" for a n
    by (auto simp: demo_font_heap_def dest!: map_of_SomeD split: if_splits)
  then show ?thesis by (auto simp: pdf_ok_def demo_font_pdf_def split: if_splits)
qed


text \<open>The offset search never guesses.  It answers an offset exactly when the font showed at least
  eight codes, the offset is one of the nonzero ones within a byte, the shifted text is printable, at
  least a fifth of its words are known words, and no other offset reads better (the smallest wins a
  tie); otherwise it answers none.\<close>

theorem best_offset_is_the_best:
  "best_offset seq = Some off \<longleftrightarrow>
   MIN_USED_CODES \<le> length (used_codes seq) \<and> off \<in> {-255..255} \<and>
   (\<exists>s. offset_score seq off = Some s \<and> MIN_WORD_HIT_RATIO \<le> s \<and>
      (\<forall>j \<in> {-255..255}. \<forall>t. offset_score seq j = Some t \<longrightarrow> t \<le> s \<and> (j < off \<longrightarrow> t < s)))"
  
  by (rule best_offset_iff)

theorem best_offset_is_the_best_witness:
  "best_offset demo_codes = Some (-255) \<and> (\<exists>s. offset_score demo_codes (-255) = Some s \<and> MIN_WORD_HIT_RATIO \<le> s)"
  using best_offset_is_the_best [of demo_codes "-255"] demo_best_offset by blast

section \<open>Repairing a CIDSet twice\<close>

text \<open>A CIDSet that is right is never touched, and a repaired one is right: repairing the same
  descriptor again changes nothing.\<close>

theorem cidset_repair_is_idempotent:
  assumes "pdf_ok d" and "repair_cidset count_glyphs descriptor d = Inr d1"
  shows "repair_cidset count_glyphs descriptor d1 = Inr d1"
proof (cases "d1 = d")
  case True
  with assms(2) show ?thesis by simp
next
  case False
  obtain a cidset ff font_data n current where r: "descriptor = VAt a" "get_entry d descriptor ''/CIDSet'' = Inr (Some cidset)"
    "get_entry d descriptor ''/FontFile2'' = Inr (Some ff)" "read_bytes d ff = Inr font_data" "count_glyphs font_data = Some n"
    "d1 = set_entry a ''/CIDSet'' (VAt (free_at d)) (snd (new_indirect (NStream [] (build_full_cidset n)) d))"
    using assms(2) False
    by (auto simp: repair_cidset_def new_indirect_def split: sum.splits option.splits if_splits val.splits)
  from r(1,2) obtain m where m: "heap d a = Some m" "\<And>vs. m \<noteq> NArray vs"
    by (auto split: option.splits node.splits)
  obtain f kvs where f: "ff = VAt f" "heap d f = Some (NStream kvs font_data)"
    using r(4) by (auto simp: read_bytes_def split: val.splits option.splits node.splits)
  have below: "a < free_at d" "f < free_at d" using assms(1) m(1) f(2) by (auto simp: pdf_ok_def)
  have "heap (snd (new_indirect (NStream [] (build_full_cidset n)) d)) a = Some m"
    using m(1) below by (simp add: new_indirect_def)
  note h = set_entry_heap [OF this, of "''/CIDSet''" "VAt (free_at d)"]
  have at: "heap d1 a = Some (with_entry ''/CIDSet'' (VAt (free_at d)) m)"
    "heap d1 (free_at d) = Some (NStream [] (build_full_cidset n))"
    using h r(6) below by (simp_all add: new_indirect_def)
  have "heap d1 f = Some (NStream kvs font_data) \<or> f = a" using h r(6) f(2) below by (simp add: new_indirect_def)
  then have "\<exists>kvs'. heap d1 f = Some (NStream kvs' font_data)" using at(1) m(1) f(2) by auto
  then have "read_bytes d1 ff = Inr font_data" using f(1) by (auto simp: read_bytes_def)
  moreover have "get_entry d1 descriptor ''/FontFile2'' = Inr (Some ff)" "get_entry d1 descriptor ''/CIDSet'' = Inr (Some (VAt (free_at d)))"
    using at(1) m r(1,3) by (cases m; simp add: entry_update)+
  moreover have "read_bytes d1 (VAt (free_at d)) = Inr (build_full_cidset n)" using at(2) by (simp add: read_bytes_def)
  moreover have "cidset_covers_all_glyphs (build_full_cidset n) n"
    using full_cidset [where n = n] by (auto simp: cidset_covers_all_glyphs_def list_all_iff)
  ultimately show ?thesis using r(5) by (simp add: repair_cidset_def)
qed

definition demo_cidset_pdf :: pdf where
  "demo_cidset_pdf = \<lparr>heap = map_of [(0, NDict [(''/CIDSet'', VAt 1), (''/FontFile2'', VAt 2)]), (1, NStream [] [128]), (2, NStream [] [7])],
     object_number = (\<lambda>a. if a < 3 then Suc a else 0), root_at = 0, page_list = [], free_at = 3, free_number = 4\<rparr>"

theorem cidset_repair_is_idempotent_witness:
  "\<exists>d1. repair_cidset (\<lambda>_. Some 3) (VAt 0) demo_cidset_pdf = Inr d1 \<and> d1 \<noteq> demo_cidset_pdf \<and>
     repair_cidset (\<lambda>_. Some 3) (VAt 0) d1 = Inr d1"
proof -
  have ok: "pdf_ok demo_cidset_pdf" by (auto simp: pdf_ok_def demo_cidset_pdf_def split: if_splits)
  have "\<not> cidset_covers_all_glyphs [128] 3" by (simp add: cidset_covers_all_glyphs_def cidset_bit_iff upt_rec)
  then have r: "repair_cidset (\<lambda>_. Some 3) (VAt 0) demo_cidset_pdf =
      Inr (set_entry 0 ''/CIDSet'' (VAt 3) (snd (new_indirect (NStream [] (build_full_cidset 3)) demo_cidset_pdf)))"
    by (simp add: repair_cidset_def demo_cidset_pdf_def entry_def read_bytes_def new_indirect_def)
  moreover have "free_at (set_entry 0 ''/CIDSet'' (VAt 3) (snd (new_indirect (NStream [] (build_full_cidset 3)) demo_cidset_pdf)))
      \<noteq> free_at demo_cidset_pdf" by (simp add: new_indirect_def)
  ultimately show ?thesis using cidset_repair_is_idempotent [OF ok r] by metis
qed

end
