(* ===== verification/Ocr_Theorems.thy ===== *)
theory Ocr_Theorems
  imports Ocr_Truth
begin

text \<open>
  What the scores of \<^verbatim>\<open>remediation/ocr_truth.py\<close> mean: the edit distance is the fewest single
  changes, the reading order lies between 0 and 1 without its cap, an identical page is perfect, and a
  comparison read the other way round swaps what got worse and what got better.
\<close>

section \<open>Single changes\<close>

inductive one_change :: "'a list \<Rightarrow> 'a list \<Rightarrow> bool" where
  swap: "one_change (xs @ x # ys) (xs @ y # ys)"
| drop_item: "one_change (xs @ x # ys) (xs @ ys)"
| add_item: "one_change (xs @ ys) (xs @ x # ys)"

text \<open>The recursive distance of two lists, from their heads.\<close>

fun lev :: "'a list \<Rightarrow> 'a list \<Rightarrow> nat" where
  "lev [] ys = length ys"
| "lev (x # xs) [] = Suc (length xs)"
| "lev (x # xs) (y # ys) =
     min (lev xs (y # ys) + 1) (min (lev (x # xs) ys + 1) (lev xs ys + (if x \<noteq> y then 1 else 0)))"

lemma lev_Nil2 [simp]: "lev xs [] = length xs"
  by (cases xs) simp_all

lemma lev_same [simp]: "lev xs xs = 0"
  by (induction xs) simp_all

lemma lev_cons_near: "lev a (y # ys) \<le> lev a ys + 1" "lev a ys \<le> lev a (y # ys) + 1"
proof (induction a arbitrary: y ys)
  case (Cons x xs)
  { case 1 show ?case by simp }
  { case 2
    have "lev (x # xs) ys \<le> lev xs ys + 1" by (cases ys) simp_all
    moreover have "lev xs ys \<le> lev xs (y # ys) + 1" by (rule Cons.IH(2))
    ultimately show ?case unfolding lev.simps by linarith }
qed simp_all

lemma lev_swap_near: "lev a (y # ys) \<le> lev a (z # ys) + 1"
proof (induction a)
  case (Cons x xs)
  have "lev xs ys \<le> lev xs (z # ys) + 1" by (rule lev_cons_near(2))
  then show ?case using Cons by (auto simp: min_def)
qed simp

lemma lev_prefix_near:
  assumes "\<And>a. lev a u \<le> lev a v + 1"
  shows "lev a (xs @ u) \<le> lev a (xs @ v) + 1"
proof (induction xs arbitrary: a)
  case (Cons p xs)
  note shorter = Cons.IH
  show ?case
  proof (induction a)
    case Nil
    show ?case using shorter [of "[]"] by simp
  next
    case (Cons x as)
    have "lev as (p # xs @ u) \<le> lev as (p # xs @ v) + 1" using Cons.IH by simp
    moreover have "lev (x # as) (xs @ u) \<le> lev (x # as) (xs @ v) + 1" by (rule shorter)
    moreover have "lev as (xs @ u) \<le> lev as (xs @ v) + 1" by (rule shorter)
    ultimately show ?case unfolding append_Cons lev.simps by linarith
  qed
qed (use assms in simp)

lemma lev_one_change: "one_change b c \<Longrightarrow> lev a c \<le> lev a b + 1"
proof (induction rule: one_change.induct)
  case (swap xs x ys y)
  show ?case by (rule lev_prefix_near) (rule lev_swap_near)
next
  case (drop_item xs x ys)
  show ?case by (rule lev_prefix_near) (rule lev_cons_near(2))
next
  case (add_item xs ys x)
  show ?case by (rule lev_prefix_near) (rule lev_cons_near(1))
qed

lemma lev_least: "(one_change ^^ n) a b \<Longrightarrow> lev a b \<le> n"
proof (induction n arbitrary: b)
  case (Suc n)
  then obtain c where "(one_change ^^ n) a c" "one_change c b" by auto
  with Suc.IH [of c] lev_one_change [of c b a] show ?case by simp
qed simp

lemma one_change_Cons: "one_change a b \<Longrightarrow> one_change (x # a) (x # b)"
proof (induction rule: one_change.induct)
  case (swap xs y ys z)
  show ?case using one_change.swap [where xs = "x # xs"] by simp
next
  case (drop_item xs y ys)
  show ?case using one_change.drop_item [where xs = "x # xs"] by simp
next
  case (add_item xs ys y)
  show ?case using one_change.add_item [where xs = "x # xs"] by simp
qed

lemma one_change_head:
  "one_change (x # xs) xs" "one_change xs (x # xs)" "one_change (x # xs) (y # xs)"
  using drop_item [where xs = "[]"] add_item [where xs = "[]"] swap [where xs = "[]"] by simp_all

lemma changes_Cons: "(one_change ^^ n) a b \<Longrightarrow> (one_change ^^ n) (x # a) (x # b)"
proof (induction n arbitrary: b)
  case (Suc n)
  then show ?case by (auto intro: one_change_Cons relcomppI)
qed simp

lemma change_first: "(one_change ^^ n) a b \<Longrightarrow> one_change c a \<Longrightarrow> (one_change ^^ Suc n) c b"
  by (rule relpowp_Suc_I2)

lemma lev_reached: "(one_change ^^ lev a b) a b"
proof (induction a b rule: lev.induct)
  case (1 ys)
  show ?case
  proof (induction ys)
    case (Cons y ys)
    have "(one_change ^^ length ys) [y] (y # ys)" using changes_Cons [OF Cons] by simp
    moreover have "one_change [] [y]" by (rule one_change_head)
    ultimately show ?case by (simp del: relpowp.simps add: change_first)
  qed simp
next
  case (2 x xs)
  show ?case
  proof (induction "length xs" arbitrary: x xs)
    case 0
    then show ?case using one_change_head(1) [of x "[]"] by (auto simp: eq_OO)
  next
    case (Suc n)
    then obtain y ys where xs: "xs = y # ys" by (cases xs) auto
    with Suc have "(one_change ^^ lev (y # ys) []) (y # ys) []" by simp
    moreover have "one_change (x # y # ys) (y # ys)" by (rule one_change_head)
    ultimately show ?case using xs by (simp del: relpowp.simps add: change_first)
  qed
next
  case (3 x xs y ys)
  have del: "(one_change ^^ (lev xs (y # ys) + 1)) (x # xs) (y # ys)"
    unfolding Suc_eq_plus1 [symmetric] by (rule change_first [OF 3(1) one_change_head(1)])
  have ins: "(one_change ^^ (lev (x # xs) ys + 1)) (x # xs) (y # ys)"
    unfolding Suc_eq_plus1 [symmetric] by (rule change_first [OF changes_Cons [OF 3(2)] one_change_head(2)])
  have sub: "(one_change ^^ (lev xs ys + (if x \<noteq> y then 1 else 0))) (x # xs) (y # ys)"
  proof (cases "x = y")
    case True
    with changes_Cons [OF 3(3), of y] show ?thesis by simp
  next
    case False
    with change_first [OF changes_Cons [OF 3(3), of y] one_change_head(3) [of x]] show ?thesis by simp
  qed
  show ?case
  proof -
    have "lev (x # xs) (y # ys) \<in> {lev xs (y # ys) + 1, lev (x # xs) ys + 1, lev xs ys + (if x \<noteq> y then 1 else 0)}"
      unfolding lev.simps by (metis insertCI min_def)
    then show ?thesis using del ins sub by auto
  qed
qed

lemma one_change_rev: "one_change a b \<Longrightarrow> one_change (rev a) (rev b)"
proof (induction rule: one_change.induct)
  case (swap xs x ys y)
  show ?case using one_change.swap [where xs = "rev ys" and ys = "rev xs"] by simp
next
  case (drop_item xs x ys)
  show ?case using one_change.drop_item [where xs = "rev ys" and ys = "rev xs"] by simp
next
  case (add_item xs ys x)
  show ?case using one_change.add_item [where xs = "rev ys" and ys = "rev xs"] by simp
qed

lemma changes_rev: "(one_change ^^ n) a b \<Longrightarrow> (one_change ^^ n) (rev a) (rev b)"
proof (induction n arbitrary: b)
  case (Suc n)
  then show ?case by (auto intro: one_change_rev relcomppI)
qed simp

section \<open>The rows\<close>

text \<open>The distance of the first \<open>i\<close> items of \<open>a\<close> from the first \<open>j\<close> of \<open>b\<close>.\<close>

definition prefix_distance :: "'a list \<Rightarrow> 'a list \<Rightarrow> nat \<Rightarrow> nat \<Rightarrow> nat" where
  "prefix_distance a b i j = lev (rev (take i a)) (rev (take j b))"

lemma prefix_distance_0: "j \<le> length b \<Longrightarrow> prefix_distance a b 0 j = j" "i \<le> length a \<Longrightarrow> prefix_distance a b i 0 = i"
  by (simp_all add: prefix_distance_def)

lemma prefix_distance_Suc:
  assumes "i < length a" and "j < length b"
  shows "prefix_distance a b (Suc i) (Suc j) =
    min (prefix_distance a b i (Suc j) + 1) (min (prefix_distance a b (Suc i) j + 1)
      (prefix_distance a b i j + (if a ! i \<noteq> b ! j then 1 else 0)))"
  using assms by (simp add: prefix_distance_def take_Suc_conv_app_nth)

lemma edit_row_prefix:
  assumes "i < length a" and "previous = map (prefix_distance a b i) [0 ..< Suc (length b)]" and "k \<le> length b"
  shows "foldl (\<lambda>current j. current @
              [min (previous ! j + 1) (min (current ! (j - 1) + 1)
                 (previous ! (j - 1) + (if a ! i \<noteq> b ! (j - 1) then 1 else 0)))])
       [Suc i] [1 ..< Suc k] = map (prefix_distance a b (Suc i)) [0 ..< Suc k]"
  using assms(3)
proof (induction k)
  case 0
  show ?case using assms(1) by (simp add: prefix_distance_0)
next
  case (Suc k)
  have "map (prefix_distance a b (Suc i)) [0 ..< Suc k] ! k = prefix_distance a b (Suc i) k"
    by (simp add: nth_append del: upt_Suc)
  moreover have "previous ! Suc k = prefix_distance a b i (Suc k)" "previous ! k = prefix_distance a b i k"
    using Suc.prems unfolding assms(2) by (simp_all del: upt_Suc)
  ultimately show ?case
    using Suc prefix_distance_Suc [OF assms(1), of k b] by simp
qed

lemma edit_rows:
  "k \<le> length a \<Longrightarrow>
   foldl (\<lambda>previous i. edit_row previous i (a ! (i - 1)) b) [0 ..< Suc (length b)] [1 ..< Suc k] =
   map (prefix_distance a b k) [0 ..< Suc (length b)]"
proof (induction k)
  case 0
  show ?case by (simp add: prefix_distance_0 map_idI del: upt_Suc cong: map_cong) (auto intro!: map_idI [symmetric] simp: prefix_distance_0 simp del: upt_Suc)
next
  case (Suc k)
  then have ih: "foldl (\<lambda>previous i. edit_row previous i (a ! (i - 1)) b) [0 ..< Suc (length b)] [1 ..< Suc k] =
      map (prefix_distance a b k) [0 ..< Suc (length b)]" by simp
  have up: "[1 ..< Suc (Suc k)] = [1 ..< Suc k] @ [Suc k]" by simp
  show ?case
    unfolding up foldl_append ih using edit_row_prefix [of k a "map (prefix_distance a b k) [0 ..< Suc (length b)]" b "length b"] Suc.prems
    by (simp add: edit_row_def del: upt_Suc)
qed

lemma edit_distance_lev: "edit_distance a b = lev (rev a) (rev b)"
  unfolding edit_distance_def edit_rows [of "length a" a b, OF order_refl]
  by (simp add: prefix_distance_def last_map)

text \<open>C33: the edit distance is what its name says: so many single changes (swapping, dropping or adding
  one item) turn the one list into the other, and fewer never do.\<close>

theorem edit_distance_is_least:
  "(one_change ^^ edit_distance a b) a b \<and> edit_distance a b = (LEAST n. (one_change ^^ n) a b)"
proof -
  have "(one_change ^^ edit_distance a b) (rev (rev a)) (rev (rev b))"
    unfolding edit_distance_lev by (rule changes_rev [OF lev_reached])
  then have reached: "(one_change ^^ edit_distance a b) a b" by simp
  moreover have "edit_distance a b \<le> n" if "(one_change ^^ n) a b" for n
    unfolding edit_distance_lev using changes_rev [OF that] lev_least by blast
  ultimately show ?thesis by (simp add: Least_equality)
qed

section \<open>The reading order\<close>

lemma common_prefix_same: "take (common_prefix xs ys) xs = take (common_prefix xs ys) ys"
  by (induction xs ys rule: common_prefix.induct) auto

lemma common_prefix_self [simp]: "common_prefix xs xs = length xs"
  by (induction xs) auto

lemma split_at: "i + k \<le> length a \<Longrightarrow> mset a = mset (take i a) + mset (take k (drop i a)) + mset (drop (i + k) a)"
  by (metis append_take_drop_id drop_drop mset_append add.commute add.assoc)

lemma shared_parts:
  fixes A B M C D :: "'a multiset"
  shows "A \<inter># B + M + C \<inter># D \<subseteq># (A + M + C) \<inter># (B + M + D)"
  by (simp add: mset_subset_eq_mono_add)

lemma matched_within_shared: "matched_items a b \<le> size (mset a \<inter># mset b)"
proof (induction a b rule: matched_items.induct)
  case (1 a b)
  obtain i j k where m: "longest_match a b = (i, j, k)" by (metis surj_pair)
  show ?case
  proof (cases "k = 0")
    case True
    then show ?thesis by (subst matched_items.simps) (simp add: m)
  next
    case False
    note block = longest_match_block [OF m False]
    have same: "take k (drop i a) = take k (drop j b)"
      unfolding block(1) by (rule common_prefix_same)
    have size_block: "size (mset (take k (drop i a))) = k" using block(2) by simp
    have "matched_items a b = matched_items (take i a) (take j b) + k + matched_items (drop (i + k) a) (drop (j + k) b)"
      using False by (subst matched_items.simps) (simp add: m)
    also have "\<dots> \<le> size (mset (take i a) \<inter># mset (take j b) + mset (take k (drop i a)) +
        mset (drop (i + k) a) \<inter># mset (drop (j + k) b))"
      using 1 [OF m [symmetric] refl False] unfolding size_union size_block by simp
    also have "\<dots> \<le> size (mset a \<inter># mset b)"
      unfolding split_at [OF block(2)] split_at [OF block(3)] same [symmetric]
      by (intro size_mset_mono shared_parts)
    finally show ?thesis .
  qed
qed

lemma matched_self [simp]: "matched_items a a = length a"
proof (cases "a = []")
  case True
  then show ?thesis by (subst matched_items.simps) (simp add: longest_match_def)
next
  case False
  obtain i j k where m: "longest_match a a = (i, j, k)" by (metis surj_pair)
  have "(0, 0) \<in> set (List.product [0 ..< length a] [0 ..< length a])" using False by simp
  then have "length a \<le> k"
    using longest_match_fold [OF m [unfolded longest_match_def]] by fastforce
  moreover from this False have "k \<noteq> 0" by (cases a) auto
  ultimately have "k = length a" "i = 0" "j = 0"
    using longest_match_block [OF m] by auto
  moreover have "matched_items [] [] = (0 :: nat)" by (subst matched_items.simps) (simp add: longest_match_def)
  ultimately show ?thesis using m False by (subst matched_items.simps) simp
qed

lemma reading_order_ratio:
  assumes "mset truth \<inter># mset output \<noteq> {#}"
  shows "match_ratio truth output /
      (2 * of_nat (size (mset truth \<inter># mset output)) / of_nat (length truth + length output)) =
    of_nat (matched_items truth output) / of_nat (size (mset truth \<inter># mset output))"
proof -
  let ?s = "size (mset truth \<inter># mset output)"
  have s: "0 < ?s" using assms by (simp add: nonempty_has_size)
  have n: "of_nat (length truth) + of_nat (length output) \<noteq> (0 :: rat)"
    using assms unfolding of_nat_add [symmetric] of_nat_eq_0_iff by auto
  show ?thesis
    using n s assms by (simp add: match_ratio_def divide_simps)
qed

lemma reading_order_score_shared:
  assumes "mset truth \<inter># mset output \<noteq> {#}"
  shows "reading_order_score truth output =
    of_nat (matched_items truth output) / of_nat (size (mset truth \<inter># mset output))"
proof -
  have "of_nat (matched_items truth output) / of_nat (size (mset truth \<inter># mset output)) \<le> (1 :: rat)"
    using matched_within_shared [of truth "output"] assms by (simp add: divide_le_eq_1 nonempty_has_size)
  then show ?thesis
    unfolding reading_order_score_def Let_def reading_order_ratio [OF assms]
    using assms by (simp add: min_def)
qed

lemma reading_order_rate:
  "reading_order_score truth output \<in> {0 .. 1} \<and> reading_order_score truth truth = 1 \<and>
   (mset truth \<inter># mset output = {#} \<or>
    reading_order_score truth output = match_ratio truth output /
      (2 * of_nat (size (mset truth \<inter># mset output)) / of_nat (length truth + length output)) \<and>
    reading_order_score truth output =
      of_nat (matched_items truth output) / of_nat (size (mset truth \<inter># mset output)))"
proof (intro conjI)
  have "matched_items truth output \<le> size (mset truth \<inter># mset output)" by (rule matched_within_shared)
  then show "reading_order_score truth output \<in> {0 .. 1}"
    by (cases "mset truth \<inter># mset output = {#}")
      (simp_all add: reading_order_score_shared divide_le_eq_1 nonempty_has_size, simp add: reading_order_score_def)
  show "reading_order_score truth truth = 1"
    by (cases "truth = []") (simp_all add: reading_order_score_shared, simp add: reading_order_score_def)
  show "mset truth \<inter># mset output = {#} \<or>
    reading_order_score truth output = match_ratio truth output /
      (2 * of_nat (size (mset truth \<inter># mset output)) / of_nat (length truth + length output)) \<and>
    reading_order_score truth output =
      of_nat (matched_items truth output) / of_nat (size (mset truth \<inter># mset output))"
    using reading_order_score_shared [of truth "output"] reading_order_ratio [of truth "output"] by force
qed
text \<open>C34: the reading order score is a rate: it lies between 0 and 1, it is the share of the common words
  that the matching blocks keep in order (so the cap at 1 in the code never bites), and a page that
  comes out word for word scores 1.\<close>

theorem reading_order_is_a_rate:
  "reading_order_score truth output \<in> {0 .. 1} \<and> reading_order_score truth truth = 1 \<and>
   (mset truth \<inter># mset output = {#} \<or>
    reading_order_score truth output = match_ratio truth output /
      (2 * of_nat (size (mset truth \<inter># mset output)) / of_nat (length truth + length output)) \<and>
    reading_order_score truth output =
      of_nat (matched_items truth output) / of_nat (size (mset truth \<inter># mset output)))"
  by (rule reading_order_rate)

section \<open>Comparisons\<close>

lemma set_map_filter_Some: "set (List.map_filter f xs) = {y. \<exists>x \<in> set xs. f x = Some y}"
  by (force simp: List.map_filter_def)

lemma page_lines_iff:
  "(worse, number, label, old, new) \<in> set (page_lines n before after) \<longleftrightarrow>
   (\<exists>(l, val, tolerance, higher) \<in> set score_checks. number = n \<and> l = label \<and> old = val before \<and>
      new = val after \<and> tolerance < \<bar>new - old\<bar> \<and> worse = ((0 < new - old) = higher))"
  unfolding page_lines_def set_map_filter_Some mem_Collect_eq
proof (rule bex_cong [OF refl])
  fix x
  show "(case x of (label, val, tolerance, higher_is_worse) \<Rightarrow>
          let change = val after - val before
          in if \<bar>change\<bar> \<le> tolerance then None
             else Some ((change > 0) = higher_is_worse, n, label, val before, val after)) =
        Some (worse, number, label, old, new) \<longleftrightarrow>
       (case x of (l, val, tolerance, higher) \<Rightarrow> number = n \<and> l = label \<and> old = val before \<and>
          new = val after \<and> tolerance < \<bar>new - old\<bar> \<and> worse = ((0 < new - old) = higher))"
    by (cases x) (auto simp: Let_def not_le)
qed

lemma page_lines_swap:
  "(worse, number, label, old, new) \<in> set (page_lines n before after) \<longleftrightarrow>
   (\<not> worse, number, label, new, old) \<in> set (page_lines n after before)"
  unfolding page_lines_iff
proof (rule bex_cong [OF refl])
  fix x
  assume "x \<in> set score_checks"
  then have "0 \<le> fst (snd (snd x))" by (auto simp: score_checks_def RATE_TOLERANCE_def ORDER_TOLERANCE_def)
  then show "(case x of (l, val, tolerance, higher) \<Rightarrow> number = n \<and> l = label \<and> old = val before \<and>
          new = val after \<and> tolerance < \<bar>new - old\<bar> \<and> worse = ((0 < new - old) = higher)) \<longleftrightarrow>
       (case x of (l, val, tolerance, higher) \<Rightarrow> number = n \<and> l = label \<and> new = val after \<and>
          old = val before \<and> tolerance < \<bar>old - new\<bar> \<and> (\<not> worse) = ((0 < old - new) = higher))"
    by (cases x; cases "old = new") (auto simp: abs_minus_commute)
qed

lemma compare_scores_lines:
  "line \<in> set (if worse then fst (compare_scores int_key baseline candidate)
               else snd (compare_scores int_key baseline candidate)) \<longleftrightarrow>
   (\<exists>n. n \<in> fst ` set baseline \<and> n \<in> fst ` set candidate \<and>
      (worse, line) \<in> set (page_lines n (the (map_of baseline n)) (the (map_of candidate n))))"
proof -
  have "set (common_pages int_key baseline candidate) = fst ` set baseline \<inter> fst ` set candidate"
    by (auto simp: common_pages_def)
  then have "(w, l) \<in> set (concat (map (\<lambda>n. page_lines n (the (map_of baseline n)) (the (map_of candidate n)))
        (common_pages int_key baseline candidate))) \<longleftrightarrow>
      (\<exists>n. n \<in> fst ` set baseline \<and> n \<in> fst ` set candidate \<and>
        (w, l) \<in> set (page_lines n (the (map_of baseline n)) (the (map_of candidate n))))" for w l
    by (simp only: set_concat set_map) blast
  moreover have "l \<in> set (map snd (filter fst ls)) \<longleftrightarrow> (True, l) \<in> set ls"
      "l \<in> set (map snd (filter (\<lambda>x. \<not> fst x) ls)) \<longleftrightarrow> (False, l) \<in> set ls" for l and ls :: "(bool \<times> score_line) list"
    by force+
  ultimately show ?thesis
    by (cases worse) (simp_all only: compare_scores_def Let_def fst_conv snd_conv if_True if_False)
qed

lemma compare_scores_swap:
  "(number, label, old, new) \<in> set (fst (compare_scores int_key baseline candidate)) \<longleftrightarrow>
   (number, label, new, old) \<in> set (snd (compare_scores int_key candidate baseline))"
proof -
  have "(number, label, old, new) \<in> set (fst (compare_scores int_key baseline candidate)) \<longleftrightarrow>
    (\<exists>n. n \<in> fst ` set baseline \<and> n \<in> fst ` set candidate \<and> (True, number, label, old, new)
      \<in> set (page_lines n (the (map_of baseline n)) (the (map_of candidate n))))"
    by (rule compare_scores_lines [of _ True, unfolded if_True])
  also have "\<dots> \<longleftrightarrow> (\<exists>n. n \<in> fst ` set candidate \<and> n \<in> fst ` set baseline \<and> (False, number, label, new, old)
      \<in> set (page_lines n (the (map_of candidate n)) (the (map_of baseline n))))"
    by (simp only: page_lines_swap [of True] not_True_eq_False conj_left_commute [of "_ \<in> fst ` set baseline"])
  also have "\<dots> \<longleftrightarrow> (number, label, new, old) \<in> set (snd (compare_scores int_key candidate baseline))"
    by (rule compare_scores_lines [of _ False, unfolded if_False, symmetric])
  finally show ?thesis .
qed

lemma page_lines_once:
  assumes "(True, line) \<in> set (page_lines n before after)"
  shows "(False, line) \<notin> set (page_lines m before' after')"
proof
  assume again: "(False, line) \<in> set (page_lines m before' after')"
  obtain number label old new where line: "line = (number, label, old, new)" by (cases line) auto
  obtain x where x: "x \<in> set score_checks" "fst x = label" "(0 < new - old) = snd (snd (snd x))"
    using assms unfolding line page_lines_iff by fastforce
  obtain y where y: "y \<in> set score_checks" "fst y = label" "(0 < new - old) \<noteq> snd (snd (snd y))"
    using again unfolding line page_lines_iff by fastforce
  have "distinct (map fst score_checks)" by (simp add: score_checks_def)
  then have "x = y" using x(1,2) y(1,2) by (auto simp: distinct_map dest: inj_onD)
  then show False using x(3) y(3) by simp
qed

lemma compare_scores_disjoint:
  "set (fst (compare_scores int_key baseline candidate)) \<inter> set (snd (compare_scores int_key baseline candidate)) = {}"
  using compare_scores_lines [of _ True int_key baseline candidate]
    compare_scores_lines [of _ False int_key baseline candidate] page_lines_once
  by (auto simp del: split_paired_All)

text \<open>A comparison read the other way round tells the same story: what got worse from the baseline
  to the candidate got better, with the two values swapped, from the candidate to the baseline, and no
  line is on both lists.\<close>

theorem comparison_is_antisymmetric:
  "((number, label, old, new) \<in> set (fst (compare_scores int_key baseline candidate)) \<longleftrightarrow>
    (number, label, new, old) \<in> set (snd (compare_scores int_key candidate baseline))) \<and>
   set (fst (compare_scores int_key baseline candidate)) \<inter> set (snd (compare_scores int_key baseline candidate)) = {}"
  using compare_scores_swap compare_scores_disjoint by blast

end
