(* ===== verification/Scoring.thy ===== *)
theory Scoring
  imports Pdf_Objects Ip_Address Unicode_Text Artifact_Steps
begin

text \<open>
  \<^verbatim>\<open>remediation/adapters/scoring/pike_pdf.py\<close>: the accessibility score of a document.  Every
  operation works on the dictionary of issues (a record); one that can raise gives the exception next
  to the issues as far as they were filled in, since the code keeps them and goes on.  Texts of the
  document are Latin-1 (one character per code point), the messages are UTF-8.  Parameters: what the
  text reader gives (page count, page texts, outline, or an exception) and the decimal digits.
\<close>

section \<open>Tables\<close>

definition IMAGE_MIN_SIZE :: int where "IMAGE_MIN_SIZE = 100"

definition DEDUCTIONS :: "(string \<times> int) list" where
  "DEDUCTIONS = [
     (''no_structure_tree'', 18),
     (''no_text_layer'', 20),
     (''missing_alt_text'', 12),
     (''form_no_tooltips'', 10),
     (''missing_headings'', 10),
     (''missing_bookmarks'', 6),
     (''unembedded_fonts'', 6),
     (''vague_hyperlinks'', 6),
     (''color_contrast'', 5),
     (''complex_tables'', 4)]"

definition deduction :: "string \<Rightarrow> int" where
  "deduction k = the (map_of DEDUCTIONS k)"

definition GRADE_THRESHOLDS :: "(int \<times> string) list" where
  "GRADE_THRESHOLDS = [(90, ''A''), (75, ''B''), (60, ''C''), (40, ''D''), (0, ''F'')]"

definition vague_link :: "string \<Rightarrow> bool" where
  "vague_link contents \<longleftrightarrow> lower contents \<in>
     {''click here'', ''here'', ''this link'', ''read more'', ''more'', ''learn more'', ''click'', ''link''}"

definition BASE14_FONTS :: "string list" where
  "BASE14_FONTS = [
     ''/Courier'', ''/Courier-Bold'', ''/Courier-Oblique'', ''/Courier-BoldOblique'',
     ''/Helvetica'', ''/Helvetica-Bold'', ''/Helvetica-Oblique'', ''/Helvetica-BoldOblique'',
     ''/Times-Roman'', ''/Times-Bold'', ''/Times-Italic'', ''/Times-BoldItalic'',
     ''/Symbol'', ''/ZapfDingbats'']"

record issues =
  has_structure_tree :: bool
  has_text_layer :: bool
  has_images :: bool
  images_without_alt :: nat
  has_forms :: bool
  form_fields_count :: nat
  form_fields_without_tooltips :: nat
  has_bookmarks :: bool
  page_count :: nat
  unembedded_fonts :: "string list"
  vague_links :: "string list"
  has_tables :: bool
  tables_without_headers :: nat
  has_headings :: bool

definition no_issues :: issues where
  "no_issues = \<lparr>has_structure_tree = False, has_text_layer = False, has_images = False, images_without_alt = 0,
     has_forms = False, form_fields_count = 0, form_fields_without_tooltips = 0, has_bookmarks = False,
     page_count = 0, unembedded_fonts = [], vague_links = [], has_tables = False, tables_without_headers = 0,
     has_headings = False\<rparr>"

section \<open>The text layer\<close>

record text_reader =
  tr_page_count :: nat
  tr_text :: "nat \<Rightarrow> utext option"
  tr_toc :: "bool option"

text \<open>\<open>\n[A-Z][A-Z\s]{2,50}\n\<close> somewhere in the text.\<close>

definition heading_line :: "utext \<Rightarrow> bool" where
  "heading_line t \<longleftrightarrow>
     list_ex (\<lambda>i. t ! i = 10 \<and> i + 1 < length t \<and> capital (t ! (i + 1)) \<and>
       list_ex (\<lambda>k. i + 2 + k < length t \<and> t ! (i + 2 + k) = 10 \<and>
                  list_all (\<lambda>c. capital c \<or> white_space c) (take k (drop (i + 2) t))) [2 ..< 51])
     [0 ..< length t]"

text \<open>\<open>^\d+\.\s+[A-Z]\<close> at the start of some line.\<close>

definition numbered_start :: "unicode \<Rightarrow> utext \<Rightarrow> bool" where
  "numbered_start u t =
     (takeWhile (is_decimal u) t \<noteq> [] \<and>
      (case dropWhile (is_decimal u) t of
         [] \<Rightarrow> False
       | c # rest \<Rightarrow> c = 46 \<and> takeWhile white_space rest \<noteq> [] \<and>
           (case dropWhile white_space rest of [] \<Rightarrow> False | x # _ \<Rightarrow> capital x)))"

definition numbered_line :: "unicode \<Rightarrow> utext \<Rightarrow> bool" where
  "numbered_line u t \<longleftrightarrow>
     list_ex (\<lambda>i. (i = 0 \<or> t ! (i - 1) = 10) \<and> numbered_start u (drop i t)) [0 ..< Suc (length t)]"

fun sample_text :: "(nat \<Rightarrow> utext option) \<Rightarrow> nat list \<Rightarrow> utext option" where
  "sample_text page [] = Some []"
| "sample_text page (i # is) =
     (case page i of None \<Rightarrow> None | Some t \<Rightarrow> map_option (\<lambda>rest. t @ rest) (sample_text page is))"

text \<open>The first \<open>try\<close> of \<open>_assess\<close>: an exception keeps what was filled in before it.\<close>

definition assess_text :: "unicode \<Rightarrow> text_reader option \<Rightarrow> issues \<Rightarrow> issues" where
  "assess_text u reader i =
     (case reader of
        None \<Rightarrow> i
      | Some tr \<Rightarrow>
          (let i1 = i\<lparr>page_count := tr_page_count tr\<rparr>
           in case sample_text (tr_text tr) [0 ..< min 5 (tr_page_count tr)] of
                None \<Rightarrow> i1
              | Some sample \<Rightarrow>
                  (let i2 = i1\<lparr>has_text_layer := 50 < length (strip_space sample)\<rparr>
                   in case tr_toc tr of
                        None \<Rightarrow> i2
                      | Some toc \<Rightarrow>
                          (let i3 = (if toc then i2\<lparr>has_bookmarks := True\<rparr> else i2);
                               i4 = (if heading_line sample then i3\<lparr>has_headings := True\<rparr> else i3)
                           in if numbered_line u sample then i4\<lparr>has_headings := True\<rparr> else i4))))"

section \<open>Tables of the structure tree\<close>

definition is_group :: "string \<Rightarrow> bool" where
  "is_group ks \<longleftrightarrow> ks \<in> {''/THead'', ''/TBody'', ''/TFoot''}"

text \<open>A kid as an object with its structure type, or an exception, which the loops pass over.\<close>

definition kid_with_type :: "pdf \<Rightarrow> val \<Rightarrow> exn + val \<times> string" where
  "kid_with_type d kid =
     (case item_object d kid of
        Inl x \<Rightarrow> Inl x
      | Inr k \<Rightarrow> map_sum id (\<lambda>s. (k, s)) (str_of_entry d k ''/S''))"

fun first_tr_in_group :: "pdf \<Rightarrow> val list \<Rightarrow> val option" where
  "first_tr_in_group d [] = None"
| "first_tr_in_group d (ik # iks) =
     (case kid_with_type d ik of
        Inl _ \<Rightarrow> first_tr_in_group d iks
      | Inr (k, s) \<Rightarrow> if s = ''/TR'' then Some k else first_tr_in_group d iks)"

text \<open>The items of a group's \<open>/K\<close>; an exception or anything but an array has none.\<close>

definition group_kids :: "pdf \<Rightarrow> val \<Rightarrow> val list" where
  "group_kids d k =
     (case get_entry d k ''/K'' of
        Inr (Some inner) \<Rightarrow> (case as_array d inner of Some iks \<Rightarrow> iks | None \<Rightarrow> [])
      | _ \<Rightarrow> [])"

fun first_tr_of :: "pdf \<Rightarrow> val list \<Rightarrow> val option" where
  "first_tr_of d [] = None"
| "first_tr_of d (kid # kids) =
     (case kid_with_type d kid of
        Inl _ \<Rightarrow> first_tr_of d kids
      | Inr (k, ks) \<Rightarrow>
          if ks = ''/TR'' then Some k
          else if is_group ks then
            (case first_tr_in_group d (group_kids d k) of Some r \<Rightarrow> Some r | None \<Rightarrow> first_tr_of d kids)
          else first_tr_of d kids)"

text \<open>The items of a table's \<open>/K\<close>.\<close>

definition table_kids :: "pdf \<Rightarrow> nat \<Rightarrow> val list" where
  "table_kids d a =
     (case get_at d a ''/K'' of
        None \<Rightarrow> []
      | Some v \<Rightarrow> (case as_array d v of Some vs \<Rightarrow> vs | None \<Rightarrow> []))"

definition get_first_tr :: "pdf \<Rightarrow> nat \<Rightarrow> val option" where
  "get_first_tr d table = first_tr_of d (table_kids d table)"

definition is_tr :: "pdf \<Rightarrow> val \<Rightarrow> bool" where
  "is_tr d ik = (case kid_with_type d ik of Inl _ \<Rightarrow> False | Inr (_, s) \<Rightarrow> s = ''/TR'')"

fun count_trs :: "pdf \<Rightarrow> val list \<Rightarrow> nat" where
  "count_trs d [] = 0"
| "count_trs d (kid # kids) =
     (case kid_with_type d kid of
        Inl _ \<Rightarrow> 0
      | Inr (k, ks) \<Rightarrow>
          if ks = ''/TR'' then 1
          else if is_group ks then length (filter (is_tr d) (group_kids d k))
          else 0) + count_trs d kids"

definition count_trs_in_table :: "pdf \<Rightarrow> nat \<Rightarrow> nat" where
  "count_trs_in_table d table = count_trs d (table_kids d table)"

text \<open>\<open>any(\<dots> == "/TH" for c in tr_kids)\<close>: stops at the first header cell, raises at the first bad kid.\<close>

fun any_th :: "pdf \<Rightarrow> val list \<Rightarrow> exn + bool" where
  "any_th d [] = Inr False"
| "any_th d (c # cs) =
     (case kid_with_type d c of
        Inl x \<Rightarrow> Inl x
      | Inr (_, s) \<Rightarrow> if s = ''/TH'' then Inr True else any_th d cs)"

text \<open>Does the table count as one without headers?  An exception says no.\<close>

definition table_lacks_headers :: "pdf \<Rightarrow> nat \<Rightarrow> bool" where
  "table_lacks_headers d table =
     (case get_first_tr d table of
        None \<Rightarrow> False
      | Some first_tr \<Rightarrow>
          2 \<le> count_trs_in_table d table \<and>
          (case get_entry d first_tr ''/K'' of
             Inl _ \<Rightarrow> False
           | Inr None \<Rightarrow> True
           | Inr (Some tr_kids) \<Rightarrow>
               (case as_array d tr_kids of
                  None \<Rightarrow> True
                | Some cs \<Rightarrow> any_th d cs = Inr False)))"

section \<open>The structure tree\<close>

text \<open>What one structure element adds to the issues.\<close>

definition heading_types :: "string list" where
  "heading_types = [''/H'', ''/H1'', ''/H2'', ''/H3'', ''/H4'', ''/H5'', ''/H6'']"

definition lacks_alt :: "pdf \<Rightarrow> nat \<Rightarrow> bool" where
  "lacks_alt d a = (case get_at d a ''/Alt'' of None \<Rightarrow> True | Some alt \<Rightarrow> strip (str_val alt) = '''')"

definition note_element :: "pdf \<Rightarrow> nat \<Rightarrow> issues \<Rightarrow> issues" where
  "note_element d a i =
     (let s_type = str_entry d a ''/S'';
          i1 = (if s_type \<in> set heading_types then i\<lparr>has_headings := True\<rparr> else i);
          i2 = (if s_type = ''/Table''
                then let it = i1\<lparr>has_tables := True\<rparr>
                     in if table_lacks_headers d a then it\<lparr>tables_without_headers := tables_without_headers it + 1\<rparr> else it
                else i1)
      in if s_type = ''/Figure'' \<and> lacks_alt d a then i2\<lparr>images_without_alt := images_without_alt i2 + 1\<rparr> else i2)"

text \<open>\<open>_walk_struct_tree\<close>; the first argument is the number of levels left, \<open>21 - depth\<close>.\<close>

fun walk_struct_tree :: "pdf \<Rightarrow> nat \<Rightarrow> val \<Rightarrow> issues \<Rightarrow> issues" where
  "walk_struct_tree d 0 elem i = i"
| "walk_struct_tree d (Suc n) elem i =
     (case as_dict d elem of
        None \<Rightarrow> i
      | Some a \<Rightarrow>
          (let i1 = note_element d a i
           in case get_at d a ''/K'' of
                None \<Rightarrow> i1
              | Some kids \<Rightarrow>
                  (case as_array d kids of
                     Some vs \<Rightarrow> fold (walk_struct_tree d n) vs i1
                   | None \<Rightarrow> walk_struct_tree d n kids i1)))"

section \<open>Images, fonts, form fields and links\<close>

text \<open>A page's resources of one kind: none, or what a loop over them sees.\<close>

definition page_resources :: "pdf \<Rightarrow> string \<Rightarrow> nat \<Rightarrow> exn + (string \<times> val) list" where
  "page_resources d kind page =
     (case get_entry d (VAt page) ''/Resources'' of
        Inl x \<Rightarrow> Inl x
      | Inr None \<Rightarrow> Inr []
      | Inr (Some resources) \<Rightarrow>
          (case get_entry d resources kind of
             Inl x \<Rightarrow> Inl x
           | Inr None \<Rightarrow> Inr []
           | Inr (Some v) \<Rightarrow> entries_of d v))"

text \<open>\<open>int(xobj.get(k, 0))\<close>.\<close>

definition int_entry :: "pdf \<Rightarrow> val \<Rightarrow> string \<Rightarrow> exn + int" where
  "int_entry d v k =
     (case get_entry d v k of Inl x \<Rightarrow> Inl x | Inr None \<Rightarrow> Inr 0 | Inr (Some n) \<Rightarrow> int_of_val n)"

definition substantive_image :: "pdf \<Rightarrow> val \<Rightarrow> bool" where
  "substantive_image d xobj =
     (str_of_entry d xobj ''/Subtype'' = Inr ''/Image'' \<and>
      (case (int_entry d xobj ''/Width'', int_entry d xobj ''/Height'') of
         (Inr w, Inr h) \<Rightarrow> IMAGE_MIN_SIZE \<le> w \<and> IMAGE_MIN_SIZE \<le> h
       | _ \<Rightarrow> False))"

fun count_images :: "pdf \<Rightarrow> nat list \<Rightarrow> nat \<Rightarrow> exn + nat" where
  "count_images d [] n = Inr n"
| "count_images d (p # ps) n =
     (case page_resources d ''/XObject'' p of
        Inl x \<Rightarrow> Inl x
      | Inr xobjects \<Rightarrow> count_images d ps (n + length (filter (\<lambda>(_, xobj). substantive_image d xobj) xobjects)))"

text \<open>One font of the loop: the base fonts seen so far and the unembedded ones.\<close>

definition note_font :: "pdf \<Rightarrow> string \<times> val \<Rightarrow> string set \<times> string list \<Rightarrow> string set \<times> string list" where
  "note_font d kf acc =
     (case (kf, acc) of ((font_key, font), (seen_bases, unembedded)) \<Rightarrow>
       (case get_entry d font ''/BaseFont'' of
          Inl _ \<Rightarrow> (seen_bases, unembedded)
        | Inr b \<Rightarrow>
            (let base = (case b of None \<Rightarrow> font_key | Some v \<Rightarrow> str_val v)
             in if base \<in> seen_bases then (seen_bases, unembedded)
                else (insert base seen_bases,
                      (if get_entry d font ''/FontDescriptor'' = Inr None
                          \<and> str_of_entry d font ''/Subtype'' \<in> {Inr ''/Type1'', Inr ''/TrueType''}
                          \<and> base \<notin> set BASE14_FONTS
                       then unembedded @ [base] else unembedded)))))"

text \<open>The loop over the pages; an exception keeps the list so far.\<close>

fun collect_fonts :: "pdf \<Rightarrow> nat list \<Rightarrow> string set \<times> string list \<Rightarrow> exn option \<times> string list" where
  "collect_fonts d [] acc = (None, snd acc)"
| "collect_fonts d (p # ps) acc =
     (case page_resources d ''/Font'' p of
        Inl x \<Rightarrow> (Some x, snd acc)
      | Inr fonts \<Rightarrow> collect_fonts d ps (fold (note_font d) fonts acc))"

text \<open>
  \<open>_count_fields\<close>: all fields and those without a tooltip.  The first argument is how many nested
  calls the interpreter's stack still takes; the call beyond it raises, and the item whose kids it was
  to count is passed over.
\<close>

definition note_field :: "pdf \<Rightarrow> val \<Rightarrow> nat \<times> nat \<Rightarrow> nat \<times> nat" where
  "note_field d fd c =
     (case get_entry d fd ''/T'' of
        Inr (Some _) \<Rightarrow>
          (case get_entry d fd ''/TU'' of
             Inr tu \<Rightarrow> (fst c + 1, snd c + (case tu of None \<Rightarrow> 1
                          | Some v \<Rightarrow> if \<not> truthy d v \<or> strip (str_val v) = '''' then 1 else 0))
           | Inl _ \<Rightarrow> (fst c + 1, snd c))
      | _ \<Rightarrow> c)"

fun count_fields :: "pdf \<Rightarrow> nat \<Rightarrow> val \<Rightarrow> nat \<times> nat \<Rightarrow> nat \<times> nat" where
  "count_fields d 0 fields_arr c = c"
| "count_fields d (Suc n) fields_arr c =
     (case as_array d fields_arr of
        None \<Rightarrow> c
      | Some items \<Rightarrow>
          fold (\<lambda>item c.
             case item_object d item of
               Inl _ \<Rightarrow> c
             | Inr fd \<Rightarrow>
                 (case get_entry d fd ''/Kids'' of
                    Inr (Some kids) \<Rightarrow>
                      if truthy d kids then count_fields d n kids (note_field d fd c) else note_field d fd c
                  | _ \<Rightarrow> note_field d fd c)) items c)"

definition assess_forms :: "pdf \<Rightarrow> nat \<Rightarrow> issues \<Rightarrow> exn option \<times> issues" where
  "assess_forms d stack i =
     (case get_at d (root_at d) ''/AcroForm'' of
        None \<Rightarrow> (None, i)
      | Some acro \<Rightarrow>
          (let i1 = i\<lparr>has_forms := True\<rparr>
           in case get_entry d acro ''/Fields'' of
                Inl x \<Rightarrow> (Some x, i1)
              | Inr found \<Rightarrow>
                  (let (total, missing) = (case found of None \<Rightarrow> (0, 0) | Some f \<Rightarrow> count_fields d (Suc stack) f (0, 0))
                   in (None, i1\<lparr>form_fields_count := total, form_fields_without_tooltips := missing\<rparr>))))"

definition note_annotation :: "pdf \<Rightarrow> val \<Rightarrow> string list \<Rightarrow> string list" where
  "note_annotation d annot links =
     (case as_dict d annot of
        None \<Rightarrow> links
      | Some a \<Rightarrow>
          if str_entry d a ''/Subtype'' = ''/Link'' then
            (let contents = strip (str_entry d a ''/Contents'')
             in if vague_link contents then links @ [contents] else links)
          else links)"

fun assess_links :: "pdf \<Rightarrow> nat list \<Rightarrow> issues \<Rightarrow> issues" where
  "assess_links d [] i = i"
| "assess_links d (p # ps) i =
     (case get_entry d (VAt p) ''/Annots'' of
        Inl _ \<Rightarrow> i
      | Inr None \<Rightarrow> assess_links d ps i
      | Inr (Some annots) \<Rightarrow>
          (case items_of d annots of
             Inl _ \<Rightarrow> i
           | Inr vs \<Rightarrow> assess_links d ps (i\<lparr>vague_links := fold (note_annotation d) vs (vague_links i)\<rparr>)))"

text \<open>The second \<open>try\<close> of \<open>_assess\<close>, phase after phase; \<open>stack\<close> as above.\<close>

definition assess_structure :: "nat \<Rightarrow> pdf \<Rightarrow> issues \<Rightarrow> issues" where
  "assess_structure stack d i =
     (let i1 = (case get_at d (root_at d) ''/StructTreeRoot'' of
                  None \<Rightarrow> i
                | Some tree \<Rightarrow> walk_struct_tree d 21 tree (i\<lparr>has_structure_tree := True\<rparr>))
      in case count_images d (page_list d) 0 of
           Inl _ \<Rightarrow> i1
         | Inr substantive_count \<Rightarrow>
             (let i2 = i1\<lparr>has_images := 0 < substantive_count\<rparr>;
                  (raised, unembedded) = collect_fonts d (page_list d) ({}, unembedded_fonts i2);
                  i3 = i2\<lparr>unembedded_fonts := unembedded\<rparr>
              in if raised \<noteq> None then i3
                 else case assess_forms d stack i3 of
                        (Some _, i4) \<Rightarrow> i4
                      | (None, i4) \<Rightarrow> assess_links d (page_list d) i4))"

definition assess :: "unicode \<Rightarrow> nat \<Rightarrow> text_reader option \<Rightarrow> pdf option \<Rightarrow> issues" where
  "assess u stack reader opened =
     (let i = assess_text u reader no_issues
      in case opened of None \<Rightarrow> i | Some d \<Rightarrow> assess_structure stack d i)"

section \<open>The score\<close>

text \<open>The arrow and the ellipsis of the messages, in UTF-8.\<close>

definition arrow :: string where "arrow = [CHR 0xE2, CHR 0x86, CHR 0x92]"
definition ellipsis :: string where "ellipsis = [CHR 0xE2, CHR 0x80, CHR 0xA6]"

text \<open>Deduct and add an item, if the check fails.\<close>

definition deduct :: "bool \<Rightarrow> string \<Rightarrow> string \<Rightarrow> int \<times> string list \<Rightarrow> int \<times> string list" where
  "deduct failed k item acc = (if failed then (fst acc - deduction k, snd acc @ [item]) else acc)"

fun grade_of :: "(int \<times> string) list \<Rightarrow> int \<Rightarrow> string" where
  "grade_of [] score = ''F''"
| "grade_of ((threshold, letter) # rest) score = (if threshold \<le> score then letter else grade_of rest score)"

definition font_list :: "string list \<Rightarrow> string" where
  "font_list unembedded = join '', '' (take 3 unembedded) @ (if 3 < length unembedded then ellipsis else '''')"

definition score_document :: "issues \<Rightarrow> nat \<Rightarrow> int \<times> string \<times> string list" where
  "score_document i pages =
     (let (score, manual_items) =
        (deduct (0 < tables_without_headers i) ''complex_tables''
           (str_nat (tables_without_headers i) @ '' table(s) still need header review: open in Acrobat Pro '' @ arrow @
            '' Tags panel '' @ arrow @ '' verify TH/TD structure and /Scope on header cells'') \<circ>
         deduct True ''color_contrast''
           (''Color contrast issue detected: confirm 4.5:1 minimum '' @
            ''ratio using Acrobat Accessibility Checker or the free Color Contrast Analyzer tool'') \<circ>
         deduct (vague_links i \<noteq> []) ''vague_hyperlinks''
           (''Vague hyperlink text detected: review links with text like 'click here', '' @
            '''here', or 'read more' '' @ [CHR 0xE2, CHR 0x80, CHR 0x94] @ '' replace with descriptive anchor text'') \<circ>
         deduct (unembedded_fonts i \<noteq> []) ''unembedded_fonts''
           (''Possibly unembedded fonts ('' @ font_list (unembedded_fonts i) @ ''): open in Acrobat Pro '' @ arrow @
            '' Tools '' @ arrow @ '' Print Production '' @ arrow @ '' Preflight '' @ arrow @ '' Embed fonts profile'') \<circ>
         deduct (\<not> has_bookmarks i \<and> 9 < pages) ''missing_bookmarks''
           (''No bookmarks on '' @ str_nat pages @ ''-page document: open in Acrobat Pro '' @ arrow @
            '' Tools '' @ arrow @ '' Edit PDF '' @ arrow @ '' Bookmarks '' @ arrow @ '' New Bookmark from Structure'') \<circ>
         deduct (\<not> has_headings i \<and> 10 < pages) ''missing_headings''
           (''No heading structure detected: open in Acrobat Pro '' @ arrow @
            '' Tags panel '' @ arrow @ '' re-tag content using H1/H2/H3 structure elements'') \<circ>
         deduct (0 < form_fields_without_tooltips i) ''form_no_tooltips''
           (str_nat (form_fields_without_tooltips i) @ '' form field(s) still missing tooltip text: open in Acrobat Pro '' @ arrow @
            '' Tools '' @ arrow @ '' Prepare Form '' @ arrow @ '' right-click each field '' @ arrow @ '' Properties '' @ arrow @ '' Tooltip'') \<circ>
         deduct (0 < images_without_alt i \<and> has_images i) ''missing_alt_text''
           (str_nat (images_without_alt i) @ '' image(s) still missing alt text: open in Acrobat Pro '' @ arrow @
            '' Tags panel '' @ arrow @ '' right-click each Figure element '' @ arrow @ '' Properties '' @ arrow @ '' Alt Text'') \<circ>
         deduct (\<not> has_text_layer i) ''no_text_layer''
           (''No text layer: open in Acrobat Pro '' @ arrow @ '' Tools '' @ arrow @ '' Scan & OCR '' @ arrow @
            '' Recognize Text '' @ arrow @ '' In This File'') \<circ>
         deduct (\<not> has_structure_tree i) ''no_structure_tree''
           (''Structure tree missing: open in Acrobat Pro '' @ arrow @ '' Tools '' @ arrow @
            '' Accessibility '' @ arrow @ '' Autotag Document (for full MCID tagging)''))
        (100, []);
          final = max 0 score
      in (final, grade_of GRADE_THRESHOLDS final, manual_items))"

text \<open>\<open>score\<close>: neither part raises, whatever the document.\<close>

definition score_pdf_file :: "unicode \<Rightarrow> nat \<Rightarrow> text_reader option \<Rightarrow> pdf option \<Rightarrow> ScoringResult" where
  "score_pdf_file u stack reader opened =
     (let i = assess u stack reader opened;
          (score, grade, manual_review_items) = score_document i (page_count i)
      in \<lparr>res_score = score, res_grade = grade, res_manual_review_items = manual_review_items\<rparr>)"

end
