(* ===== verification/Scoring_Theorems.thy ===== *)
theory Scoring_Theorems
  imports Scoring
begin

text \<open>
  What the score of \<^verbatim>\<open>remediation/adapters/scoring/pike_pdf.py\<close> says: it is 100 less the deductions
  of the checks that fail, the walk sees exactly the structure elements within twenty levels, and the
  issues it gathers are consistent with each other.
\<close>

section \<open>The score accounts for its checks\<close>

text \<open>The checks that fail, by the names of their deductions.\<close>

definition checks :: "issues \<Rightarrow> nat \<Rightarrow> (string \<times> bool) list" where
  "checks i pages = [
     (''no_structure_tree'', \<not> has_structure_tree i),
     (''no_text_layer'', \<not> has_text_layer i),
     (''missing_alt_text'', 0 < images_without_alt i \<and> has_images i),
     (''form_no_tooltips'', 0 < form_fields_without_tooltips i),
     (''missing_headings'', \<not> has_headings i \<and> 10 < pages),
     (''missing_bookmarks'', \<not> has_bookmarks i \<and> 9 < pages),
     (''unembedded_fonts'', unembedded_fonts i \<noteq> []),
     (''vague_hyperlinks'', vague_links i \<noteq> []),
     (''color_contrast'', True),
     (''complex_tables'', 0 < tables_without_headers i)]"

definition failed_checks :: "issues \<Rightarrow> nat \<Rightarrow> string list" where
  "failed_checks i pages = map fst (filter snd (checks i pages))"

lemma deduct_chain:
  "length ms = length ks \<Longrightarrow>
   fold (\<lambda>((k, failed), item). deduct failed k item) (zip ks ms) (s, ns) =
   (s - sum_list (map deduction (map fst (filter snd ks))), ns @ map snd (filter (\<lambda>x. snd (fst x)) (zip ks ms)))"
proof (induction ks arbitrary: ms s ns)
  case (Cons k ks)
  then obtain m ms' where "ms = m # ms'" "length ms' = length ks" by (cases ms) auto
  with Cons.IH [of ms'] show ?case by (cases k) (auto simp: deduct_def)
qed simp

lemma length_filter_zip: "length ms = length ks \<Longrightarrow> length (filter (\<lambda>x. P (fst x)) (zip ks ms)) = length (filter P ks)"
proof (induction ks arbitrary: ms)
  case (Cons k ks)
  then show ?case by (cases ms) auto
qed simp

lemma sum_filter_le:
  fixes f :: "'a \<Rightarrow> int"
  shows "\<forall>x \<in> set xs. 0 \<le> f x \<Longrightarrow> sum_list (map f (filter P xs)) \<le> sum_list (map f xs)"
  by (induction xs) auto

lemma deduct_ten:
  "(deduct c10 ''complex_tables'' m10 \<circ>
    deduct c9 ''color_contrast'' m9 \<circ>
    deduct c8 ''vague_hyperlinks'' m8 \<circ>
    deduct c7 ''unembedded_fonts'' m7 \<circ>
    deduct c6 ''missing_bookmarks'' m6 \<circ>
    deduct c5 ''missing_headings'' m5 \<circ>
    deduct c4 ''form_no_tooltips'' m4 \<circ>
    deduct c3 ''missing_alt_text'' m3 \<circ>
    deduct c2 ''no_text_layer'' m2 \<circ>
    deduct c1 ''no_structure_tree'' m1) acc =
   fold (\<lambda>((k, failed), item). deduct failed k item) (zip [
      (''no_structure_tree'', c1),
      (''no_text_layer'', c2),
      (''missing_alt_text'', c3),
      (''form_no_tooltips'', c4),
      (''missing_headings'', c5),
      (''missing_bookmarks'', c6),
      (''unembedded_fonts'', c7),
      (''vague_hyperlinks'', c8),
      (''color_contrast'', c9),
      (''complex_tables'', c10)] [m1, m2, m3, m4, m5, m6, m7, m8, m9, m10]) acc"
  by simp

lemma score_document_checks:
  "\<exists>ms. length ms = length (failed_checks i pages) \<and>
     score_document i pages =
      (let s = max 0 (100 - sum_list (map deduction (failed_checks i pages))) in (s, grade_of GRADE_THRESHOLDS s, ms))"
proof -
  have "\<exists>ms. length ms = length (checks i pages) \<and> score_document i pages =
      (let (score, manual_items) = fold (\<lambda>((k, failed), item). deduct failed k item) (zip (checks i pages) ms) (100, []);
           final = max 0 score
       in (final, grade_of GRADE_THRESHOLDS final, manual_items))"
    unfolding score_document_def deduct_ten checks_def by (rule exI, rule conjI [rotated], rule refl) simp
  then obtain ms where ms: "length ms = length (checks i pages)"
    and score: "score_document i pages =
      (let (score, manual_items) = fold (\<lambda>((k, failed), item). deduct failed k item) (zip (checks i pages) ms) (100, []);
           final = max 0 score
       in (final, grade_of GRADE_THRESHOLDS final, manual_items))" by blast
  show ?thesis
    unfolding score deduct_chain [OF ms] failed_checks_def using length_filter_zip [OF ms, of snd]
    by (simp add: Let_def exI [of _ "map snd (filter (\<lambda>x. snd (fst x)) (zip (checks i pages) ms))"])
qed

lemma deduction_values:
  "\<forall>k \<in> set (map fst (checks i pages)). 0 \<le> deduction k"
  "sum_list (map deduction (map fst (checks i pages))) = 97"
  unfolding checks_def list.map fst_conv by code_simp+

lemma deduction_color_contrast: "deduction ''color_contrast'' = 5"
  by code_simp

lemma failed_checks_bounds:
  "5 \<le> sum_list (map deduction (failed_checks i pages))" "sum_list (map deduction (failed_checks i pages)) \<le> 97"
proof -
  have nonneg: "\<forall>x \<in> set (checks i pages). 0 \<le> (deduction \<circ> fst) x" using deduction_values(1) by auto
  have "map deduction (failed_checks i pages) = map (deduction \<circ> fst) (filter snd (checks i pages))"
    by (simp add: failed_checks_def)
  with sum_filter_le [OF nonneg, of snd] deduction_values(2) [of i pages]
  show "sum_list (map deduction (failed_checks i pages)) \<le> 97" by (simp add: comp_def)
  have "(''color_contrast'', True) \<in> set (checks i pages)" by (simp add: checks_def)
  then have "''color_contrast'' \<in> set (failed_checks i pages)" by (force simp: failed_checks_def)
  moreover have "\<forall>x \<in> set (map deduction (failed_checks i pages)). 0 \<le> x"
    using deduction_values(1) [of i pages] by (auto simp: failed_checks_def)
  ultimately have "deduction ''color_contrast'' \<le> sum_list (map deduction (failed_checks i pages))"
    by (intro member_le_sum_list) auto
  then show "5 \<le> sum_list (map deduction (failed_checks i pages))" by (simp add: deduction_color_contrast)
qed

lemma distinct_failed_checks: "distinct (failed_checks i pages)"
proof -
  have "distinct (map fst (checks i pages))" unfolding checks_def list.map fst_conv by code_simp
  then show ?thesis by (simp add: failed_checks_def distinct_map_filter)
qed

lemma score_of_checks:
  "case score_document i pages of (score, grade, items) \<Rightarrow>
     score = 100 - sum_list (map deduction (failed_checks i pages)) \<and> 3 \<le> score \<and> score \<le> 95 \<and>
     length items = length (failed_checks i pages) \<and>
     grade = (if 90 \<le> score then ''A'' else if 75 \<le> score then ''B'' else if 60 \<le> score then ''C''
              else if 40 \<le> score then ''D'' else ''F'')"
proof -
  obtain ms where ms: "length ms = length (failed_checks i pages)" "score_document i pages =
      (let s = max 0 (100 - sum_list (map deduction (failed_checks i pages))) in (s, grade_of GRADE_THRESHOLDS s, ms))"
    using score_document_checks by blast
  have "max 0 (100 - sum_list (map deduction (failed_checks i pages))) = 100 - sum_list (map deduction (failed_checks i pages))"
    using failed_checks_bounds(2) [of i pages] by simp
  then show ?thesis
    using ms failed_checks_bounds [of i pages] by (simp add: Let_def GRADE_THRESHOLDS_def)
qed

text \<open>Clearing checks never lowers the score.\<close>

lemma clearing_checks_raises_the_score:
  assumes "set (failed_checks j q) \<subseteq> set (failed_checks i p)"
  shows "fst (score_document i p) \<le> fst (score_document j q)"
proof -
  have "sum_list (map deduction (failed_checks j q)) \<le> sum_list (map deduction (failed_checks i p))"
    unfolding sum_list_distinct_conv_sum_set [OF distinct_failed_checks]
    using assms deduction_values(1) [of i p] by (intro sum_mono2) (auto simp: failed_checks_def)
  with score_of_checks [of i p] score_of_checks [of j q] show ?thesis by auto
qed

text \<open>The score is 100 less the deductions of the checks that fail, with one review item for each.
  It always lies between 3 and 95 (the clamp at 0 never bites, and since the contrast check always
  fails no document scores more), and the grade is the one of its threshold.\<close>

theorem score_accounts_for_its_checks:
  "case score_document i pages of (score, grade, items) \<Rightarrow>
     score = 100 - sum_list (map deduction (failed_checks i pages)) \<and> 3 \<le> score \<and> score \<le> 95 \<and>
     length items = length (failed_checks i pages) \<and>
     grade = (if 90 \<le> score then ''A'' else if 75 \<le> score then ''B'' else if 60 \<le> score then ''C''
              else if 40 \<le> score then ''D'' else ''F'')"
  by (rule score_of_checks)

section \<open>The walk sees the tree\<close>

text \<open>The structure elements the walk comes by, in its order.\<close>

fun visited :: "pdf \<Rightarrow> nat \<Rightarrow> val \<Rightarrow> nat list" where
  "visited d 0 elem = []"
| "visited d (Suc n) elem =
     (case as_dict d elem of None \<Rightarrow> [] | Some a \<Rightarrow> a # concat (map (visited d n) (kids_at d a)))"

lemma fold_concat_map: "fold (\<lambda>v. fold f (g v)) vs i = fold f (concat (map g vs)) i"
  by (induction vs arbitrary: i) auto

lemma walk_is_visit: "walk_struct_tree d n elem i = fold (note_element d) (visited d n elem) i"
proof (induction n arbitrary: elem i)
  case (Suc n)
  have ih: "walk_struct_tree d n = (\<lambda>v. fold (note_element d) (visited d n v))" using Suc.IH by blast
  show ?case by (simp add: ih fold_concat_map kids_at_def Let_def split: option.split)
qed simp

text \<open>A structure element and one of its kids.\<close>

definition kid_element :: "pdf \<Rightarrow> nat \<Rightarrow> nat \<Rightarrow> bool" where
  "kid_element d a b \<longleftrightarrow> (\<exists>v \<in> set (kids_at d a). as_dict d v = Some b)"

lemma as_dict_at: "as_dict d v = Some a \<Longrightarrow> v = VAt a \<and> dict_at d a \<noteq> None"
  by (cases v) (auto split: if_splits)

lemma visited_within:
  "as_dict d elem = Some a \<Longrightarrow> set (visited d n elem) = {b. \<exists>k < n. (kid_element d ^^ k) a b}"
proof (induction n arbitrary: elem a)
  case (Suc n)
  have "set (visited d (Suc n) elem) = insert a (\<Union>v \<in> set (kids_at d a). set (visited d n v))" using Suc.prems by simp
  also have "(\<Union>v \<in> set (kids_at d a). set (visited d n v)) = {b. \<exists>k < n. (kid_element d ^^ Suc k) a b}"
  proof (intro set_eqI iffI)
    fix b assume "b \<in> (\<Union>v \<in> set (kids_at d a). set (visited d n v))"
    then obtain v where v: "v \<in> set (kids_at d a)" "b \<in> set (visited d n v)" by blast
    from v(2) obtain c where c: "as_dict d v = Some c" by (cases n; cases "as_dict d v") auto
    with v Suc.IH obtain k where "k < n" "(kid_element d ^^ k) c b" by blast
    moreover have "kid_element d a c" using v(1) c by (auto simp: kid_element_def)
    ultimately show "b \<in> {b. \<exists>k < n. (kid_element d ^^ Suc k) a b}" by (blast intro: relpowp_Suc_I2)
  next
    fix b assume "b \<in> {b. \<exists>k < n. (kid_element d ^^ Suc k) a b}"
    then obtain k c where "k < n" "kid_element d a c" "(kid_element d ^^ k) c b" by (blast elim: relpowp_Suc_E2)
    then show "b \<in> (\<Union>v \<in> set (kids_at d a). set (visited d n v))"
      using Suc.IH by (fastforce simp: kid_element_def)
  qed
  also have "insert a \<dots> = {b. \<exists>k < Suc n. (kid_element d ^^ k) a b}"
    by (auto simp: less_Suc_eq_0_disj simp del: relpowp.simps(2))
  finally show ?case .
qed simp

lemma note_element_fields:
  "images_without_alt (note_element d a i) =
     images_without_alt i + (if str_entry d a ''/S'' = ''/Figure'' \<and> lacks_alt d a then 1 else 0)"
  "tables_without_headers (note_element d a i) =
     tables_without_headers i + (if str_entry d a ''/S'' = ''/Table'' \<and> table_lacks_headers d a then 1 else 0)"
  "has_headings (note_element d a i) \<longleftrightarrow> has_headings i \<or> str_entry d a ''/S'' \<in> set heading_types"
  "has_tables (note_element d a i) \<longleftrightarrow> has_tables i \<or> str_entry d a ''/S'' = ''/Table''"
  by (simp_all add: note_element_def Let_def heading_types_def)

lemma note_elements_fields:
  "images_without_alt (fold (note_element d) as i) =
     images_without_alt i + length (filter (\<lambda>a. str_entry d a ''/S'' = ''/Figure'' \<and> lacks_alt d a) as)"
  "tables_without_headers (fold (note_element d) as i) =
     tables_without_headers i + length (filter (\<lambda>a. str_entry d a ''/S'' = ''/Table'' \<and> table_lacks_headers d a) as)"
  "has_headings (fold (note_element d) as i) \<longleftrightarrow>
     has_headings i \<or> (\<exists>a \<in> set as. str_entry d a ''/S'' \<in> set heading_types)"
  "has_tables (fold (note_element d) as i) \<longleftrightarrow> has_tables i \<or> (\<exists>a \<in> set as. str_entry d a ''/S'' = ''/Table'')"
  by (induction as arbitrary: i) (simp_all add: note_element_fields)

lemma walk_within:
  assumes "as_dict d tree = Some root"
  shows "set (visited d 21 tree) = {b. \<exists>k \<le> 20. (kid_element d ^^ k) root b}"
    and "has_headings (walk_struct_tree d 21 tree i) \<longleftrightarrow>
      has_headings i \<or> (\<exists>b. (\<exists>k \<le> 20. (kid_element d ^^ k) root b) \<and> str_entry d b ''/S'' \<in> set heading_types)"
    and "has_tables (walk_struct_tree d 21 tree i) \<longleftrightarrow>
      has_tables i \<or> (\<exists>b. (\<exists>k \<le> 20. (kid_element d ^^ k) root b) \<and> str_entry d b ''/S'' = ''/Table'')"
    and "images_without_alt (walk_struct_tree d 21 tree i) = images_without_alt i +
      length (filter (\<lambda>a. str_entry d a ''/S'' = ''/Figure'' \<and> lacks_alt d a) (visited d 21 tree))"
    and "tables_without_headers (walk_struct_tree d 21 tree i) = tables_without_headers i +
      length (filter (\<lambda>a. str_entry d a ''/S'' = ''/Table'' \<and> table_lacks_headers d a) (visited d 21 tree))"
proof -
  have "set (visited d 21 tree) = {b. \<exists>k < 21. (kid_element d ^^ k) root b}" by (rule visited_within [OF assms])
  also have "\<dots> = {b. \<exists>k \<le> 20. (kid_element d ^^ k) root b}"
  proof -
    have "k < 21 \<longleftrightarrow> k \<le> 20" for k :: nat by linarith
    then show ?thesis by (simp only:)
  qed
  finally show s: "set (visited d 21 tree) = {b. \<exists>k \<le> 20. (kid_element d ^^ k) root b}" .
  show "has_headings (walk_struct_tree d 21 tree i) \<longleftrightarrow>
      has_headings i \<or> (\<exists>b. (\<exists>k \<le> 20. (kid_element d ^^ k) root b) \<and> str_entry d b ''/S'' \<in> set heading_types)"
    unfolding walk_is_visit note_elements_fields s by blast
  show "has_tables (walk_struct_tree d 21 tree i) \<longleftrightarrow>
      has_tables i \<or> (\<exists>b. (\<exists>k \<le> 20. (kid_element d ^^ k) root b) \<and> str_entry d b ''/S'' = ''/Table'')"
    unfolding walk_is_visit note_elements_fields s by blast
qed (simp_all only: walk_is_visit note_elements_fields)

text \<open>The walk over the structure tree sees exactly the elements within twenty levels of the root.
  A heading or a table counts when one of them is one; every figure among them with blank alternate
  text, and every table of two rows or more with no header cell in its first row, is counted as often
  as the walk comes by it.\<close>

theorem walk_sees_twenty_levels:
  assumes "as_dict d tree = Some root"
  shows "(set (visited d 21 tree) = {b. \<exists>k \<le> 20. (kid_element d ^^ k) root b}) \<and>
     (has_headings (walk_struct_tree d 21 tree i) \<longleftrightarrow>
      has_headings i \<or> (\<exists>b. (\<exists>k \<le> 20. (kid_element d ^^ k) root b) \<and> str_entry d b ''/S'' \<in> set heading_types)) \<and>
     (has_tables (walk_struct_tree d 21 tree i) \<longleftrightarrow>
      has_tables i \<or> (\<exists>b. (\<exists>k \<le> 20. (kid_element d ^^ k) root b) \<and> str_entry d b ''/S'' = ''/Table'')) \<and>
     (images_without_alt (walk_struct_tree d 21 tree i) = images_without_alt i +
      length (filter (\<lambda>a. str_entry d a ''/S'' = ''/Figure'' \<and> lacks_alt d a) (visited d 21 tree))) \<and>
     (tables_without_headers (walk_struct_tree d 21 tree i) = tables_without_headers i +
      length (filter (\<lambda>a. str_entry d a ''/S'' = ''/Table'' \<and> table_lacks_headers d a) (visited d 21 tree)))"
  using walk_within [OF assms] by (intro conjI)

definition demo_tagged_pdf :: pdf where
  "demo_tagged_pdf = \<lparr>heap = map_of [(0, NDict [(''/StructTreeRoot'', VAt 5)]), (5, NDict [(''/K'', VAt 2)]),
       (2, NArray [VAt 3, VAt 4]), (3, NDict [(''/S'', VName ''/H1'')]), (4, NDict [(''/S'', VName ''/Figure'')])],
     object_number = (\<lambda>a. if a < 6 then Suc a else 0), root_at = 0, page_list = [], free_at = 6, free_number = 7\<rparr>"

lemma demo_visited: "visited demo_tagged_pdf 21 (VAt 5) = [5, 3, 4]"
  by (simp add: numeral_eq_Suc demo_tagged_pdf_def kids_at_def get_at_def dict_at_def entry_def)

theorem walk_sees_twenty_levels_witness:
  "has_headings (walk_struct_tree demo_tagged_pdf 21 (VAt 5) no_issues) \<and>
   images_without_alt (walk_struct_tree demo_tagged_pdf 21 (VAt 5) no_issues) = 1"
proof -
  have root: "as_dict demo_tagged_pdf (VAt 5) = Some 5" by (simp add: demo_tagged_pdf_def dict_at_def)
  note w = walk_sees_twenty_levels [OF root, of no_issues]
  have s: "str_entry demo_tagged_pdf 3 ''/S'' = ''/H1''" "str_entry demo_tagged_pdf 4 ''/S'' = ''/Figure''"
    "str_entry demo_tagged_pdf 5 ''/S'' = ''''" "lacks_alt demo_tagged_pdf 4"
    by (simp_all add: demo_tagged_pdf_def str_entry_def get_at_def dict_at_def entry_def lacks_alt_def)
  have "images_without_alt no_issues = 0" by (simp add: no_issues_def)
  moreover have "length (filter (\<lambda>a. str_entry demo_tagged_pdf a ''/S'' = ''/Figure'' \<and> lacks_alt demo_tagged_pdf a)
      (visited demo_tagged_pdf 21 (VAt 5))) = 1" by (simp add: demo_visited s)
  ultimately have "images_without_alt (walk_struct_tree demo_tagged_pdf 21 (VAt 5) no_issues) = 1"
    using w by linarith
  moreover have "3 \<in> set (visited demo_tagged_pdf 21 (VAt 5))" by (simp add: demo_visited)
  moreover have "str_entry demo_tagged_pdf 3 ''/S'' \<in> set heading_types" by (simp add: s heading_types_def)
  ultimately show ?thesis using w by blast
qed

section \<open>The issues are consistent\<close>

definition issues_ok :: "issues \<Rightarrow> bool" where
  "issues_ok i \<longleftrightarrow>
     form_fields_without_tooltips i \<le> form_fields_count i \<and>
     (form_fields_count i = 0 \<or> has_forms i) \<and>
     (tables_without_headers i = 0 \<or> has_tables i) \<and>
     (images_without_alt i = 0 \<or> has_structure_tree i) \<and> (has_tables i \<longrightarrow> has_structure_tree i) \<and>
     distinct (unembedded_fonts i) \<and> set (unembedded_fonts i) \<inter> set BASE14_FONTS = {} \<and>
     list_all vague_link (vague_links i)"

lemma no_issues_ok: "issues_ok no_issues"
  by (simp add: issues_ok_def no_issues_def)

lemma assess_text_ok: "issues_ok i \<Longrightarrow> issues_ok (assess_text u reader i)"
  by (simp add: assess_text_def issues_ok_def Let_def split: option.split)

lemma note_element_ok: "issues_ok i \<and> has_structure_tree i \<Longrightarrow> issues_ok (note_element d a i) \<and> has_structure_tree (note_element d a i)"
  by (simp add: note_element_def issues_ok_def Let_def)

lemma walk_ok: "issues_ok i \<and> has_structure_tree i \<Longrightarrow> issues_ok (walk_struct_tree d n tree i)"
proof -
  have "issues_ok i \<and> has_structure_tree i \<Longrightarrow>
      issues_ok (fold (note_element d) as i) \<and> has_structure_tree (fold (note_element d) as i)" for as
    by (induction as arbitrary: i) (simp_all add: note_element_ok)
  then show "issues_ok i \<and> has_structure_tree i \<Longrightarrow> issues_ok (walk_struct_tree d n tree i)"
    by (simp add: walk_is_visit)
qed

definition fonts_ok :: "string set \<times> string list \<Rightarrow> bool" where
  "fonts_ok acc \<longleftrightarrow> distinct (snd acc) \<and> set (snd acc) \<subseteq> fst acc \<and> set (snd acc) \<inter> set BASE14_FONTS = {}"

lemma note_font_ok: "fonts_ok acc \<Longrightarrow> fonts_ok (note_font d kf acc)"
  by (auto simp: fonts_ok_def note_font_def Let_def split: prod.split sum.split)

lemma collect_fonts_ok:
  "fonts_ok acc \<Longrightarrow> collect_fonts d ps acc = (raised, fs) \<Longrightarrow> distinct fs \<and> set fs \<inter> set BASE14_FONTS = {}"
proof (induction d ps acc rule: collect_fonts.induct)
  case (2 d p ps acc)
  have "fonts_ok (fold (note_font d) fonts acc)" for fonts
    using 2(2) by (induction fonts arbitrary: acc) (simp_all add: note_font_ok)
  with 2 show ?case by (cases "page_resources d ''/Font'' p") (auto simp: fonts_ok_def)
qed (auto simp: fonts_ok_def)

lemma count_fields_ok: "snd c \<le> fst c \<Longrightarrow> snd (count_fields d n f c) \<le> fst (count_fields d n f c)"
proof (induction n arbitrary: f c)
  case (Suc n)
  have kept: "snd c \<le> fst c \<Longrightarrow> snd (note_field d fd c) \<le> fst (note_field d fd c)" for fd c
    by (auto simp: note_field_def split: sum.split option.split)
  have step: "snd c \<le> fst c \<Longrightarrow> snd (fold g vs c) \<le> fst (fold g vs c)"
    if "\<And>v c. snd c \<le> fst c \<Longrightarrow> snd (g v c) \<le> fst (g v c)" for g :: "val \<Rightarrow> nat \<times> nat \<Rightarrow> nat \<times> nat" and vs c
    using that by (induction vs arbitrary: c) simp_all
  show ?case
    using Suc.prems by (auto simp: Suc.IH kept split: option.split sum.split intro!: step)
qed simp

lemma note_annotation_ok: "list_all vague_link ls \<Longrightarrow> list_all vague_link (fold (note_annotation d) vs ls)"
  by (induction vs arbitrary: ls) (simp_all add: note_annotation_def Let_def split: option.split)

lemma assess_links_ok: "issues_ok i \<Longrightarrow> issues_ok (assess_links d ps i)"
  by (induction d ps i rule: assess_links.induct)
    (auto simp: issues_ok_def note_annotation_ok split: sum.split option.split)

lemma assess_forms_ok: "issues_ok i \<Longrightarrow> assess_forms d stack i = (raised, j) \<Longrightarrow> issues_ok j"
proof -
  have counted: "m \<le> t" if "(case found of None \<Rightarrow> (0, 0) | Some f \<Rightarrow> count_fields d (Suc stack) f (0, 0)) = (t, m)" for found t m
  proof (cases found)
    case (Some f)
    from count_fields_ok [of "(0, 0)" d "Suc stack" f] that Some show ?thesis by simp
  qed (use that in simp)
  assume ok: "issues_ok i" and res: "assess_forms d stack i = (raised, j)"
  consider "j = i" | "j = i\<lparr>has_forms := True\<rparr>"
    | found t m where "(case found of None \<Rightarrow> (0, 0) | Some f \<Rightarrow> count_fields d (Suc stack) f (0, 0)) = (t, m)"
      "j = i\<lparr>has_forms := True, form_fields_count := t, form_fields_without_tooltips := m\<rparr>"
  proof (cases "get_at d (root_at d) ''/AcroForm''")
    case None
    with res that(1) show thesis by (simp add: assess_forms_def)
  next
    case (Some acro)
    show thesis
    proof (cases "get_entry d acro ''/Fields''")
      case (Inl x)
      with Some res that(2) show thesis by (simp add: assess_forms_def)
    next
      case (Inr found)
      with Some res show thesis
        by (intro that(3) [OF surjective_pairing [of "case found of None \<Rightarrow> (0, 0) | Some f \<Rightarrow> count_fields d (Suc stack) f (0, 0)"]])
          (simp add: assess_forms_def Let_def case_prod_beta del: count_fields.simps)
    qed
  qed
  then show "issues_ok j"
  proof cases
    case 3
    with counted [OF 3(1)] ok show ?thesis by (simp add: issues_ok_def)
  qed (use ok in \<open>simp_all add: issues_ok_def\<close>)
qed

lemma assess_structure_ok:
  assumes "issues_ok i" and "unembedded_fonts i = []"
  shows "issues_ok (assess_structure stack d i)"
proof -
  define i1 where "i1 = (case get_at d (root_at d) ''/StructTreeRoot'' of
                  None \<Rightarrow> i
                | Some tree \<Rightarrow> walk_struct_tree d 21 tree (i\<lparr>has_structure_tree := True\<rparr>))"
  have ok1: "issues_ok i1" using assms(1) by (auto simp: i1_def issues_ok_def intro!: walk_ok [unfolded issues_ok_def] split: option.split)
  have fonts1: "unembedded_fonts i1 = []"
  proof -
    have "unembedded_fonts (fold (note_element d) as j) = unembedded_fonts j" for as j
      by (induction as arbitrary: j) (simp_all add: note_element_def Let_def)
    then show ?thesis using assms(2) by (simp add: i1_def walk_is_visit split: option.split)
  qed
  show ?thesis
  proof (cases "count_images d (page_list d) 0")
    case (Inl x)
    with ok1 show ?thesis by (simp add: assess_structure_def i1_def Let_def)
  next
    case (Inr n)
    obtain raised fs where f: "collect_fonts d (page_list d) ({}, []) = (raised, fs)" by fastforce
    have "fonts_ok ({}, [])" by (simp add: fonts_ok_def)
    from collect_fonts_ok [OF this f] have "distinct fs \<and> set fs \<inter> set BASE14_FONTS = {}" .
    with ok1 have ok3: "issues_ok (i1\<lparr>has_images := 0 < n, unembedded_fonts := fs\<rparr>)" by (simp add: issues_ok_def)
    obtain r4 i4 where i4: "assess_forms d stack (i1\<lparr>has_images := 0 < n, unembedded_fonts := fs\<rparr>) = (r4, i4)" by fastforce
    from assess_forms_ok [OF ok3 i4] have "issues_ok i4" .
    then show ?thesis
      using Inr f ok3 i4 fonts1 assess_links_ok unfolding assess_structure_def i1_def [symmetric]
      by (simp add: Let_def split: option.split)
  qed
qed

text \<open>Whatever the document, even one that makes a part of the assessment raise, the issues it ends
  with are consistent: no more fields without tooltips than fields, fields only with forms, tables and
  figures only with a structure tree, every unembedded font named once and none of the base 14, every
  vague link a vague text.\<close>

theorem assessment_is_consistent: "issues_ok (assess u stack reader opened)"
proof -
  have "unembedded_fonts (assess_text u reader no_issues) = []"
    by (simp add: assess_text_def no_issues_def Let_def split: option.split)
  then show ?thesis
    by (simp add: assess_def Let_def assess_structure_ok assess_text_ok no_issues_ok split: option.split)
qed

end
