(* ===== verification/Link_Theorems.thy ===== *)
theory Link_Theorems
  imports Link_Tagging
begin

text \<open>
  What the link repair does to the structure tree: no element loses a kid, every link annotation is
  referenced afterwards, and repairing again changes nothing.
\<close>

section \<open>The tree only grows\<close>

definition tree_grows :: "pdf \<Rightarrow> pdf \<Rightarrow> bool" where
  "tree_grows d d' \<longleftrightarrow>
     (\<forall>a. dict_at d a \<noteq> None \<longrightarrow> dict_at d' a \<noteq> None \<and> object_number d' a = object_number d a \<and>
        set (kids_at d a) \<subseteq> set (kids_at d' a) \<and> (\<forall>j. j \<noteq> ''/K'' \<longrightarrow> get_at d' a j = get_at d a j))"

lemma tree_grows_refl [simp]: "tree_grows d d"
  by (simp add: tree_grows_def)

lemma tree_grows_trans: "tree_grows d d1 \<Longrightarrow> tree_grows d1 d2 \<Longrightarrow> tree_grows d d2"
  unfolding tree_grows_def by (simp add: subset_trans [of "set _"]) (meson subset_trans)

lemma as_dict_grows: "tree_grows d d' \<Longrightarrow> as_dict d v = Some a \<Longrightarrow> as_dict d' v = Some a"
  by (cases v) (auto simp: tree_grows_def split: if_splits)

lemma number_of_grows: "tree_grows d d' \<Longrightarrow> as_dict d v = Some a \<Longrightarrow> number_of d' v = number_of d v"
  by (cases v) (auto simp: tree_grows_def split: if_splits)

lemma as_dict_Some: "as_dict d v = Some a \<Longrightarrow> v = VAt a \<and> dict_at d a \<noteq> None"
  by (cases v) (auto split: if_splits)

text \<open>What one kid adds to the walk.\<close>

definition kid_tags :: "pdf \<Rightarrow> nat \<Rightarrow> val \<Rightarrow> nat set" where
  "kid_tags d n kid =
     (case as_dict d kid of
        None \<Rightarrow> {}
      | Some k \<Rightarrow>
          if str_entry d k ''/Type'' = ''/OBJR'' then
            (case get_at d k ''/Obj'' of
               None \<Rightarrow> {}
             | Some obj_ref \<Rightarrow> if as_dict d obj_ref = None then {} else {number_of d obj_ref})
          else collect_tagged d n kid)"

lemma collect_tagged_Suc:
  "as_dict d v = Some a \<Longrightarrow> collect_tagged d (Suc n) v = (\<Union>kid \<in> set (kids_at d a). kid_tags d n kid)"
  by (simp add: kid_tags_def)

lemma kid_tags_grows:
  assumes "tree_grows d d'" and "collect_tagged d n kid \<subseteq> collect_tagged d' n kid"
  shows "kid_tags d n kid \<subseteq> kid_tags d' n kid"
proof (cases "as_dict d kid")
  case (Some k)
  have k': "as_dict d' kid = Some k" by (rule as_dict_grows [OF assms(1) Some])
  have "dict_at d k \<noteq> None" using as_dict_Some [OF Some] by blast
  then have same: "str_entry d' k ''/Type'' = str_entry d k ''/Type''" "get_at d' k ''/Obj'' = get_at d k ''/Obj''"
    using assms(1) by (simp_all add: tree_grows_def str_entry_def)
  have "as_dict d' obj = Some b" "number_of d' obj = number_of d obj" if "as_dict d obj = Some b" for obj b
    using that as_dict_grows [OF assms(1)] number_of_grows [OF assms(1)] by blast+
  then show ?thesis using assms(2) by (auto simp: kid_tags_def Some k' same split: option.split)
qed (simp add: kid_tags_def)

lemma collect_grows: "tree_grows d d' \<Longrightarrow> collect_tagged d n v \<subseteq> collect_tagged d' n v"
proof (induction n arbitrary: v)
  case (Suc n)
  show ?case
  proof (cases "as_dict d v")
    case (Some a)
    have "set (kids_at d a) \<subseteq> set (kids_at d' a)"
      using Suc.prems as_dict_Some [OF Some] by (auto simp: tree_grows_def)
    moreover have "kid_tags d n kid \<subseteq> kid_tags d' n kid" for kid
      by (rule kid_tags_grows [OF Suc.prems Suc.IH [OF Suc.prems]])
    ultimately show ?thesis
      unfolding collect_tagged_Suc [OF Some] collect_tagged_Suc [OF as_dict_grows [OF Suc.prems Some]] by blast
  qed simp
qed simp

declare collect_tagged.simps(2) [simp del]

section \<open>What the repair writes\<close>

text \<open>New objects, and link elements (which have no subtype) appended to one array.\<close>

definition grown :: "val \<Rightarrow> pdf \<Rightarrow> pdf \<Rightarrow> bool" where
  "grown kids d d' \<longleftrightarrow> d' = d \<or>
     free_at d \<le> free_at d' \<and> page_list d' = page_list d \<and> root_at d' = root_at d \<and>
     (\<forall>a < free_at d. object_number d' a = object_number d a \<and> (kids \<noteq> VAt a \<longrightarrow> heap d' a = heap d a)) \<and>
     (\<exists>k vs ws. kids = VAt k \<and> heap d k = Some (NArray vs) \<and> heap d' k = Some (NArray (vs @ ws)) \<and>
        (\<forall>w \<in> set ws. \<exists>a kvs. w = VAt a \<and> heap d' a = Some (NDict kvs) \<and> entry kvs ''/Subtype'' = None))"

lemma grown_refl [simp]: "grown kids d d"
  by (simp add: grown_def)

lemma grown_trans:
  assumes ok: "pdf_ok d1" and one: "grown kids d d1" and two: "grown kids d1 d2"
  shows "grown kids d d2"
proof (cases "d1 = d \<or> d2 = d1")
  case True
  with one two show ?thesis by auto
next
  case False
  from one False obtain k vs ws where one': "free_at d \<le> free_at d1" "page_list d1 = page_list d" "root_at d1 = root_at d"
    "\<forall>a < free_at d. object_number d1 a = object_number d a \<and> (kids \<noteq> VAt a \<longrightarrow> heap d1 a = heap d a)"
    "kids = VAt k" "heap d k = Some (NArray vs)" "heap d1 k = Some (NArray (vs @ ws))"
    "\<forall>w \<in> set ws. \<exists>a kvs. w = VAt a \<and> heap d1 a = Some (NDict kvs) \<and> entry kvs ''/Subtype'' = None"
    unfolding grown_def by blast
  from two False one'(5,7) obtain us where two': "free_at d1 \<le> free_at d2" "page_list d2 = page_list d1" "root_at d2 = root_at d1"
    "\<forall>a < free_at d1. object_number d2 a = object_number d1 a \<and> (kids \<noteq> VAt a \<longrightarrow> heap d2 a = heap d1 a)"
    "heap d2 k = Some (NArray ((vs @ ws) @ us))"
    "\<forall>w \<in> set us. \<exists>a kvs. w = VAt a \<and> heap d2 a = Some (NDict kvs) \<and> entry kvs ''/Subtype'' = None"
    unfolding grown_def by auto
  have "\<exists>a kvs. w = VAt a \<and> heap d2 a = Some (NDict kvs) \<and> entry kvs ''/Subtype'' = None" if "w \<in> set ws" for w
  proof -
    from that one'(8) obtain a kvs where w: "w = VAt a" "heap d1 a = Some (NDict kvs)" "entry kvs ''/Subtype'' = None" by blast
    moreover have "a \<noteq> k" using w(2) one'(7) by auto
    moreover have "a < free_at d1" using heap_below [OF ok w(2)] by blast
    ultimately show ?thesis using two'(4) one'(5) by simp
  qed
  then have "\<forall>w \<in> set (ws @ us). \<exists>a kvs. w = VAt a \<and> heap d2 a = Some (NDict kvs) \<and> entry kvs ''/Subtype'' = None"
    using two'(6) by auto
  moreover have "heap d2 k = Some (NArray (vs @ (ws @ us)))" using two'(5) by simp
  moreover have "\<forall>a < free_at d. object_number d2 a = object_number d a \<and> (kids \<noteq> VAt a \<longrightarrow> heap d2 a = heap d a)"
    using one'(1,4) two'(4) by auto
  ultimately show ?thesis
    unfolding grown_def using one'(1-3,5,6) two'(1-3) by (intro disjI2) auto
qed

text \<open>What stays: every object but that array, and the array's items.\<close>

lemma grown_heap:
  assumes "grown kids d d'" and "pdf_ok d" and "heap d a = Some x"
  shows "object_number d' a = object_number d a \<and>
    (heap d' a = Some x \<or> (\<exists>vs ws. kids = VAt a \<and> x = NArray vs \<and> heap d' a = Some (NArray (vs @ ws)) \<and>
      (\<forall>w \<in> set ws. \<exists>a kvs. w = VAt a \<and> heap d' a = Some (NDict kvs) \<and> entry kvs ''/Subtype'' = None)))"
proof (cases "d' = d")
  case False
  have "a < free_at d" using heap_below [OF assms(2,3)] by blast
  with False assms(1,3) show ?thesis unfolding grown_def by (cases "kids = VAt a") auto
qed (use assms(3) in simp)

lemma grown_dict:
  assumes "grown kids d d'" and "pdf_ok d" and "dict_at d a \<noteq> None"
  shows "heap d' a = heap d a \<and> object_number d' a = object_number d a"
proof -
  from assms(3) obtain kvs where "heap d a = Some (NDict kvs)" by (auto simp: dict_at_def split: option.splits node.splits)
  with grown_heap [OF assms(1,2) this] show ?thesis by auto
qed

lemma grown_tree:
  assumes g: "grown kids d d'" and ok: "pdf_ok d"
  shows "tree_grows d d'"
  unfolding tree_grows_def
proof (intro allI impI)
  fix a assume a: "dict_at d a \<noteq> None"
  note same = grown_dict [OF g ok a]
  then have dict: "dict_at d' a = dict_at d a" and get: "get_at d' a = get_at d a"
    by (auto simp: dict_at_def get_at_def fun_eq_iff)
  have "set (kids_at d a) \<subseteq> set (kids_at d' a)"
  proof (cases "get_at d a ''/K''")
    case (Some v)
    show ?thesis
    proof (cases "as_array d v")
      case None
      have "as_array d' v = None"
      proof (cases v)
        case (VAt b)
        obtain kvs where "heap d a = Some (NDict kvs)" using a by (auto simp: dict_at_def split: option.splits node.splits)
        with Some VAt have "(''/K'', VAt b) \<in> set kvs"
          by (auto simp: get_at_def dict_at_def entry_def split: option.splits val.splits dest: map_of_SomeD)
        then have b: "b < free_at d" using heap_below [OF ok \<open>heap d a = Some (NDict kvs)\<close>] by fastforce
        show ?thesis
        proof (cases "heap d b")
          case (Some x)
          with grown_heap [OF g ok Some] None VAt show ?thesis by (auto split: node.splits)
        next
          case None
          then have "heap d' b = None" using g b unfolding grown_def by auto
          then show ?thesis by (simp add: VAt)
        qed
      qed simp_all
      with None Some show ?thesis by (simp add: kids_at_def get)
    next
      case (Some vs)
      then obtain b where b: "v = VAt b" "heap d b = Some (NArray vs)" by (cases v) (auto split: option.splits node.splits)
      from grown_heap [OF g ok b(2)] obtain ws where "heap d' b = Some (NArray (vs @ ws))"
        by (metis append_Nil2 node.inject(2))
      then show ?thesis using b \<open>get_at d a ''/K'' = Some v\<close> by (simp add: kids_at_def get)
    qed
  qed (simp add: kids_at_def)
  with dict get same a show "dict_at d' a \<noteq> None \<and> object_number d' a = object_number d a \<and>
        set (kids_at d a) \<subseteq> set (kids_at d' a) \<and> (\<forall>j. j \<noteq> ''/K'' \<longrightarrow> get_at d' a j = get_at d a j)" by simp
qed

section \<open>One link element\<close>

lemma add_link_step:
  assumes ok: "pdf_ok d" and below: "root < free_at d" "page < free_at d" "val_below (free_at d) annot" "val_below (free_at d) kids"
    and res: "add_link root kids page annot d = Inr d'"
  obtains k vs where "kids = VAt k" and "heap d k = Some (NArray vs)" and "pdf_ok d'" and "grown kids d d'"
    and "heap d' k = Some (NArray (vs @ [VAt (Suc (Suc (free_at d)))]))"
    and "heap d' (free_at d) = Some (NDict [(''/Type'', VName ''/OBJR''), (''/Pg'', VAt page), (''/Obj'', annot)])"
    and "heap d' (Suc (free_at d)) = Some (NArray [VAt (free_at d)])"
    and "heap d' (Suc (Suc (free_at d))) =
      Some (NDict [(''/S'', VName ''/Link''), (''/P'', VAt root), (''/Pg'', VAt page), (''/K'', VAt (Suc (free_at d)))])"
proof -
  let ?o = "free_at d"
  define d1 where "d1 = snd (new_direct (NDict [(''/Type'', VName ''/OBJR''), (''/Pg'', VAt page), (''/Obj'', annot)]) d)"
  define d2 where "d2 = snd (new_direct (NArray [VAt ?o]) d1)"
  define d3 where "d3 = snd (new_indirect (NDict [(''/S'', VName ''/Link''), (''/P'', VAt root), (''/Pg'', VAt page), (''/K'', VAt (Suc ?o))]) d2)"
  have free: "free_at d1 = Suc ?o" "free_at d2 = Suc (Suc ?o)" "free_at d3 = Suc (Suc (Suc ?o))"
    by (simp_all add: d1_def d2_def d3_def)
  have ok1: "pdf_ok d1" unfolding d1_def
    by (rule new_direct_ok [OF ok]) (use below in \<open>auto intro: val_below_mono\<close>)
  have ok2: "pdf_ok d2" unfolding d2_def by (rule new_direct_ok [OF ok1]) (simp add: free)
  have ok3: "pdf_ok d3" unfolding d3_def by (rule new_indirect_ok [OF ok2]) (use below in \<open>simp add: free\<close>)
  have d': "(case kids of VAt k \<Rightarrow> if as_array d3 kids = None then Inl (OtherException ''TypeError'')
      else Inr (append_item k (VAt (Suc (Suc ?o))) d3) | _ \<Rightarrow> Inl (OtherException ''AttributeError'')) = Inr d'"
  proof -
    have "new_direct (NDict [(''/Type'', VName ''/OBJR''), (''/Pg'', VAt page), (''/Obj'', annot)]) d = (?o, d1)"
      "new_direct (NArray [VAt ?o]) d1 = (Suc ?o, d2)"
      "new_indirect (NDict [(''/S'', VName ''/Link''), (''/P'', VAt root), (''/Pg'', VAt page), (''/K'', VAt (Suc ?o))]) d2 =
        (Suc (Suc ?o), d3)"
      by (simp_all add: prod_eq_iff d1_def d2_def d3_def)
    with res show ?thesis by (simp only: add_link_def Let_def prod.case)
  qed
  then obtain k where k: "kids = VAt k" "as_array d3 (VAt k) \<noteq> None" "d' = append_item k (VAt (Suc (Suc ?o))) d3"
    by (auto split: val.splits if_splits)
  have kb: "k < ?o" using below(4) k(1) by simp
  have heap3: "heap d3 = (heap d)(?o \<mapsto> NDict [(''/Type'', VName ''/OBJR''), (''/Pg'', VAt page), (''/Obj'', annot)],
      Suc ?o \<mapsto> NArray [VAt ?o],
      Suc (Suc ?o) \<mapsto> NDict [(''/S'', VName ''/Link''), (''/P'', VAt root), (''/Pg'', VAt page), (''/K'', VAt (Suc ?o))])"
    by (simp add: d3_def d2_def d1_def)
  have "heap d3 k = heap d k" using kb by (simp add: heap3)
  with k(2) obtain vs where vs: "heap d k = Some (NArray vs)" "heap d3 k = Some (NArray vs)"
    by (auto split: option.splits node.splits)
  have heap': "heap d' = (heap d3)(k \<mapsto> NArray (vs @ [VAt (Suc (Suc ?o))]))" using vs(2) by (simp add: k(3) append_item_def)
  have other: "free_at d' = Suc (Suc (Suc ?o))" "page_list d' = page_list d" "root_at d' = root_at d"
    "\<forall>a < ?o. object_number d' a = object_number d a"
    by (simp_all add: k(3) d3_def d2_def d1_def)
  have "grown kids d d'"
    unfolding grown_def other using other(4) kb vs(1)
    by (intro disjI2 conjI allI impI exI [of _ k] exI [of _ vs] exI [of _ "[VAt (Suc (Suc ?o))]"])
      (auto simp: heap' heap3 k(1) entry_def)
  moreover have "pdf_ok d'" unfolding k(3) by (rule append_item_ok [OF ok3]) (simp add: free)
  ultimately show thesis
    using that [OF k(1) vs(1)] kb by (simp add: heap' heap3)
qed

text \<open>The annotation is referenced then, and the number is its own.\<close>

lemma add_link_tags:
  assumes ok: "pdf_ok d" and below: "page < free_at d" "val_below (free_at d) annot"
    and root: "dict_at d root \<noteq> None" "get_at d root ''/K'' = Some kids"
    and dict: "as_dict d annot \<noteq> None" and res: "add_link root kids page annot d = Inr d'"
  shows "number_of d annot \<in> collect_tagged d' (Suc MAX_STRUCT_TREE_DEPTH) (VAt root)"
proof -
  obtain kvs where kvs: "heap d root = Some (NDict kvs)" using root(1) by (auto simp: dict_at_def split: option.splits node.splits)
  note rootb = heap_below [OF ok kvs]
  have "map_of kvs ''/K'' = Some kids" using root(2) kvs by (auto simp: get_at_def dict_at_def entry_def split: option.splits val.splits)
  then have kidsb: "val_below (free_at d) kids" using rootb by (auto dest!: map_of_SomeD)
  from add_link_step [OF ok _ below kidsb res] rootb obtain k vs where s: "kids = VAt k" "heap d k = Some (NArray vs)" "grown kids d d'"
    "heap d' k = Some (NArray (vs @ [VAt (Suc (Suc (free_at d)))]))"
    "heap d' (free_at d) = Some (NDict [(''/Type'', VName ''/OBJR''), (''/Pg'', VAt page), (''/Obj'', annot)])"
    "heap d' (Suc (free_at d)) = Some (NArray [VAt (free_at d)])"
    "heap d' (Suc (Suc (free_at d))) =
      Some (NDict [(''/S'', VName ''/Link''), (''/P'', VAt root), (''/Pg'', VAt page), (''/K'', VAt (Suc (free_at d)))])"
    by blast
  note grows = grown_tree [OF s(3) ok]
  from dict obtain b where b: "as_dict d annot = Some b" by blast
  have annot': "as_dict d' annot = Some b" "number_of d' annot = number_of d annot"
    using as_dict_grows [OF grows b] number_of_grows [OF grows b] by simp_all
  have "annot \<noteq> VNull" using b by auto
  let ?e = "VAt (Suc (Suc (free_at d)))"
  have inner: "kid_tags d' n (VAt (free_at d)) = {number_of d annot}" for n
    using annot' \<open>annot \<noteq> VNull\<close> s(5) by (cases annot) (simp_all add: kid_tags_def dict_at_def str_entry_def get_at_def entry_def)
  have elem: "as_dict d' ?e = Some (Suc (Suc (free_at d)))" using s(7) by (simp add: dict_at_def)
  have "kids_at d' (Suc (Suc (free_at d))) = [VAt (free_at d)]"
    using s(6,7) by (simp add: kids_at_def get_at_def dict_at_def entry_def)
  then have "collect_tagged d' (Suc n) ?e = {number_of d annot}" for n
    unfolding collect_tagged_Suc [OF elem] by (simp add: inner)
  moreover have "str_entry d' (Suc (Suc (free_at d))) ''/Type'' = ''''"
    using s(7) by (simp add: str_entry_def get_at_def dict_at_def entry_def)
  ultimately have "kid_tags d' (Suc n) ?e = {number_of d annot}" for n
    unfolding kid_tags_def elem by simp
  moreover have "kids_at d' root = vs @ [?e]"
    using grown_dict [OF s(3) ok root(1)] root(2) s(1,4) by (simp add: kids_at_def get_at_def dict_at_def)
  moreover have at: "as_dict d' (VAt root) = Some root" by (rule as_dict_grows [OF grows]) (use root(1) in simp)
  moreover have "kid_tags d' MAX_STRUCT_TREE_DEPTH ?e = {number_of d annot}"
    using \<open>\<And>n. kid_tags d' (Suc n) ?e = {number_of d annot}\<close> [of 29] by (simp add: MAX_STRUCT_TREE_DEPTH_def)
  ultimately show ?thesis
    unfolding collect_tagged_Suc [OF at] by simp
qed

section \<open>All annotations\<close>

definition is_link :: "pdf \<Rightarrow> val \<Rightarrow> bool" where
  "is_link d v \<longleftrightarrow> str_of_entry d v ''/Subtype'' = Inr ''/Link''"

text \<open>An annotation that the loop passes over.\<close>

definition settled :: "pdf \<Rightarrow> nat set \<Rightarrow> val \<Rightarrow> bool" where
  "settled d tagged v \<longleftrightarrow> (\<exists>s. str_of_entry d v ''/Subtype'' = Inr s \<and> (s = ''/Link'' \<longrightarrow> number_of d v \<in> tagged))"

lemma grown_val:
  assumes g: "grown kids d d'" and ok: "pdf_ok d" and below: "val_below (free_at d) v"
  shows "str_of_entry d' v j = str_of_entry d v j" and "as_dict d' v = as_dict d v" and "number_of d' v = number_of d v"
proof -
  have "str_of_entry d' v j = str_of_entry d v j \<and> as_dict d' v = as_dict d v \<and> number_of d' v = number_of d v"
  proof (cases v)
    case (VAt a)
    show ?thesis
    proof (cases "heap d a")
      case None
      with g below VAt have "heap d' a = None \<and> object_number d' a = object_number d a" unfolding grown_def by auto
      with None VAt show ?thesis by (simp add: str_of_entry_def dict_at_def)
    next
      case (Some x)
      from grown_heap [OF g ok Some] Some VAt show ?thesis by (auto simp: str_of_entry_def dict_at_def)
    qed
  qed (simp_all add: str_of_entry_def)
  then show "str_of_entry d' v j = str_of_entry d v j" "as_dict d' v = as_dict d v" "number_of d' v = number_of d v" by blast+
qed

lemma settled_grown:
  "settled d tagged v \<Longrightarrow> grown kids d d' \<Longrightarrow> pdf_ok d \<Longrightarrow> val_below (free_at d) v \<Longrightarrow> tagged \<subseteq> tagged' \<Longrightarrow> settled d' tagged' v"
  using grown_val by (auto simp: settled_def)

lemma grown_free: "grown kids d d' \<Longrightarrow> free_at d \<le> free_at d'"
  by (auto simp: grown_def)

text \<open>The root and its kids entry, as the loop finds and leaves them.\<close>

definition rooted :: "nat \<Rightarrow> val \<Rightarrow> pdf \<Rightarrow> bool" where
  "rooted root kids d \<longleftrightarrow> pdf_ok d \<and> dict_at d root \<noteq> None \<and> get_at d root ''/K'' = Some kids"

lemma rooted_below: "rooted root kids d \<Longrightarrow> root < free_at d \<and> val_below (free_at d) kids"
proof -
  assume r: "rooted root kids d"
  then obtain kvs where kvs: "heap d root = Some (NDict kvs)" "map_of kvs ''/K'' = Some kids"
    by (auto simp: rooted_def dict_at_def get_at_def entry_def split: option.splits node.splits val.splits)
  from r heap_below [OF _ kvs(1)] kvs(2) show ?thesis by (auto simp: rooted_def dest!: map_of_SomeD)
qed

lemma rooted_grown: "rooted root kids d \<Longrightarrow> grown kids d d' \<Longrightarrow> pdf_ok d' \<Longrightarrow> rooted root kids d'"
  using grown_dict [of kids d d' root] by (simp add: rooted_def dict_at_def get_at_def)

lemma tag_annotations_settle:
  assumes "rooted root kids d" and "page < free_at d"
    and "\<forall>v \<in> set annots. val_below (free_at d) v \<and> (is_link d v \<longrightarrow> as_dict d v \<noteq> None)"
    and "tagged \<subseteq> collect_tagged d (Suc MAX_STRUCT_TREE_DEPTH) (VAt root)"
    and "tag_annotations root kids page annots (tagged, d) = Inr (tagged', d')"
  shows "pdf_ok d' \<and> grown kids d d' \<and> tagged \<subseteq> tagged' \<and>
    tagged' \<subseteq> collect_tagged d' (Suc MAX_STRUCT_TREE_DEPTH) (VAt root) \<and> (\<forall>v \<in> set annots. settled d' tagged' v)"
  using assms
proof (induction annots arbitrary: tagged d)
  case Nil
  then show ?case by (simp add: rooted_def)
next
  case (Cons annot annots)
  have ok: "pdf_ok d" using Cons.prems(1) by (simp add: rooted_def)
  from Cons.prems(5) obtain s where s: "str_of_entry d annot ''/Subtype'' = Inr s" by (auto split: sum.splits)
  show ?case
  proof (cases "s \<noteq> ''/Link'' \<or> number_of d annot \<in> tagged")
    case True
    with Cons.prems(5) s have "tag_annotations root kids page annots (tagged, d) = Inr (tagged', d')" by simp
    with Cons.IH [of d tagged] Cons.prems(1-4) have ih: "pdf_ok d' \<and> grown kids d d' \<and> tagged \<subseteq> tagged' \<and>
      tagged' \<subseteq> collect_tagged d' (Suc MAX_STRUCT_TREE_DEPTH) (VAt root) \<and> (\<forall>v \<in> set annots. settled d' tagged' v)"
      by simp
    have "settled d tagged annot" using s True by (simp add: settled_def)
    with ih ok Cons.prems(3) have "settled d' tagged' annot" by (auto intro: settled_grown)
    with ih show ?thesis by simp
  next
    case False
    with Cons.prems(5) s obtain d1 where d1: "add_link root kids page annot d = Inr d1"
      "tag_annotations root kids page annots (insert (number_of d annot) tagged, d1) = Inr (tagged', d')"
      by (auto split: sum.splits)
    have annot: "val_below (free_at d) annot" "as_dict d annot \<noteq> None" using Cons.prems(3) False s by (auto simp: is_link_def)
    obtain ok1: "pdf_ok d1" and g1: "grown kids d d1"
      using add_link_step [OF ok _ Cons.prems(2) annot(1) _ d1(1)] rooted_below [OF Cons.prems(1)] by blast
    have tags: "insert (number_of d annot) tagged \<subseteq> collect_tagged d1 (Suc MAX_STRUCT_TREE_DEPTH) (VAt root)"
      using add_link_tags [OF ok Cons.prems(2) annot(1) _ _ annot(2) d1(1)] Cons.prems(1,4)
        collect_grows [OF grown_tree [OF g1 ok]] by (fastforce simp: rooted_def)
    have rest: "\<forall>v \<in> set annots. val_below (free_at d1) v \<and> (is_link d1 v \<longrightarrow> as_dict d1 v \<noteq> None)"
      using Cons.prems(3) grown_val [OF g1 ok] grown_free [OF g1] by (auto simp: is_link_def intro: val_below_mono)
    have ih: "pdf_ok d' \<and> grown kids d1 d' \<and> insert (number_of d annot) tagged \<subseteq> tagged' \<and>
      tagged' \<subseteq> collect_tagged d' (Suc MAX_STRUCT_TREE_DEPTH) (VAt root) \<and> (\<forall>v \<in> set annots. settled d' tagged' v)"
      by (rule Cons.IH [OF rooted_grown [OF Cons.prems(1) g1 ok1] _ rest tags d1(2)])
        (use Cons.prems(2) grown_free [OF g1] in simp)
    have "settled d1 (insert (number_of d annot) tagged) annot"
      using s grown_val [OF g1 ok annot(1)] by (simp add: settled_def)
    then have "settled d' tagged' annot"
      using ih ok1 annot(1) grown_free [OF g1] by (auto intro: settled_grown val_below_mono)
    moreover have "grown kids d d'" using grown_trans [OF ok1 g1] ih by blast
    ultimately show ?thesis using ih by simp
  qed
qed

text \<open>The annotations of a page, before and after.\<close>

lemma annotations_below:
  assumes "pdf_ok d" and "annotations d p = Inr vs"
  shows "\<forall>v \<in> set vs. val_below (free_at d) v"
proof (cases "vs = []")
  case False
  with assms(2) obtain a where "heap d a = Some (NArray vs)"
    by (auto simp: annotations_def split: sum.splits option.splits val.splits node.splits list.splits)
  with heap_below [OF assms(1) this] show ?thesis by simp
qed simp

lemma annotations_grown:
  assumes g: "grown kids d d'" and ok: "pdf_ok d" and vs: "annotations d p = Inr vs"
  shows "\<exists>ws. annotations d' p = Inr (vs @ ws) \<and> (\<forall>w \<in> set ws. str_of_entry d' w ''/Subtype'' = Inr '''')"
proof -
  obtain r where r: "get_entry d (VAt p) ''/Annots'' = Inr r"
    using vs by (auto simp: annotations_def split: sum.splits)
  then obtain x where x: "heap d p = Some x" "\<And>us. x \<noteq> NArray us" by (auto split: option.splits node.splits)
  have same: "get_entry d' (VAt p) ''/Annots'' = Inr r"
    using grown_heap [OF g ok x(1)] x(2) r x(1) by auto
  show ?thesis
  proof (cases r)
    case None
    with vs r same show ?thesis by (simp add: annotations_def)
  next
    case (Some w)
    from vs r Some obtain a y where a: "w = VAt a" "heap d a = Some y"
      by (auto simp: annotations_def split: val.splits option.splits)
    from grown_heap [OF g ok a(2)] consider "heap d' a = Some y"
      | us ws where "y = NArray us" "heap d' a = Some (NArray (us @ ws))"
        "\<forall>w \<in> set ws. \<exists>a kvs. w = VAt a \<and> heap d' a = Some (NDict kvs) \<and> entry kvs ''/Subtype'' = None" by blast
    then show ?thesis
    proof cases
      case 1
      with vs r same Some a show ?thesis by (intro exI [of _ "[]"]) (simp add: annotations_def)
    next
      case 2
      from 2(3) have "\<forall>w \<in> set ws. str_of_entry d' w ''/Subtype'' = Inr ''''" by (auto simp: str_of_entry_def)
      with 2 vs r same Some a show ?thesis by (intro exI [of _ ws]) (simp add: annotations_def)
    qed
  qed
qed

lemma grown_annotations_back:
  assumes g: "grown kids d d'" and ok: "pdf_ok d" and p: "p < free_at d" and us: "annotations d' p = Inr us"
  shows "\<exists>vs. annotations d p = Inr vs"
proof -
  have same: "get_entry d' (VAt p) k = get_entry d (VAt p) k" for k
  proof (cases "heap d p")
    case None
    with g p have "heap d' p = None" unfolding grown_def by auto
    with None show ?thesis by simp
  next
    case (Some x)
    from grown_heap [OF g ok Some] Some show ?thesis by auto
  qed
  obtain r where r: "get_entry d (VAt p) ''/Annots'' = Inr r"
    using us same by (auto simp: annotations_def split: sum.splits)
  show ?thesis
  proof (cases r)
    case (Some w)
    then obtain a where a: "w = VAt a"
      using us r same by (auto simp: annotations_def split: val.splits)
    obtain x kvs where "heap d p = Some x" "x = NDict kvs \<or> (\<exists>b. x = NStream kvs b)" "entry kvs ''/Annots'' = Some (VAt a)"
      using r Some a by (auto split: option.splits node.splits)
    then have below: "a < free_at d"
      using heap_below [OF ok, of p x] by (fastforce simp: entry_def dest: map_of_SomeD split: option.splits val.splits)
    show ?thesis
    proof (cases "heap d a")
      case None
      with g below have "heap d' a = None" unfolding grown_def by auto
      with us r same Some a show ?thesis by (simp add: annotations_def)
    next
      case (Some x)
      from grown_heap [OF g ok Some] us r same \<open>r = Some w\<close> a Some show ?thesis
        by (auto simp: annotations_def split: node.splits list.splits)
    qed
  qed (use r in \<open>simp add: annotations_def\<close>)
qed

definition links_are_dicts :: "pdf \<Rightarrow> bool" where
  "links_are_dicts d \<longleftrightarrow>
     (\<forall>p \<in> set (page_list d). \<forall>vs. annotations d p = Inr vs \<longrightarrow> (\<forall>v \<in> set vs. is_link d v \<longrightarrow> as_dict d v \<noteq> None))"

lemma tag_pages_settle:
  assumes "rooted root kids d" and "\<forall>p \<in> set ps. p < free_at d"
    and "\<forall>p \<in> set ps. \<forall>vs. annotations d p = Inr vs \<longrightarrow> (\<forall>v \<in> set vs. is_link d v \<longrightarrow> as_dict d v \<noteq> None)"
    and "tagged \<subseteq> collect_tagged d (Suc MAX_STRUCT_TREE_DEPTH) (VAt root)"
    and "tag_pages root kids ps (tagged, d) = Inr (tagged', d')"
  shows "pdf_ok d' \<and> grown kids d d' \<and> tagged \<subseteq> tagged' \<and>
    tagged' \<subseteq> collect_tagged d' (Suc MAX_STRUCT_TREE_DEPTH) (VAt root) \<and>
    (\<forall>p \<in> set ps. \<exists>vs. annotations d' p = Inr vs \<and> (\<forall>v \<in> set vs. settled d' tagged' v))"
  using assms
proof (induction ps arbitrary: tagged d)
  case Nil
  then show ?case by (auto simp: rooted_def)
next
  case (Cons p ps)
  have ok: "pdf_ok d" using Cons.prems(1) by (simp add: rooted_def)
  from Cons.prems(5) obtain vs tagged1 d1 where d1: "annotations d p = Inr vs"
    "tag_annotations root kids p vs (tagged, d) = Inr (tagged1, d1)" "tag_pages root kids ps (tagged1, d1) = Inr (tagged', d')"
    by (auto split: sum.splits)
  have one: "pdf_ok d1 \<and> grown kids d d1 \<and> tagged \<subseteq> tagged1 \<and>
    tagged1 \<subseteq> collect_tagged d1 (Suc MAX_STRUCT_TREE_DEPTH) (VAt root) \<and> (\<forall>v \<in> set vs. settled d1 tagged1 v)"
    by (rule tag_annotations_settle [OF Cons.prems(1) _ _ Cons.prems(4) d1(2)])
      (use Cons.prems(2,3) d1(1) annotations_below [OF ok d1(1)] in auto)
  then have ok1: "pdf_ok d1" and g1: "grown kids d d1" by blast+
  have dicts: "\<forall>p \<in> set ps. \<forall>vs. annotations d1 p = Inr vs \<longrightarrow> (\<forall>v \<in> set vs. is_link d1 v \<longrightarrow> as_dict d1 v \<noteq> None)"
  proof (intro ballI allI impI)
    fix q us v assume q: "q \<in> set ps" "annotations d1 q = Inr us" "v \<in> set us" "is_link d1 v"
    obtain ts where ts: "annotations d q = Inr ts"
      using q(2) grown_annotations_back [OF g1 ok] Cons.prems(2) q(1) by fastforce
    from annotations_grown [OF g1 ok ts] q(2) obtain ws where ws: "us = ts @ ws"
      "\<forall>w \<in> set ws. str_of_entry d1 w ''/Subtype'' = Inr ''''" by auto
    with q(3,4) have "v \<in> set ts" by (auto simp: is_link_def)
    with annotations_below [OF ok ts] have below: "val_below (free_at d) v" by blast
    show "as_dict d1 v \<noteq> None"
      using Cons.prems(3) q(1,4) ts \<open>v \<in> set ts\<close> grown_val [OF g1 ok below] by (auto simp: is_link_def)
  qed
  have ih: "pdf_ok d' \<and> grown kids d1 d' \<and> tagged1 \<subseteq> tagged' \<and>
    tagged' \<subseteq> collect_tagged d' (Suc MAX_STRUCT_TREE_DEPTH) (VAt root) \<and>
    (\<forall>p \<in> set ps. \<exists>vs. annotations d' p = Inr vs \<and> (\<forall>v \<in> set vs. settled d' tagged' v))"
    by (rule Cons.IH [OF rooted_grown [OF Cons.prems(1) g1 ok1] _ dicts _ d1(3)])
      (use one Cons.prems(2) grown_free [OF g1] in auto)
  have g: "grown kids d d'" using grown_trans [OF ok1 g1] ih by blast
  from annotations_grown [OF g ok d1(1)] obtain ws where ws: "annotations d' p = Inr (vs @ ws)"
    "\<forall>w \<in> set ws. str_of_entry d' w ''/Subtype'' = Inr ''''" by blast
  have "\<forall>v \<in> set (vs @ ws). settled d' tagged' v"
  proof
    fix v assume "v \<in> set (vs @ ws)"
    then consider "v \<in> set vs" | "v \<in> set ws" by auto
    then show "settled d' tagged' v"
    proof cases
      case 1
      with one annotations_below [OF ok d1(1)] have "settled d1 tagged1 v" "val_below (free_at d1) v"
        using grown_free [OF g1] by (auto intro: val_below_mono)
      with ih ok1 show ?thesis by (auto intro: settled_grown)
    next
      case 2
      with ws(2) show ?thesis by (simp add: settled_def)
    qed
  qed
  with ws(1) ih g one show ?case by auto
qed

section \<open>The root's kids\<close>

lemma kids_below:
  assumes "pdf_ok d" and "get_at d a j = Some v"
  shows "val_below (free_at d) v"
proof -
  from assms(2) obtain kvs where kvs: "heap d a = Some (NDict kvs)" "map_of kvs j = Some v"
    by (auto simp: get_at_def dict_at_def entry_def split: option.splits node.splits val.splits)
  from heap_below [OF assms(1) kvs(1)] kvs(2) show ?thesis by (auto dest!: map_of_SomeD)
qed

text \<open>The root with a new array as its kids: every other entry and object is as before.\<close>

lemma set_kids_effect:
  assumes ok: "pdf_ok d" and root: "heap d root = Some (NDict kvs)" "kvs \<noteq> []" and vs: "\<forall>v \<in> set vs. val_below (free_at d) v"
    and kids: "kids_at d root = vs"
    and d1: "d1 = set_entry root ''/K'' (VAt (free_at d)) (snd (new_direct (NArray vs) d))"
  shows "rooted root (VAt (free_at d)) d1" and "tree_grows d d1"
    and "p < free_at d \<Longrightarrow> annotations d1 p = annotations d p"
    and "val_below (free_at d) v \<Longrightarrow> str_of_entry d1 v ''/Subtype'' = str_of_entry d v ''/Subtype'' \<and> as_dict d1 v = as_dict d v"
    and "page_list d1 = page_list d \<and> root_at d1 = root_at d \<and> free_at d1 = Suc (free_at d)"
    and "j \<noteq> ''/K'' \<Longrightarrow> a < free_at d \<Longrightarrow> get_at d1 a j = get_at d a j"
proof -
  let ?o = "free_at d"
  have below: "root < ?o" using heap_below [OF ok root(1)] by simp
  have heap1: "heap d1 = (heap d)(?o \<mapsto> NArray vs, root \<mapsto> NDict (AList.update ''/K'' (VAt ?o) kvs))"
    using below root by (simp add: d1 set_entry_def)
  have num1: "object_number d1 = (object_number d)(?o := 0)" by (simp add: d1)
  show other: "page_list d1 = page_list d \<and> root_at d1 = root_at d \<and> free_at d1 = Suc ?o" by (simp add: d1)
  have ok1: "pdf_ok d1" unfolding d1
    by (rule set_entry_ok [OF new_direct_ok [OF ok]]) (use vs in \<open>auto intro: val_below_mono\<close>)
  have get1: "get_at d1 a j = (if a = root \<and> j = ''/K'' then Some (VAt ?o) else get_at d a j)" if "a < ?o" for a j
    using that below root by (simp add: get_at_def dict_at_def heap1 entry_update)
  then show "j \<noteq> ''/K'' \<Longrightarrow> a < ?o \<Longrightarrow> get_at d1 a j = get_at d a j" by simp
  show "rooted root (VAt ?o) d1"
    using ok1 get1 [OF below] by (simp add: rooted_def dict_at_def heap1)
  have array1: "as_array d1 v = as_array d v" if "val_below ?o v" for v
    using that root by (cases v) (auto simp: heap1)
  have "kids_at d1 a = kids_at d a" if "dict_at d a \<noteq> None" for a
  proof (cases "a = root")
    case True
    with kids get1 [OF below] below show ?thesis by (simp add: kids_at_def heap1)
  next
    case False
    from that have "a < ?o" using heap_below [OF ok, of a] by (auto simp: dict_at_def split: option.splits)
    from get1 [OF this] False kids_below [OF ok] array1 show ?thesis by (auto simp: kids_at_def split: option.split)
  qed
  moreover have "a < ?o" if "dict_at d a \<noteq> None" for a
    using that heap_below [OF ok, of a] by (auto simp: dict_at_def split: option.splits)
  moreover have "dict_at d1 a \<noteq> None" if "dict_at d a \<noteq> None" for a
    using that calculation(2) [OF that] by (simp add: dict_at_def heap1)
  moreover have "\<exists>y. dict_at d ?o = Some y \<Longrightarrow> False" using calculation(2) by blast
  ultimately show "tree_grows d d1" using get1 by (auto simp: tree_grows_def num1)
  have entry1: "get_entry d1 v j = get_entry d v j" if "val_below ?o v" "j \<noteq> ''/K''" for v j
    using that root by (cases v) (auto simp: heap1 entry_update)
  have heapsame: "heap d1 a = heap d a" if "a < ?o" "a \<noteq> root" for a using that by (simp add: heap1)
  show "val_below ?o v \<Longrightarrow> str_of_entry d1 v ''/Subtype'' = str_of_entry d v ''/Subtype'' \<and> as_dict d1 v = as_dict d v"
    using entry1 root by (cases v) (auto simp: str_of_entry_def dict_at_def heap1 entry_update)
  show "annotations d1 p = annotations d p" if p: "p < ?o"
  proof -
    have e: "get_entry d1 (VAt p) ''/Annots'' = get_entry d (VAt p) ''/Annots''"
      using entry1 [of "VAt p" "''/Annots''"] p by (simp del: get_entry.simps)
    show ?thesis
    proof (cases "\<exists>a. get_entry d (VAt p) ''/Annots'' = Inr (Some (VAt a))")
      case True
      then obtain a where a: "get_entry d (VAt p) ''/Annots'' = Inr (Some (VAt a))" by blast
      then obtain x kvs' where "heap d p = Some x" "x = NDict kvs' \<or> (\<exists>b. x = NStream kvs' b)" "entry kvs' ''/Annots'' = Some (VAt a)"
        by (auto split: option.splits node.splits)
      then have "a < ?o"
        using heap_below [OF ok, of p x] by (fastforce simp: entry_def dest: map_of_SomeD split: option.splits val.splits)
      then show ?thesis using a e root heapsame [of a] kids
        by (cases "a = root") (auto simp: annotations_def heap1 kids_at_def get_at_def dict_at_def entry_def split: list.splits)
    next
      case False
      then show ?thesis unfolding annotations_def e by (auto split: sum.split option.split val.split)
    qed
  qed
qed

section \<open>The whole repair\<close>

definition tree_root :: "pdf \<Rightarrow> nat \<Rightarrow> bool" where
  "tree_root d root \<longleftrightarrow> get_at d (root_at d) ''/StructTreeRoot'' = Some (VAt root) \<and>
     (\<exists>kvs. dict_at d root = Some kvs \<and> kvs \<noteq> [])"

text \<open>A loop over settled annotations changes nothing.\<close>

lemma settled_annotations: "\<forall>v \<in> set vs. settled d tagged v \<Longrightarrow> tag_annotations root kids p vs (tagged, d) = Inr (tagged, d)"
  by (induction vs) (auto simp: settled_def)

lemma settled_pages:
  "\<forall>p \<in> set ps. \<exists>vs. annotations d p = Inr vs \<and> (\<forall>v \<in> set vs. settled d tagged v) \<Longrightarrow>
   tag_pages root kids ps (tagged, d) = Inr (tagged, d)"
proof (induction ps)
  case (Cons p ps)
  then obtain vs where "annotations d p = Inr vs" "\<forall>v \<in> set vs. settled d tagged v" by auto
  with Cons settled_annotations [of vs d tagged root kids p] show ?case by simp
qed simp

text \<open>The store the loop starts from.\<close>

lemma root_kids_start:
  assumes ok: "pdf_ok d" and tree: "tree_root d root" and links: "links_are_dicts d"
    and res: "root_kids root d = Inr (kids, d1)"
  shows "rooted root kids d1 \<and> tree_grows d d1 \<and> tree_root d1 root \<and> links_are_dicts d1 \<and> page_list d1 = page_list d \<and>
    as_dict d1 kids = None \<and> free_at d \<le> free_at d1"
proof -
  obtain kvs where kvs: "heap d root = Some (NDict kvs)" "kvs \<noteq> []" "dict_at d root = Some kvs"
    using tree by (auto simp: tree_root_def dict_at_def split: option.splits node.splits)
  have pages: "p < free_at d" if "p \<in> set (page_list d)" for p using ok that by (auto simp: pdf_ok_def)
  have at: "get_entry d (VAt root) ''/K'' = Inr (get_at d root ''/K'')"
    using kvs by (simp add: get_at_def)
  have changed: ?thesis if vs: "\<forall>v \<in> set vs. val_below (free_at d) v" "kids_at d root = vs"
    and new: "kids = VAt (free_at d)" "d1 = set_entry root ''/K'' (VAt (free_at d)) (snd (new_direct (NArray vs) d))" for vs
  proof -
    note eff = set_kids_effect [OF ok kvs(1,2) vs new(2)]
    have "heap d1 (free_at d) = Some (NArray vs)"
      using new(2) kvs(1) heap_below [OF ok kvs(1)] by (auto simp: set_entry_def)
    then have nodict: "as_dict d1 kids = None" by (simp add: new(1) dict_at_def)
    have rd: "root_at d < free_at d" using ok by (simp add: pdf_ok_def)
    have "get_at d1 (root_at d1) ''/StructTreeRoot'' = Some (VAt root)"
      using eff(5) eff(6) [of "''/StructTreeRoot''", OF _ rd] tree by (simp add: tree_root_def)
    moreover have "dict_at d1 root = Some (AList.update ''/K'' (VAt (free_at d)) kvs)"
      using new(2) kvs(1) heap_below [OF ok kvs(1)] by (auto simp: set_entry_def dict_at_def)
    moreover have "AList.update ''/K'' (VAt (free_at d)) kvs \<noteq> []" by (cases kvs) auto
    ultimately have tree1: "tree_root d1 root" by (simp add: tree_root_def)
    have "links_are_dicts d1"
      unfolding links_are_dicts_def is_link_def
    proof (intro ballI allI impI)
      fix p us v assume p: "p \<in> set (page_list d1)" "annotations d1 p = Inr us" "v \<in> set us"
        and link: "str_of_entry d1 v ''/Subtype'' = Inr ''/Link''"
      have p': "p \<in> set (page_list d)" "annotations d p = Inr us"
        using p eff(5) eff(3) pages by auto
      with annotations_below [OF ok] p(3) have "val_below (free_at d) v" by blast
      from eff(4) [OF this] link links p' p(3) show "as_dict d1 v \<noteq> None"
        by (auto simp: links_are_dicts_def is_link_def)
    qed
    with eff tree1 nodict new(1) show ?thesis by simp
  qed
  show ?thesis
  proof (cases "get_at d root ''/K''")
    case None
    with res at have "kids = VAt (free_at d)" "d1 = set_entry root ''/K'' (VAt (free_at d)) (snd (new_direct (NArray []) d))"
      by (auto simp: root_kids_def Let_def case_prod_beta)
    with changed [of "[]"] None show ?thesis by (simp add: kids_at_def)
  next
    case (Some v)
    show ?thesis
    proof (cases "as_dict d v")
      case None
      with res at Some have "kids = v" "d1 = d" by (auto simp: root_kids_def Let_def case_prod_beta)
      with None Some ok tree links kvs show ?thesis by (simp add: rooted_def)
    next
      case (Some a)
      with res at \<open>get_at d root ''/K'' = Some v\<close>
      have "kids = VAt (free_at d)" "d1 = set_entry root ''/K'' (VAt (free_at d)) (snd (new_direct (NArray [v]) d))"
        by (auto simp: root_kids_def Let_def case_prod_beta)
      moreover have "kids_at d root = [v]"
        using as_dict_Some [OF Some] \<open>get_at d root ''/K'' = Some v\<close>
        by (auto simp: kids_at_def dict_at_def split: option.splits node.splits)
      ultimately show ?thesis using changed [of "[v]"] kids_below [OF ok \<open>get_at d root ''/K'' = Some v\<close>] by simp
    qed
  qed
qed

lemma repair_links_settles:
  assumes ok: "pdf_ok d" and tree: "tree_root d root" and links: "links_are_dicts d" and res: "repair_links d = Inr d'"
  obtains tagged kids where "tree_grows d d'" and "tree_root d' root" and "rooted root kids d'" and "as_dict d' kids = None"
    and "tagged \<subseteq> collect_tagged d' (Suc MAX_STRUCT_TREE_DEPTH) (VAt root)"
    and "\<forall>p \<in> set (page_list d'). \<exists>vs. annotations d' p = Inr vs \<and> (\<forall>v \<in> set vs. settled d' tagged v)"
proof -
  have at: "get_at d (root_at d) ''/StructTreeRoot'' = Some (VAt root)" using tree by (simp add: tree_root_def)
  from res at have "tag_link_annotations (VAt root) d = Inr d'" by (auto simp: repair_links_def split: sum.splits)
  then obtain kids d1 tagged where d1: "root_kids root d = Inr (kids, d1)"
    "tag_pages root kids (page_list d) (collect_tagged d (Suc MAX_STRUCT_TREE_DEPTH) (VAt root), d1) = Inr (tagged, d')"
    by (auto simp: tag_link_annotations_def Let_def map_sum_Inr split: sum.splits)
  note start = root_kids_start [OF ok tree links d1(1)]
  then have r1: "rooted root kids d1" and ok1: "pdf_ok d1" by (auto simp: rooted_def)
  have pages: "\<forall>p \<in> set (page_list d1). p < free_at d1" using ok1 by (simp add: pdf_ok_def)
  have "collect_tagged d (Suc MAX_STRUCT_TREE_DEPTH) (VAt root) \<subseteq> collect_tagged d1 (Suc MAX_STRUCT_TREE_DEPTH) (VAt root)"
    using start collect_grows by blast
  from tag_pages_settle [OF r1 _ _ this d1(2)] pages start
  have fin: "pdf_ok d' \<and> grown kids d1 d' \<and> tagged \<subseteq> collect_tagged d' (Suc MAX_STRUCT_TREE_DEPTH) (VAt root) \<and>
    (\<forall>p \<in> set (page_list d). \<exists>vs. annotations d' p = Inr vs \<and> (\<forall>v \<in> set vs. settled d' tagged v))"
    by (auto simp: links_are_dicts_def)
  then have g: "grown kids d1 d'" by blast
  have pl: "page_list d' = page_list d1 \<and> root_at d' = root_at d1" using g by (auto simp: grown_def)
  have root1: "dict_at d1 (root_at d1) \<noteq> None" "dict_at d1 root \<noteq> None"
    using start by (auto simp: tree_root_def get_at_def split: option.splits)
  have "tree_root d' root"
    using start pl grown_dict [OF g ok1 root1(1)] grown_dict [OF g ok1 root1(2)]
    by (simp add: tree_root_def get_at_def dict_at_def)
  moreover have "as_dict d' kids = None"
    using start grown_val(2) [OF g ok1] rooted_below [OF r1] by simp
  moreover have "tree_grows d d'" using tree_grows_trans [OF _ grown_tree [OF g ok1]] start by blast
  moreover have "rooted root kids d'" using rooted_grown [OF r1 g] fin by blast
  ultimately show thesis using that [of kids tagged] fin pl start by auto
qed


text \<open>C39: repairing the links of a repaired document changes nothing, so a redelivered step cannot tag an
  annotation twice.\<close>

theorem link_repair_is_idempotent:
  assumes "pdf_ok d" and "tree_root d root" and "links_are_dicts d" and "repair_links d = Inr d'"
  shows "repair_links d' = Inr d'"
  using assms
proof (rule repair_links_settles)
  fix tagged kids
  assume tree: "tree_root d' root" and rooted: "rooted root kids d'" and kids: "as_dict d' kids = None"
    and tagged: "tagged \<subseteq> collect_tagged d' (Suc MAX_STRUCT_TREE_DEPTH) (VAt root)"
    and pages: "\<forall>p \<in> set (page_list d'). \<exists>vs. annotations d' p = Inr vs \<and> (\<forall>v \<in> set vs. settled d' tagged v)"
  have "get_entry d' (VAt root) ''/K'' = Inr (Some kids)"
    using rooted by (auto simp: rooted_def get_at_def dict_at_def split: option.splits node.splits)
  with kids have "root_kids root d' = Inr (kids, d')" by (simp add: root_kids_def Let_def)
  moreover have "tag_pages root kids (page_list d') (collect_tagged d' (Suc MAX_STRUCT_TREE_DEPTH) (VAt root), d') =
      Inr (collect_tagged d' (Suc MAX_STRUCT_TREE_DEPTH) (VAt root), d')"
    by (rule settled_pages) (use pages tagged in \<open>fastforce simp: settled_def\<close>)
  ultimately show "repair_links d' = Inr d'"
    using tree by (simp add: repair_links_def tag_link_annotations_def tree_root_def)
qed

text \<open>A document with one page and one link annotation that nothing refers to.\<close>

definition demo_link_heap :: "(nat \<times> node) list" where
  "demo_link_heap = [
     (0, NDict [(''/StructTreeRoot'', VAt 5)]),
     (2, NDict [(''/Annots'', VAt 3)]),
     (3, NArray [VAt 4]),
     (4, NDict [(''/Subtype'', VName ''/Link'')]),
     (5, NDict [(''/Type'', VName ''/StructTreeRoot'')])]"

definition demo_link_pdf :: pdf where
  "demo_link_pdf = \<lparr>heap = map_of demo_link_heap, object_number = (\<lambda>a. if a < 6 then Suc a else 0), root_at = 0,
     page_list = [2], free_at = 6, free_number = 7\<rparr>"

lemma demo_link_pdf_ok: "pdf_ok demo_link_pdf"
proof -
  have "map_of demo_link_heap a = Some n \<Longrightarrow> a < 6 \<and> node_below 6 n" for a n
    by (auto simp: demo_link_heap_def split: if_splits)
  then show ?thesis by (intro pdf_okI) (auto simp: demo_link_pdf_def split: if_splits)
qed

lemma demo_link_tree: "tree_root demo_link_pdf 5"
  by (simp add: tree_root_def demo_link_pdf_def demo_link_heap_def get_at_def dict_at_def entry_def)

lemma demo_link_dicts: "links_are_dicts demo_link_pdf"
  by (simp add: links_are_dicts_def is_link_def annotations_def demo_link_pdf_def demo_link_heap_def entry_def dict_at_def)

lemma demo_link_repaired: "\<exists>d'. repair_links demo_link_pdf = Inr d' \<and> page_list d' = [2] \<and> annotations d' 2 = Inr [VAt 4] \<and> is_link d' (VAt 4)"
  by (simp add: repair_links_def tag_link_annotations_def root_kids_def add_link_def annotations_def is_link_def str_of_entry_def
      new_direct_def new_indirect_def append_item_def set_entry_def collect_tagged.simps(2) MAX_STRUCT_TREE_DEPTH_def
      demo_link_pdf_def demo_link_heap_def kids_at_def get_at_def dict_at_def entry_def Let_def)


theorem link_repair_is_idempotent_witness:
  "\<exists>d'. repair_links demo_link_pdf = Inr d' \<and> repair_links d' = Inr d'"
  using demo_link_repaired link_repair_is_idempotent [OF demo_link_pdf_ok demo_link_tree demo_link_dicts] by blast

text \<open>
  A direct annotation has object number 0, so once one direct object is referenced, every other direct
  link annotation counts as tagged and none of them gets an element.
\<close>

lemma direct_links_count_as_tagged:
  assumes "0 \<in> tagged" and "\<forall>p \<in> set ps. \<exists>vs. annotations d p = Inr vs \<and>
      (\<forall>v \<in> set vs. \<exists>s. str_of_entry d v ''/Subtype'' = Inr s \<and> (s = ''/Link'' \<longrightarrow> number_of d v = 0))"
  shows "tag_pages root kids ps (tagged, d) = Inr (tagged, d)"
  by (rule settled_pages) (use assms in \<open>fastforce simp: settled_def\<close>)

end
