(* ===== verification/Alt_Text.thy ===== *)
theory Alt_Text
  imports Pdf_Objects Ip_Address Artifact_Steps
begin

text \<open>
  \<^verbatim>\<open>remediation/adapters/alt_text/\<close>: collecting the figures that need a description, asking the
  vision model for it, and writing the descriptions back.  Texts of the document are Latin-1 (one
  character per code point).  Parameters: the page images as the second PDF library reports and
  extracts them, its page renderings, and the vision API.
\<close>

section \<open>Figures of the structure tree\<close>

definition MAX_FIGURE_DEPTH :: nat where "MAX_FIGURE_DEPTH = 30"
definition MIN_DECORATIVE_PX :: int where "MIN_DECORATIVE_PX = 60 * 60"

text \<open>\<open>^image \d+$\<close>, matched in full.\<close>

definition placeholder_alt :: "string \<Rightarrow> bool" where
  "placeholder_alt alt \<longleftrightarrow>
     startswith alt ''image '' \<and> drop 6 alt \<noteq> '''' \<and> list_all is_digit (drop 6 alt)"

definition SUPPORTED_MEDIA_TYPES :: "(string \<times> string) list" where
  "SUPPORTED_MEDIA_TYPES = [
     (''jpg'', ''image/jpeg''),
     (''jpeg'', ''image/jpeg''),
     (''png'', ''image/png''),
     (''gif'', ''image/gif''),
     (''webp'', ''image/webp'')]"

text \<open>\<open>_build_page_map\<close>: from object number to page index; a later page overrides an earlier one.\<close>

definition build_page_map :: "pdf \<Rightarrow> nat \<Rightarrow> nat option" where
  "build_page_map d = map_of (rev (map (\<lambda>(i, p). (object_number d p, i)) (enumerate 0 (page_list d))))"

definition alt_needed :: "string \<Rightarrow> bool" where
  "alt_needed alt = (let alt_text = strip alt in alt_text = '''' \<or> placeholder_alt alt_text)"

definition needs_alt :: "pdf \<Rightarrow> nat \<Rightarrow> bool" where
  "needs_alt d a \<longleftrightarrow> alt_needed (str_entry d a ''/Alt'')"

text \<open>
  \<open>_collect_figure_elements\<close>: the figures that need a description, with their page index, in the
  order of the walk.  The first argument after the document is the number of levels left.
\<close>

definition page_index :: "pdf \<Rightarrow> (nat \<Rightarrow> nat option) \<Rightarrow> val option \<Rightarrow> nat option" where
  "page_index d page_map pg_ref =
     (case pg_ref of
        None \<Rightarrow> None
      | Some v \<Rightarrow> if as_dict d v = None then None else page_map (number_of d v))"

definition figure_here :: "pdf \<Rightarrow> nat \<Rightarrow> nat option \<Rightarrow> (nat \<times> nat) list" where
  "figure_here d a page_idx =
     (if str_entry d a ''/S'' = ''/Figure'' \<and> needs_alt d a \<and> page_idx \<noteq> None then [(the page_idx, a)] else [])"

fun collect_figure_elements ::
    "pdf \<Rightarrow> nat \<Rightarrow> val \<Rightarrow> (nat \<Rightarrow> nat option) \<Rightarrow> val option \<Rightarrow> (nat \<times> nat) list" where
  "collect_figure_elements d 0 node page_map inherited_page = []"
| "collect_figure_elements d (Suc n) node page_map inherited_page =
     (case as_dict d node of
        None \<Rightarrow> []
      | Some a \<Rightarrow>
          (let pg_ref = (case get_at d a ''/Pg'' of None \<Rightarrow> inherited_page | Some v \<Rightarrow> Some v)
           in figure_here d a (page_index d page_map pg_ref) @
              concat (map (\<lambda>kid. collect_figure_elements d n kid page_map pg_ref) (kids_at d a))))"

definition walk_figures :: "pdf \<Rightarrow> (nat \<times> nat) list" where
  "walk_figures d =
     (case get_at d (root_at d) ''/StructTreeRoot'' of
        None \<Rightarrow> []
      | Some tree \<Rightarrow> collect_figure_elements d (Suc MAX_FIGURE_DEPTH) tree (build_page_map d) None)"

text \<open>The dictionary from page index to figures: its keys in insertion order, and the list of a key.\<close>

definition figure_pages :: "(nat \<times> nat) list \<Rightarrow> nat list" where
  "figure_pages figs = rev (remdups (rev (map fst figs)))"

definition figures_on :: "(nat \<times> nat) list \<Rightarrow> nat \<Rightarrow> nat list" where
  "figures_on figs p = map snd (filter (\<lambda>f. fst f = p) figs)"

section \<open>Collecting images\<close>

record image_reader =
  ir_images :: "nat \<Rightarrow> exn + (int \<times> int \<times> int) list"
  ir_extract :: "int \<Rightarrow> exn + (string \<times> bytes)"
  ir_render :: "nat \<Rightarrow> exn + bytes"

definition render_page :: "image_reader \<Rightarrow> nat \<Rightarrow> exn + bytes \<times> string \<times> bool" where
  "render_page ir page = map_sum id (\<lambda>png. (png, ''image/png'', False)) (ir_render ir page)"

definition extract_candidate_image ::
    "image_reader \<Rightarrow> nat \<Rightarrow> (int \<times> int \<times> int) list \<Rightarrow> nat \<Rightarrow> exn + bytes \<times> string \<times> bool" where
  "extract_candidate_image ir page images fig_n =
     (if length images \<le> fig_n then render_page ir page
      else case images ! fig_n of (xref, w, h) \<Rightarrow>
             if w * h < MIN_DECORATIVE_PX then Inr ([], ''image/png'', True)
             else case ir_extract ir xref of
                    Inl _ \<Rightarrow> render_page ir page
                  | Inr (ext, img) \<Rightarrow>
                      (case map_of SUPPORTED_MEDIA_TYPES ext of
                         None \<Rightarrow> render_page ir page
                       | Some media_type \<Rightarrow> Inr (img, media_type, False)))"

fun page_candidates ::
    "image_reader \<Rightarrow> nat \<Rightarrow> (int \<times> int \<times> int) list \<Rightarrow> nat list \<Rightarrow> exn + FigureCandidate list" where
  "page_candidates ir page images [] = Inr []"
| "page_candidates ir page images (fig_n # ns) =
     (case extract_candidate_image ir page images fig_n of
        Inl x \<Rightarrow> Inl x
      | Inr (image_bytes, media_type, decorative) \<Rightarrow>
          map_sum id (\<lambda>rest.
            \<lparr>fc_ref = (int page, int fig_n), fc_page_number = int page + 1, fc_image_bytes = image_bytes,
             fc_media_type = media_type, fc_decorative = decorative\<rparr> # rest) (page_candidates ir page images ns))"

fun pages_candidates :: "image_reader \<Rightarrow> (nat \<times> nat) list \<Rightarrow> nat list \<Rightarrow> exn + FigureCandidate list" where
  "pages_candidates ir figs [] = Inr []"
| "pages_candidates ir figs (p # ps) =
     (case ir_images ir p of
        Inl x \<Rightarrow> Inl x
      | Inr images \<Rightarrow>
          (case page_candidates ir p images [0 ..< length (figures_on figs p)] of
             Inl x \<Rightarrow> Inl x
           | Inr cs \<Rightarrow> map_sum id (\<lambda>rest. cs @ rest) (pages_candidates ir figs ps)))"

definition collect_figures :: "image_reader \<Rightarrow> pdf \<Rightarrow> exn + FigureCandidate list" where
  "collect_figures ir d =
     (let figs = walk_figures d
      in if figs = [] then Inr []
         else case pages_candidates ir figs (sort (figure_pages figs)) of
                Inl x \<Rightarrow> Inl (AdapterError (''PyMuPDF failed to extract figure images: '' @ exn_str x))
              | Inr cs \<Rightarrow> Inr cs)"

section \<open>Writing descriptions\<close>

text \<open>Every figure with the reference the loops give it.\<close>

definition figure_refs :: "(nat \<times> nat) list \<Rightarrow> ((int \<times> int) \<times> nat) list" where
  "figure_refs figs =
     concat (map (\<lambda>p. map (\<lambda>(n, a). ((int p, int n), a)) (enumerate 0 (figures_on figs p))) (figure_pages figs))"

definition write_alt :: "(int \<times> int \<rightharpoonup> string) \<Rightarrow> (int \<times> int) \<times> nat \<Rightarrow> pdf \<Rightarrow> pdf" where
  "write_alt alt_by_ref f d =
     (case alt_by_ref (fst f) of
        None \<Rightarrow> d
      | Some alt \<Rightarrow> if alt = '''' then d else set_entry (snd f) ''/Alt'' (VStr alt) d)"

definition write_alt_text :: "(int \<times> int \<rightharpoonup> string) \<Rightarrow> pdf \<Rightarrow> pdf" where
  "write_alt_text alt_by_ref d = fold (write_alt alt_by_ref) (figure_refs (walk_figures d)) d"

section \<open>The vision model\<close>

definition DEFAULT_MODEL :: string where "DEFAULT_MODEL = ''claude-sonnet-5''"
definition MAX_ALT_TEXT_TOKENS :: nat where "MAX_ALT_TEXT_TOKENS = 200"

record vision_client =
  vc_api_key :: string
  vc_model :: string

definition make_vision_client :: "string option \<Rightarrow> string option \<Rightarrow> vision_client" where
  "make_vision_client api_key model =
     \<lparr>vc_api_key = (case api_key of None \<Rightarrow> '''' | Some k \<Rightarrow> k),
      vc_model = (case model of None \<Rightarrow> DEFAULT_MODEL | Some m \<Rightarrow> if m = '''' then DEFAULT_MODEL else m)\<rparr>"

record vision_request =
  vq_model :: string
  vq_max_tokens :: nat
  vq_media_type :: string
  vq_image :: bytes
  vq_prompt :: string

definition quote_char :: char where "quote_char = CHR 0x22"

definition vision_prompt :: "string \<Rightarrow> int \<Rightarrow> string" where
  "vision_prompt document_title page_number =
     (if document_title \<noteq> ''''
      then ''This is page '' @ str_int page_number @ '' of a document titled '' @
           [quote_char] @ document_title @ [quote_char] @ ''.''
      else ''This is page '' @ str_int page_number @ '' of a document.'') @
     [CHR 10, CHR 10] @
     ''Write a concise alt text description for this image suitable for a screen '' @
     ''reader. Keep it under 125 characters. If the image is purely decorative (a '' @
     ''rule, border, or background), respond with exactly: Decorative image''"

text \<open>
  \<open>describe\<close>: \<open>api\<close> is the API (a request, with the image in base 64, to the blocks of the answer:
  each with its text, if it has one).
\<close>

definition describe ::
    "vision_client \<Rightarrow> (vision_request \<Rightarrow> exn + string option list) \<Rightarrow> bytes \<Rightarrow> string \<Rightarrow> string \<Rightarrow> int \<Rightarrow> exn + string" where
  "describe client api image_bytes media_type document_title page_number =
     (if vc_api_key client = '''' then Inl (AdapterError ''ANTHROPIC_API_KEY is not set'')
      else case api \<lparr>vq_model = vc_model client, vq_max_tokens = MAX_ALT_TEXT_TOKENS, vq_media_type = media_type,
                        vq_image = image_bytes, vq_prompt = vision_prompt document_title page_number\<rparr> of
             Inl x \<Rightarrow> Inl (AdapterError (''Claude Vision request failed: '' @ exn_str x))
           | Inr [] \<Rightarrow> Inl (OtherException ''list index out of range'')
           | Inr (block # _) \<Rightarrow> Inr (strip (case block of None \<Rightarrow> '''' | Some t \<Rightarrow> t)))"

end
