(* ===== verification/Alt_Text_Theorems.thy ===== *)
theory Alt_Text_Theorems
  imports Alt_Text
begin

text \<open>
  What writing descriptions does: it changes alternate texts only, a reference found when the images
  were collected names the same figure when the descriptions are written, and a figure that got a
  real description is not collected again.
\<close>

section \<open>Only alternate texts change\<close>

definition same_but_alt :: "pdf \<Rightarrow> pdf \<Rightarrow> bool" where
  "same_but_alt d d' \<longleftrightarrow>
     object_number d' = object_number d \<and> root_at d' = root_at d \<and> page_list d' = page_list d \<and>
     (\<forall>a. (dict_at d' a = None) = (dict_at d a = None)) \<and> (\<forall>v. as_array d' v = as_array d v) \<and>
     (\<forall>a j. j \<noteq> ''/Alt'' \<longrightarrow> get_at d' a j = get_at d a j)"

lemma same_but_alt_refl [simp]: "same_but_alt d d"
  by (simp add: same_but_alt_def)

lemma same_but_alt_trans: "same_but_alt d d1 \<Longrightarrow> same_but_alt d1 d2 \<Longrightarrow> same_but_alt d d2"
  by (simp add: same_but_alt_def)

lemma get_at_other: "j \<noteq> k \<Longrightarrow> get_at (set_entry a k v d) b j = get_at d b j"
  by (auto simp: get_at_def dict_at_def set_entry_def entry_update split: option.splits node.splits)

lemma set_alt_same: "same_but_alt d (set_entry a ''/Alt'' v d)"
  by (simp add: same_but_alt_def dict_at_set_entry get_at_other)

lemma write_alt_same: "same_but_alt d (write_alt alts f d)"
  by (simp add: write_alt_def set_alt_same split: option.split)

lemma write_alts_same: "same_but_alt d (fold (write_alt alts) fs d)"
proof (induction fs arbitrary: d)
  case (Cons f fs)
  show ?case using same_but_alt_trans [OF write_alt_same Cons] by simp
qed simp

text \<open>So the walk finds the same figures, as far as they still need a description.\<close>

lemma same_as_dict: "same_but_alt d d' \<Longrightarrow> as_dict d' v = as_dict d v"
  by (cases v) (simp_all add: same_but_alt_def)

lemma same_kids: "same_but_alt d d' \<Longrightarrow> kids_at d' a = kids_at d a"
  unfolding same_but_alt_def kids_at_def by (auto split: option.split)

lemma same_page_index: "same_but_alt d d' \<Longrightarrow> page_index d' page_map pg = page_index d page_map pg"
proof -
  assume s: "same_but_alt d d'"
  then have "number_of d' v = number_of d v" for v by (cases v) (simp_all add: same_but_alt_def)
  then show ?thesis by (simp add: page_index_def same_as_dict [OF s] split: option.split)
qed

lemma collect_after_writing:
  assumes s: "same_but_alt d d'" and keep: "\<And>a. needs_alt d' a \<Longrightarrow> needs_alt d a"
  shows "collect_figure_elements d' n node page_map pg =
    filter (\<lambda>f. needs_alt d' (snd f)) (collect_figure_elements d n node page_map pg)"
proof (induction n arbitrary: node pg)
  case (Suc n)
  have "str_entry d' a ''/S'' = str_entry d a ''/S''" "get_at d' a ''/Pg'' = get_at d a ''/Pg''" for a
    using s by (simp_all add: same_but_alt_def str_entry_def)
  note same = this same_as_dict [OF s] same_kids [OF s] same_page_index [OF s]
  show ?case
  proof (cases "as_dict d node")
    case (Some a)
    define pg' where "pg' = (case get_at d a ''/Pg'' of None \<Rightarrow> pg | Some v \<Rightarrow> Some v)"
    have "figure_here d' a (page_index d page_map pg') = filter (\<lambda>f. needs_alt d' (snd f)) (figure_here d a (page_index d page_map pg'))"
      using keep [of a] same(1) by (auto simp: figure_here_def)
    then show ?thesis
      unfolding collect_figure_elements.simps same Some option.case pg'_def [symmetric] Let_def filter_append
      by (simp only: Suc.IH filter_concat map_map comp_def)
  qed (simp only: collect_figure_elements.simps same option.case filter.simps)
qed simp

section \<open>References\<close>

lemma figure_pages_set [simp]: "set (figure_pages figs) = fst ` set figs"
  by (simp add: figure_pages_def)

lemma distinct_figure_pages [simp]: "distinct (figure_pages figs)"
  by (simp add: figure_pages_def)

lemma figures_on_none: "p \<notin> fst ` set figs \<Longrightarrow> figures_on figs p = []"
  by (force simp: figures_on_def filter_empty_conv)

lemma figures_on_in: "m < length (figures_on figs p) \<Longrightarrow> (p, figures_on figs p ! m) \<in> set figs"
proof -
  assume "m < length (figures_on figs p)"
  then have "figures_on figs p ! m \<in> set (figures_on figs p)" by (rule nth_mem)
  then show ?thesis by (force simp: figures_on_def)
qed

lemma set_figure_refs:
  "((p, n), a) \<in> set (figure_refs figs) \<longleftrightarrow>
     (\<exists>q m. p = int q \<and> n = int m \<and> m < length (figures_on figs q) \<and> figures_on figs q ! m = a)"
proof -
  have "q \<in> fst ` set figs" if "m < length (figures_on figs q)" for q m
    using figures_on_none [of q figs] that by fastforce
  then show ?thesis by (fastforce simp: figure_refs_def in_set_enumerate_eq)
qed

lemma figures_have_refs: "(q, a) \<in> set figs \<Longrightarrow> \<exists>r. (r, a) \<in> set (figure_refs figs)"
proof -
  assume "(q, a) \<in> set figs"
  then have "a \<in> set (figures_on figs q)" by (force simp: figures_on_def)
  then obtain m where "m < length (figures_on figs q)" "figures_on figs q ! m = a" by (auto simp: in_set_conv_nth)
  then show ?thesis using set_figure_refs [of "int q" "int m" a figs] by blast
qed

lemma page_candidates_refs:
  "page_candidates ir p images ns = Inr cs \<Longrightarrow> map fc_ref cs = map (\<lambda>n. (int p, int n)) ns"
  by (induction ir p images ns arbitrary: cs rule: page_candidates.induct) (auto simp: map_sum_Inr split: sum.splits)

lemma pages_candidates_refs:
  "pages_candidates ir figs ps = Inr cs \<Longrightarrow>
   map fc_ref cs = concat (map (\<lambda>p. map (\<lambda>n. (int p, int n)) [0 ..< length (figures_on figs p)]) ps)"
  by (induction ir figs ps arbitrary: cs rule: pages_candidates.induct)
    (auto simp: map_sum_Inr page_candidates_refs split: sum.splits)

text \<open>Every figure is collected, by the reference under which its description is looked up.\<close>

lemma collected_refs:
  assumes "collect_figures ir d = Inr cs" and "(r, a) \<in> set (figure_refs (walk_figures d))"
  shows "r \<in> fc_ref ` set cs"
proof -
  obtain p n where r: "r = (p, n)" by (cases r)
  from assms(2) obtain q m where q: "p = int q" "n = int m" "m < length (figures_on (walk_figures d) q)"
    unfolding r set_figure_refs by blast
  then have "q \<in> fst ` set (walk_figures d)" using figures_on_none by fastforce
  moreover from this have "pages_candidates ir (walk_figures d) (sort (figure_pages (walk_figures d))) = Inr cs"
    using assms(1) by (auto simp: collect_figures_def Let_def split: if_splits sum.splits)
  ultimately have "r \<in> set (map fc_ref cs)"
    unfolding r using q by (subst pages_candidates_refs) (force simp: image_iff)+
  then show ?thesis by simp
qed

section \<open>Described figures are done\<close>

lemma collected_figures:
  "(i, a) \<in> set (collect_figure_elements d n node page_map pg) \<Longrightarrow> dict_at d a \<noteq> None"
proof (induction n arbitrary: node pg)
  case (Suc n)
  show ?case
  proof (cases "as_dict d node")
    case (Some b)
    then have b: "dict_at d b \<noteq> None" by (cases node) (auto split: if_splits)
    from Suc Some b show ?thesis by (auto simp: Let_def figure_here_def split: if_splits)
  qed (use Suc.prems in simp)
qed simp

lemma write_alt_done:
  assumes "alts (fst f) = Some alt" and "\<not> alt_needed alt" and "dict_at d (snd f) \<noteq> None"
  shows "\<not> needs_alt (write_alt alts f d) (snd f)" and "\<not> needs_alt d b \<Longrightarrow> \<not> needs_alt (write_alt alts f d) b"
proof -
  have "alt \<noteq> ''''" using assms(2) by (auto simp: alt_needed_def strip_def)
  then have w: "write_alt alts f d = set_entry (snd f) ''/Alt'' (VStr alt) d" using assms(1) by (simp add: write_alt_def)
  have "str_entry (write_alt alts f d) b ''/Alt'' = (if b = snd f then alt else str_entry d b ''/Alt'')" for b
    using assms(3) by (simp add: w str_entry_def get_at_set_entry)
  with assms(2) show "\<not> needs_alt (write_alt alts f d) (snd f)" "\<not> needs_alt d b \<Longrightarrow> \<not> needs_alt (write_alt alts f d) b"
    by (simp_all add: needs_alt_def)
qed

lemma write_alts_done:
  assumes "\<forall>f \<in> set fs. (\<exists>alt. alts (fst f) = Some alt \<and> \<not> alt_needed alt) \<and> dict_at d (snd f) \<noteq> None"
  shows "(\<forall>f \<in> set fs. \<not> needs_alt (fold (write_alt alts) fs d) (snd f)) \<and>
    (\<forall>b. \<not> needs_alt d b \<longrightarrow> \<not> needs_alt (fold (write_alt alts) fs d) b)"
  using assms
proof (induction fs arbitrary: d)
  case (Cons f fs)
  let ?d1 = "write_alt alts f d"
  from Cons.prems obtain alt where alt: "alts (fst f) = Some alt" "\<not> alt_needed alt" "dict_at d (snd f) \<noteq> None" by auto
  have "\<forall>g \<in> set fs. (\<exists>alt. alts (fst g) = Some alt \<and> \<not> alt_needed alt) \<and> dict_at ?d1 (snd g) \<noteq> None"
    using Cons.prems write_alt_same [of d alts f] by (simp add: same_but_alt_def)
  from Cons.IH [OF this] write_alt_done(1) [where f = f and d = d and alts = alts, OF alt] write_alt_done(2) [where f = f and d = d and alts = alts, OF alt]
  show ?case by auto
qed simp

lemma walk_after_writing:
  assumes "same_but_alt d d'" and "\<And>a. needs_alt d' a \<Longrightarrow> needs_alt d a"
  shows "walk_figures d' = filter (\<lambda>f. needs_alt d' (snd f)) (walk_figures d)"
proof -
  have "get_at d' (root_at d') ''/StructTreeRoot'' = get_at d (root_at d) ''/StructTreeRoot''"
    "build_page_map d' = build_page_map d"
    using assms(1) by (simp_all add: same_but_alt_def build_page_map_def)
  then show ?thesis
    by (cases "get_at d (root_at d) ''/StructTreeRoot''")
      (simp_all only: walk_figures_def option.case filter.simps collect_after_writing [OF assms])
qed

text \<open>The two passes over the figures fit together.  When every collected figure is given a real
  description (neither blank nor one of the tagger's placeholders), each description reaches its figure
  under the reference it was collected by, and nothing is left to collect from the written document.\<close>

theorem described_figures_are_done:
  assumes "collect_figures ir d = Inr cs"
    and "\<forall>c \<in> set cs. \<exists>alt. alts (fc_ref c) = Some alt \<and> \<not> alt_needed alt"
  shows "collect_figures ir' (write_alt_text alts d) = Inr []"
proof -
  let ?d' = "write_alt_text alts d"
  have "\<forall>f \<in> set (figure_refs (walk_figures d)). (\<exists>alt. alts (fst f) = Some alt \<and> \<not> alt_needed alt) \<and> dict_at d (snd f) \<noteq> None"
  proof
    fix f assume f: "f \<in> set (figure_refs (walk_figures d))"
    obtain r a where ra: "f = (r, a)" by (cases f)
    have "\<exists>i. (i, a) \<in> set (walk_figures d)"
      using f unfolding ra by (cases r) (auto simp: set_figure_refs dest: figures_on_in)
    then have "dict_at d a \<noteq> None"
      by (auto simp: walk_figures_def simp del: collect_figure_elements.simps dest: collected_figures split: option.splits)
    with collected_refs [OF assms(1) f [unfolded ra]] assms(2) ra
    show "(\<exists>alt. alts (fst f) = Some alt \<and> \<not> alt_needed alt) \<and> dict_at d (snd f) \<noteq> None" by auto
  qed
  from write_alts_done [OF this] have done_all: "\<forall>f \<in> set (figure_refs (walk_figures d)). \<not> needs_alt ?d' (snd f)"
    "\<And>b. needs_alt ?d' b \<Longrightarrow> needs_alt d b"
    unfolding write_alt_text_def by blast+
  have "walk_figures ?d' = filter (\<lambda>f. needs_alt ?d' (snd f)) (walk_figures d)"
    by (rule walk_after_writing [OF _ done_all(2)]) (simp add: write_alt_text_def write_alts_same)
  also have "\<dots> = []"
    using done_all(1) figures_have_refs [of _ _ "walk_figures d"] by (fastforce simp: filter_empty_conv)
  finally show ?thesis by (simp add: collect_figures_def)
qed

text \<open>A document with one figure that carries the tagger's placeholder.\<close>

definition demo_figure_pdf :: pdf where
  "demo_figure_pdf = \<lparr>heap = map_of [
       (0, NDict [(''/StructTreeRoot'', VAt 5)]),
       (2, NDict [(''/Type'', VName ''/Page'')]),
       (4, NDict [(''/S'', VName ''/Figure''), (''/Pg'', VAt 2), (''/Alt'', VStr ''image 3'')]),
       (5, NDict [(''/K'', VAt 4)])],
     object_number = (\<lambda>a. if a < 6 then Suc a else 0), root_at = 0, page_list = [2], free_at = 6, free_number = 7\<rparr>"

definition demo_images :: image_reader where
  "demo_images = \<lparr>ir_images = (\<lambda>_. Inr [(7, 100, 100)]), ir_extract = (\<lambda>_. Inr (''png'', [1])), ir_render = (\<lambda>_. Inr [])\<rparr>"

lemma demo_figures: "walk_figures demo_figure_pdf = [(0, 4)]"
  by (simp add: walk_figures_def MAX_FIGURE_DEPTH_def numeral_eq_Suc demo_figure_pdf_def get_at_def dict_at_def entry_def
      figure_here_def str_entry_def needs_alt_def alt_needed_def strip_def is_space_def placeholder_alt_def startswith_def
      is_digit_def page_index_def build_page_map_def kids_at_def)

theorem described_figures_are_done_witness:
  "\<exists>cs. collect_figures demo_images demo_figure_pdf = Inr cs \<and> map fc_ref cs = [(0, 0)] \<and>
     collect_figures demo_images (write_alt_text [(0, 0) \<mapsto> ''A bar chart''] demo_figure_pdf) = Inr []"
proof -
  have "figures_on [(0, 4)] 0 = [4]" "figure_pages [(0, 4)] = [0]" by (simp_all add: figures_on_def figure_pages_def)
  then obtain c where c: "collect_figures demo_images demo_figure_pdf = Inr [c]" "fc_ref c = (0, 0)"
    by (simp add: collect_figures_def demo_figures demo_images_def extract_candidate_image_def MIN_DECORATIVE_PX_def
        SUPPORTED_MEDIA_TYPES_def)
  have "\<not> alt_needed ''A bar chart''"
    by (simp add: alt_needed_def strip_def is_space_def placeholder_alt_def startswith_def Let_def)
  then have "\<forall>c' \<in> set [c]. \<exists>alt. [(0, 0) \<mapsto> ''A bar chart''] (fc_ref c') = Some alt \<and> \<not> alt_needed alt"
    by (simp add: c(2))
  note written = described_figures_are_done [OF c(1) this, of demo_images]
  show ?thesis
    by (rule exI [of _ "[c]"], intro conjI, rule c(1), simp only: list.map c(2), rule written)
qed

end
