(* ===== verification/Account_Service.thy ===== *)
theory Account_Service
  imports Account_Models "HOL-Library.List_Lexorder" "HOL-Library.Char_ord"
begin

text \<open>
  \<^verbatim>\<open>accounts/services.py\<close>: setting up service accounts, issuing and revoking tokens, deleting an
  account.  The state is the account tables with the login users and the token records of the login
  library.  Deletion follows the foreign keys: a token record goes with its user, a token name with its
  account or its token record, an account with its user, and a remediation protects its account.
  Random values (user names, secrets, tokens) are drawn from a parameter.  Names longer than their column
  are refused as the database does (\<open>DataError\<close>).
\<close>

section \<open>Tables\<close>

record AuthToken =
  at_pk :: nat
  at_user :: nat
  at_token :: string

record ServiceAccountToken =
  st_pk :: nat
  st_account :: nat
  st_name :: string
  st_auth_token :: nat

record accounts_db =
  users :: "(nat \<times> string) list"
  accounts :: "ServiceAccount list"
  auth_tokens :: "AuthToken list"
  tokens :: "ServiceAccountToken list"
  remediation_accounts :: "nat list"
  next_pk :: nat
  draws :: nat

datatype account_error =
    TypeError string
  | ValidationError
  | ServiceAccountNameTakenError string
  | TokenNameTakenError string
  | DataError
  | ProtectedError

text \<open>The uniqueness constraints of both tables.\<close>

definition unique_service_account_name_per_organization :: "accounts_db \<Rightarrow> bool" where
  "unique_service_account_name_per_organization db \<longleftrightarrow>
     distinct (map (\<lambda>a. (sa_organization a, sa_name a)) (accounts db))"

definition unique_token_name_per_service_account :: "accounts_db \<Rightarrow> bool" where
  "unique_token_name_per_service_account db \<longleftrightarrow> distinct (map (\<lambda>t. (st_account t, st_name t)) (tokens db))"

definition TOKEN_NAME_MAX_LENGTH :: nat where "TOKEN_NAME_MAX_LENGTH = 50"

section \<open>Issuing a token\<close>

text \<open>Inside one savepoint: the token record, then its name; a refused insert undoes both.\<close>

definition issue_token :: "(nat \<Rightarrow> string) \<Rightarrow> ServiceAccount \<Rightarrow> string \<Rightarrow> accounts_db \<Rightarrow> (account_error + string) \<times> accounts_db" where
  "issue_token random account token_name db =
     (let token = random (draws db);
          undone = db\<lparr>draws := Suc (draws db)\<rparr>;
          auth = \<lparr>at_pk = next_pk db, at_user = sa_user account, at_token = token\<rparr>;
          named = \<lparr>st_pk = Suc (next_pk db), st_account = sa_pk account, st_name = token_name, st_auth_token = next_pk db\<rparr>
      in if TOKEN_NAME_MAX_LENGTH < length token_name then (Inl DataError, undone)
         else if \<exists>t \<in> set (tokens db). st_account t = sa_pk account \<and> st_name t = token_name
         then (Inl (TokenNameTakenError token_name), undone)
         else (Inr token, undone\<lparr>auth_tokens := auth_tokens db @ [auth], tokens := tokens db @ [named],
                                 next_pk := Suc (Suc (next_pk db))\<rparr>))"

section \<open>Creating an account\<close>

text \<open>The keyword arguments, each on the model's default.\<close>

datatype limit_value = LBool bool | LInt "int option" | LText "string option"

fun set_limit :: "ServiceAccount \<Rightarrow> string \<times> limit_value \<Rightarrow> ServiceAccount" where
  "set_limit a (k, LBool b) = (if k = ''unlimited'' then a\<lparr>unlimited := b\<rparr> else a)"
| "set_limit a (k, LInt v) =
     (if k = ''max_in_flight'' then a\<lparr>max_in_flight := v\<rparr>
      else if k = ''rate_limit_count'' then a\<lparr>rate_limit_count := v\<rparr> else a)"
| "set_limit a (k, LText v) = (if k = ''rate_limit_period'' then a\<lparr>rate_limit_period := v\<rparr> else a)"

record account_settings =
  default_max_in_flight :: int
  default_rate_limit_count :: int

definition new_account :: "account_settings \<Rightarrow> (string \<times> limit_value) list \<Rightarrow> ServiceAccount" where
  "new_account cfg limits =
     foldl set_limit
       \<lparr>sa_pk = 0, sa_organization = 0, sa_name = '''', sa_user = 0, webhook_secret = '''', unlimited = False,
        max_in_flight = Some (default_max_in_flight cfg), rate_limit_count = Some (default_rate_limit_count cfg),
        rate_limit_period = Some (period_value DEFAULT_RATE_LIMIT_PERIOD)\<rparr> limits"

definition unknown_fields :: "(string \<times> limit_value) list \<Rightarrow> string list" where
  "unknown_fields limits = sort (remdups (filter (\<lambda>k. k \<notin> set LIMIT_FIELDS) (map fst limits)))"

text \<open>
  The login user (\<open>create_user\<close> with a random user name and no password) and the account row.  The random
  name and secret are taken to be new.
\<close>

definition create_user :: "(nat \<Rightarrow> string) \<Rightarrow> accounts_db \<Rightarrow> nat \<times> accounts_db" where
  "create_user random db =
     (next_pk db, db\<lparr>users := users db @ [(next_pk db, ''service-'' @ random (draws db))],
                     next_pk := Suc (next_pk db), draws := Suc (draws db)\<rparr>)"

definition insert_account ::
    "account_settings \<Rightarrow> (nat \<Rightarrow> string) \<Rightarrow> nat \<Rightarrow> string \<Rightarrow> (string \<times> limit_value) list \<Rightarrow> nat
      \<Rightarrow> accounts_db \<Rightarrow> (account_error + ServiceAccount) \<times> accounts_db" where
  "insert_account cfg random organization service_name limits user db =
     (let account = (new_account cfg limits)\<lparr>sa_pk := next_pk db, sa_organization := organization, sa_name := service_name,
                        sa_user := user, webhook_secret := random (draws db)\<rparr>;
          undone = db\<lparr>draws := Suc (draws db)\<rparr>;
          taken = (\<exists>a \<in> set (accounts db). sa_organization a = organization \<and> sa_name a = service_name)
      in if \<not> validate_limits account then (Inl ValidationError, undone)
         else if 50 < length service_name then (Inl DataError, undone)
         else if taken then (Inl (ServiceAccountNameTakenError service_name), undone)
         else (Inr account, undone\<lparr>accounts := accounts db @ [account], next_pk := Suc (next_pk db)\<rparr>))"

text \<open>\<open>create\<close>, one transaction: whatever it raises, the tables are as before.\<close>

definition create_account ::
    "account_settings \<Rightarrow> (nat \<Rightarrow> string) \<Rightarrow> nat \<Rightarrow> string \<Rightarrow> string \<Rightarrow> (string \<times> limit_value) list
      \<Rightarrow> accounts_db \<Rightarrow> (account_error + ServiceAccount \<times> string) \<times> accounts_db" where
  "create_account cfg random organization service_name token_name limits db =
     (if unknown_fields limits \<noteq> [] then (Inl (TypeError (''Unknown limit fields: '' @ join '', '' (unknown_fields limits))), db)
      else if \<not> validate_limits (new_account cfg limits) then (Inl ValidationError, db)
      else case create_user random db of
        (user, db1) \<Rightarrow>
          (case insert_account cfg random organization service_name limits user db1 of
             (Inl x, db2) \<Rightarrow> (Inl x, db\<lparr>draws := draws db2\<rparr>)
           | (Inr account, db2) \<Rightarrow>
               (case issue_token random account token_name db2 of
                  (Inl x, db3) \<Rightarrow> (Inl x, db\<lparr>draws := draws db3\<rparr>)
                | (Inr token, db3) \<Rightarrow> (Inr (account, token), db3))))"

section \<open>Revoking and deleting\<close>

text \<open>Deleting a token record, with the name that refers to it.\<close>

definition delete_auth_token :: "nat \<Rightarrow> accounts_db \<Rightarrow> accounts_db" where
  "delete_auth_token pk db =
     db\<lparr>auth_tokens := filter (\<lambda>t. at_pk t \<noteq> pk) (auth_tokens db),
        tokens := filter (\<lambda>t. st_auth_token t \<noteq> pk) (tokens db)\<rparr>"

definition revoke_tokens :: "ServiceAccountToken list \<Rightarrow> accounts_db \<Rightarrow> accounts_db" where
  "revoke_tokens ts db = fold (\<lambda>t. delete_auth_token (st_auth_token t)) ts db"

definition revoke_token :: "ServiceAccountToken \<Rightarrow> accounts_db \<Rightarrow> accounts_db" where
  "revoke_token t = revoke_tokens [t]"

text \<open>Deleting the user, with its accounts (unless one is protected), their token names and its tokens.\<close>

definition delete_account :: "ServiceAccount \<Rightarrow> accounts_db \<Rightarrow> (account_error + unit) \<times> accounts_db" where
  "delete_account account db =
     (let user = sa_user account;
          gone = filter (\<lambda>a. sa_user a = user) (accounts db);
          dead = map at_pk (filter (\<lambda>t. at_user t = user) (auth_tokens db))
      in if \<exists>a \<in> set gone. sa_pk a \<in> set (remediation_accounts db) then (Inl ProtectedError, db)
         else (Inr (),
               db\<lparr>users := filter (\<lambda>u. fst u \<noteq> user) (users db),
                  accounts := filter (\<lambda>a. sa_user a \<noteq> user) (accounts db),
                  auth_tokens := filter (\<lambda>t. at_user t \<noteq> user) (auth_tokens db),
                  tokens := filter (\<lambda>t. st_account t \<notin> sa_pk ` set gone \<and> st_auth_token t \<notin> set dead) (tokens db)\<rparr>))"

definition regenerate_webhook_secret :: "(nat \<Rightarrow> string) \<Rightarrow> ServiceAccount \<Rightarrow> accounts_db \<Rightarrow> string \<times> accounts_db" where
  "regenerate_webhook_secret random account db =
     (let secret = random (draws db)
      in (secret, db\<lparr>accounts := update_rows (\<lambda>a. sa_pk a = sa_pk account) (\<lambda>a. a\<lparr>webhook_secret := secret\<rparr>) (accounts db),
                     draws := Suc (draws db)\<rparr>))"

text \<open>A token logs in while its record exists.\<close>

definition logs_in_as :: "string \<Rightarrow> accounts_db \<Rightarrow> nat \<Rightarrow> bool" where
  "logs_in_as token db user \<longleftrightarrow> (\<exists>t \<in> set (auth_tokens db). at_token t = token \<and> at_user t = user)"

end
