(* ===== verification/Account_Admin.thy ===== *)
theory Account_Admin
  imports Account_Service Unicode_Text
begin

text \<open>
  \<^verbatim>\<open>accounts/admin.py\<close>: the two pages of an account (a new token, a new webhook secret), adding and editing
  accounts, deleting accounts and tokens.  The state is the account tables; a handler answers with a page or a
  redirect and with the messages it leaves for the next page.  The admin framework is a parameter: which
  request may change accounts, and what its own add page does around \<open>save_model\<close>.  Form texts are Latin-1.
\<close>

section \<open>Requests, answers and messages\<close>

datatype level = WARNING | ERROR_LEVEL

datatype admin_response =
    NotFound
  | Forbidden
  | BackTo nat
  | RedirectTo string
  | AccountPage string string "(string \<times> string) list"
  | AddDone nat
  | Raised account_error

record admin_request =
  req_path :: string
  is_post :: bool
  post_name :: "string option"
  may_change :: bool

type_synonym message = "level \<times> utext"

definition codes :: "string \<Rightarrow> utext" where
  "codes t = map (\<lambda>c. of_char c) t"

text \<open>\<open>format_html\<close> escapes what it fills in.\<close>

definition html_escape_char :: "char \<Rightarrow> string" where
  "html_escape_char c =
     (if c = CHR ''&'' then ''&amp;'' else if c = CHR ''<'' then ''&lt;'' else if c = CHR ''>'' then ''&gt;''
      else if c = CHR 0x22 then ''&quot;'' else if c = CHR 0x27 then ''&#x27;'' else [c])"

definition html_escape :: "string \<Rightarrow> string" where
  "html_escape t = concat (map html_escape_char t)"

definition token_message :: "string \<Rightarrow> string \<Rightarrow> utext" where
  "token_message account_name token =
     codes (html_escape account_name) @ codes '': <code style=\"user-select: all\">'' @ codes (html_escape token) @
     codes ''</code> '' @ [8212] @ codes '' copy this now, it can't be shown again.''"

section \<open>The two pages of an account\<close>

definition account_or_404 :: "admin_request \<Rightarrow> nat option \<Rightarrow> accounts_db \<Rightarrow> admin_response + ServiceAccount" where
  "account_or_404 request object_id db =
     (case List.find (\<lambda>a. Some (sa_pk a) = object_id) (accounts db) of
        None \<Rightarrow> Inl NotFound
      | Some a \<Rightarrow> if may_change request then Inr a else Inl Forbidden)"

text \<open>The name field of \<open>IssueTokenForm\<close>: stripped, required, at most \<open>TOKEN_NAME_MAX_LENGTH\<close> long, no null.\<close>

definition strip_text :: "string \<Rightarrow> string" where
  "strip_text t = (let sp = (\<lambda>c. white_space (of_char c)) in rev (dropWhile sp (rev (dropWhile sp t))))"

definition clean_token_name :: "string option \<Rightarrow> string + string" where
  "clean_token_name v =
     (let t = strip_text (case v of None \<Rightarrow> '''' | Some t \<Rightarrow> t)
      in if t = '''' then Inl ''This field is required.''
         else if TOKEN_NAME_MAX_LENGTH < length t
         then Inl (''Ensure this value has at most '' @ str_nat TOKEN_NAME_MAX_LENGTH @ '' characters (it has '' @ str_nat (length t) @ '').'')
         else if CHR 0x00 \<in> set t then Inl ''Null characters are not allowed.''
         else Inr t)"

definition issue_token_page :: "(string \<times> string) list \<Rightarrow> admin_response" where
  "issue_token_page errors = AccountPage ''admin/accounts/issue_token.html'' ''Issue a new token'' errors"

definition issue_token_view ::
    "(nat \<Rightarrow> string) \<Rightarrow> admin_request \<Rightarrow> nat option \<Rightarrow> accounts_db \<Rightarrow> (admin_response \<times> message list) \<times> accounts_db" where
  "issue_token_view random request object_id db =
     (case account_or_404 request object_id db of
        Inl answer \<Rightarrow> ((answer, []), db)
      | Inr account \<Rightarrow>
          if \<not> is_post request then ((issue_token_page [], []), db)
          else case clean_token_name (post_name request) of
                 Inl problem \<Rightarrow> ((issue_token_page [(''name'', problem)], []), db)
               | Inr name \<Rightarrow>
                   (case issue_token random account name db of
                      (Inl (TokenNameTakenError _), db') \<Rightarrow>
                        ((issue_token_page [(''name'', ''This account already has a token with that name.'')], []), db')
                    | (Inl e, db') \<Rightarrow> ((Raised e, []), db')
                    | (Inr token, db') \<Rightarrow>
                        ((BackTo (sa_pk account), [(WARNING, token_message (sa_name account) token)]), db')))"

definition secret_page :: admin_response where
  "secret_page = AccountPage ''admin/accounts/regenerate_webhook_secret.html'' ''Regenerate webhook secret'' []"

definition regenerate_webhook_secret_view ::
    "(nat \<Rightarrow> string) \<Rightarrow> admin_request \<Rightarrow> nat option \<Rightarrow> accounts_db \<Rightarrow> (admin_response \<times> message list) \<times> accounts_db" where
  "regenerate_webhook_secret_view random request object_id db =
     (case account_or_404 request object_id db of
        Inl answer \<Rightarrow> ((answer, []), db)
      | Inr account \<Rightarrow>
          if is_post request
          then ((BackTo (sa_pk account),
                 [(WARNING, codes ''New webhook secret generated (shown below). Update whatever checks our webhooks.'')]),
                snd (regenerate_webhook_secret random account db))
          else ((secret_page, []), db))"

section \<open>Adding and editing\<close>

definition get_readonly_fields :: "ServiceAccount option \<Rightarrow> string list" where
  "get_readonly_fields obj = (case obj of None \<Rightarrow> [] | Some _ \<Rightarrow> [''user'', ''webhook_secret''])"

definition add_form_fields :: "string list" where
  "add_form_fields = [''organization'', ''name''] @ LIMIT_FIELDS @ [''token_name'']"

definition edit_form_fields :: "ServiceAccount \<Rightarrow> string list" where
  "edit_form_fields obj =
     filter (\<lambda>f. f \<notin> set (get_readonly_fields (Some obj)))
       ([''organization'', ''name'', ''user'', ''webhook_secret''] @ LIMIT_FIELDS)"

definition limits_of :: "ServiceAccount \<Rightarrow> (string \<times> limit_value) list" where
  "limits_of obj =
     [(''unlimited'', LBool (unlimited obj)), (''max_in_flight'', LInt (max_in_flight obj)),
      (''rate_limit_count'', LInt (rate_limit_count obj)), (''rate_limit_period'', LText (rate_limit_period obj))]"

datatype admin_error = AccountError account_error | ValueError string | IntegrityError | DatabaseError

text \<open>An account not yet saved has no key (\<open>None\<close>).\<close>

definition create_with_login ::
    "account_settings \<Rightarrow> (nat \<Rightarrow> string) \<Rightarrow> nat option \<Rightarrow> ServiceAccount \<Rightarrow> string \<Rightarrow> accounts_db
      \<Rightarrow> (admin_error + ServiceAccount \<times> message list) \<times> accounts_db" where
  "create_with_login cfg random pk obj token_name db =
     (if pk \<noteq> None then (Inl (ValueError ''Cannot create credentials for an account that already exists.''), db)
      else case create_account cfg random (sa_organization obj) (sa_name obj) token_name (limits_of obj) db of
             (Inl e, db') \<Rightarrow> (Inl (AccountError e), db')
           | (Inr (created, token), db') \<Rightarrow> (Inr (created, [(WARNING, token_message (sa_name created) token)]), db'))"

text \<open>\<open>save(update_fields=...)\<close>: the named columns of the row, as the database has it by then.\<close>

definition edited_row :: "string list \<Rightarrow> ServiceAccount \<Rightarrow> ServiceAccount \<Rightarrow> ServiceAccount" where
  "edited_row changed obj row =
     row\<lparr>sa_organization := if ''organization'' \<in> set changed then sa_organization obj else sa_organization row,
         sa_name := if ''name'' \<in> set changed then sa_name obj else sa_name row,
         unlimited := if ''unlimited'' \<in> set changed then unlimited obj else unlimited row,
         max_in_flight := if ''max_in_flight'' \<in> set changed then max_in_flight obj else max_in_flight row,
         rate_limit_count := if ''rate_limit_count'' \<in> set changed then rate_limit_count obj else rate_limit_count row,
         rate_limit_period := if ''rate_limit_period'' \<in> set changed then rate_limit_period obj else rate_limit_period row\<rparr>"

definition save_edit :: "string list \<Rightarrow> ServiceAccount \<Rightarrow> accounts_db \<Rightarrow> (admin_error + unit) \<times> accounts_db" where
  "save_edit changed obj db =
     (let db' = db\<lparr>accounts := update_rows (\<lambda>a. sa_pk a = sa_pk obj) (edited_row changed obj) (accounts db)\<rparr>
      in if \<not> validate_limits obj then (Inl (AccountError ValidationError), db)
         else if changed = [] then (Inr (), db)
         else if sa_pk obj \<notin> sa_pk ` set (accounts db) then (Inl DatabaseError, db)
         else if \<not> unique_service_account_name_per_organization db' \<or> \<not> list_all limits_set_unless_unlimited (accounts db')
         then (Inl IntegrityError, db)
         else (Inr (), db'))"

definition save_model ::
    "account_settings \<Rightarrow> (nat \<Rightarrow> string) \<Rightarrow> nat option \<Rightarrow> ServiceAccount \<Rightarrow> string \<Rightarrow> string list \<Rightarrow> bool \<Rightarrow> accounts_db
      \<Rightarrow> (admin_error + message list) \<times> accounts_db" where
  "save_model cfg random pk obj token_name changed change db =
     (if \<not> change
      then case create_with_login cfg random pk obj token_name db of
             (Inl e, db') \<Rightarrow> (Inl e, db') | (Inr (created, msgs), db') \<Rightarrow> (Inr msgs, db')
      else case save_edit changed obj db of (Inl e, db') \<Rightarrow> (Inl e, db') | (Inr _, db') \<Rightarrow> (Inr [], db'))"

text \<open>
  The framework's add page runs its form and \<open>save_model\<close> in one transaction: \<open>super_add\<close> is what it
  answers, or the exception that came out of it.
\<close>

definition add_view ::
    "(admin_request \<Rightarrow> accounts_db \<Rightarrow> (admin_error + admin_response \<times> message list) \<times> accounts_db)
      \<Rightarrow> admin_request \<Rightarrow> accounts_db \<Rightarrow> (admin_error + admin_response \<times> message list) \<times> accounts_db" where
  "add_view super_add request db =
     (case super_add request db of
        (Inl (AccountError (ServiceAccountNameTakenError _)), db') \<Rightarrow>
          (Inr (RedirectTo (req_path request),
                [(ERROR_LEVEL, codes ''That organization already has a service account with that name.'')]), db')
      | answer \<Rightarrow> answer)"

section \<open>Deleting\<close>

definition account_delete_model :: "ServiceAccount \<Rightarrow> accounts_db \<Rightarrow> (account_error + unit) \<times> accounts_db" where
  "account_delete_model obj db = delete_account obj db"

definition token_has_add_permission :: bool where "token_has_add_permission = False"

definition token_has_change_permission :: bool where "token_has_change_permission = False"

definition token_delete_model :: "ServiceAccountToken \<Rightarrow> accounts_db \<Rightarrow> accounts_db" where
  "token_delete_model obj db = revoke_token obj db"

definition token_delete_queryset :: "ServiceAccountToken list \<Rightarrow> accounts_db \<Rightarrow> accounts_db" where
  "token_delete_queryset queryset db = revoke_tokens queryset db"

end
