(* ===== verification/Account_Theorems.thy ===== *)
theory Account_Theorems
  imports Account_Admin
begin

text \<open>
  What the account service keeps: the account tables stay consistent under every operation, a refused
  request changes none of them, a new token logs in as its account, and revoking or deleting stops
  exactly the tokens it should.
\<close>

section \<open>Consistent tables\<close>

definition token_owned :: "ServiceAccount list \<Rightarrow> AuthToken list \<Rightarrow> ServiceAccountToken \<Rightarrow> bool" where
  "token_owned accs auths t \<longleftrightarrow> (\<exists>a \<in> set accs. \<exists>k \<in> set auths.
     sa_pk a = st_account t \<and> at_pk k = st_auth_token t \<and> at_user k = sa_user a)"

definition accounts_ok :: "accounts_db \<Rightarrow> bool" where
  "accounts_ok db \<longleftrightarrow>
     unique_service_account_name_per_organization db \<and> unique_token_name_per_service_account db \<and>
     distinct (map sa_pk (accounts db)) \<and> distinct (map sa_user (accounts db)) \<and>
     distinct (map at_pk (auth_tokens db)) \<and> distinct (map st_auth_token (tokens db)) \<and>
     (\<forall>u \<in> set (users db). fst u < next_pk db) \<and>
     (\<forall>a \<in> set (accounts db). sa_pk a < next_pk db \<and> sa_user a \<in> fst ` set (users db) \<and> validate_limits a) \<and>
     (\<forall>k \<in> set (auth_tokens db). at_pk k < next_pk db \<and> at_user k \<in> fst ` set (users db)) \<and>
     (\<forall>t \<in> set (tokens db). token_owned (accounts db) (auth_tokens db) t)"

lemma token_owned_mono:
  "token_owned accs auths t \<Longrightarrow> set accs \<subseteq> set accs' \<Longrightarrow> set auths \<subseteq> set auths' \<Longrightarrow> token_owned accs' auths' t"
  unfolding token_owned_def by blast

lemma token_owned_append [simp]:
  "token_owned accs auths t \<Longrightarrow> token_owned (accs @ accs') auths t"
  "token_owned accs auths t \<Longrightarrow> token_owned accs (auths @ auths') t"
  by (auto intro: token_owned_mono)

lemma token_owned_map:
  assumes "token_owned accs auths t" and "\<And>b. sa_pk (f b) = sa_pk b" and "\<And>b. sa_user (f b) = sa_user b"
  shows "token_owned (map f accs) auths t"
proof -
  from assms(1) obtain b k where "b \<in> set accs" "k \<in> set auths" "sa_pk b = st_account t" "at_pk k = st_auth_token t"
    "at_user k = sa_user b" by (auto simp: token_owned_def)
  then have "f b \<in> set (map f accs)" "sa_pk (f b) = st_account t" "at_user k = sa_user (f b)" by (simp_all add: assms)
  with \<open>k \<in> set auths\<close> \<open>at_pk k = st_auth_token t\<close> show ?thesis unfolding token_owned_def by blast
qed

definition same_tables :: "accounts_db \<Rightarrow> accounts_db \<Rightarrow> bool" where
  "same_tables db db' \<longleftrightarrow> users db' = users db \<and> accounts db' = accounts db \<and> auth_tokens db' = auth_tokens db \<and>
     tokens db' = tokens db \<and> remediation_accounts db' = remediation_accounts db \<and> next_pk db' = next_pk db"

lemma accounts_ok_same: "same_tables db db' \<Longrightarrow> accounts_ok db \<Longrightarrow> accounts_ok db'"
  by (simp add: same_tables_def accounts_ok_def unique_service_account_name_per_organization_def
      unique_token_name_per_service_account_def)

lemma same_tables_draws [simp]: "same_tables db (db\<lparr>draws := n\<rparr>)"
  by (simp add: same_tables_def)

lemma same_tables_refl [simp]: "same_tables db db"
  by (simp add: same_tables_def)

lemma accounts_ok_fresh:
  assumes "accounts_ok db"
  shows "next_pk db \<notin> sa_pk ` set (accounts db)" and "next_pk db \<notin> sa_user ` set (accounts db)"
    and "next_pk db \<notin> at_pk ` set (auth_tokens db)" and "next_pk db \<notin> st_auth_token ` set (tokens db)"
    and "next_pk db \<notin> at_user ` set (auth_tokens db)"
proof -
  have u: "next_pk db \<notin> fst ` set (users db)" using assms by (auto simp: accounts_ok_def)
  have a: "\<forall>a \<in> set (accounts db). sa_pk a < next_pk db \<and> sa_user a \<in> fst ` set (users db)"
    and k: "\<forall>k \<in> set (auth_tokens db). at_pk k < next_pk db \<and> at_user k \<in> fst ` set (users db)"
    and t: "\<forall>t \<in> set (tokens db). token_owned (accounts db) (auth_tokens db) t"
    using assms by (simp_all add: accounts_ok_def)
  show "next_pk db \<notin> sa_pk ` set (accounts db)" using a by force
  show "next_pk db \<notin> sa_user ` set (accounts db)" using a u by force
  show "next_pk db \<notin> at_user ` set (auth_tokens db)" using k u by force
  show "next_pk db \<notin> at_pk ` set (auth_tokens db)" using k by force
  show "next_pk db \<notin> st_auth_token ` set (tokens db)" using t k unfolding token_owned_def by force
qed

lemma issue_token_refused: "fst (issue_token random a n db) = Inl x \<Longrightarrow> same_tables db (snd (issue_token random a n db))"
  by (auto simp: issue_token_def Let_def split: if_split_asm)

lemma issue_token_ok:
  assumes ok: "accounts_ok db" and a: "a \<in> set (accounts db)"
  shows "accounts_ok (snd (issue_token random a n db))"
proof (cases "fst (issue_token random a n db)")
  case (Inl x)
  from accounts_ok_same [OF issue_token_refused [OF this] ok] show ?thesis .
next
  case (Inr token)
  define db' where "db' = snd (issue_token random a n db)"
  have free: "\<forall>t \<in> set (tokens db). \<not> (st_account t = sa_pk a \<and> st_name t = n)"
    using Inr by (auto simp: issue_token_def Let_def split: if_splits)
  have db': "users db' = users db" "accounts db' = accounts db" "next_pk db' = Suc (Suc (next_pk db))"
    "auth_tokens db' = auth_tokens db @ [\<lparr>at_pk = next_pk db, at_user = sa_user a, at_token = random (draws db)\<rparr>]"
    "tokens db' = tokens db @ [\<lparr>st_pk = Suc (next_pk db), st_account = sa_pk a, st_name = n, st_auth_token = next_pk db\<rparr>]"
    using Inr by (auto simp: db'_def issue_token_def Let_def split: if_splits)
  note fresh = accounts_ok_fresh(3,4) [OF ok]
  have "unique_token_name_per_service_account db'"
    using ok free by (auto simp: accounts_ok_def unique_token_name_per_service_account_def db')
  moreover have "unique_service_account_name_per_organization db'"
    using ok by (simp add: accounts_ok_def unique_service_account_name_per_organization_def db')
  moreover have "token_owned (accounts db') (auth_tokens db')
      \<lparr>st_pk = Suc (next_pk db), st_account = sa_pk a, st_name = n, st_auth_token = next_pk db\<rparr>"
    using a by (auto simp: token_owned_def db')
  ultimately have "accounts_ok db'"
    using ok a fresh by (simp add: accounts_ok_def db' less_SucI)
  then show ?thesis by (simp add: db'_def)
qed

lemma create_account_refused:
  "fst (create_account cfg random g sn tn limits db) = Inl x \<Longrightarrow>
   same_tables db (snd (create_account cfg random g sn tn limits db))"
  by (simp add: create_account_def split: if_splits sum.splits prod.splits)

lemma accounts_ok_add_user:
  "accounts_ok db \<Longrightarrow> accounts_ok (db\<lparr>users := users db @ [(next_pk db, s)], next_pk := Suc (next_pk db), draws := d\<rparr>)"
  by (simp add: accounts_ok_def unique_service_account_name_per_organization_def
      unique_token_name_per_service_account_def less_SucI)

lemma create_user_ok: "create_user random db = (u, db1) \<Longrightarrow> accounts_ok db \<Longrightarrow> accounts_ok db1"
  unfolding create_user_def by (metis accounts_ok_add_user prod.inject)

lemma create_user_fields:
  assumes "create_user random db = (u, db1)"
  shows "u = next_pk db" and "accounts db1 = accounts db" and "auth_tokens db1 = auth_tokens db"
    and "tokens db1 = tokens db" and "u \<in> fst ` set (users db1)"
  using assms by (auto simp del: append_Cons append_Nil simp: create_user_def)

lemma insert_account_cases:
  assumes "insert_account cfg random g sn limits u db = (Inr a, db')"
  shows "validate_limits a" and "sa_pk a = next_pk db" and "sa_user a = u" and "sa_organization a = g" and "sa_name a = sn"
    and "\<forall>b \<in> set (accounts db). \<not> (sa_organization b = g \<and> sa_name b = sn)"
    and "db' = db\<lparr>draws := Suc (draws db), accounts := accounts db @ [a], next_pk := Suc (next_pk db)\<rparr>"
  using assms unfolding insert_account_def Let_def by (auto split: if_splits)

lemma insert_account_ok:
  assumes ok: "accounts_ok db" and u: "u \<in> fst ` set (users db)" "\<forall>a \<in> set (accounts db). sa_user a \<noteq> u"
    and ins: "insert_account cfg random g sn limits u db = (Inr a, db')"
  shows "accounts_ok db'" and "a \<in> set (accounts db')"
proof -
  note a = insert_account_cases [OF ins]
  have "u \<notin> sa_user ` set (accounts db)" using u by auto
  moreover have "unique_service_account_name_per_organization db'"
    using ok a by (auto simp: accounts_ok_def unique_service_account_name_per_organization_def)
  moreover have "unique_token_name_per_service_account db'"
    using ok by (simp add: accounts_ok_def unique_token_name_per_service_account_def a(7))
  ultimately show "accounts_ok db'"
    using ok u(1) a(1-3) accounts_ok_fresh(1) [OF ok] by (simp add: accounts_ok_def a(7) less_SucI)
  show "a \<in> set (accounts db')" by (simp add: a(7))
qed

lemma create_account_cases:
  assumes "create_account cfg random g sn tn limits db = (Inr (a, token), db')"
  obtains u db1 db2 where "create_user random db = (u, db1)"
    and "insert_account cfg random g sn limits u db1 = (Inr a, db2)"
    and "issue_token random a tn db2 = (Inr token, db')"
  using assms unfolding create_account_def by (auto split: if_splits sum.splits prod.splits)

lemma create_account_ok:
  assumes ok: "accounts_ok db"
  shows "accounts_ok (snd (create_account cfg random g sn tn limits db))"
proof (cases "fst (create_account cfg random g sn tn limits db)")
  case (Inl x)
  from accounts_ok_same [OF create_account_refused [OF this] ok] show ?thesis .
next
  case (Inr both)
  then obtain a token db' where res: "create_account cfg random g sn tn limits db = (Inr (a, token), db')"
    by (metis prod.collapse)
  then obtain u db1 db2 where u: "create_user random db = (u, db1)"
    and a: "insert_account cfg random g sn limits u db1 = (Inr a, db2)"
    and t: "issue_token random a tn db2 = (Inr token, db')" by (rule create_account_cases)
  have "\<forall>a \<in> set (accounts db1). sa_user a \<noteq> u"
    using accounts_ok_fresh(2) [OF ok] create_user_fields(1,2) [OF u] by (auto simp: image_iff)
  then have "accounts_ok db2" "a \<in> set (accounts db2)"
    using insert_account_ok [OF create_user_ok [OF u ok] create_user_fields(5) [OF u] _ a] by simp_all
  from issue_token_ok [OF this, of random tn] t res show ?thesis by simp
qed

lemma delete_auth_token_ok:
  assumes "accounts_ok db"
  shows "accounts_ok (delete_auth_token pk db)"
proof -
  have "token_owned (accounts db) (filter (\<lambda>k. at_pk k \<noteq> pk) (auth_tokens db)) t"
    if "token_owned (accounts db) (auth_tokens db) t" "st_auth_token t \<noteq> pk" for t
    using that by (fastforce simp: token_owned_def)
  then show ?thesis using assms
    by (simp add: accounts_ok_def delete_auth_token_def distinct_map_filter unique_service_account_name_per_organization_def
        unique_token_name_per_service_account_def)
qed

lemma revoke_tokens_ok: "accounts_ok db \<Longrightarrow> accounts_ok (revoke_tokens ts db)"
  unfolding revoke_tokens_def by (induction ts arbitrary: db) (simp_all add: delete_auth_token_ok)

lemma regenerate_ok:
  assumes "accounts_ok db"
  shows "accounts_ok (snd (regenerate_webhook_secret random a db))"
proof -
  let ?f = "\<lambda>rows. update_rows (\<lambda>b. sa_pk b = sa_pk a) (\<lambda>b. b\<lparr>webhook_secret := random (draws db)\<rparr>) rows"
  have same: "map sa_pk (?f rows) = map sa_pk rows" "map sa_user (?f rows) = map sa_user rows"
    "map (\<lambda>a. (sa_organization a, sa_name a)) (?f rows) = map (\<lambda>a. (sa_organization a, sa_name a)) rows" for rows
    by (simp_all add: update_rows_def)
  have "\<forall>b \<in> set (?f (accounts db)). sa_pk b < next_pk db \<and> sa_user b \<in> fst ` set (users db) \<and> validate_limits b"
    using assms by (auto simp: accounts_ok_def update_rows_def validate_limits_def limits_set_unless_unlimited_def)
  moreover have "token_owned (?f accs) auths t" if "token_owned accs auths t" for accs auths t
    unfolding update_rows_def using that by (rule token_owned_map) simp_all
  ultimately show ?thesis
    using assms
    by (simp add: accounts_ok_def regenerate_webhook_secret_def Let_def same unique_service_account_name_per_organization_def unique_token_name_per_service_account_def)
qed

lemma delete_account_ok:
  assumes "accounts_ok db"
  shows "accounts_ok (snd (delete_account a db))"
proof -
  let ?u = "sa_user a"
  let ?accs = "filter (\<lambda>b. sa_user b \<noteq> ?u) (accounts db)" and ?auths = "filter (\<lambda>k. at_user k \<noteq> ?u) (auth_tokens db)"
  have owned: "token_owned ?accs ?auths t" if "token_owned (accounts db) (auth_tokens db) t"
    "\<forall>b \<in> set (accounts db). sa_user b = ?u \<longrightarrow> st_account t \<noteq> sa_pk b" for t
    using that by (fastforce simp: token_owned_def)
  have users: "v \<in> fst ` {u \<in> set (users db). fst u \<noteq> ?u}" if "v \<in> fst ` set (users db)" "v \<noteq> ?u" for v
    using that by auto
  show ?thesis using assms
    by (auto simp: accounts_ok_def delete_account_def Let_def distinct_map_filter
        unique_service_account_name_per_organization_def unique_token_name_per_service_account_def intro!: owned users)
qed

lemma edited_row_fields [simp]:
  "sa_pk (edited_row changed obj row) = sa_pk row" "sa_user (edited_row changed obj row) = sa_user row"
  "webhook_secret (edited_row changed obj row) = webhook_secret row"
  by (simp_all add: edited_row_def)

lemma edited_row_limits:
  "validate_limits obj \<Longrightarrow> validate_limits row \<Longrightarrow> limits_set_unless_unlimited (edited_row changed obj row) \<Longrightarrow>
   validate_limits (edited_row changed obj row)"
  by (simp add: validate_limits_def edited_row_def)

lemma save_edit_ok:
  assumes "accounts_ok db"
  shows "accounts_ok (snd (save_edit changed obj db))"
proof -
  let ?f = "\<lambda>a. if sa_pk a = sa_pk obj then edited_row changed obj a else a"
  let ?db = "db\<lparr>accounts := map ?f (accounts db)\<rparr>"
  have "accounts_ok ?db" if "validate_limits obj" "unique_service_account_name_per_organization ?db"
    "list_all limits_set_unless_unlimited (accounts ?db)"
  proof -
    have same: "map sa_pk (map ?f rows) = map sa_pk rows" "map sa_user (map ?f rows) = map sa_user rows" for rows by simp_all
    have "\<forall>b \<in> set (map ?f (accounts db)). sa_pk b < next_pk db \<and> sa_user b \<in> fst ` set (users db) \<and> validate_limits b"
      using assms that by (auto simp: accounts_ok_def list_all_iff intro!: edited_row_limits)
    moreover have "token_owned (map ?f accs) auths t" if "token_owned accs auths t" for accs auths t
      using that by (rule token_owned_map) simp_all
    ultimately show ?thesis using assms that(2)
      by (simp del: map_map add: accounts_ok_def same unique_token_name_per_service_account_def)
  qed
  then show ?thesis using assms by (simp add: save_edit_def Let_def update_rows_def)
qed

text \<open>What the account service and the edit form do to the tables, request by request.\<close>

inductive account_step :: "accounts_db \<Rightarrow> accounts_db \<Rightarrow> bool" where
  step_create: "account_step db (snd (create_account cfg random g service_name token_name limits db))"
| step_issue: "a \<in> set (accounts db) \<Longrightarrow> account_step db (snd (issue_token random a token_name db))"
| step_revoke: "account_step db (revoke_tokens ts db)"
| step_delete: "account_step db (snd (delete_account a db))"
| step_secret: "account_step db (snd (regenerate_webhook_secret random a db))"
| step_edit: "account_step db (snd (save_edit changed obj db))"
| step_submission: "a \<in> set (accounts db) \<Longrightarrow> account_step db (db\<lparr>remediation_accounts := sa_pk a # remediation_accounts db\<rparr>)"

lemma account_step_ok: "account_step db db' \<Longrightarrow> accounts_ok db \<Longrightarrow> accounts_ok db'"
proof (induction rule: account_step.induct)
  case (step_submission a db)
  then show ?case by (simp add: accounts_ok_def unique_service_account_name_per_organization_def
      unique_token_name_per_service_account_def)
qed (simp_all add: create_account_ok issue_token_ok revoke_tokens_ok delete_account_ok regenerate_ok save_edit_ok)

definition no_accounts :: accounts_db where
  "no_accounts = \<lparr>users = [], accounts = [], auth_tokens = [], tokens = [], remediation_accounts = [], next_pk = 1, draws = 0\<rparr>"

lemma no_accounts_ok: "accounts_ok no_accounts"
  by (simp add: no_accounts_def accounts_ok_def unique_service_account_name_per_organization_def
      unique_token_name_per_service_account_def)


definition demo_account_settings :: account_settings where
  "demo_account_settings = \<lparr>default_max_in_flight = 5, default_rate_limit_count = 100\<rparr>"

definition demo_random :: "nat \<Rightarrow> string" where
  "demo_random n = str_nat n"


section \<open>Which requests are answered\<close>

lemma issue_token_answers:
  "issue_token random a n db =
     (if length n \<le> TOKEN_NAME_MAX_LENGTH \<and> (\<forall>t \<in> set (tokens db). \<not> (st_account t = sa_pk a \<and> st_name t = n))
      then (Inr (random (draws db)), snd (issue_token random a n db))
      else (Inl (if TOKEN_NAME_MAX_LENGTH < length n then DataError else TokenNameTakenError n), db\<lparr>draws := Suc (draws db)\<rparr>))"
  by (auto simp: issue_token_def Let_def)

lemma issue_token_fields:
  assumes "issue_token random a n db = (Inr token, db')"
  shows "auth_tokens db' = auth_tokens db @ [\<lparr>at_pk = next_pk db, at_user = sa_user a, at_token = token\<rparr>]"
    and "accounts db' = accounts db" and "length n \<le> 50"
  using assms by (auto simp: TOKEN_NAME_MAX_LENGTH_def issue_token_def Let_def split: if_split_asm)

lemma insert_account_answers:
  "insert_account cfg random g sn limits u db =
     (if validate_limits (new_account cfg limits) \<and> length sn \<le> 50 \<and>
         (\<forall>a \<in> set (accounts db). \<not> (sa_organization a = g \<and> sa_name a = sn))
      then (Inr ((new_account cfg limits)\<lparr>sa_pk := next_pk db, sa_organization := g, sa_name := sn, sa_user := u,
                    webhook_secret := random (draws db)\<rparr>), snd (insert_account cfg random g sn limits u db))
      else (Inl (if \<not> validate_limits (new_account cfg limits) then ValidationError
                 else if 50 < length sn then DataError else ServiceAccountNameTakenError sn), db\<lparr>draws := Suc (draws db)\<rparr>))"
  by (auto simp: insert_account_def Let_def validate_limits_def limits_set_unless_unlimited_def)

lemma first_token_too_long:
  assumes ok: "accounts_ok db" and u: "create_user random db = (u, db1)"
    and a: "insert_account cfg random g sn limits u db1 = (Inr a, db2)"
    and t: "issue_token random a tn db2 = (Inl x, db3)"
  shows "50 < length tn"
proof -
  have "\<forall>t \<in> set (tokens db). st_account t < next_pk db"
    using ok unfolding accounts_ok_def token_owned_def by metis
  moreover have "tokens db2 = tokens db" "sa_pk a = Suc (next_pk db)"
    using insert_account_cases [OF a] create_user_fields [OF u] u by (auto simp: create_user_def)
  ultimately have "\<forall>t \<in> set (tokens db2). \<not> (st_account t = sa_pk a \<and> st_name t = tn)" by auto
  with t show ?thesis by (auto simp: issue_token_def Let_def TOKEN_NAME_MAX_LENGTH_def split: if_split_asm)
qed

text \<open>An account is created exactly when the keywords are limit fields, the limits are valid, both names
  fit their columns and the organization has no account of that name; then its token logs in as its own new
  login user and as nobody else than before.  Any other request changes no table.\<close>

theorem account_created_exactly_when_free:
  "accounts_ok db \<Longrightarrow>
   (case create_account cfg random g sn tn limits db of
      (Inr (a, token), db') \<Rightarrow>
        unknown_fields limits = [] \<and> validate_limits (new_account cfg limits) \<and> length sn \<le> 50 \<and> length tn \<le> 50 \<and>
        (\<forall>b \<in> set (accounts db). \<not> (sa_organization b = g \<and> sa_name b = sn)) \<and>
        accounts db' = accounts db @ [a] \<and> sa_user a \<notin> fst ` set (users db) \<and>
        (\<forall>u. logs_in_as token db' u \<longleftrightarrow> u = sa_user a \<or> logs_in_as token db u)
    | (Inl x, db') \<Rightarrow>
        \<not> (unknown_fields limits = [] \<and> validate_limits (new_account cfg limits) \<and> length sn \<le> 50 \<and> length tn \<le> 50 \<and>
           (\<forall>b \<in> set (accounts db). \<not> (sa_organization b = g \<and> sa_name b = sn))) \<and> same_tables db db')"
proof -
  assume ok: "accounts_ok db"
  obtain u db1 where u: "create_user random db = (u, db1)" by fastforce
  note f = create_user_fields [OF u]
  have long: "50 < length tn" if "issue_token random a tn db2 = (Inl x, db3)"
    "insert_account cfg random g sn limits u db1 = (Inr a, db2)" for a db2 x db3
    using first_token_too_long [OF ok u that(2,1)] .
  have new: "u \<notin> fst ` set (users db)" using ok f(1) by (auto simp: accounts_ok_def)
  show ?thesis
  proof (cases "create_account cfg random g sn tn limits db")
    case (Pair r db')
    show ?thesis
    proof (cases r)
      case (Inl x)
      have "same_tables db db'" using create_account_refused [of cfg random g sn tn limits db x] Pair Inl by simp
      moreover have "\<not> (unknown_fields limits = [] \<and> validate_limits (new_account cfg limits) \<and> length sn \<le> 50 \<and> length tn \<le> 50 \<and>
           (\<forall>b \<in> set (accounts db). \<not> (sa_organization b = g \<and> sa_name b = sn)))"
      proof
        assume *: "unknown_fields limits = [] \<and> validate_limits (new_account cfg limits) \<and> length sn \<le> 50 \<and> length tn \<le> 50 \<and>
           (\<forall>b \<in> set (accounts db). \<not> (sa_organization b = g \<and> sa_name b = sn))"
        obtain a db2 where a: "insert_account cfg random g sn limits u db1 = (Inr a, db2)"
          using * insert_account_answers [of cfg random g sn limits u db1] f(2) by auto
        obtain r3 db3 where t: "issue_token random a tn db2 = (r3, db3)" by fastforce
        with Inl Pair u a * obtain y where "r3 = Inl y" by (cases r3) (auto simp: create_account_def)
        with long [OF _ a] t * show False by fastforce
      qed
      ultimately show ?thesis using Pair Inl by simp
    next
      case (Inr both)
      obtain a token where both: "both = (a, token)" by fastforce
      with Inr Pair have res: "create_account cfg random g sn tn limits db = (Inr (a, token), db')" by simp
      then obtain db2 where a: "insert_account cfg random g sn limits u db1 = (Inr a, db2)"
        and t: "issue_token random a tn db2 = (Inr token, db')" using u by (auto elim!: create_account_cases)
      have "unknown_fields limits = []" "validate_limits (new_account cfg limits)"
        using res unfolding create_account_def by (auto split: if_split_asm)
      moreover have "length sn \<le> 50"
        using a insert_account_answers [of cfg random g sn limits u db1] by (auto split: if_split_asm)
      ultimately show ?thesis
        using insert_account_cases [OF a] issue_token_fields [OF t] f new
        by (auto simp: Pair Inr both logs_in_as_def)
    qed
  qed
qed

theorem account_created_exactly_when_free_witness:
  "case create_account demo_account_settings demo_random 7 ''wordpress'' ''prod'' [] no_accounts of
     (Inr (a, token), db') \<Rightarrow> (\<forall>u. logs_in_as token db' u \<longleftrightarrow> u = sa_user a) | (Inl x, db') \<Rightarrow> False"
proof -
  have "isl (fst (create_account demo_account_settings demo_random 7 ''wordpress'' ''prod'' [] no_accounts)) = False"
    by code_simp
  with account_created_exactly_when_free 
    [OF no_accounts_ok, where cfg = demo_account_settings and random = demo_random and g = 7 and sn = "''wordpress''"
      and tn = "''prod''" and limits = "[]"]
  show ?thesis by (auto simp: logs_in_as_def no_accounts_def split: prod.splits sum.splits)
qed

section \<open>Which tokens stop working\<close>

lemma delete_auth_token_logs_in:
  "logs_in_as token (delete_auth_token pk db) u \<longleftrightarrow> (\<exists>k \<in> set (auth_tokens db). at_token k = token \<and> at_user k = u \<and> at_pk k \<noteq> pk)"
  by (auto simp: logs_in_as_def delete_auth_token_def)

lemma revoke_auth_tokens:
  "auth_tokens (revoke_tokens ts db) = filter (\<lambda>k. at_pk k \<notin> st_auth_token ` set ts) (auth_tokens db)"
  unfolding revoke_tokens_def
  by (induction ts arbitrary: db) (auto simp: delete_auth_token_def intro: filter_cong)

text \<open>Revoking stops exactly the given tokens: afterwards a token logs in as a user if and only if it did
  so before through a record that was not revoked.\<close>

theorem revoking_stops_exactly_these:
  "logs_in_as token (revoke_tokens ts db) u =
     (\<exists>k \<in> set (auth_tokens db). at_token k = token \<and> at_user k = u \<and> at_pk k \<notin> st_auth_token ` set ts)"
  by (auto simp: logs_in_as_def revoke_auth_tokens)

text \<open>C36: Deleting an account stops its login and every token of it and no other, unless a remediation refers to
  the account: then the deletion is refused and every token of the account still logs in.\<close>

theorem deletion_stops_every_token_or_none:
  "accounts_ok db \<Longrightarrow> a \<in> set (accounts db) \<Longrightarrow>
   (case delete_account a db of
      (Inr _, db') \<Rightarrow> sa_pk a \<notin> set (remediation_accounts db) \<and> a \<notin> set (accounts db') \<and> sa_user a \<notin> fst ` set (users db') \<and>
        (\<forall>token u. logs_in_as token db' u \<longleftrightarrow> u \<noteq> sa_user a \<and> logs_in_as token db u) \<and>
        (\<forall>t \<in> set (tokens db'). st_account t \<noteq> sa_pk a)
    | (Inl e, db') \<Rightarrow> e = ProtectedError \<and> sa_pk a \<in> set (remediation_accounts db) \<and> db' = db)"
proof -
  assume ok: "accounts_ok db" and a: "a \<in> set (accounts db)"
  have only: "b = a" if "b \<in> set (accounts db)" "sa_user b = sa_user a" for b
    using ok a that by (auto simp: accounts_ok_def distinct_map inj_on_def)
  then have refused: "(\<exists>b \<in> set (filter (\<lambda>b. sa_user b = sa_user a) (accounts db)). sa_pk b \<in> set (remediation_accounts db)) =
      (sa_pk a \<in> set (remediation_accounts db))" using a by auto
  show ?thesis
  proof (cases "sa_pk a \<in> set (remediation_accounts db)")
    case True
    then show ?thesis unfolding delete_account_def Let_def refused by simp
  next
    case False
    have tok: "sa_pk a \<in> sa_pk ` set (filter (\<lambda>b. sa_user b = sa_user a) (accounts db))" using a by simp
    show ?thesis unfolding delete_account_def Let_def refused logs_in_as_def using False tok by auto
  qed
qed

definition one_account :: accounts_db where
  "one_account = snd (create_account demo_account_settings demo_random 7 ''wordpress'' ''prod'' [] no_accounts)"

definition its_account :: ServiceAccount where
  "its_account = hd (accounts one_account)"

theorem deletion_stops_every_token_or_none_witness:
  "(case delete_account its_account one_account of (Inr _, db') \<Rightarrow> (\<forall>token. \<not> logs_in_as token db' (sa_user its_account)) | _ \<Rightarrow> False) \<and>
   (case delete_account its_account (one_account\<lparr>remediation_accounts := [sa_pk its_account]\<rparr>) of
      (Inl e, db') \<Rightarrow> e = ProtectedError \<and> logs_in_as ''2'' db' (sa_user its_account) | _ \<Rightarrow> False)"
proof -
  let ?db = "one_account\<lparr>remediation_accounts := [sa_pk its_account]\<rparr>"
  have ok: "accounts_ok one_account" unfolding one_account_def by (rule create_account_ok [OF no_accounts_ok])
  have ne: "accounts one_account \<noteq> []" by code_simp
  then have a: "its_account \<in> set (accounts one_account)" by (simp add: its_account_def)
  have none: "remediation_accounts one_account = []" and two: "logs_in_as ''2'' ?db (sa_user its_account)"
    by code_simp+
  have ok2: "accounts_ok ?db"
    using account_step_ok [OF step_submission [OF a] ok] none by simp
  show ?thesis
    using deletion_stops_every_token_or_none [OF ok a] deletion_stops_every_token_or_none [OF ok2, of its_account] a none two
    by (auto split: prod.splits sum.splits)
qed

section \<open>The admin pages\<close>

lemma account_or_404_account:
  assumes "account_or_404 r oid db = Inr a"
  shows "a \<in> set (accounts db)" and "oid = Some (sa_pk a)" and "may_change r"
  using assms by (auto simp: account_or_404_def find_Some_iff split: option.splits if_splits)

lemma issue_token_outcome:
  obtains (refused) x where "issue_token random a n db = (Inl x, db\<lparr>draws := Suc (draws db)\<rparr>)"
  | (issued) db' where "issue_token random a n db = (Inr (random (draws db)), db')"
  using issue_token_answers [of random a n db] by (metis (full_types))

text \<open>The page that issues tokens either leaves every table as it was and shows no token, or it answered a
  POST of somebody who may change the account, and then the one token it shows logs in as that account.\<close>

theorem token_page_shows_its_token_only:
  "issue_token_view random r oid db = ((resp, msgs), db') \<Longrightarrow>
   (msgs = [] \<and> same_tables db db') \<or>
   (\<exists>a \<in> set (accounts db). \<exists>token. oid = Some (sa_pk a) \<and> may_change r \<and> is_post r \<and> resp = BackTo (sa_pk a) \<and>
      msgs = [(WARNING, token_message (sa_name a) token)] \<and> logs_in_as token db' (sa_user a))"
proof -
  assume view: "issue_token_view random r oid db = ((resp, msgs), db')"
  show ?thesis
  proof (cases "account_or_404 r oid db")
    case (Inl answer)
    with view show ?thesis by (simp add: issue_token_view_def)
  next
    case acc: (Inr a)
    note a = account_or_404_account [OF acc]
    show ?thesis
    proof (cases "is_post r")
      case False
      with view acc show ?thesis by (simp add: issue_token_view_def)
    next
      case post: True
      show ?thesis
      proof (cases "clean_token_name (post_name r)")
        case (Inl problem)
        with view acc post show ?thesis by (simp add: issue_token_view_def)
      next
        case (Inr name)
        show ?thesis
        proof (cases rule: issue_token_outcome [of random a name db])
          case (refused x)
          then have "msgs = []" "db' = db\<lparr>draws := Suc (draws db)\<rparr>"
            using view acc post Inr by (cases x; simp add: issue_token_view_def)+
          then show ?thesis by simp
        next
          case (issued db'')
          then have "logs_in_as (random (draws db)) db'' (sa_user a)"
            using issue_token_fields [OF issued] by (auto simp: logs_in_as_def)
          with view acc post Inr issued a show ?thesis by (auto simp: issue_token_view_def)
        qed
      qed
    qed
  qed
qed

definition demo_token_request :: admin_request where
  "demo_token_request = \<lparr>req_path = ''/admin/'', is_post = True, post_name = Some '' staging '', may_change = True\<rparr>"

theorem token_page_shows_its_token_only_witness:
  "\<exists>a \<in> set (accounts one_account). \<exists>token.
     logs_in_as token (snd (issue_token_view demo_random demo_token_request (Some (sa_pk its_account)) one_account)) (sa_user a)"
proof -
  let ?v = "issue_token_view demo_random demo_token_request (Some (sa_pk its_account)) one_account"
  have "snd (fst ?v) \<noteq> []" by code_simp
  with token_page_shows_its_token_only [of demo_random demo_token_request "Some (sa_pk its_account)" one_account
      "fst (fst ?v)" "snd (fst ?v)" "snd ?v"]
  show ?thesis by auto
qed

text \<open>An edit writes only the edited columns: a webhook secret regenerated after the form was opened, the
  login user and every column the form did not change are as the database has them.\<close>

theorem edit_writes_only_edited_columns:
  "map webhook_secret (accounts (snd (save_model cfg random pk obj tn changed True db))) = map webhook_secret (accounts db) \<and>
   map sa_user (accounts (snd (save_model cfg random pk obj tn changed True db))) = map sa_user (accounts db) \<and>
   (''max_in_flight'' \<in> set changed \<or>
     map max_in_flight (accounts (snd (save_model cfg random pk obj tn changed True db))) = map max_in_flight (accounts db)) \<and>
   (''unlimited'' \<in> set changed \<or>
     map unlimited (accounts (snd (save_model cfg random pk obj tn changed True db))) = map unlimited (accounts db)) \<and>
   tokens (snd (save_model cfg random pk obj tn changed True db)) = tokens db"
proof -
  have *: "snd (save_model cfg random pk obj tn changed True db) = snd (save_edit changed obj db)"
    by (simp add: save_model_def split: prod.splits sum.splits)
  have kept: "map g (accounts (snd (save_edit changed obj db))) = map g (accounts db)"
    if "\<And>row. g (edited_row changed obj row) = g row" for g
    using that by (auto simp: save_edit_def Let_def update_rows_def)
  have "tokens (snd (save_edit changed obj db)) = tokens db" by (simp add: save_edit_def Let_def)
  moreover have "''max_in_flight'' \<in> set changed \<or> (\<forall>row. max_in_flight (edited_row changed obj row) = max_in_flight row)"
    "''unlimited'' \<in> set changed \<or> (\<forall>row. unlimited (edited_row changed obj row) = unlimited row)"
    by (simp_all add: edited_row_def)
  ultimately show ?thesis unfolding * by (auto intro!: kept)
qed

text \<open>An account's name or token cannot add markup to the message: its only tags are the two of \<open>code\<close>.\<close>

lemma html_escape_no_tags: "CHR ''<'' \<notin> set (html_escape t)"
  by (auto simp: html_escape_def html_escape_char_def split: if_splits)

lemma token_message_markup: "count_list (token_message name token) 60 = 2"
proof -
  have none: "count_list (codes (html_escape t)) 60 = 0" for t
  proof -
    have "of_char c \<noteq> (60::int)" if "c \<in> set (html_escape t)" for c
    proof
      assume "of_char c = (60::int)"
      then have "of_char c = (of_char (CHR ''<'') :: int)" by simp
      then have "c = CHR ''<''" by (simp only: of_char_eq_iff)
      with that html_escape_no_tags show False by blast
    qed
    then have "60 \<notin> set (codes (html_escape t))" unfolding codes_def by (metis imageE list.set_map)
    then show ?thesis by (simp add: count_list_0_iff)
  qed
  have "count_list (codes '': <code style=\"user-select: all\">'') 60 = 1" "count_list (codes ''</code> '') 60 = 1"
    "count_list (codes '' copy this now, it can't be shown again.'') 60 = 0" by code_simp+
  then show ?thesis by (simp add: token_message_def none)
qed

end
