(* ===== verification/Operations.thy ===== *)
theory Operations
  imports Artifact_Steps Complex_Main
begin

text \<open>
  What keeps the deployed application running: \<^verbatim>\<open>common/db.py\<close> (retry on a lost connection),
  \<^verbatim>\<open>common/middleware.py\<close> (the origin lock), \<^verbatim>\<open>common/startup_warnings.py\<close>, the database backup
  (\<^verbatim>\<open>common/services.py\<close>, \<^verbatim>\<open>common/db_backup_adapter.py\<close>, \<^verbatim>\<open>backup_database.py\<close>), and the scheduled worker
  (\<^verbatim>\<open>remediation/hybrid_client.py\<close>, \<^verbatim>\<open>run_queued_tasks.py\<close>).  The database, the clock, the OCR server, the
  backup package and the task library are parameters.
\<close>

section \<open>Lost database connections\<close>

datatype db_error = OperationalError | OtherDatabaseError string

record 'w session =
  in_atomic_block :: bool
  connection_open :: bool
  stored :: 'w

definition drop_connection_if_safe :: "'w session \<Rightarrow> bool \<times> 'w session" where
  "drop_connection_if_safe s =
     (if in_atomic_block s then (False, s) else (True, s\<lparr>connection_open := False\<rparr>))"

text \<open>A call of the wrapped function, with the second call it makes on a fresh connection.\<close>

definition retry_on_lost_connection ::
    "('w session \<Rightarrow> (db_error + 'r) \<times> 'w session) \<Rightarrow> 'w session \<Rightarrow> (db_error + 'r) \<times> 'w session" where
  "retry_on_lost_connection func s =
     (case func s of
        (Inl OperationalError, s1) \<Rightarrow>
          (case drop_connection_if_safe s1 of
             (False, s2) \<Rightarrow> (Inl OperationalError, s2)
           | (True, s2) \<Rightarrow> func s2)
      | answer \<Rightarrow> answer)"

text \<open>
  A write over a connection the other side may have closed.  An open connection can turn out to be lost
  before the write took effect, or after it did but before the answer arrived; a closed one is opened anew.
\<close>

datatype fault = Works | LostBefore | LostAfter

definition db_write :: "fault \<Rightarrow> ('w \<Rightarrow> 'w) \<Rightarrow> 'w session \<Rightarrow> (db_error + unit) \<times> 'w session" where
  "db_write fault write s =
     (if \<not> connection_open s \<or> fault = Works then (Inr (), s\<lparr>connection_open := True, stored := write (stored s)\<rparr>)
      else if fault = LostBefore then (Inl OperationalError, s)
      else (Inl OperationalError, s\<lparr>stored := write (stored s)\<rparr>))"

section \<open>The origin lock\<close>

record http_request =
  http_method :: string
  http_path :: string
  meta :: "string \<Rightarrow> string option"

datatype 'a lock_answer = Passed 'a | HttpForbidden string

definition HEADER_META_KEY :: string where "HEADER_META_KEY = ''HTTP_X_ORIGIN_SECRET''"

definition is_probe :: "string \<Rightarrow> http_request \<Rightarrow> bool" where
  "is_probe ping_url r \<longleftrightarrow> http_method r \<in> {''GET'', ''HEAD''} \<and> http_path r = ping_url"

definition origin_lock :: "string \<Rightarrow> string \<Rightarrow> (http_request \<Rightarrow> 'a) \<Rightarrow> http_request \<Rightarrow> 'a lock_answer" where
  "origin_lock secret ping_url get_response r =
     (if secret = '''' \<or> is_probe ping_url r then Passed (get_response r)
      else if (case meta r HEADER_META_KEY of None \<Rightarrow> '''' | Some v \<Rightarrow> v) \<noteq> secret then HttpForbidden ''Forbidden''
      else Passed (get_response r))"

section \<open>Warnings about the settings\<close>

record deploy_settings =
  S3_BUCKET_NAME :: string
  RUN_ALT_TEXT :: bool
  ANTHROPIC_API_KEY :: string
  REQUIRE_HTTPS :: bool
  ORIGIN_LOCK_SECRET :: string
  RUN_OCR :: bool
  OPENDATALOADER_HYBRID_URL :: string
  OCR_READY_TIMEOUT_SECONDS :: int
  OCR_READY_POLL_SECONDS :: int
  DB_BACKUP_BUCKET_NAME :: string

definition config_warnings :: "deploy_settings \<Rightarrow> string list" where
  "config_warnings s =
     (if S3_BUCKET_NAME s = ''''
      then [''S3_BUCKET_NAME is not set, so files are kept on local disk. That disk is lost when a container restarts and isn't shared between the web and worker containers.'']
      else []) @
     (if RUN_ALT_TEXT s \<and> ANTHROPIC_API_KEY s = ''''
      then [''RUN_ALT_TEXT is on but ANTHROPIC_API_KEY is not set.''] else []) @
     (if REQUIRE_HTTPS s \<and> ORIGIN_LOCK_SECRET s = ''''
      then [''ORIGIN_LOCK_SECRET is not set, so requests that skip Cloudflare (e.g. via the run.app address) are not refused. Ignore this if the app isn't behind Cloudflare.'']
      else [])"

definition worker_config_warnings :: "deploy_settings \<Rightarrow> string list" where
  "worker_config_warnings s =
     (if RUN_OCR s \<and> OPENDATALOADER_HYBRID_URL s = ''''
      then [''RUN_OCR is on but OPENDATALOADER_HYBRID_URL is not set.''] else [])"

text \<open>What is sent to monitoring, in order.\<close>

datatype report = WarningReport string | ExceptionReport string "(string \<times> string) list"

definition report_config_warnings :: "deploy_settings \<Rightarrow> report list" where
  "report_config_warnings s = map (\<lambda>m. WarningReport (''Config warning: '' @ m)) (config_warnings s)"

definition report_worker_config_warnings :: "deploy_settings \<Rightarrow> report list" where
  "report_worker_config_warnings s = map (\<lambda>m. WarningReport (''Config warning: '' @ m)) (worker_config_warnings s)"

section \<open>Database backups\<close>

definition BACKUP_STORAGE_ALIAS :: string where "BACKUP_STORAGE_ALIAS = ''dbbackup''"

definition DBBACKUP_LOGGER :: string where "DBBACKUP_LOGGER = ''dbbackup''"
definition DBBACKUP_SERVER_NAME :: string where "DBBACKUP_SERVER_NAME = ''dice''"
definition JOB_DATABASE_BACKUP :: string where "JOB_DATABASE_BACKUP = ''database_backup''"

text \<open>The names in \<open>settings.STORAGES\<close>: the backup's only with a bucket.\<close>

definition STORAGES :: "deploy_settings \<Rightarrow> string list" where
  "STORAGES s = [''default'', ''staticfiles''] @ (if DB_BACKUP_BUCKET_NAME s \<noteq> '''' then [BACKUP_STORAGE_ALIAS] else [])"

text \<open>
  \<open>dbbackup\<close> is the package's command, called with the server name: the backups in the bucket after it, or
  what it raises.
\<close>

definition backup ::
    "(string \<Rightarrow> 'b \<Rightarrow> (exn + unit) \<times> 'b) \<Rightarrow> deploy_settings \<Rightarrow> 'b \<Rightarrow> (exn + unit) \<times> 'b" where
  "backup dbbackup s bucket =
     (if BACKUP_STORAGE_ALIAS \<notin> set (STORAGES s)
      then (Inl (OtherException ''No backup bucket is set up: DB_BACKUP_BUCKET_NAME is empty, so there is nowhere to upload the backup.''), bucket)
      else dbbackup DBBACKUP_SERVER_NAME bucket)"

datatype backup_error = DatabaseBackupError string

definition run_backup ::
    "(string \<Rightarrow> 'b \<Rightarrow> (exn + unit) \<times> 'b) \<Rightarrow> deploy_settings \<Rightarrow> 'b \<Rightarrow> (backup_error + unit) \<times> 'b \<times> report list" where
  "run_backup dbbackup s bucket =
     (case backup dbbackup s bucket of
        (Inl x, bucket') \<Rightarrow>
          (Inl (DatabaseBackupError (''Database backup failed: '' @ exn_str x)), bucket',
           [ExceptionReport (exn_str x) [(''job'', JOB_DATABASE_BACKUP)]])
      | (Inr _, bucket') \<Rightarrow> (Inr (), bucket', []))"

text \<open>What a command ends with: its output, or the error that makes the process exit non-zero.\<close>

datatype command_error = CommandError string

definition backup_database ::
    "(string \<Rightarrow> 'b \<Rightarrow> (exn + unit) \<times> 'b) \<Rightarrow> deploy_settings \<Rightarrow> 'b \<Rightarrow> (command_error + string list) \<times> 'b \<times> report list" where
  "backup_database dbbackup s bucket =
     (case run_backup dbbackup s bucket of
        (Inl (DatabaseBackupError m), bucket', reports) \<Rightarrow> (Inl (CommandError m), bucket', reports)
      | (Inr _, bucket', reports) \<Rightarrow> (Inr [''Backup uploaded.''], bucket', reports))"

section \<open>The scheduled worker\<close>

text \<open>
  The \<open>k\<close>-th request of \<open>/health\<close> is answered with a status code, or fails; \<open>monotonic k\<close> is the clock
  after it (and \<open>started\<close> before the first).  \<open>None\<close> is a wait that never ends.
\<close>

definition is_ready :: "(nat \<Rightarrow> int option) \<Rightarrow> nat \<Rightarrow> bool" where
  "is_ready health k = (health k = Some 200)"

datatype wait_end = Ready nat | HybridServerNotReady string | SleepValueError

partial_function (option) wait_from ::
    "(nat \<Rightarrow> int option) \<Rightarrow> (nat \<Rightarrow> rat) \<Rightarrow> rat \<Rightarrow> int \<Rightarrow> string \<Rightarrow> nat \<Rightarrow> wait_end option" where
  "wait_from health monotonic deadline poll_interval message k =
     (if is_ready health k then Some (Ready k)
      else if deadline \<le> monotonic k then Some (HybridServerNotReady message)
      else if poll_interval < 0 then Some SleepValueError
      else wait_from health monotonic deadline poll_interval message (Suc k))"

definition wait_until_ready ::
    "(nat \<Rightarrow> int option) \<Rightarrow> rat \<Rightarrow> (nat \<Rightarrow> rat) \<Rightarrow> string \<Rightarrow> int \<Rightarrow> int \<Rightarrow> wait_end option" where
  "wait_until_ready health started monotonic base_url timeout poll_interval =
     wait_from health monotonic (started + of_int timeout) poll_interval
       (''OCR server at '' @ base_url @ '' not ready after '' @ str_int timeout @ ''s'') 0"

text \<open>\<open>base_url.rstrip("/")\<close>.\<close>

definition hybrid_base_url :: "string \<Rightarrow> string" where
  "hybrid_base_url url = rev (dropWhile (\<lambda>c. c = CHR ''/'') (rev url))"

text \<open>
  The command: whether it called \<open>db_worker\<close>, its output and what it reported.  A task is ready when it
  waits in the default queue and is due.
\<close>

record queued_task =
  task_backend :: string
  task_waiting :: bool
  run_after :: "int option"

definition has_ready_tasks :: "int \<Rightarrow> queued_task list \<Rightarrow> bool" where
  "has_ready_tasks t_now tasks =
     list_ex (\<lambda>t. task_waiting t \<and> (case run_after t of None \<Rightarrow> True | Some t' \<Rightarrow> t' \<le> t_now) \<and> task_backend t = ''default'') tasks"

datatype worker_end = NothingQueued | DbWorker | Failed command_error | Crashed

definition run_queued_tasks ::
    "(nat \<Rightarrow> int option) \<Rightarrow> rat \<Rightarrow> (nat \<Rightarrow> rat) \<Rightarrow> deploy_settings \<Rightarrow> int \<Rightarrow> queued_task list
      \<Rightarrow> (worker_end \<times> string list \<times> report list) option" where
  "run_queued_tasks health started monotonic s t_now tasks =
     (if \<not> has_ready_tasks t_now tasks then Some (NothingQueued, [''Nothing queued.''], [])
      else
        let reports = report_worker_config_warnings s
        in if RUN_OCR s \<and> OPENDATALOADER_HYBRID_URL s \<noteq> '''' then
             map_option (\<lambda>w. (case w of
                 Ready k \<Rightarrow> DbWorker
               | HybridServerNotReady m \<Rightarrow> Failed (CommandError m)
               | SleepValueError \<Rightarrow> Crashed,
               [''Work queued; waiting for the OCR server to be ready...''], reports))
             (wait_until_ready health started monotonic (hybrid_base_url (OPENDATALOADER_HYBRID_URL s))
                (OCR_READY_TIMEOUT_SECONDS s) (OCR_READY_POLL_SECONDS s))
           else Some (DbWorker, [], reports))"

section \<open>A write that lost its connection\<close>

lemma retry_db_write:
  "retry_on_lost_connection (db_write fault write) s =
     (if connection_open s \<and> fault \<noteq> Works
      then if in_atomic_block s then (Inl OperationalError, snd (db_write fault write s))
           else (Inr (), s\<lparr>stored := write (if fault = LostAfter then write (stored s) else stored s)\<rparr>)
      else (Inr (), s\<lparr>connection_open := True, stored := write (stored s)\<rparr>))"
  by (cases fault) (simp_all add: retry_on_lost_connection_def db_write_def drop_connection_if_safe_def)

lemma upsert_artifact_twice:
  assumes "art_remediation b = art_remediation a" and "art_step b = art_step a" and "art_status b = art_status a"
    and "art_output_uri b = art_output_uri a" and "art_error b = art_error a" and "artifacts w' = artifacts (upsert_artifact a w)"
  shows "artifacts (upsert_artifact b w') = artifacts (upsert_artifact a w)"
proof -
  let ?same = "\<lambda>x. art_remediation x = art_remediation a \<and> art_step x = art_step a"
  let ?f = "\<lambda>x. x\<lparr>art_status := art_status a, art_output_uri := art_output_uri a, art_error := art_error a\<rparr>"
  have found: "List.find ?same (artifacts (upsert_artifact a w)) \<noteq> None"
  proof (cases "List.find ?same (artifacts w)")
    case None
    then have "a \<in> set (artifacts (upsert_artifact a w))" by (simp add: upsert_artifact_def Let_def)
    then show ?thesis unfolding find_None_iff by blast
  next
    case (Some x)
    then have "x \<in> set (artifacts w)" "?same x" by (auto simp: find_Some_iff)
    then have "?f x \<in> set (update_rows ?same ?f (artifacts w))" "?same (?f x)" by (auto simp: update_rows_def)
    then have "List.find ?same (update_rows ?same ?f (artifacts w)) \<noteq> None" unfolding find_None_iff by blast
    with Some show ?thesis by (simp add: upsert_artifact_def Let_def)
  qed
  have "update_rows ?same (\<lambda>x. x\<lparr>art_status := art_status a, art_output_uri := art_output_uri a, art_error := art_error a\<rparr>)
      (artifacts (upsert_artifact a w)) = artifacts (upsert_artifact a w)"
  proof (cases "List.find ?same (artifacts w) = None")
    case True
    then show ?thesis by (auto simp: upsert_artifact_def Let_def update_rows_def find_None_iff intro!: map_idI)
  next
    case False
    then show ?thesis by (auto simp: upsert_artifact_def Let_def update_rows_def comp_def)
  qed
  with found assms show ?thesis by (simp add: upsert_artifact_def [of b w'] Let_def)
qed

lemma mark_status_twice:
  "artifacts (mark_status e st r verdict uri err (mark_status e st r verdict uri err w)) = artifacts (mark_status e st r verdict uri err w)"
  unfolding mark_status_def now_def Let_def prod.case
  by (rule upsert_artifact_twice) (simp_all add: upsert_artifact_def Let_def)

text \<open>A step's status written over a connection that turns out to be lost is recorded as if it had not been:
  whether the loss came before or after the write took effect, the artifact rows are those of one write.  Inside
  a transaction there is no second try and the error surfaces.\<close>

theorem lost_connection_records_a_status_once:
  "(case retry_on_lost_connection (db_write fault (mark_status e st r verdict uri err)) s of
      (Inr _, s') \<Rightarrow> artifacts (stored s') = artifacts (mark_status e st r verdict uri err (stored s))
    | (Inl x, s') \<Rightarrow> x = OperationalError \<and> in_atomic_block s \<and> connection_open s \<and> fault \<noteq> Works)"
  by (simp add: retry_db_write mark_status_twice)

section \<open>Requests that skip Cloudflare\<close>

lemma origin_lock_iff:
  "origin_lock secret ping_url get_response r =
     (if secret = '''' \<or> meta r HEADER_META_KEY = Some secret \<or> is_probe ping_url r
      then Passed (get_response r) else HttpForbidden ''Forbidden'')"
  by (auto simp: origin_lock_def split: option.splits)

text \<open>With the origin lock on, whatever the rest of the application would do with it, a request gets
  through exactly if it carries the secret or is a GET or HEAD of the ping address.\<close>

theorem origin_lock_needs_the_secret:
  "(\<forall>get_response. origin_lock (c # cs) ping_url get_response r = HttpForbidden ''Forbidden'') =
     (meta r HEADER_META_KEY \<noteq> Some (c # cs) \<and> \<not> (http_method r \<in> {''GET'', ''HEAD''} \<and> http_path r = ping_url))"
  by (simp add: origin_lock_iff is_probe_def)

section \<open>Backups\<close>

text \<open>The backup command either fails, with exactly one report to monitoring that names the job, or has
  uploaded and reports nothing; without a bucket it fails and the backup package is never called.\<close>

theorem failed_backups_are_reported:
  "(case backup_database dbbackup s bucket of
      (Inl _, bucket', reports) \<Rightarrow>
        (\<exists>m. reports = [ExceptionReport m [(''job'', ''database_backup'')]]) \<and> (DB_BACKUP_BUCKET_NAME s \<noteq> '''' \<or> bucket' = bucket)
    | (Inr out, bucket', reports) \<Rightarrow>
        reports = [] \<and> DB_BACKUP_BUCKET_NAME s \<noteq> '''' \<and> dbbackup ''dice'' bucket = (Inr (), bucket'))"
  by (auto simp: backup_database_def run_backup_def backup_def STORAGES_def BACKUP_STORAGE_ALIAS_def
      DBBACKUP_SERVER_NAME_def JOB_DATABASE_BACKUP_def split: sum.splits prod.splits if_splits)

section \<open>Waiting for the OCR server\<close>

lemma clock_runs:
  fixes monotonic :: "nat \<Rightarrow> rat"
  assumes "\<And>k. monotonic k + d \<le> monotonic (Suc k)"
  shows "monotonic k + of_nat n * d \<le> monotonic (k + n)"
proof (induction n)
  case (Suc n)
  with assms [of "k + n"] show ?case by (simp add: algebra_simps)
qed simp

lemma wait_from_ends:
  assumes "deadline \<le> monotonic (k + n)" and "0 \<le> poll_interval"
  shows "\<exists>w. wait_from health monotonic deadline poll_interval message k = Some w \<and> w \<noteq> SleepValueError \<and>
    ((\<exists>j. w = Ready j) \<longleftrightarrow> (\<exists>j \<ge> k. is_ready health j \<and> (\<forall>i. k \<le> i \<and> i < j \<longrightarrow> monotonic i < deadline)))"
  using assms
proof (induction n arbitrary: k)
  case 0
  have "(\<exists>j \<ge> k. is_ready health j \<and> (\<forall>i. k \<le> i \<and> i < j \<longrightarrow> monotonic i < deadline)) \<longleftrightarrow> is_ready health k"
    using 0 by (metis add_0_right leD le_less less_eq_nat.simps(1) order_refl le_neq_implies_less)
  with 0 show ?case by (subst wait_from.simps) simp
next
  case (Suc n)
  consider (ready) "is_ready health k" | (late) "\<not> is_ready health k" "deadline \<le> monotonic k"
    | (again) "\<not> is_ready health k" "monotonic k < deadline" by force
  then show ?case
  proof cases
    case ready
    then show ?thesis by (subst wait_from.simps) (auto intro: exI [of _ k])
  next
    case late
    then have "\<not> (\<exists>j \<ge> k. is_ready health j \<and> (\<forall>i. k \<le> i \<and> i < j \<longrightarrow> monotonic i < deadline))"
      by (metis leD le_neq_implies_less order_refl)
    with late show ?thesis by (subst wait_from.simps) simp
  next
    case again
    have "(\<exists>j \<ge> k. is_ready health j \<and> (\<forall>i. k \<le> i \<and> i < j \<longrightarrow> monotonic i < deadline)) \<longleftrightarrow>
        (\<exists>j \<ge> Suc k. is_ready health j \<and> (\<forall>i. Suc k \<le> i \<and> i < j \<longrightarrow> monotonic i < deadline))"
      using again by (metis Suc_leD Suc_leI le_neq_implies_less)
    with Suc.IH [of "Suc k"] Suc.prems again show ?thesis by (subst wait_from.simps) simp
  qed
qed

text \<open>C37: The scheduled worker always ends while the clock runs: it works on the queue exactly if a task is due and
  OCR is off, has no address, or answered before the deadline had passed at any earlier check.\<close>

theorem scheduled_worker_always_ends:
  "0 < d \<Longrightarrow> (\<And>k. monotonic k + d \<le> monotonic (Suc k)) \<Longrightarrow> 0 \<le> OCR_READY_POLL_SECONDS s \<Longrightarrow>
   \<exists>ending out reports. run_queued_tasks health started monotonic s t_now tasks = Some (ending, out, reports) \<and>
     (ending = DbWorker \<longleftrightarrow>
        has_ready_tasks t_now tasks \<and>
        (\<not> RUN_OCR s \<or> OPENDATALOADER_HYBRID_URL s = '''' \<or>
         (\<exists>j. health j = Some 200 \<and> (\<forall>i < j. monotonic i < started + of_int (OCR_READY_TIMEOUT_SECONDS s)))))"
proof -
  assume d: "0 < d" and runs: "\<And>k. monotonic k + d \<le> monotonic (Suc k)" and poll: "0 \<le> OCR_READY_POLL_SECONDS s"
  let ?deadline = "started + of_int (OCR_READY_TIMEOUT_SECONDS s)"
  obtain n where "(?deadline - monotonic 0) / d < of_nat n" using reals_Archimedean2 by blast
  then have "?deadline \<le> monotonic 0 + of_nat n * d" using d by (simp add: field_simps)
  also have "\<dots> \<le> monotonic (0 + n)" by (rule clock_runs) (rule runs)
  finally have late: "?deadline \<le> monotonic (0 + n)" .
  obtain w where w: "wait_until_ready health started monotonic (hybrid_base_url (OPENDATALOADER_HYBRID_URL s))
      (OCR_READY_TIMEOUT_SECONDS s) (OCR_READY_POLL_SECONDS s) = Some w" "w \<noteq> SleepValueError"
    "(\<exists>j. w = Ready j) \<longleftrightarrow> (\<exists>j. health j = Some 200 \<and> (\<forall>i < j. monotonic i < ?deadline))"
    using wait_from_ends [where monotonic = monotonic and n = n and k = 0 and message = "''OCR server at '' @ hybrid_base_url (OPENDATALOADER_HYBRID_URL s) @
        '' not ready after '' @ str_int (OCR_READY_TIMEOUT_SECONDS s) @ ''s''", OF late poll, of health]
    unfolding wait_until_ready_def is_ready_def by (metis le0)
  show ?thesis
  proof (cases w)
    case (Ready k)
    with w show ?thesis by (auto simp: run_queued_tasks_def Let_def)
  next
    case (HybridServerNotReady m)
    with w show ?thesis by (auto simp: run_queued_tasks_def Let_def)
  qed (use w in simp)
qed

definition demo_deploy :: deploy_settings where
  "demo_deploy = \<lparr>S3_BUCKET_NAME = '''', RUN_ALT_TEXT = False, ANTHROPIC_API_KEY = '''', REQUIRE_HTTPS = True,
     ORIGIN_LOCK_SECRET = '''', RUN_OCR = True, OPENDATALOADER_HYBRID_URL = ''http://ocr:5002'', OCR_READY_TIMEOUT_SECONDS = 600,
     OCR_READY_POLL_SECONDS = 5, DB_BACKUP_BUCKET_NAME = ''''\<rparr>"

theorem scheduled_worker_always_ends_witness:
  "\<exists>ending out reports. run_queued_tasks (\<lambda>k. if k = 3 then Some 200 else None) 0 (\<lambda>k. 6 * of_nat k) demo_deploy 7
      [\<lparr>task_backend = ''default'', task_waiting = True, run_after = None\<rparr>] = Some (ending, out, reports) \<and> ending = DbWorker"
proof -
  have "\<exists>j. (if j = (3::nat) then Some (200::int) else None) = Some 200 \<and> (\<forall>i < j. 6 * (of_nat i :: rat) < 0 + of_int 600)"
  proof (intro exI conjI allI impI)
    fix i :: nat
    assume "i < 3"
    then have "(of_nat i :: rat) < 3" by simp
    then show "6 * (of_nat i :: rat) < 0 + of_int 600" by simp
  qed simp
  then show ?thesis
    using scheduled_worker_always_ends [of 6 "\<lambda>k. 6 * of_nat k" demo_deploy "\<lambda>k. if k = 3 then Some 200 else None" 0 7
        "[\<lparr>task_backend = ''default'', task_waiting = True, run_after = None\<rparr>]"]
    by (auto simp: demo_deploy_def has_ready_tasks_def)
qed

end
