(* ===== verification/Sha1.thy ===== *)
theory Sha1
  imports Sha256
begin

unbundle bit_operations_syntax

text \<open>SHA-1 (FIPS 180-4) of Python's \<open>hashlib\<close>, and the UTF-8 encoding of a Latin-1 text.\<close>

type_synonym sha1_state = "32 word \<times> 32 word \<times> 32 word \<times> 32 word \<times> 32 word"

definition sha1_init :: sha1_state where
  "sha1_init = (0x67452301, 0xEFCDAB89, 0x98BADCFE, 0x10325476, 0xC3D2E1F0)"

text \<open>The message schedule, newest word first; \<open>k\<close> words are still to be added.\<close>

fun sha1_schedule :: "nat \<Rightarrow> 32 word list \<Rightarrow> 32 word list" where
  "sha1_schedule 0 ws = rev ws"
| "sha1_schedule (Suc k) ws = sha1_schedule k (word_rotl 1 (ws ! 2 XOR ws ! 7 XOR ws ! 13 XOR ws ! 15) # ws)"

fun sha1_f :: "nat \<Rightarrow> 32 word \<Rightarrow> 32 word \<Rightarrow> 32 word \<Rightarrow> 32 word \<times> 32 word" where
  "sha1_f t b c d =
     (if t < 20 then ((b AND c) OR (NOT b AND d), 0x5A827999)
      else if t < 40 then (b XOR c XOR d, 0x6ED9EBA1)
      else if t < 60 then ((b AND c) OR (b AND d) OR (c AND d), 0x8F1BBCDC)
      else (b XOR c XOR d, 0xCA62C1D6))"

fun sha1_round :: "sha1_state \<Rightarrow> nat \<times> 32 word \<Rightarrow> sha1_state" where
  "sha1_round (a, b, c, d, e) (t, w) =
     (case sha1_f t b c d of (f, k) \<Rightarrow> (word_rotl 5 a + f + e + k + w, a, word_rotl 30 b, c, d))"

fun sha1_add :: "sha1_state \<Rightarrow> sha1_state \<Rightarrow> sha1_state" where
  "sha1_add (a, b, c, d, e) (a', b', c', d', e') = (a + a', b + b', c + c', d + d', e + e')"

definition sha1_block :: "sha1_state \<Rightarrow> bytes \<Rightarrow> sha1_state" where
  "sha1_block st block = sha1_add st (foldl sha1_round st (List.enumerate 0 (sha1_schedule 64 (rev (words_of block)))))"

definition sha1_hexdigest :: "bytes \<Rightarrow> string" where
  "sha1_hexdigest msg =
     (case foldl sha1_block sha1_init (chunks_of 64 (sha_pad msg)) of
        (a, b, c, d, e) \<Rightarrow> concat (map (\<lambda>w. hex_digits 8 (unat w)) [a, b, c, d, e]))"

definition utf8_char :: "char \<Rightarrow> bytes" where
  "utf8_char c =
     (let n = of_char c :: nat
      in if n < 128 then [word_of_nat n] else [word_of_nat (192 + n div 64), word_of_nat (128 + n mod 64)])"

definition utf8 :: "string \<Rightarrow> bytes" where
  "utf8 t = concat (map utf8_char t)"

lemma length_sha1_hexdigest [simp]: "length (sha1_hexdigest msg) = 40"
  by (simp add: sha1_hexdigest_def split: prod.split)

end
