(* ===== verification/Pdf_Quality.thy ===== *)
theory Pdf_Quality
  imports Ocr_Truth Alt_Text Sha1 "HOL-Library.Char_ord"
begin

text \<open>
  \<^verbatim>\<open>remediation/pdf_quality.py\<close>: the quality report of a remediated document and the comparison of two
  reports.  The structure tree is walked over the store of PDF objects; the interpreter's stack bounds the
  walk as it does for every recursive function.  Counters are multisets.  Parameters: the words of each page
  as the second PDF library reads them, the document information, the outline and the text scores.  Texts of
  the document are Latin-1.
\<close>

section \<open>Counts of a page\<close>

definition HEADING_TAGS :: "string list" where
  "HEADING_TAGS = [''/H'', ''/H1'', ''/H2'', ''/H3'', ''/H4'', ''/H5'', ''/H6'']"

definition PHRASE_LENGTH :: nat where "PHRASE_LENGTH = 5"

text \<open>\<open>^(image|figure|picture|img)?\s*\d*$\<close>, ignoring case, on a stripped text.\<close>

definition PLACEHOLDER_ALT :: "string \<Rightarrow> bool" where
  "PLACEHOLDER_ALT alt \<longleftrightarrow>
     list_ex (\<lambda>word. startswith (lower alt) word \<and>
                      list_all is_digit (dropWhile (\<lambda>c. white_space (of_char c)) (drop (length word) alt)))
       [''image'', ''figure'', ''picture'', ''img'', '''']"

record page_structure =
  roles :: "string list"
  heading_levels :: "nat list"
  list_sizes :: "nat list"
  tables :: nat
  header_cells :: nat
  tables_without_headers :: nat
  figures :: nat
  figures_without_alt :: nat
  figures_with_placeholder_alt :: nat
  links :: nat

definition empty_page :: page_structure where
  "empty_page = \<lparr>roles = [], heading_levels = [], list_sizes = [], tables = 0, header_cells = 0,
     tables_without_headers = 0, figures = 0, figures_without_alt = 0, figures_with_placeholder_alt = 0, links = 0\<rparr>"

definition heading_level :: "string \<Rightarrow> nat" where
  "heading_level tag =
     (if length tag = 3 \<and> is_digit (tag ! 2) then digits_value [tag ! 2] else 1)"

definition list_items_of :: "pdf \<Rightarrow> nat \<Rightarrow> nat" where
  "list_items_of d a =
     length (filter (\<lambda>k. case as_dict d k of None \<Rightarrow> False | Some b \<Rightarrow> str_entry d b ''/S'' = ''/LI'') (kids_at d a))"

text \<open>What a node adds to its page before its kids are visited.\<close>

definition note_node :: "pdf \<Rightarrow> nat \<Rightarrow> string \<Rightarrow> page_structure \<Rightarrow> page_structure" where
  "note_node d a tag p =
     (let q = p\<lparr>roles := roles p @ [tag]\<rparr>
      in if tag \<in> set HEADING_TAGS then q\<lparr>heading_levels := heading_levels p @ [heading_level tag]\<rparr>
         else if tag = ''/L'' then q\<lparr>list_sizes := list_sizes p @ [list_items_of d a]\<rparr>
         else if tag = ''/Table'' then q\<lparr>tables := Suc (tables p)\<rparr>
         else if tag = ''/Figure'' then
           (let alt = strip (str_entry d a ''/Alt''); q' = q\<lparr>figures := Suc (figures p)\<rparr>
            in if alt = '''' then q'\<lparr>figures_without_alt := Suc (figures_without_alt p)\<rparr>
               else if PLACEHOLDER_ALT alt then q'\<lparr>figures_with_placeholder_alt := Suc (figures_with_placeholder_alt p)\<rparr>
               else q')
         else if tag = ''/Link'' then q\<lparr>links := Suc (links p)\<rparr>
         else q)"

text \<open>And after them, once the header cells below it are known.\<close>

definition close_node :: "string \<Rightarrow> nat \<Rightarrow> page_structure \<Rightarrow> page_structure" where
  "close_node tag headers p =
     (if tag = ''/TH'' then p\<lparr>header_cells := Suc (header_cells p)\<rparr>
      else if tag = ''/Table'' \<and> headers = 0 then p\<lparr>tables_without_headers := Suc (tables_without_headers p)\<rparr>
      else p)"

section \<open>The walk\<close>

text \<open>The pages in order (page \<open>n\<close> at index \<open>n - 1\<close>) and the heading levels in document order.\<close>

type_synonym walk = "page_structure list \<times> nat list"

definition on_page :: "nat option \<Rightarrow> (page_structure \<Rightarrow> page_structure) \<Rightarrow> page_structure list \<Rightarrow> page_structure list" where
  "on_page page f ps =
     (case page of None \<Rightarrow> ps | Some n \<Rightarrow> if 1 \<le> n \<and> n \<le> length ps then ps[n - 1 := f (ps ! (n - 1))] else ps)"

definition has_page :: "nat option \<Rightarrow> page_structure list \<Rightarrow> bool" where
  "has_page page ps \<longleftrightarrow> (case page of None \<Rightarrow> False | Some n \<Rightarrow> 1 \<le> n \<and> n \<le> length ps)"

text \<open>From object number to page number; a later page overrides an earlier one.\<close>

definition page_numbers :: "pdf \<Rightarrow> nat \<Rightarrow> nat option" where
  "page_numbers d = map_of (rev (map (\<lambda>(i, p). (object_number d p, i)) (List.enumerate 1 (page_list d))))"

text \<open>The page of a node: its own page entry if that is a page, the inherited one otherwise.\<close>

definition node_page :: "pdf \<Rightarrow> nat \<Rightarrow> nat option \<Rightarrow> exn + nat option" where
  "node_page d a page =
     (case get_at d a ''/Pg'' of
        None \<Rightarrow> Inr page
      | Some (VInt _) \<Rightarrow> Inl (OtherException ''AttributeError'')
      | Some (VBool _) \<Rightarrow> Inl (OtherException ''AttributeError'')
      | Some v \<Rightarrow> Inr (case page_numbers d (number_of d v) of None \<Rightarrow> page | Some n \<Rightarrow> Some n))"

definition enter_node :: "pdf \<Rightarrow> nat \<Rightarrow> string \<Rightarrow> nat option \<Rightarrow> walk \<Rightarrow> walk" where
  "enter_node d a tag page w =
     (if tag \<noteq> '''' \<and> has_page page (fst w)
      then (on_page page (note_node d a tag) (fst w),
            if tag \<in> set HEADING_TAGS then snd w @ [heading_level tag] else snd w)
      else w)"

text \<open>
  \<open>visit\<close>: how many header cells sit under a node.  The first number is how many nested calls the
  interpreter's stack still takes.
\<close>

fun visit :: "pdf \<Rightarrow> nat \<Rightarrow> nat \<Rightarrow> nat option \<Rightarrow> walk \<Rightarrow> exn + nat \<times> walk"
and visit_kids :: "pdf \<Rightarrow> nat \<Rightarrow> val list \<Rightarrow> nat option \<Rightarrow> nat \<Rightarrow> walk \<Rightarrow> exn + nat \<times> walk" where
  "visit d 0 a page w = Inl (OtherException ''RecursionError'')"
| "visit d (Suc n) a page w =
     (let tag = str_entry d a ''/S''
      in case node_page d a page of
           Inl x \<Rightarrow> Inl x
         | Inr page' \<Rightarrow>
             (case visit_kids d n (kids_at d a) page' (if tag = ''/TH'' then 1 else 0) (enter_node d a tag page' w) of
                Inl x \<Rightarrow> Inl x
              | Inr (headers, w') \<Rightarrow> Inr (headers, (on_page page' (close_node tag headers) (fst w'), snd w'))))"
| "visit_kids d n [] page headers w = Inr (headers, w)"
| "visit_kids d n (k # ks) page headers w =
     (case as_dict d k of
        None \<Rightarrow> visit_kids d n ks page headers w
      | Some a \<Rightarrow>
          (case visit d n a page w of
             Inl x \<Rightarrow> Inl x
           | Inr (h, w') \<Rightarrow> visit_kids d n ks page (headers + h) w'))"

definition structure_by_page :: "nat \<Rightarrow> pdf \<Rightarrow> exn + walk" where
  "structure_by_page stack d =
     (let pages = replicate (length (page_list d)) empty_page
      in case get_at d (root_at d) ''/StructTreeRoot'' of
           None \<Rightarrow> Inr (pages, [])
         | Some tree \<Rightarrow>
             (case get_entry d tree ''/K'' of
                Inl x \<Rightarrow> Inl x
              | Inr found \<Rightarrow>
                  map_sum id snd (visit_kids d stack
                    (case found of None \<Rightarrow> [] | Some v \<Rightarrow> (case as_array d v of Some vs \<Rightarrow> vs | None \<Rightarrow> [v])) None 0 (pages, []))))"

section \<open>Text against the original\<close>

definition phrases :: "utext list \<Rightarrow> utext list list" where
  "phrases ws = map (\<lambda>i. take PHRASE_LENGTH (drop i ws)) [0 ..< length ws + 1 - PHRASE_LENGTH]"

definition text_against_source :: "utext list \<Rightarrow> utext list \<Rightarrow> nat \<times> nat \<times> nat" where
  "text_against_source ws source_words =
     (let source_phrases = mset (phrases source_words);
          repeated = sum_list (map (\<lambda>p. count (mset (phrases ws)) p - count source_phrases p)
                                (filter (\<lambda>p. 0 < count source_phrases p \<and> count source_phrases p < count (mset (phrases ws)) p)
                                   (remdups (phrases ws))))
      in (repeated, size (mset source_words - mset ws), size (mset ws - mset source_words)))"

section \<open>The report\<close>

datatype doc_value = DText string | DBool bool | DCount nat

text \<open>The annotations of a page as the loop sees them: an array's items; a key of a dictionary has no entries.\<close>

definition annots_of :: "pdf \<Rightarrow> nat \<Rightarrow> exn + val list" where
  "annots_of d p =
     (case get_at d p ''/Annots'' of
        None \<Rightarrow> Inr []
      | Some v \<Rightarrow>
          (case entries_of d v of
             Inl x \<Rightarrow> Inl x
           | Inr (_ # _) \<Rightarrow> Inl (OtherException ''AttributeError'')
           | Inr [] \<Rightarrow> items_of d v))"

fun links_in :: "pdf \<Rightarrow> val list \<Rightarrow> exn + nat" where
  "links_in d [] = Inr 0"
| "links_in d (v # vs) =
     (case str_of_entry d v ''/Subtype'' of
        Inl x \<Rightarrow> Inl x
      | Inr t \<Rightarrow> map_sum id (\<lambda>n. n + (if t = ''/Link'' then 1 else 0)) (links_in d vs))"

fun link_annotations :: "pdf \<Rightarrow> nat list \<Rightarrow> exn + nat" where
  "link_annotations d [] = Inr 0"
| "link_annotations d (p # ps) =
     (case annots_of d p of
        Inl x \<Rightarrow> Inl x
      | Inr vs \<Rightarrow>
          (case links_in d vs of
             Inl x \<Rightarrow> Inl x
           | Inr n \<Rightarrow> map_sum id (\<lambda>m. n + m) (link_annotations d ps)))"

text \<open>\<open>bool(v is not None and v.get(k, False))\<close> for an entry of the root.\<close>

definition root_flag :: "pdf \<Rightarrow> string \<Rightarrow> string \<Rightarrow> exn + bool" where
  "root_flag d section k =
     (case get_at d (root_at d) section of
        None \<Rightarrow> Inr False
      | Some v \<Rightarrow> map_sum id (\<lambda>r. case r of None \<Rightarrow> False | Some x \<Rightarrow> truthy d x) (get_entry d v k))"

definition document_properties :: "pdf \<Rightarrow> string \<Rightarrow> nat \<Rightarrow> exn + (string \<times> doc_value) list" where
  "document_properties d title outline_entries =
     (case root_flag d ''/MarkInfo'' ''/Marked'' of
        Inl x \<Rightarrow> Inl x
      | Inr marked \<Rightarrow>
          (case root_flag d ''/ViewerPreferences'' ''/DisplayDocTitle'' of
             Inl x \<Rightarrow> Inl x
           | Inr display \<Rightarrow>
               map_sum id (\<lambda>n.
                 [(''title'', DText title), (''language'', DText (str_entry d (root_at d) ''/Lang'')),
                  (''marked'', DBool marked), (''display_doc_title'', DBool display),
                  (''all_pages_tab_by_structure'', DBool (list_all (\<lambda>p. str_entry d p ''/Tabs'' = ''/S'') (page_list d))),
                  (''outline_entries'', DCount outline_entries), (''link_annotations'', DCount n)])
                 (link_annotations d (page_list d))))"

record page_entry =
  pe_words :: nat
  pe_headings :: "nat list"
  pe_lists :: "nat list"
  pe_tables :: nat
  pe_figures :: nat
  tag_signature :: string
  against_source :: "(nat \<times> nat \<times> nat) option"

record quality_report =
  report_file :: string
  page_count :: nat
  document :: "(string \<times> doc_value) list"
  totals :: "(string \<times> nat) list"
  tag_counts :: "(string \<times> nat) list"
  report_pages :: "(string \<times> page_entry) list"
  report_verapdf :: "(string \<times> int) list option"
  ocr_truth_scores :: "(string \<times> page_score) list option"
  failed_steps :: "string list"

definition page_report :: "page_structure \<Rightarrow> utext list \<Rightarrow> utext list option \<Rightarrow> page_entry" where
  "page_report p ws source =
     \<lparr>pe_words = length ws, pe_headings = heading_levels p, pe_lists = list_sizes p, pe_tables = tables p,
      pe_figures = figures p, tag_signature = take 10 (sha1_hexdigest (utf8 (join '' '' (roles p)))),
      against_source = map_option (text_against_source ws) source\<rparr>"

definition level_skips :: "nat list \<Rightarrow> nat" where
  "level_skips order = length (filter (\<lambda>(before, after). 1 < int after - int before) (zip order (tl order)))"

definition report_totals ::
    "page_structure list \<Rightarrow> nat list \<Rightarrow> utext list list \<Rightarrow> bool \<Rightarrow> page_entry list \<Rightarrow> (string \<times> nat) list" where
  "report_totals ps order page_words has_source entries =
     [(''words'', sum_list (map length page_words)),
      (''empty_pages'', length (filter (\<lambda>w. length w < 5) page_words)),
      (''headings'', sum_list (map (\<lambda>p. length (heading_levels p)) ps)),
      (''heading_level_skips'', level_skips order),
      (''lists'', sum_list (map (\<lambda>p. length (list_sizes p)) ps)),
      (''list_items'', sum_list (map (\<lambda>p. sum_list (list_sizes p)) ps)),
      (''tables'', sum_list (map tables ps)),
      (''tables_without_headers'', sum_list (map tables_without_headers ps)),
      (''figures'', sum_list (map figures ps)),
      (''figures_without_alt'', sum_list (map figures_without_alt ps)),
      (''figures_with_placeholder_alt'', sum_list (map figures_with_placeholder_alt ps)),
      (''links'', sum_list (map links ps))] @
     (if \<not> has_source then []
      else [(''repeated_phrases'', sum_list (map (\<lambda>e. fst (the (against_source e))) entries)),
            (''words_missing_from_source'', sum_list (map (\<lambda>e. fst (snd (the (against_source e)))) entries)),
            (''words_added_to_source'', sum_list (map (\<lambda>e. snd (snd (the (against_source e)))) entries))])"

text \<open>
  \<open>analyze_pdf\<close>: \<open>page_words\<close> and \<open>source_words\<close> are the words of each page of the document and of the
  original, \<open>scored\<close> what scoring against a transcription answers, where one is given.
\<close>

definition tag_counts_of :: "string list \<Rightarrow> (string \<times> nat) list" where
  "tag_counts_of tags = map (\<lambda>t. (t, count_list tags t)) (sort (remdups tags))"

definition analyze_pdf ::
    "nat \<Rightarrow> pdf \<Rightarrow> string \<Rightarrow> string \<Rightarrow> nat \<Rightarrow> utext list list \<Rightarrow> utext list list option
      \<Rightarrow> (exn + (string \<times> page_score) list) option \<Rightarrow> exn + quality_report" where
  "analyze_pdf stack d name title outline_entries page_words source_words scored =
     (case structure_by_page stack d of
        Inl x \<Rightarrow> Inl x
      | Inr (structure, heading_order) \<Rightarrow>
          (case document_properties d title outline_entries of
             Inl x \<Rightarrow> Inl x
           | Inr doc \<Rightarrow>
               if source_words \<noteq> None \<and> length (the source_words) \<noteq> length page_words
               then Inl (ValueError (str_nat (length (the source_words)) @ '' pages but '' @ str_nat (length page_words)))
               else if length structure < length page_words then Inl (OtherException ''KeyError'')
               else
                 let n = length page_words;
                     entries = map (\<lambda>i. page_report (structure ! i) (page_words ! i) (map_option (\<lambda>s. s ! i) source_words)) [0 ..< n];
                     report = \<lparr>report_file = name, page_count = n, document = doc,
                       totals = report_totals structure heading_order page_words (source_words \<noteq> None) entries,
                       tag_counts = tag_counts_of (concat (map roles (take n structure))),
                       report_pages = map (\<lambda>i. (str_nat (Suc i), entries ! i)) [0 ..< n],
                       report_verapdf = None, ocr_truth_scores = None, failed_steps = []\<rparr>
                 in case scored of
                      None \<Rightarrow> Inr report
                    | Some r \<Rightarrow> map_sum id (\<lambda>s. report\<lparr>ocr_truth_scores := Some s\<rparr>) r))"

section \<open>Comparing two reports\<close>

definition WORSE_IF_HIGHER :: "string list" where
  "WORSE_IF_HIGHER = [''empty_pages'', ''figures_without_alt'', ''figures_with_placeholder_alt'', ''tables_without_headers'',
     ''heading_level_skips'', ''repeated_phrases'', ''words_missing_from_source'']"

definition WORSE_IF_LOWER :: "string list" where
  "WORSE_IF_LOWER = [''headings'']"

definition NEUTRAL :: "string list" where
  "NEUTRAL = [''words'', ''lists'', ''list_items'', ''tables'', ''figures'', ''links'', ''words_added_to_source'']"

text \<open>The lines of a comparison, with the values they print.\<close>

datatype quality_line =
    TotalLine string nat nat
  | VeraLine string int int
  | TruthLine score_line
  | DocumentLine string doc_value "doc_value option"

datatype page_change =
    HeadingCount nat nat
  | HeadingLevels "nat list" "nat list"
  | ListSizes "nat list" "nat list"
  | Changed string nat nat
  | TagOrder

record comparison =
  invalid :: "(string \<times> string list) list"
  rows :: "(string \<times> int \<times> int) list"
  regressions :: "quality_line list"
  improvements :: "quality_line list"
  page_changes :: "(string \<times> page_change list) list"

definition no_comparison :: comparison where
  "no_comparison = \<lparr>invalid = [], rows = [], regressions = [], improvements = [], page_changes = []\<rparr>"

definition changes_of_page :: "page_entry \<Rightarrow> page_entry \<Rightarrow> page_change list" where
  "changes_of_page before after =
     (let changes =
        (if length (pe_headings after) \<noteq> length (pe_headings before)
         then [HeadingCount (length (pe_headings before)) (length (pe_headings after))]
         else if pe_headings after \<noteq> pe_headings before then [HeadingLevels (pe_headings before) (pe_headings after)] else []) @
        (if pe_lists after \<noteq> pe_lists before then [ListSizes (pe_lists before) (pe_lists after)] else []) @
        List.map_filter (\<lambda>(k, f). if f after \<noteq> f before then Some (Changed k (f before) (f after)) else None)
          [(''tables'', pe_tables), (''figures'', pe_figures), (''words'', pe_words)]
      in if changes = [] \<and> tag_signature after \<noteq> tag_signature before then [TagOrder] else changes)"

definition compare_total :: "quality_report \<Rightarrow> quality_report \<Rightarrow> comparison \<Rightarrow> string \<Rightarrow> comparison" where
  "compare_total baseline candidate c key =
     (case (map_of (totals baseline) key, map_of (totals candidate) key) of
        (Some before, Some after) \<Rightarrow>
          (let c1 = c\<lparr>rows := rows c @ [(key, int before, int after)]\<rparr>; line = TotalLine key before after
           in if before = after then c1
              else if key \<in> set WORSE_IF_HIGHER
              then (if before < after then c1\<lparr>regressions := regressions c1 @ [line]\<rparr> else c1\<lparr>improvements := improvements c1 @ [line]\<rparr>)
              else if key \<in> set WORSE_IF_LOWER
              then (if after < before then c1\<lparr>regressions := regressions c1 @ [line]\<rparr> else c1\<lparr>improvements := improvements c1 @ [line]\<rparr>)
              else c1)
      | _ \<Rightarrow> c)"

definition rule_count :: "(string \<times> int) list \<Rightarrow> string \<Rightarrow> int" where
  "rule_count rules rule = (case map_of rules rule of None \<Rightarrow> 0 | Some n \<Rightarrow> n)"

definition compare_rule :: "(string \<times> int) list \<Rightarrow> (string \<times> int) list \<Rightarrow> comparison \<Rightarrow> string \<Rightarrow> comparison" where
  "compare_rule baseline candidate c rule =
     (let before = rule_count baseline rule; after = rule_count candidate rule; line = VeraLine rule before after
      in if before < after then c\<lparr>regressions := regressions c @ [line]\<rparr>
         else if after < before then c\<lparr>improvements := improvements c @ [line]\<rparr> else c)"

definition compare_verapdf :: "quality_report \<Rightarrow> quality_report \<Rightarrow> comparison \<Rightarrow> comparison" where
  "compare_verapdf baseline candidate c =
     (case (report_verapdf baseline, report_verapdf candidate) of
        (Some b, Some k) \<Rightarrow>
          foldl (compare_rule b k)
            (c\<lparr>rows := rows c @ [(''verapdf failed checks'', sum_list (map snd b), sum_list (map snd k))]\<rparr>)
            (sort (remdups (map fst b @ map fst k)))
      | _ \<Rightarrow> c)"

definition compare_truth :: "(string \<Rightarrow> int) \<Rightarrow> quality_report \<Rightarrow> quality_report \<Rightarrow> comparison \<Rightarrow> comparison" where
  "compare_truth int_key baseline candidate c =
     (case (ocr_truth_scores baseline, ocr_truth_scores candidate) of
        (Some b, Some k) \<Rightarrow>
          (case compare_scores int_key b k of
             (worse, better) \<Rightarrow> c\<lparr>regressions := regressions c @ map TruthLine worse,
                                 improvements := improvements c @ map TruthLine better\<rparr>)
      | _ \<Rightarrow> c)"

definition compare_document :: "quality_report \<Rightarrow> quality_report \<Rightarrow> comparison \<Rightarrow> comparison" where
  "compare_document baseline candidate c =
     c\<lparr>regressions := regressions c @
        List.map_filter (\<lambda>(key, before). let after = map_of (document candidate) key
           in if Some before \<noteq> after then Some (DocumentLine key before after) else None) (document baseline)\<rparr>"

definition compare_pages :: "(string \<Rightarrow> int) \<Rightarrow> quality_report \<Rightarrow> quality_report \<Rightarrow> comparison \<Rightarrow> comparison" where
  "compare_pages int_key baseline candidate c =
     c\<lparr>page_changes := List.map_filter (\<lambda>number.
          case (map_of (report_pages baseline) number, map_of (report_pages candidate) number) of
            (Some before, Some after) \<Rightarrow>
              (let changes = changes_of_page before after in if changes = [] then None else Some (number, changes))
          | _ \<Rightarrow> None)
        (sort_key int_key (map fst (report_pages baseline)))\<rparr>"

definition compare_reports :: "(string \<Rightarrow> int) \<Rightarrow> quality_report \<Rightarrow> quality_report \<Rightarrow> comparison" where
  "compare_reports int_key baseline candidate =
     (let failed = (if failed_steps baseline \<noteq> [] then [(''baseline'', failed_steps baseline)] else []) @
                   (if failed_steps candidate \<noteq> [] then [(''candidate'', failed_steps candidate)] else [])
      in if failed \<noteq> [] then no_comparison\<lparr>invalid := failed\<rparr>
         else compare_pages int_key baseline candidate
                (compare_document baseline candidate
                  (compare_truth int_key baseline candidate
                    (compare_verapdf baseline candidate
                      (foldl (compare_total baseline candidate) no_comparison (WORSE_IF_HIGHER @ WORSE_IF_LOWER @ NEUTRAL))))))"

end
