(* ===== verification/Quality_Theorems.thy ===== *)
theory Quality_Theorems
  imports Pdf_Quality
begin

text \<open>
  What the quality report and its comparison promise: the counts of every page agree with the tags seen on
  it, lost and added words balance, a report compared with itself shows nothing, and a metric is listed as
  worse or better exactly when it is.
\<close>

section \<open>The counts of a page\<close>

text \<open>
  How a page grows while a part of the tree is walked: by some tags, with the counts that go with them.
  \<open>th\<close> header cells and \<open>tb\<close> tables are still open.
\<close>

definition page_grows :: "nat \<Rightarrow> nat \<Rightarrow> page_structure \<Rightarrow> page_structure \<Rightarrow> bool" where
  "page_grows th tb p q \<longleftrightarrow>
     (\<exists>rs. roles q = roles p @ rs \<and>
        heading_levels q = heading_levels p @ map heading_level (filter (\<lambda>t. t \<in> set HEADING_TAGS) rs) \<and>
        length (list_sizes q) = length (list_sizes p) + count_list rs ''/L'' \<and>
        tables q = tables p + count_list rs ''/Table'' \<and>
        figures q = figures p + count_list rs ''/Figure'' \<and>
        links q = links p + count_list rs ''/Link'' \<and>
        header_cells q + th = header_cells p + count_list rs ''/TH'') \<and>
     figures_without_alt q + figures_with_placeholder_alt q + figures p
       \<le> figures_without_alt p + figures_with_placeholder_alt p + figures q \<and>
     tables_without_headers q + tables p + tb \<le> tables_without_headers p + tables q"

lemma page_grows_refl [simp]: "page_grows 0 0 p p"
  unfolding page_grows_def by (intro conjI exI [of _ "[]"]) simp_all

lemma page_grows_trans: "page_grows a b p q \<Longrightarrow> page_grows c e q r \<Longrightarrow> page_grows (a + c) (b + e) p r"
  unfolding page_grows_def
proof (elim conjE exE, intro conjI)
  fix rs rs'
  assume "roles q = roles p @ rs" "roles r = roles q @ rs'"
    "heading_levels q = heading_levels p @ map heading_level (filter (\<lambda>t. t \<in> set HEADING_TAGS) rs)"
    "heading_levels r = heading_levels q @ map heading_level (filter (\<lambda>t. t \<in> set HEADING_TAGS) rs')"
    "length (list_sizes q) = length (list_sizes p) + count_list rs ''/L''"
    "length (list_sizes r) = length (list_sizes q) + count_list rs' ''/L''"
    "tables q = tables p + count_list rs ''/Table''" "tables r = tables q + count_list rs' ''/Table''"
    "figures q = figures p + count_list rs ''/Figure''" "figures r = figures q + count_list rs' ''/Figure''"
    "links q = links p + count_list rs ''/Link''" "links r = links q + count_list rs' ''/Link''"
    "header_cells q + a = header_cells p + count_list rs ''/TH''" "header_cells r + c = header_cells q + count_list rs' ''/TH''"
  then show "\<exists>rs. roles r = roles p @ rs \<and>
        heading_levels r = heading_levels p @ map heading_level (filter (\<lambda>t. t \<in> set HEADING_TAGS) rs) \<and>
        length (list_sizes r) = length (list_sizes p) + count_list rs ''/L'' \<and>
        tables r = tables p + count_list rs ''/Table'' \<and>
        figures r = figures p + count_list rs ''/Figure'' \<and>
        links r = links p + count_list rs ''/Link'' \<and>
        header_cells r + (a + c) = header_cells p + count_list rs ''/TH''"
    by (intro exI [of _ "rs @ rs'"]) simp
qed simp_all

lemma note_node_fields:
  "roles (note_node d a tag p) = roles p @ [tag]"
  "heading_levels (note_node d a tag p) = (if tag \<in> set HEADING_TAGS then heading_levels p @ [heading_level tag] else heading_levels p)"
  "tables_without_headers (note_node d a tag p) = tables_without_headers p"
  "header_cells (note_node d a tag p) = header_cells p"
  by (simp_all add: note_node_def Let_def)

lemma note_node_grows: "page_grows (of_bool (tag = ''/TH'')) (of_bool (tag = ''/Table'')) p (note_node d a tag p)"
proof -
  have not_heading: "tag \<notin> set HEADING_TAGS" if "tag \<in> {''/L'', ''/Table'', ''/Figure'', ''/Link'', ''/TH''}"
    using that by (auto simp: HEADING_TAGS_def)
  let ?q = "note_node d a tag p"
  have "length (list_sizes ?q) = length (list_sizes p) + of_bool (tag = ''/L'')"
    "tables ?q = tables p + of_bool (tag = ''/Table'')" "figures ?q = figures p + of_bool (tag = ''/Figure'')"
    "links ?q = links p + of_bool (tag = ''/Link'')"
    using not_heading by (auto simp: note_node_def Let_def)
  moreover have "figures_without_alt ?q + figures_with_placeholder_alt ?q + figures p
      \<le> figures_without_alt p + figures_with_placeholder_alt p + figures ?q"
    by (simp add: note_node_def Let_def)
  ultimately show ?thesis
    unfolding page_grows_def by (intro conjI exI [of _ "[tag]"]) (auto simp: note_node_fields not_heading)
qed

lemma close_node_grows:
  "page_grows (of_bool (tag = ''/TH'')) (of_bool (tag = ''/Table'')) p q \<Longrightarrow> page_grows 0 0 p (close_node tag headers q)"
  unfolding page_grows_def close_node_def by (auto split: if_splits)

section \<open>The walk\<close>

definition all_levels :: "page_structure list \<Rightarrow> nat multiset" where
  "all_levels ps = sum_list (map (\<lambda>p. mset (heading_levels p)) ps)"

definition walk_grows :: "nat option \<Rightarrow> nat \<Rightarrow> nat \<Rightarrow> walk \<Rightarrow> walk \<Rightarrow> bool" where
  "walk_grows page th tb w w' \<longleftrightarrow>
     length (fst w') = length (fst w) \<and>
     (\<forall>i < length (fst w). page_grows (if page = Some (Suc i) then th else 0) (if page = Some (Suc i) then tb else 0)
        (fst w ! i) (fst w' ! i)) \<and>
     mset (snd w') + all_levels (fst w) = mset (snd w) + all_levels (fst w')"

lemma walk_grows_refl: "walk_grows page 0 0 w w"
  by (simp add: walk_grows_def)

lemma walk_grows_page: "walk_grows page 0 0 w w' \<Longrightarrow> walk_grows page' 0 0 w w'"
  by (simp add: walk_grows_def)

lemma walk_grows_trans: "walk_grows page a b w w' \<Longrightarrow> walk_grows page c e w' w'' \<Longrightarrow> walk_grows page (a + c) (b + e) w w''"
  unfolding walk_grows_def
proof (elim conjE, intro conjI allI impI)
  fix i
  assume len: "length (fst w') = length (fst w)" and i: "i < length (fst w)"
    and "\<forall>i<length (fst w). page_grows (if page = Some (Suc i) then a else 0) (if page = Some (Suc i) then b else 0) (fst w ! i) (fst w' ! i)"
    and "\<forall>i<length (fst w'). page_grows (if page = Some (Suc i) then c else 0) (if page = Some (Suc i) then e else 0) (fst w' ! i) (fst w'' ! i)"
  then have "page_grows (if page = Some (Suc i) then a else 0) (if page = Some (Suc i) then b else 0) (fst w ! i) (fst w' ! i)"
    "page_grows (if page = Some (Suc i) then c else 0) (if page = Some (Suc i) then e else 0) (fst w' ! i) (fst w'' ! i)"
    by simp_all
  from page_grows_trans [OF this]
  show "page_grows (if page = Some (Suc i) then a + c else 0) (if page = Some (Suc i) then b + e else 0) (fst w ! i) (fst w'' ! i)"
    by (simp split: if_splits)
next
  assume "mset (snd w') + all_levels (fst w) = mset (snd w) + all_levels (fst w')"
    "mset (snd w'') + all_levels (fst w') = mset (snd w') + all_levels (fst w'')"
  then have "mset (snd w'') + all_levels (fst w) + (mset (snd w') + all_levels (fst w'))
      = mset (snd w) + all_levels (fst w'') + (mset (snd w') + all_levels (fst w'))"
    by (metis (no_types, lifting) add.assoc add.commute)
  then show "mset (snd w'') + all_levels (fst w) = mset (snd w) + all_levels (fst w'')" by simp
qed simp

lemma all_levels_update:
  "i < length ps \<Longrightarrow> all_levels (ps[i := q]) + mset (heading_levels (ps ! i)) = all_levels ps + mset (heading_levels q)"
  unfolding all_levels_def
proof (induction ps arbitrary: i)
  case (Cons p ps)
  then show ?case by (cases i) (auto simp: add.assoc ac_simps)
qed simp

lemma on_page_no: "\<not> has_page page ps \<Longrightarrow> on_page page f ps = ps"
  by (auto simp: on_page_def has_page_def split: option.splits)

lemma on_page_some:
  assumes "has_page page ps"
  obtains i where "page = Some (Suc i)" and "i < length ps" and "\<And>f. on_page page f ps = ps[i := f (ps ! i)]"
proof -
  from assms obtain n where n: "page = Some n" "1 \<le> n" "n \<le> length ps" by (auto simp: has_page_def split: option.splits)
  then obtain i where "n = Suc i" "i < length ps" by (cases n) auto
  with n that show thesis by (simp add: on_page_def)
qed

lemma walk_grows_no_page: "\<not> has_page page (fst w) \<Longrightarrow> walk_grows page a b w w"
  by (auto simp: walk_grows_def has_page_def)

lemma enter_node_grows:
  "walk_grows page (of_bool (tag = ''/TH'')) (of_bool (tag = ''/Table'')) w (enter_node d a tag page w)"
proof (cases "tag \<noteq> '''' \<and> has_page page (fst w)")
  case True
  obtain i where i: "page = Some (Suc i)" "i < length (fst w)" "\<And>f. on_page page f (fst w) = (fst w)[i := f (fst w ! i)]"
    using True on_page_some by metis
  have "all_levels ((fst w)[i := note_node d a tag (fst w ! i)]) + mset (heading_levels (fst w ! i)) =
      all_levels (fst w) + mset (heading_levels (note_node d a tag (fst w ! i)))"
    by (rule all_levels_update) (rule i(2))
  then have "mset (if tag \<in> set HEADING_TAGS then snd w @ [heading_level tag] else snd w) + all_levels (fst w)
      = mset (snd w) + all_levels ((fst w)[i := note_node d a tag (fst w ! i)])"
    by (auto simp: note_node_fields)
  with True i show ?thesis
    using note_node_grows [of tag "fst w ! i" d a] by (auto simp: walk_grows_def enter_node_def nth_list_update)
next
  case False
  then have "enter_node d a tag page w = w" by (auto simp: enter_node_def)
  with False show ?thesis
    using walk_grows_no_page [of page w] walk_grows_refl [of page w] by (cases "tag = ''''") simp_all
qed

lemma close_node_walk:
  assumes "walk_grows page (of_bool (tag = ''/TH'')) (of_bool (tag = ''/Table'')) w w'"
  shows "walk_grows page 0 0 w (on_page page (close_node tag headers) (fst w'), snd w')"
proof (cases "has_page page (fst w')")
  case True
  obtain i where i: "page = Some (Suc i)" "i < length (fst w')"
    "\<And>f. on_page page f (fst w') = (fst w')[i := f (fst w' ! i)]"
    using True on_page_some by metis
  have levels: "heading_levels (close_node tag headers p) = heading_levels p" for p by (simp add: close_node_def)
  have "all_levels ((fst w')[i := close_node tag headers (fst w' ! i)]) = all_levels (fst w')"
    using all_levels_update [OF i(2), of "close_node tag headers (fst w' ! i)"] by (simp add: levels)
  moreover have "page_grows (of_bool (tag = ''/TH'')) (of_bool (tag = ''/Table'')) (fst w ! i) (fst w' ! i)"
  proof -
    from assms have "\<forall>j < length (fst w). page_grows (if page = Some (Suc j) then of_bool (tag = ''/TH'') else 0)
        (if page = Some (Suc j) then of_bool (tag = ''/Table'') else 0) (fst w ! j) (fst w' ! j)"
      and "length (fst w') = length (fst w)" unfolding walk_grows_def by blast+
    from this(1) [rule_format, of i] this(2) i(1,2) show ?thesis by (simp only: if_True refl)
  qed
  from close_node_grows [OF this] have "page_grows 0 0 (fst w ! i) (close_node tag headers (fst w' ! i))" .
  ultimately show ?thesis
    using assms i by (auto simp: walk_grows_def nth_list_update)
next
  case False
  then have "\<forall>i < length (fst w'). page \<noteq> Some (Suc i)" by (auto simp: has_page_def)
  with assms False show ?thesis by (auto simp: walk_grows_def on_page_no)
qed

lemma visit_grows:
  "visit d n a page w = Inr (h, w') \<Longrightarrow> walk_grows None 0 0 w w'"
  "visit_kids d n ks page h0 w = Inr (h, w') \<Longrightarrow> walk_grows None 0 0 w w'"
proof (induction d n a page w and d n ks page h0 w arbitrary: h w' and h w' rule: visit_visit_kids.induct)
  case (2 d n a page w)
  let ?tag = "str_entry d a ''/S''"
  from 2(2) obtain page' headers w2 where
    k: "visit_kids d n (kids_at d a) page' (if ?tag = ''/TH'' then 1 else 0) (enter_node d a ?tag page' w) = Inr (headers, w2)"
    and p: "node_page d a page = Inr page'"
    and w': "w' = (on_page page' (close_node ?tag headers) (fst w2), snd w2)"
    by (auto simp: Let_def split: sum.splits)
  from 2(1) [OF refl p k] have "walk_grows page' 0 0 (enter_node d a ?tag page' w) w2" by (rule walk_grows_page)
  from close_node_walk [OF walk_grows_trans [OF enter_node_grows this, unfolded add_0_right]]
  show ?case unfolding w' by (rule walk_grows_page)
next
  case (4 d n k ks page headers w)
  show ?case
  proof (cases "as_dict d k")
    case None
    with 4 show ?thesis by simp
  next
    case (Some a)
    with 4(4) obtain h1 w1 where v: "visit d n a page w = Inr (h1, w1)"
      and k: "visit_kids d n ks page (headers + h1) w1 = Inr (h, w')"
      by (auto split: sum.splits prod.splits)
    from walk_grows_trans [OF 4(2) [OF Some v] 4(3) [OF Some v refl k]] show ?thesis by simp
  qed
qed (simp_all add: walk_grows_refl)

definition page_consistent :: "page_structure \<Rightarrow> bool" where
  "page_consistent p \<longleftrightarrow>
     heading_levels p = map heading_level (filter (\<lambda>t. t \<in> set HEADING_TAGS) (roles p)) \<and>
     length (list_sizes p) = count_list (roles p) ''/L'' \<and> tables p = count_list (roles p) ''/Table'' \<and>
     figures p = count_list (roles p) ''/Figure'' \<and> links p = count_list (roles p) ''/Link'' \<and>
     header_cells p = count_list (roles p) ''/TH'' \<and>
     figures_without_alt p + figures_with_placeholder_alt p \<le> figures p \<and> tables_without_headers p \<le> tables p"

lemma page_grows_consistent: "page_grows 0 0 empty_page p \<Longrightarrow> page_consistent p"
  by (auto simp: page_grows_def page_consistent_def empty_page_def)

text \<open>However the structure tree refers to its pages, every page gets one entry, its counts are those of the
  tags seen on it, no more figures lack a description and no more tables lack headers than there are, and the
  headings in document order are those of the pages together.\<close>

theorem page_counts_agree_with_their_tags:
  "(case structure_by_page stack d of
      Inl x \<Rightarrow> get_at d (root_at d) ''/StructTreeRoot'' \<noteq> None
    | Inr (ps, order) \<Rightarrow> length ps = length (page_list d) \<and> list_all page_consistent ps \<and> mset order = all_levels ps)"
proof (cases "structure_by_page stack d")
  case (Inr w)
  let ?start = "(replicate (length (page_list d)) empty_page, [])"
  have "walk_grows None 0 0 ?start w"
    using Inr walk_grows_refl [of None ?start]
    by (auto simp: structure_by_page_def Let_def map_sum_Inr intro: visit_grows split: option.splits sum.splits)
  moreover have "all_levels (replicate n empty_page) = {#}" for n by (induction n) (simp_all add: all_levels_def empty_page_def)
  ultimately show ?thesis
    unfolding Inr walk_grows_def by (auto simp: list_all_length intro: page_grows_consistent)
next
  case (Inl x)
  then show ?thesis by (simp add: structure_by_page_def Let_def split: option.splits)
qed

section \<open>Lost, added and repeated text\<close>

lemma size_diff_inter: "size (A - B) + size (A \<inter># B) = size (A :: 'a multiset)"
proof -
  have "A \<inter># B \<subseteq># A" by simp
  moreover have "A - A \<inter># B = A - B" by (simp add: multiset_eq_iff)
  ultimately show ?thesis by (metis size_Diff_submset size_mset_mono le_add_diff_inverse2)
qed

lemma sum_counts_le: "sum_list (map (count (mset xs)) (filter P (remdups xs))) \<le> length xs"
proof -
  have "sum_list (map (count (mset xs)) (filter P (remdups xs))) = sum (count (mset xs)) (set (filter P (remdups xs)))"
    by (rule sum_list_distinct_conv_sum_set) simp
  also have "\<dots> \<le> sum (count (mset xs)) (set_mset (mset xs))" by (rule sum_mono2) auto
  also have "\<dots> = length xs" by (metis size_multiset_overloaded_eq size_mset)
  finally show ?thesis .
qed

text \<open>Against the original, lost and added words balance the word counts of both texts; both are zero exactly
  if the texts have the same words, however re-flowed; and no more phrases are called repeated than there are.\<close>

theorem lost_and_added_words_balance:
  "(case text_against_source ws source_words of
      (repeated, missing, added) \<Rightarrow>
        length source_words + added = length ws + missing \<and> (missing = 0 \<and> added = 0 \<longleftrightarrow> mset ws = mset source_words) \<and>
        repeated \<le> length ws + 1 - PHRASE_LENGTH) \<and>
   text_against_source ws ws = (0, 0, 0)"
proof -
  have bound: "sum_list (map (\<lambda>p. count (mset (phrases ws)) p - g p) (filter P (remdups (phrases ws)))) \<le> length (phrases ws)" for g P
  proof -
    have "sum_list (map (\<lambda>p. count (mset (phrases ws)) p - g p) (filter P (remdups (phrases ws))))
        \<le> sum_list (map (count (mset (phrases ws))) (filter P (remdups (phrases ws))))"
      by (rule sum_list_mono) simp
    also have "\<dots> \<le> length (phrases ws)" by (rule sum_counts_le)
    finally show ?thesis .
  qed
  have "size (mset source_words - mset ws) + size (mset source_words \<inter># mset ws) = length source_words"
    "size (mset ws - mset source_words) + size (mset source_words \<inter># mset ws) = length ws"
    using size_diff_inter [of "mset source_words" "mset ws"] size_diff_inter [of "mset ws" "mset source_words"]
    by (simp_all add: subset_mset.inf.commute)
  moreover have "mset source_words - mset ws = {#} \<and> mset ws - mset source_words = {#} \<longleftrightarrow> mset ws = mset source_words"
    by (metis Diff_eq_empty_iff_mset subset_mset.antisym_conv subset_mset.order_refl)
  moreover have "length (phrases ws) = length ws + 1 - PHRASE_LENGTH" by (simp add: phrases_def)
  ultimately show ?thesis
    using bound by (simp add: text_against_source_def Let_def)
qed

section \<open>The comparison\<close>

definition worse_total :: "quality_report \<Rightarrow> quality_report \<Rightarrow> string \<Rightarrow> nat \<Rightarrow> nat \<Rightarrow> bool" where
  "worse_total baseline candidate k before after \<longleftrightarrow>
     map_of (totals baseline) k = Some before \<and> map_of (totals candidate) k = Some after \<and>
     (k \<in> set WORSE_IF_HIGHER \<and> before < after \<or> k \<in> set WORSE_IF_LOWER \<and> after < before)"

definition better_total :: "quality_report \<Rightarrow> quality_report \<Rightarrow> string \<Rightarrow> nat \<Rightarrow> nat \<Rightarrow> bool" where
  "better_total baseline candidate k before after \<longleftrightarrow>
     map_of (totals baseline) k = Some before \<and> map_of (totals candidate) k = Some after \<and>
     (k \<in> set WORSE_IF_HIGHER \<and> after < before \<or> k \<in> set WORSE_IF_LOWER \<and> before < after)"

lemma not_both_ways: "k \<in> set WORSE_IF_HIGHER \<Longrightarrow> k \<notin> set WORSE_IF_LOWER"
  by (auto simp: WORSE_IF_HIGHER_def WORSE_IF_LOWER_def)

lemma compare_total_lines:
  "set (regressions (compare_total b c r k)) = set (regressions r) \<union> {TotalLine k x y | x y. worse_total b c k x y}"
  "set (improvements (compare_total b c r k)) = set (improvements r) \<union> {TotalLine k x y | x y. better_total b c k x y}"
  using not_both_ways [of k]
  by (auto simp: compare_total_def worse_total_def better_total_def Let_def split: option.splits)

lemma compare_totals_lines:
  "set (regressions (foldl (compare_total b c) r ks)) = set (regressions r) \<union> {TotalLine k x y | k x y. k \<in> set ks \<and> worse_total b c k x y}"
  "set (improvements (foldl (compare_total b c) r ks)) = set (improvements r) \<union> {TotalLine k x y | k x y. k \<in> set ks \<and> better_total b c k x y}"
  by (induction ks arbitrary: r) (auto simp: compare_total_lines)

lemma compare_rules_lines:
  "TotalLine k x y \<in> set (regressions (foldl (compare_rule b c) r rules)) \<longleftrightarrow> TotalLine k x y \<in> set (regressions r)"
  "TotalLine k x y \<in> set (improvements (foldl (compare_rule b c) r rules)) \<longleftrightarrow> TotalLine k x y \<in> set (improvements r)"
  by (induction rules arbitrary: r) (auto simp: compare_rule_def Let_def)

lemma later_comparisons:
  "TotalLine k x y \<in> set (regressions (compare_verapdf b c r)) \<longleftrightarrow> TotalLine k x y \<in> set (regressions r)"
  "TotalLine k x y \<in> set (improvements (compare_verapdf b c r)) \<longleftrightarrow> TotalLine k x y \<in> set (improvements r)"
  "TotalLine k x y \<in> set (regressions (compare_truth i b c r)) \<longleftrightarrow> TotalLine k x y \<in> set (regressions r)"
  "TotalLine k x y \<in> set (improvements (compare_truth i b c r)) \<longleftrightarrow> TotalLine k x y \<in> set (improvements r)"
  "TotalLine k x y \<in> set (regressions (compare_document b c r)) \<longleftrightarrow> TotalLine k x y \<in> set (regressions r)"
  "improvements (compare_document b c r) = improvements r"
  "regressions (compare_pages i b c r) = regressions r" "improvements (compare_pages i b c r) = improvements r"
  by (auto simp: compare_verapdf_def compare_truth_def compare_document_def compare_pages_def compare_rules_lines
      in_set_map_filter Let_def split: option.splits prod.splits if_splits)

text \<open>A total is listed as worse or as better exactly if both reports have it, every step of both runs
  succeeded, and it moved in the direction its table says is worse, or the other way.\<close>

theorem totals_are_judged_exactly:
  "(TotalLine k before after \<in> set (regressions (compare_reports int_key baseline candidate)) \<longleftrightarrow>
      failed_steps baseline = [] \<and> failed_steps candidate = [] \<and> worse_total baseline candidate k before after) \<and>
   (TotalLine k before after \<in> set (improvements (compare_reports int_key baseline candidate)) \<longleftrightarrow>
      failed_steps baseline = [] \<and> failed_steps candidate = [] \<and> better_total baseline candidate k before after)"
proof (cases "failed_steps baseline = [] \<and> failed_steps candidate = []")
  case True
  have "k \<in> set WORSE_IF_HIGHER \<or> k \<in> set WORSE_IF_LOWER"
    if "worse_total baseline candidate k before after \<or> better_total baseline candidate k before after"
    using that by (auto simp: worse_total_def better_total_def)
  with True show ?thesis
    by (auto simp: compare_reports_def Let_def later_comparisons compare_totals_lines no_comparison_def)
next
  case False
  then show ?thesis by (auto simp: compare_reports_def Let_def no_comparison_def)
qed

lemma compare_total_same: "compare_total r r c k = c \<or> (\<exists>x. compare_total r r c k = c\<lparr>rows := rows c @ [(k, x, x)]\<rparr>)"
  by (auto simp: compare_total_def Let_def split: option.splits)

lemma compare_totals_same:
  "regressions (foldl (compare_total r r) c ks) = regressions c" "improvements (foldl (compare_total r r) c ks) = improvements c"
proof (induction ks arbitrary: c)
  case (Cons k ks)
  { case 1 show ?case using Cons.IH(1) compare_total_same [of r c k] by auto }
  { case 2 show ?case using Cons.IH(2) compare_total_same [of r c k] by auto }
qed simp_all

lemma compare_rules_same: "foldl (compare_rule b b) c rules = c"
  by (induction rules arbitrary: c) (simp_all add: compare_rule_def Let_def)

lemma page_lines_same: "page_lines n s s = []"
  by (simp add: page_lines_def score_checks_def List.map_filter_def RATE_TOLERANCE_def ORDER_TOLERANCE_def)

lemma compare_scores_same: "compare_scores int_key s s = ([], [])"
proof -
  have "concat (map (\<lambda>n. page_lines n (the (map_of s n)) (the (map_of s n))) ns) = []" for ns
    by (simp add: page_lines_same)
  then show ?thesis by (simp add: compare_scores_def Let_def)
qed

text \<open>A report compared with itself shows nothing worse, nothing better and no changed page.\<close>

theorem a_report_equals_itself:
  "distinct (map fst (document r)) \<Longrightarrow>
   regressions (compare_reports int_key r r) = [] \<and> improvements (compare_reports int_key r r) = [] \<and>
   page_changes (compare_reports int_key r r) = []"
proof -
  assume doc: "distinct (map fst (document r))"
  have pages: "changes_of_page p p = []" for p by (simp add: changes_of_page_def List.map_filter_def)
  have "List.map_filter (\<lambda>(key, before). if Some before \<noteq> map_of (document r) key
      then Some (DocumentLine key before (map_of (document r) key)) else None) (document r) = []"
    using doc by (auto simp: List.map_filter_def filter_empty_conv)
  then show ?thesis
    by (simp add: compare_reports_def no_comparison_def compare_pages_def compare_document_def compare_truth_def compare_verapdf_def
        compare_totals_same compare_rules_same compare_scores_same pages List.map_filter_def Let_def split: option.splits)
qed

definition demo_report :: quality_report where
  "demo_report = \<lparr>report_file = ''a.pdf'', page_count = 1, document = [(''marked'', DBool True)],
     totals = [(''headings'', 2), (''figures_without_alt'', 1)], tag_counts = [], report_pages = [], report_verapdf = Some [(''7.1/1'', 3)],
     ocr_truth_scores = None, failed_steps = []\<rparr>"

theorem a_report_equals_itself_witness:
  "regressions (compare_reports (\<lambda>_. 0) demo_report demo_report) = [] \<and> page_changes (compare_reports (\<lambda>_. 0) demo_report demo_report) = []"
  using a_report_equals_itself [of demo_report "\<lambda>_. 0"] by (simp add: demo_report_def)

text \<open>A document that became marked is listed as worse: every change of a document property is.\<close>

lemma fixed_document_counts_as_worse:
  "DocumentLine ''marked'' (DBool False) (Some (DBool True))
     \<in> set (regressions (compare_reports int_key (demo_report\<lparr>document := [(''marked'', DBool False)]\<rparr>) demo_report))"
  by (simp add: compare_reports_def compare_pages_def compare_document_def in_set_map_filter demo_report_def Let_def)

end
