(* ===== verification/Quality_Commands.thy ===== *)
theory Quality_Commands
  imports Quality_Theorems
begin

text \<open>
  The two commands around the quality report: \<^verbatim>\<open>pdf_quality_report.py\<close> runs the pipeline's steps on files
  and writes a report for each, \<^verbatim>\<open>pdf_quality_compare.py\<close> compares two sets of reports.  A path is a text.
  Parameters: the adapters (what running a step on a file answers, and what the checker finds), the
  analysis, and the files there are.  The duration of a step is not modelled.
\<close>

datatype command_stop = CommandError string | Uncaught exn

section \<open>Running the steps\<close>

definition STAGE_NAMES :: "string list" where
  "STAGE_NAMES = [''ocr'', ''font_repair'', ''metadata'', ''link_tag'']"

record stage =
  stage_error :: "string option"
  stage_verapdf :: "(string \<times> int) list option"

definition failed_checks_of :: "VerificationOutcome \<Rightarrow> (string \<times> int) list" where
  "failed_checks_of outcome =
     fold (\<lambda>r d. AList.update (fr_clause r @ ''/'' @ fr_test_number r) (fr_failed_checks r) d) (vo_failed_rules outcome) []"

text \<open>\<open>checker path\<close> is the checker, \<open>do_step name path dir\<close> the step's adapter.\<close>

fun run_steps_from ::
    "(string \<Rightarrow> string \<Rightarrow> string \<Rightarrow> exn + string) \<Rightarrow> (string \<Rightarrow> exn + VerificationOutcome) \<Rightarrow> string \<Rightarrow> bool \<Rightarrow> string list
      \<Rightarrow> string \<times> (string \<times> stage) list \<times> (string \<times> int) list option
      \<Rightarrow> exn + string \<times> (string \<times> stage) list \<times> (string \<times> int) list option" where
  "run_steps_from do_step checker work_dir use_verapdf [] st = Inr st"
| "run_steps_from do_step checker work_dir use_verapdf (name # names) (current, stages, final_verapdf) =
     (case do_step name current (work_dir @ ''/'' @ name) of
        Inl (AdapterError m) \<Rightarrow>
          run_steps_from do_step checker work_dir use_verapdf names
            (current, stages @ [(name, \<lparr>stage_error = Some (take 300 m), stage_verapdf = None\<rparr>)], final_verapdf)
      | Inl x \<Rightarrow> Inl x
      | Inr path \<Rightarrow>
          if use_verapdf then
            (case checker path of
               Inl x \<Rightarrow> Inl x
             | Inr outcome \<Rightarrow>
                 run_steps_from do_step checker work_dir use_verapdf names
                   (path, stages @ [(name, \<lparr>stage_error = None, stage_verapdf = Some (failed_checks_of outcome)\<rparr>)],
                    Some (failed_checks_of outcome)))
          else run_steps_from do_step checker work_dir use_verapdf names
                 (path, stages @ [(name, \<lparr>stage_error = None, stage_verapdf = None\<rparr>)], final_verapdf))"

definition run_stages ::
    "(string \<Rightarrow> string \<Rightarrow> string \<Rightarrow> exn + string) \<Rightarrow> (string \<Rightarrow> exn + VerificationOutcome) \<Rightarrow> string \<Rightarrow> string \<Rightarrow> bool
      \<Rightarrow> exn + string \<times> (string \<times> stage) list \<times> (string \<times> int) list option" where
  "run_stages do_step checker source work_dir use_verapdf =
     (if use_verapdf
      then (case checker source of
              Inl x \<Rightarrow> Inl x
            | Inr outcome \<Rightarrow>
                run_steps_from do_step checker work_dir True STAGE_NAMES
                  (source, [(''source'', \<lparr>stage_error = None, stage_verapdf = Some (failed_checks_of outcome)\<rparr>)], None))
      else run_steps_from do_step checker work_dir False STAGE_NAMES (source, [], None))"

section \<open>Writing reports\<close>

definition stem_of :: "string \<Rightarrow> string" where
  "stem_of path =
     (let n = basename path; p = rev (dropWhile (\<lambda>c. c \<noteq> CHR ''.'') (rev n))
      in if length p \<le> 1 \<or> last n = CHR ''.'' then n else butlast p)"

definition truth_for :: "(string \<Rightarrow> bool) \<Rightarrow> string \<Rightarrow> string option \<Rightarrow> string option" where
  "truth_for is_file pdf truth_dir =
     (case truth_dir of
        None \<Rightarrow> None
      | Some dir \<Rightarrow> (let path = dir @ ''/'' @ stem_of pdf @ ''.json'' in if is_file path then Some path else None))"

record report_env =
  run_step :: "string \<Rightarrow> string \<Rightarrow> string \<Rightarrow> exn + string"
  validate_pdf :: "string \<Rightarrow> exn + VerificationOutcome"
  analyze :: "string \<Rightarrow> string option \<Rightarrow> string option \<Rightarrow> exn + quality_report"
  is_file :: "string \<Rightarrow> bool"
  temp_dir :: string

record report_options =
  output_dir :: string
  run_pipeline :: bool
  source_dir :: "string option"
  truth_dir :: "string option"
  no_verapdf :: bool
  keep_stages :: bool

text \<open>A written report: with the stages of the run, if it ran.\<close>

type_synonym written = "quality_report \<times> (string \<times> stage) list option"

definition lift_exn :: "exn + 'a \<Rightarrow> command_stop + 'a" where
  "lift_exn r = map_sum Uncaught id r"

definition report_from_pipeline :: "report_env \<Rightarrow> report_options \<Rightarrow> string \<Rightarrow> string option \<Rightarrow> command_stop + written" where
  "report_from_pipeline e opts pdf truth =
     (let work_dir = (if keep_stages opts then output_dir opts @ ''/'' @ stem_of pdf @ ''-stages'' else temp_dir e)
      in case run_stages (run_step e) (validate_pdf e) pdf work_dir (\<not> no_verapdf opts) of
           Inl x \<Rightarrow> Inl (Uncaught x)
         | Inr (final, stages, final_verapdf) \<Rightarrow>
             if final = pdf then Inl (CommandError (''Every pipeline step failed for '' @ basename pdf))
             else case analyze e final (Some pdf) truth of
                    Inl x \<Rightarrow> Inl (Uncaught x)
                  | Inr report \<Rightarrow>
                      Inr (report\<lparr>report_file := basename pdf, report_verapdf := final_verapdf,
                                  failed_steps := map fst (filter (\<lambda>s. stage_error (snd s) \<noteq> None) stages)\<rparr>, Some stages))"

definition report_from_output :: "report_env \<Rightarrow> report_options \<Rightarrow> string \<Rightarrow> string option \<Rightarrow> command_stop + written" where
  "report_from_output e opts pdf truth =
     (let source = map_option (\<lambda>dir. dir @ ''/'' @ basename pdf) (source_dir opts)
      in if (case source of None \<Rightarrow> False | Some s \<Rightarrow> \<not> is_file e s)
         then Inl (CommandError (''No original named '' @ basename pdf @ '' in '' @ the (source_dir opts)))
         else case analyze e pdf source truth of
                Inl x \<Rightarrow> Inl (Uncaught x)
              | Inr report \<Rightarrow>
                  if no_verapdf opts then Inr (report, None)
                  else map_sum Uncaught (\<lambda>outcome. (report\<lparr>report_verapdf := Some (failed_checks_of outcome)\<rparr>, None)) (validate_pdf e pdf))"

text \<open>The command: the report files it wrote, by path, and how it ended.\<close>

fun report_pdfs ::
    "report_env \<Rightarrow> report_options \<Rightarrow> string list \<Rightarrow> (string \<times> written) list \<Rightarrow> (command_stop + unit) \<times> (string \<times> written) list" where
  "report_pdfs e opts [] written_files = (Inr (), written_files)"
| "report_pdfs e opts (pdf # pdfs) written_files =
     (if \<not> is_file e pdf then (Inl (CommandError (''Not a file: '' @ pdf)), written_files)
      else
        let truth = truth_for (is_file e) pdf (truth_dir opts)
        in case (if run_pipeline opts then report_from_pipeline e opts pdf truth else report_from_output e opts pdf truth) of
             Inl x \<Rightarrow> (Inl x, written_files)
           | Inr w \<Rightarrow> report_pdfs e opts pdfs (AList.update (output_dir opts @ ''/'' @ stem_of pdf @ ''.json'') w written_files))"

section \<open>Comparing two sets of reports\<close>

datatype 'r place = ReportFile string 'r | Folder "(string \<times> 'r) list" | Nowhere string

text \<open>A folder's reports by file name, in order.\<close>

definition load_reports :: "'r place \<Rightarrow> command_stop + (string \<times> 'r) list" where
  "load_reports p =
     (case p of
        Folder fs \<Rightarrow> Inr (sort_key fst (filter (\<lambda>f. endswith (fst f) ''.json'') fs))
      | ReportFile n r \<Rightarrow> Inr [(n, r)]
      | Nowhere n \<Rightarrow> Inl (CommandError (''Not a file or folder: '' @ n)))"

definition is_report_file :: "'r place \<Rightarrow> bool" where
  "is_report_file p = (case p of ReportFile _ _ \<Rightarrow> True | _ \<Rightarrow> False)"

definition common_names :: "(string \<times> 'r) list \<Rightarrow> (string \<times> 'r) list \<Rightarrow> string list" where
  "common_names b c = sort (remdups (filter (\<lambda>n. n \<in> fst ` set c) (map fst b)))"

definition one_sided :: "(string \<times> 'r) list \<Rightarrow> (string \<times> 'r) list \<Rightarrow> string list" where
  "one_sided b c = sort (remdups (filter (\<lambda>n. \<not> (n \<in> fst ` set b \<and> n \<in> fst ` set c)) (map fst b @ map fst c)))"

record comparison_output =
  skipped :: "string list"
  compared :: "(string \<times> comparison) list"

definition regressed :: "comparison \<Rightarrow> bool" where
  "regressed c \<longleftrightarrow> invalid c \<noteq> [] \<or> regressions c \<noteq> []"

definition renamed :: "'r place \<Rightarrow> 'r place \<Rightarrow> (string \<times> 'r) list \<Rightarrow> (string \<times> 'r) list" where
  "renamed p q rs = (if is_report_file p \<and> is_report_file q then [(''report'', snd (hd rs))] else rs)"

definition quality_compare ::
    "(string \<Rightarrow> int) \<Rightarrow> bool \<Rightarrow> quality_report place \<Rightarrow> quality_report place
      \<Rightarrow> (command_stop + unit) \<times> comparison_output option" where
  "quality_compare int_key fail_on_regression p q =
     (case load_reports p of
        Inl x \<Rightarrow> (Inl x, None)
      | Inr b0 \<Rightarrow>
          (case load_reports q of
             Inl x \<Rightarrow> (Inl x, None)
           | Inr c0 \<Rightarrow>
               (let b = renamed p q b0; c = renamed p q c0; names = common_names b c
                in if names = [] then (Inl (CommandError ''No report names in common between the two arguments.''), None)
                   else
                     let results = map (\<lambda>n. (n, compare_reports int_key (the (map_of b n)) (the (map_of c n)))) names;
                         bad = map fst (filter (\<lambda>r. regressed (snd r)) results);
                         out = \<lparr>skipped = one_sided b c, compared = results\<rparr>
                     in (if bad \<noteq> [] \<and> fail_on_regression then Inl (CommandError (''Regressions in: '' @ join '', '' bad)) else Inr (),
                         Some out))))"

section \<open>What the commands promise\<close>

definition stages_of :: "(string \<times> stage) list \<Rightarrow> string list" where
  "stages_of stages = map fst (filter (\<lambda>s. stage_error (snd s) \<noteq> None) stages)"

text \<open>The last good file of a run from \<open>current\<close>, and the steps that failed, read off the adapters alone.\<close>

fun good_path :: "(string \<Rightarrow> string \<Rightarrow> string \<Rightarrow> exn + string) \<Rightarrow> string \<Rightarrow> string list \<Rightarrow> string \<Rightarrow> string" where
  "good_path do_step dir [] current = current"
| "good_path do_step dir (name # names) current =
     good_path do_step dir names (case do_step name current (dir @ ''/'' @ name) of Inl _ \<Rightarrow> current | Inr path \<Rightarrow> path)"

fun failures :: "(string \<Rightarrow> string \<Rightarrow> string \<Rightarrow> exn + string) \<Rightarrow> string \<Rightarrow> string list \<Rightarrow> string \<Rightarrow> string list" where
  "failures do_step dir [] current = []"
| "failures do_step dir (name # names) current =
     (case do_step name current (dir @ ''/'' @ name) of
        Inl _ \<Rightarrow> name # failures do_step dir names current
      | Inr path \<Rightarrow> failures do_step dir names path)"

lemma failures_shorter: "length (failures do_step dir names p) \<le> length names"
  by (induction names arbitrary: p) (auto split: sum.splits simp: le_SucI)

lemma not_all_failed: "do_step name p (dir @ ''/'' @ name) = Inr q \<Longrightarrow> failures do_step dir (name # names) p \<noteq> name # names"
  using failures_shorter [of do_step dir names q] by (auto dest!: arg_cong [of _ _ length])

lemma all_failed: "failures do_step dir names p = names \<Longrightarrow> good_path do_step dir names p = p"
proof (induction names)
  case (Cons name names)
  then show ?case
    using not_all_failed [of do_step name p dir] by (cases "do_step name p (dir @ ''/'' @ name)") auto
qed simp

lemma run_steps_from_exact:
  "run_steps_from do_step checker dir v names (cur, stages, fv) = Inr (final, stages', fv') \<Longrightarrow>
   final = good_path do_step dir names cur \<and> map fst stages' = map fst stages @ names \<and>
   stages_of stages' = stages_of stages @ failures do_step dir names cur \<and>
   (if v \<and> failures do_step dir names cur \<noteq> names then \<exists>outcome. checker final = Inr outcome \<and> fv' = Some (failed_checks_of outcome)
    else fv' = fv)"
proof (induction names arbitrary: cur stages fv)
  case Nil
  then show ?case by simp
next
  case (Cons name names)
  show ?case
  proof (cases "do_step name cur (dir @ ''/'' @ name)")
    case (Inl x)
    with Cons.prems obtain m where x: "x = AdapterError m" by (cases x) auto
    let ?stages = "stages @ [(name, \<lparr>stage_error = Some (take 300 m), stage_verapdf = None\<rparr>)]"
    have "run_steps_from do_step checker dir v names (cur, ?stages, fv) = Inr (final, stages', fv')"
      using Cons.prems Inl x by simp
    from Cons.IH [OF this] show ?thesis using Inl by (auto simp: stages_of_def split: if_splits)
  next
    case (Inr path)
    show ?thesis
    proof (cases v)
      case False
      with Cons.prems Inr Cons.IH show ?thesis by (fastforce simp: stages_of_def)
    next
      case True
      with Cons.prems Inr obtain outcome where o: "checker path = Inr outcome" by (cases "checker path") auto
      let ?stages = "stages @ [(name, \<lparr>stage_error = None, stage_verapdf = Some (failed_checks_of outcome)\<rparr>)]"
      have "run_steps_from do_step checker dir v names (path, ?stages, Some (failed_checks_of outcome)) = Inr (final, stages', fv')"
        using Cons.prems Inr True o by simp
      note IH = Cons.IH [OF this]
      show ?thesis using IH Inr True o not_all_failed [of do_step name cur dir path names, OF Inr] all_failed [of do_step dir names path] by (auto simp: stages_of_def split: if_splits)
    qed
  qed
qed
text \<open>A report from the pipeline describes the last good file: the steps that raised are listed as failed, each
  step was given the last good file before it, and the listed checks are those of the file reported on.\<close>

theorem pipeline_report_describes_the_last_good_file:
  "report_from_pipeline e opts pdf truth = Inr (report, stages) \<Longrightarrow>
   (let dir = (if keep_stages opts then output_dir opts @ ''/'' @ stem_of pdf @ ''-stages'' else temp_dir e);
        final = good_path (run_step e) dir STAGE_NAMES pdf
    in failed_steps report = failures (run_step e) dir STAGE_NAMES pdf \<and> final \<noteq> pdf \<and>
       (\<exists>analysis. analyze e final (Some pdf) truth = Inr analysis \<and> totals report = totals analysis) \<and>
       (if no_verapdf opts then report_verapdf report = None
        else \<exists>outcome. validate_pdf e final = Inr outcome \<and> report_verapdf report = Some (failed_checks_of outcome)))"
proof -
  assume "report_from_pipeline e opts pdf truth = Inr (report, stages)"
  moreover define dir where "dir = (if keep_stages opts then output_dir opts @ ''/'' @ stem_of pdf @ ''-stages'' else temp_dir e)"
  ultimately obtain final st fv analysis
    where run: "run_stages (run_step e) (validate_pdf e) pdf dir (\<not> no_verapdf opts) = Inr (final, st, fv)"
      and final: "final \<noteq> pdf" and a: "analyze e final (Some pdf) truth = Inr analysis"
      and report: "report = analysis\<lparr>report_file := basename pdf, report_verapdf := fv, failed_steps := stages_of st\<rparr>"
    by (auto simp: report_from_pipeline_def Let_def stages_of_def split: sum.splits if_split_asm)
  obtain st0 where "run_steps_from (run_step e) (validate_pdf e) dir (\<not> no_verapdf opts) STAGE_NAMES (pdf, st0, None) = Inr (final, st, fv)"
    and st0: "stages_of st0 = []"
    using run by (auto simp: run_stages_def stages_of_def split: sum.splits if_split_asm)
  note * = run_steps_from_exact [OF this(1)]
  have "good_path (run_step e) dir ns p = p" if "failures (run_step e) dir ns p = ns" for ns p
    using that by (rule all_failed)
  with * final have "failures (run_step e) dir STAGE_NAMES pdf \<noteq> STAGE_NAMES" by metis
  with * final a st0 show ?thesis unfolding dir_def [symmetric] Let_def by (auto simp: report split: if_split_asm)
qed

definition demo_report_env :: report_env where
  "demo_report_env = \<lparr>run_step = (\<lambda>n p d. if n = ''font_repair'' then Inl (AdapterError ''bad font'') else Inr (d @ ''/a.pdf'')),
     validate_pdf = (\<lambda>p. Inr \<lparr>vo_is_compliant = True, vo_failed_rules = [], vo_verapdf_version = ''1.30.2''\<rparr>),
     analyze = (\<lambda>p s t. Inr demo_report), is_file = (\<lambda>p. True), temp_dir = ''/tmp/x''\<rparr>"

definition demo_report_options :: report_options where
  "demo_report_options = \<lparr>output_dir = ''/out'', run_pipeline = True, source_dir = None, truth_dir = None,
     no_verapdf = False, keep_stages = True\<rparr>"

theorem pipeline_report_describes_the_last_good_file_witness:
  "\<exists>report stages. report_from_pipeline demo_report_env demo_report_options ''/in/a.pdf'' None = Inr (report, stages) \<and>
     failed_steps report = [''font_repair'']"
proof -
  let ?r = "report_from_pipeline demo_report_env demo_report_options ''/in/a.pdf'' None"
  have "\<not> isl ?r" by code_simp
  then obtain report stages where r: "?r = Inr (report, stages)" by (cases ?r) auto
  have "failures (run_step demo_report_env) ''/out/a-stages'' STAGE_NAMES ''/in/a.pdf'' = [''font_repair'']"
    and "output_dir demo_report_options @ ''/'' @ stem_of ''/in/a.pdf'' @ ''-stages'' = ''/out/a-stages''" by code_simp+
  with pipeline_report_describes_the_last_good_file [OF r] have "failed_steps report = [''font_repair'']"
    by (simp add: Let_def demo_report_options_def)
  with r show ?thesis by blast
qed

section \<open>The comparison command\<close>

text \<open>With --fail-on-regression the comparison of two folders fails exactly if a report both have is not
  comparable or has something worse, or if they have no report in common; a report only one side has is skipped.\<close>

theorem comparison_fails_exactly_on_regressions:
  "(fst (quality_compare int_key True (Folder bs) (Folder cs)) = Inr ()) =
     (let b = sort_key fst (filter (\<lambda>f. endswith (fst f) ''.json'') bs); c = sort_key fst (filter (\<lambda>f. endswith (fst f) ''.json'') cs)
      in (\<exists>n. n \<in> fst ` set b \<and> n \<in> fst ` set c) \<and>
         list_all (\<lambda>n. \<not> regressed (compare_reports int_key (the (map_of b n)) (the (map_of c n)))) (common_names b c))"
proof -
  have "common_names b c = [] \<longleftrightarrow> \<not> (\<exists>n. n \<in> fst ` set b \<and> n \<in> fst ` set c)" for b c :: "(string \<times> quality_report) list"
  proof -
    have "set (common_names b c) = {n. n \<in> fst ` set b \<and> n \<in> fst ` set c}" by (auto simp: common_names_def)
    then show ?thesis by (metis (mono_tags, lifting) empty_Collect_eq set_empty)
  qed
  then show ?thesis
    by (auto simp: quality_compare_def load_reports_def renamed_def is_report_file_def Let_def filter_empty_conv list_all_iff)
qed

text \<open>Two files of the same name from two folders share one report: the later replaces the earlier.\<close>

lemma same_name_reports_overwrite:
  "map fst (snd (report_pdfs demo_report_env demo_report_options [''/in/a.pdf'', ''/other/a.pdf''] [])) = [''/out/a.json'']"
  by code_simp

end
