(* ===== verification/Ocr_Regression.thy ===== *)
theory Ocr_Regression
  imports Pdf_Objects Unicode_Text Artifact_Steps "HOL-Library.List_Lexorder" "HOL-Library.Char_ord"
begin

text \<open>
  \<^verbatim>\<open>check_ocr_regression.py\<close>: the fingerprint of the OCR step's output for each fixture, and its comparison with
  the recorded one.  Dictionaries are association lists; \<open>None\<close> is a value of them like any other.  Parameters:
  the adapter, the text and metadata of a document as the second PDF library reads them, the line diff and its
  HTML table.  Reading a baseline gives back what was written.
\<close>

section \<open>Fingerprints\<close>

text \<open>\<open>walk\<close>: the tags below a node, in order; the first number is how many calls the stack still takes.\<close>

fun walk_tags :: "pdf \<Rightarrow> nat \<Rightarrow> val \<Rightarrow> exn + string list"
and walk_kids :: "pdf \<Rightarrow> nat \<Rightarrow> val list \<Rightarrow> exn + string list" where
  "walk_tags d 0 node = Inl (OtherException ''RecursionError'')"
| "walk_tags d (Suc n) node =
     (case get_entry d node ''/K'' of
        Inl x \<Rightarrow> Inl x
      | Inr None \<Rightarrow> Inr []
      | Inr (Some v) \<Rightarrow> walk_kids d n (case as_array d v of Some vs \<Rightarrow> vs | None \<Rightarrow> [v]))"
| "walk_kids d n [] = Inr []"
| "walk_kids d n (k # ks) =
     (case as_dict d k of
        None \<Rightarrow> walk_kids d n ks
      | Some a \<Rightarrow>
          (case walk_tags d n (VAt a) of
             Inl x \<Rightarrow> Inl x
           | Inr below \<Rightarrow>
               map_sum id (\<lambda>rest. (case get_at d a ''/S'' of None \<Rightarrow> [] | Some t \<Rightarrow> [str_val t]) @ below @ rest) (walk_kids d n ks)))"

definition tag_counts_dict :: "string list \<Rightarrow> (string \<times> nat) list" where
  "tag_counts_dict tags = map (\<lambda>t. (t, count_list tags t)) (sort (remdups tags))"

definition structure_tag_counts :: "nat \<Rightarrow> pdf \<Rightarrow> exn + (string \<times> nat) list" where
  "structure_tag_counts stack d =
     (case get_at d (root_at d) ''/StructTreeRoot'' of
        None \<Rightarrow> Inr []
      | Some node \<Rightarrow> map_sum id tag_counts_dict (walk_tags d stack node))"

type_synonym text_lines = "utext list"

record fingerprint =
  extraction_error :: "string option"
  fp_page_count :: "nat option"
  page_text :: "text_lines list option"
  metadata :: "(string \<times> utext option) list option"
  fp_tag_counts :: "(string \<times> nat) list option"

text \<open>What the libraries read from a document.\<close>

record document_reading =
  pages_of :: "text_lines list"
  metadata_of :: "(string \<times> utext option) list"
  objects_of :: pdf

definition fingerprint_of :: "nat \<Rightarrow> document_reading \<Rightarrow> exn + fingerprint" where
  "fingerprint_of stack r =
     map_sum id (\<lambda>counts. \<lparr>extraction_error = None, fp_page_count = Some (length (pages_of r)), page_text = Some (pages_of r),
                            metadata = Some (metadata_of r), fp_tag_counts = Some counts\<rparr>)
       (structure_tag_counts stack (objects_of r))"

definition build_fingerprint :: "nat \<Rightarrow> (string \<Rightarrow> exn + document_reading) \<Rightarrow> string \<Rightarrow> exn + fingerprint" where
  "build_fingerprint stack extract path =
     (case extract path of
        Inl (AdapterError m) \<Rightarrow>
          Inr \<lparr>extraction_error = Some m, fp_page_count = None, page_text = None, metadata = None, fp_tag_counts = None\<rparr>
      | Inl x \<Rightarrow> Inl x
      | Inr r \<Rightarrow> fingerprint_of stack r)"

section \<open>Reporting a difference\<close>

datatype 'v key_change = NewKey 'v | RemovedKey 'v | ChangedKey 'v 'v

definition dict_get :: "(string \<times> 'v option) list \<Rightarrow> string \<Rightarrow> 'v option" where
  "dict_get d k = (case map_of d k of None \<Rightarrow> None | Some v \<Rightarrow> v)"

definition dict_keys :: "(string \<times> 'v) list \<Rightarrow> (string \<times> 'v) list \<Rightarrow> string list" where
  "dict_keys old new = sort (remdups (map fst old @ map fst new))"

definition report_dict_diff ::
    "(string \<times> 'v option) list \<Rightarrow> (string \<times> 'v option) list \<Rightarrow> (string \<times> 'v option key_change) list" where
  "report_dict_diff old new =
     List.map_filter (\<lambda>k.
       let old_value = dict_get old k; new_value = dict_get new k
       in if old_value = new_value then None
          else Some (k, if k \<notin> fst ` set old then NewKey new_value
                        else if k \<notin> fst ` set new then RemovedKey old_value else ChangedKey old_value new_value))
       (dict_keys old new)"

datatype diff_line =
    ErrorChange "string option" "string option"
  | PageCountChange "nat option" "nat option"
  | MetadataChange string "utext option key_change"
  | TagCountChange string "nat option key_change"
  | PageDiff nat text_lines text_lines
  | NoChange

definition counts_dict :: "(string \<times> nat) list \<Rightarrow> (string \<times> nat option) list" where
  "counts_dict cs = map (\<lambda>(k, n). (k, Some n)) cs"

definition page_diffs :: "text_lines list \<Rightarrow> text_lines list \<Rightarrow> diff_line list" where
  "page_diffs old new =
     List.map_filter (\<lambda>(i, o_page, n_page). if o_page = n_page then None else Some (PageDiff i o_page n_page))
       (List.enumerate 0 (zip old new))"

text \<open>An absent text is false, and so is an empty one.\<close>

definition truthy_text :: "string option \<Rightarrow> bool" where
  "truthy_text t \<longleftrightarrow> t \<noteq> None \<and> t \<noteq> Some ''''"

definition report_diff :: "fingerprint \<Rightarrow> fingerprint \<Rightarrow> exn + bool \<times> diff_line list" where
  "report_diff baseline current =
     (let errors = (if extraction_error baseline \<noteq> extraction_error current
                    then [ErrorChange (extraction_error baseline) (extraction_error current)] else [])
      in if truthy_text (extraction_error baseline) \<or> truthy_text (extraction_error current)
         then Inr (errors \<noteq> [], if errors = [] then [NoChange] else errors)
         else
           let count = (if fp_page_count baseline \<noteq> fp_page_count current
                        then [PageCountChange (fp_page_count baseline) (fp_page_count current)] else [])
           in case (metadata baseline, metadata current, fp_tag_counts baseline, fp_tag_counts current,
                    page_text baseline, page_text current) of
                (Some m, Some m', Some t, Some t', Some p, Some p') \<Rightarrow>
                  (let found = errors @ count @ map (\<lambda>(k, c). MetadataChange k c) (report_dict_diff m m') @
                         map (\<lambda>(k, c). TagCountChange k c) (report_dict_diff (counts_dict t) (counts_dict t')) @ page_diffs p p'
                   in Inr (found \<noteq> [], if found = [] then [NoChange] else found))
              | _ \<Rightarrow> Inl (OtherException ''TypeError''))"

section \<open>The HTML report\<close>

text \<open>\<open>show_value\<close> is the text of a value in an f-string.\<close>

definition render_kv_diff_table ::
    "('v option \<Rightarrow> string) \<Rightarrow> string \<Rightarrow> (string \<times> 'v option) list \<Rightarrow> (string \<times> 'v option) list \<Rightarrow> string" where
  "render_kv_diff_table show_value label old new =
     (let rows = List.map_filter (\<lambda>k.
            let o_val = dict_get old k; n_val = dict_get new k;
                css = (if k \<notin> fst ` set old then ''added'' else if k \<notin> fst ` set new then ''removed'' else ''changed'')
            in if o_val = n_val then None
               else Some (''<tr class=''@ [CHR 0x27] @ css @ [CHR 0x27] @ ''><td>'' @ k @ ''</td><td>'' @
                          (if k \<in> fst ` set old then show_value o_val else '''') @ ''</td><td>'' @
                          (if k \<in> fst ` set new then show_value n_val else '''') @ ''</td></tr>''))
            (dict_keys old new)
      in if rows = [] then ''''
         else ''<h3>'' @ label @ ''</h3><table class='' @ [CHR 0x27] @ ''kv-diff'' @ [CHR 0x27] @
              ''><tr><th>field</th><th>baseline</th><th>current</th></tr>'' @ concat rows @ ''</table>'')"

record html_tools =
  show_text :: "utext option \<Rightarrow> string"
  show_error :: "string option \<Rightarrow> string"
  make_table :: "text_lines \<Rightarrow> text_lines \<Rightarrow> string"
  report_styles :: string

definition render_pages :: "html_tools \<Rightarrow> text_lines list \<Rightarrow> text_lines list \<Rightarrow> string list" where
  "render_pages h old new =
     concat (map (\<lambda>(i, o_page, n_page).
        if o_page = n_page then [] else [''<h3>page '' @ str_nat i @ '' text</h3>'', make_table h o_page n_page])
       (List.enumerate 0 (zip old new)))"

definition show_count :: "nat option \<Rightarrow> string" where
  "show_count v = (case v of None \<Rightarrow> ''None'' | Some n \<Rightarrow> str_nat n)"

definition render_html_report :: "html_tools \<Rightarrow> string \<Rightarrow> fingerprint \<Rightarrow> fingerprint \<Rightarrow> exn + string" where
  "render_html_report h label baseline current =
     (let errors = (if extraction_error baseline \<noteq> extraction_error current
            then [render_kv_diff_table (\<lambda>v. show_error h v) ''extraction_error''
                   [(''extraction_error'', extraction_error baseline)] [(''extraction_error'', extraction_error current)]] else []);
          page = (\<lambda>body. ''<!DOCTYPE html><html><head><meta charset='' @ [CHR 0x27] @ ''utf-8'' @ [CHR 0x27] @
                  ''><title>OCR regression diff: '' @ label @ ''</title><style>'' @ report_styles h @ ''</style></head><body>'' @
                  concat ((''<h2>'' @ label @ ''</h2>'') # errors @ body) @ ''</body></html>'')
      in if truthy_text (extraction_error baseline) \<or> truthy_text (extraction_error current) then Inr (page [])
         else case (metadata baseline, metadata current, fp_tag_counts baseline, fp_tag_counts current,
                    page_text baseline, page_text current) of
                (Some m, Some m', Some t, Some t', Some p, Some p') \<Rightarrow>
                  Inr (page ([render_kv_diff_table (show_text h) ''metadata'' m m',
                              render_kv_diff_table show_count ''structure_tag_counts'' (counts_dict t) (counts_dict t')] @ render_pages h p p'))
              | _ \<Rightarrow> Inl (OtherException ''TypeError''))"

section \<open>The command\<close>

datatype regression_stop = CommandError string | Uncaught exn

text \<open>One fixture after the other: the recorded baselines, or the fixtures that changed with their HTML reports.\<close>

fun record_fixtures ::
    "nat \<Rightarrow> (string \<Rightarrow> exn + document_reading) \<Rightarrow> string list \<Rightarrow> (string \<rightharpoonup> fingerprint)
      \<Rightarrow> (regression_stop + unit) \<times> (string \<rightharpoonup> fingerprint)" where
  "record_fixtures stack extract [] baselines = (Inr (), baselines)"
| "record_fixtures stack extract (f # fs) baselines =
     (case build_fingerprint stack extract f of
        Inl x \<Rightarrow> (Inl (Uncaught x), baselines)
      | Inr fp \<Rightarrow> record_fixtures stack extract fs (baselines(f \<mapsto> fp)))"

fun diff_fixtures ::
    "html_tools \<Rightarrow> nat \<Rightarrow> (string \<Rightarrow> exn + document_reading) \<Rightarrow> string list \<Rightarrow> (string \<rightharpoonup> fingerprint)
      \<Rightarrow> (string \<times> diff_line list) list \<Rightarrow> (string \<times> string) list
      \<Rightarrow> regression_stop + (string \<times> diff_line list) list \<times> (string \<times> string) list" where
  "diff_fixtures h stack extract [] baselines lines reports = Inr (lines, reports)"
| "diff_fixtures h stack extract (f # fs) baselines lines reports =
     (case build_fingerprint stack extract f of
        Inl x \<Rightarrow> Inl (Uncaught x)
      | Inr current \<Rightarrow>
          (case baselines f of
             None \<Rightarrow> Inl (CommandError (''No baseline at '' @ f))
           | Some baseline \<Rightarrow>
               (case report_diff baseline current of
                  Inl x \<Rightarrow> Inl (Uncaught x)
                | Inr (changed, found) \<Rightarrow>
                    if \<not> changed then diff_fixtures h stack extract fs baselines (lines @ [(f, found)]) reports
                    else (case render_html_report h f baseline current of
                            Inl x \<Rightarrow> Inl (Uncaught x)
                          | Inr html \<Rightarrow> diff_fixtures h stack extract fs baselines (lines @ [(f, found)]) (reports @ [(f, html)])))))"

definition check_ocr_regression ::
    "html_tools \<Rightarrow> nat \<Rightarrow> (string \<Rightarrow> exn + document_reading) \<Rightarrow> bool \<Rightarrow> string list \<Rightarrow> (string \<rightharpoonup> fingerprint)
      \<Rightarrow> (regression_stop + (string \<times> diff_line list) list \<times> (string \<times> string) list) \<times> (string \<rightharpoonup> fingerprint)" where
  "check_ocr_regression h stack extract recording fixtures baselines =
     (if fixtures = [] then (Inl (CommandError ''No PDF fixtures found''), baselines)
      else if recording
      then (case record_fixtures stack extract fixtures baselines of
              (Inl x, b) \<Rightarrow> (Inl x, b) | (Inr _, b) \<Rightarrow> (Inr ([], []), b))
      else (diff_fixtures h stack extract fixtures baselines [] [], baselines))"

section \<open>What a run reports\<close>

lemma set_dict_keys [simp]: "set (dict_keys old new) = fst ` set old \<union> fst ` set new"
  by (auto simp: dict_keys_def)

lemma dict_get_outside: "k \<notin> fst ` set d \<Longrightarrow> dict_get d k = None"
  by (simp add: dict_get_def map_of_eq_None_iff [symmetric])

lemma report_dict_diff_Nil: "report_dict_diff old new = [] \<longleftrightarrow> dict_get old = dict_get new"
proof
  assume "report_dict_diff old new = []"
  then have *: "\<forall>k \<in> fst ` set old \<union> fst ` set new. dict_get old k = dict_get new k"
    by (auto simp: report_dict_diff_def map_filter_Nil Let_def split: if_splits)
  show "dict_get old = dict_get new"
  proof
    fix k
    show "dict_get old k = dict_get new k"
      using * dict_get_outside [of k old] dict_get_outside [of k new] by (cases "k \<in> fst ` set old \<union> fst ` set new") auto
  qed
qed (simp add: report_dict_diff_def map_filter_Nil Let_def)

lemma dict_get_counts: "dict_get (counts_dict cs) = map_of cs"
proof
  fix k
  show "dict_get (counts_dict cs) k = map_of cs k"
    unfolding dict_get_def counts_dict_def by (induction cs) auto
qed

lemma page_diffs_Nil: "length old = length new \<Longrightarrow> page_diffs old new = [] \<longleftrightarrow> old = new"
proof -
  assume len: "length old = length new"
  have "page_diffs old new = [] \<longleftrightarrow> (\<forall>z \<in> set (List.enumerate 0 (zip old new)). (\<lambda>(x, y). x = y) (snd z))"
    unfolding page_diffs_def map_filter_Nil by (rule ball_cong) (auto split: prod.splits)
  also have "\<dots> \<longleftrightarrow> (\<forall>z \<in> snd ` set (List.enumerate 0 (zip old new)). (\<lambda>(x, y). x = y) z)" by (simp only: ball_simps)
  also have "snd ` set (List.enumerate 0 (zip old new)) = set (zip old new)" by (metis list.set_map map_snd_enumerate)
  also have "(\<forall>z \<in> set (zip old new). (\<lambda>(x, y). x = y) z) \<longleftrightarrow> old = new"
    using len by (simp add: list_eq_iff_zip_eq)
  finally show ?thesis .
qed

text \<open>Fingerprints as they are built: an extraction error with a message, or a reading of every page.\<close>

definition fp_ok :: "fingerprint \<Rightarrow> bool" where
  "fp_ok fp \<longleftrightarrow>
     (case extraction_error fp of
        Some e \<Rightarrow> e \<noteq> '''' \<and> fp_page_count fp = None \<and> page_text fp = None \<and> metadata fp = None \<and> fp_tag_counts fp = None
      | None \<Rightarrow> page_text fp \<noteq> None \<and> fp_page_count fp = map_option length (page_text fp) \<and> metadata fp \<noteq> None \<and> fp_tag_counts fp \<noteq> None)"

definition same_fingerprint :: "fingerprint \<Rightarrow> fingerprint \<Rightarrow> bool" where
  "same_fingerprint b c \<longleftrightarrow>
     extraction_error b = extraction_error c \<and> page_text b = page_text c \<and>
     map_option dict_get (metadata b) = map_option dict_get (metadata c) \<and>
     map_option map_of (fp_tag_counts b) = map_option map_of (fp_tag_counts c)"

lemma build_fingerprint_ok:
  "build_fingerprint stack extract f = Inr fp \<Longrightarrow> extract f \<noteq> Inl (AdapterError '''') \<Longrightarrow> fp_ok fp"
  by (auto simp: build_fingerprint_def fingerprint_of_def map_sum_Inr fp_ok_def split: sum.splits exn.splits)

lemma report_diff_exact:
  assumes "fp_ok b" and "fp_ok c"
  obtains lines where "report_diff b c = Inr (\<not> same_fingerprint b c, lines)" and "lines = [NoChange] \<or> \<not> same_fingerprint b c"
proof (cases "extraction_error b = None \<and> extraction_error c = None")
  case True
  then obtain p p' m m' t t' where f: "page_text b = Some p" "page_text c = Some p'" "metadata b = Some m" "metadata c = Some m'"
    "fp_tag_counts b = Some t" "fp_tag_counts c = Some t'" "fp_page_count b = Some (length p)" "fp_page_count c = Some (length p')"
    using assms by (auto simp: fp_ok_def)
  let ?found = "(if length p \<noteq> length p' then [PageCountChange (Some (length p)) (Some (length p'))] else []) @
      map (\<lambda>(k, c). MetadataChange k c) (report_dict_diff m m') @
      map (\<lambda>(k, c). TagCountChange k c) (report_dict_diff (counts_dict t) (counts_dict t')) @ page_diffs p p'"
  have "report_diff b c = Inr (?found \<noteq> [], if ?found = [] then [NoChange] else ?found)"
    using True f by (simp add: report_diff_def truthy_text_def Let_def)
  moreover have "?found = [] \<longleftrightarrow> length p = length p' \<and> report_dict_diff m m' = [] \<and>
      report_dict_diff (counts_dict t) (counts_dict t') = [] \<and> page_diffs p p' = []" by simp
  moreover have "\<dots> \<longleftrightarrow> p = p' \<and> dict_get m = dict_get m' \<and> map_of t = map_of t'"
    unfolding report_dict_diff_Nil dict_get_counts using page_diffs_Nil [of p p'] by blast
  moreover have "\<dots> \<longleftrightarrow> same_fingerprint b c"
    unfolding same_fingerprint_def f using True by simp
  ultimately have "report_diff b c = Inr (\<not> same_fingerprint b c, if same_fingerprint b c then [NoChange] else ?found)" by (simp only:)
  then show thesis by (rule that) simp
next
  case False
  then have "truthy_text (extraction_error b) \<or> truthy_text (extraction_error c)"
    using assms by (auto simp: fp_ok_def truthy_text_def split: option.splits)
  moreover have "extraction_error b = extraction_error c \<longleftrightarrow> same_fingerprint b c"
    using False assms by (auto simp: fp_ok_def same_fingerprint_def split: option.splits)
  ultimately show thesis
    by (intro that [of "if same_fingerprint b c then [NoChange] else [ErrorChange (extraction_error b) (extraction_error c)]"])
      (auto simp: report_diff_def Let_def)
qed

text \<open>Two fingerprints as the command builds them are always compared, and a change is reported exactly if
  they differ: in the error, in the text of any page, in a metadata value or in a tag count.\<close>

theorem every_difference_is_reported:
  "fp_ok b \<Longrightarrow> fp_ok c \<Longrightarrow>
   \<exists>lines. report_diff b c = Inr (\<not> same_fingerprint b c, lines) \<and> (lines = [NoChange] \<or> \<not> same_fingerprint b c)"
  by (metis report_diff_exact)

definition demo_fingerprint :: "utext \<Rightarrow> fingerprint" where
  "demo_fingerprint line = \<lparr>extraction_error = None, fp_page_count = Some 1, page_text = Some [[line]],
     metadata = Some [(''title'', None)], fp_tag_counts = Some [(''/P'', 2)]\<rparr>"

theorem every_difference_is_reported_witness:
  "\<exists>lines. report_diff (demo_fingerprint [65]) (demo_fingerprint [66]) = Inr (True, lines)"
proof -
  have "fp_ok (demo_fingerprint [65])" "fp_ok (demo_fingerprint [66])" by (simp_all add: fp_ok_def demo_fingerprint_def)
  from every_difference_is_reported [OF this] show ?thesis by (auto simp: same_fingerprint_def demo_fingerprint_def)
qed

text \<open>A key whose value is \<open>None\<close> is not told from an absent one.\<close>

lemma none_looks_absent: "report_dict_diff [(''encryption'', None :: 'v option)] [] = []"
  by (simp add: report_dict_diff_Nil fun_eq_iff dict_get_def)

section \<open>Recording, then checking\<close>

lemma record_fixtures_exact:
  "record_fixtures stack extract fs b = (Inr (), b') \<Longrightarrow>
   (\<forall>f \<in> set fs. \<exists>fp. build_fingerprint stack extract f = Inr fp \<and> b' f = Some fp) \<and> (\<forall>f. f \<notin> set fs \<longrightarrow> b' f = b f)"
proof (induction fs arbitrary: b)
  case (Cons f fs)
  then obtain fp where fp: "build_fingerprint stack extract f = Inr fp" and r: "record_fixtures stack extract fs (b(f \<mapsto> fp)) = (Inr (), b')"
    by (auto split: sum.splits)
  from Cons.IH [OF r] fp show ?case by (cases "f \<in> set fs") auto
qed simp

lemma diff_fixtures_same:
  assumes "\<forall>f \<in> set fs. extract f \<noteq> Inl (AdapterError '''') \<and> (\<exists>fp. build_fingerprint stack extract f = Inr fp \<and> b f = Some fp)"
  shows "diff_fixtures h stack extract fs b lines reports = Inr (lines @ map (\<lambda>f. (f, [NoChange])) fs, reports)"
  using assms
proof (induction fs arbitrary: lines)
  case (Cons f fs)
  then obtain fp where fp: "build_fingerprint stack extract f = Inr fp" "b f = Some fp" by auto
  have "fp_ok fp" using build_fingerprint_ok [OF fp(1)] Cons.prems by simp
  with this obtain found where found: "report_diff fp fp = Inr (\<not> same_fingerprint fp fp, found)"
    "found = [NoChange] \<or> \<not> same_fingerprint fp fp"
    by (rule report_diff_exact)
  have same: "same_fingerprint fp fp" by (simp add: same_fingerprint_def)
  have "diff_fixtures h stack extract fs b (lines @ [(f, [NoChange])]) reports =
      Inr ((lines @ [(f, [NoChange])]) @ map (\<lambda>f. (f, [NoChange])) fs, reports)"
    using Cons.prems by (intro Cons.IH) simp
  with fp found same show ?case by simp
qed simp

text \<open>Once a run has recorded its baselines, a check of the same output finds no change in any fixture and
  writes no HTML report.\<close>

theorem recorded_output_shows_no_change:
  "(\<forall>f \<in> set fixtures. extract f \<noteq> Inl (AdapterError '''')) \<Longrightarrow>
   check_ocr_regression h stack extract True fixtures baselines = (Inr r, baselines') \<Longrightarrow>
   check_ocr_regression h stack extract False fixtures baselines' = (Inr (map (\<lambda>f. (f, [NoChange])) fixtures, []), baselines')"
proof -
  assume messages: "\<forall>f \<in> set fixtures. extract f \<noteq> Inl (AdapterError '''')"
    and "check_ocr_regression h stack extract True fixtures baselines = (Inr r, baselines')"
  then have "fixtures \<noteq> []" "record_fixtures stack extract fixtures baselines = (Inr (), baselines')"
    by (auto simp: check_ocr_regression_def split: prod.splits sum.splits if_splits)
  with messages show ?thesis
    using record_fixtures_exact [of stack "extract" fixtures baselines baselines'] diff_fixtures_same [of fixtures "extract" stack baselines' h "[]" "[]"]
    by (auto simp: check_ocr_regression_def)
qed

definition demo_extract :: "string \<Rightarrow> exn + document_reading" where
  "demo_extract f =
     (if f = ''broken.pdf'' then Inl (AdapterError ''opendataloader-pdf failed'')
      else Inr \<lparr>pages_of = [[[72, 105]]], metadata_of = [(''title'', None)],
                objects_of = \<lparr>heap = [2 \<mapsto> NDict []], object_number = (\<lambda>_. 0), root_at = 2, page_list = [], free_at = 3, free_number = 1\<rparr>\<rparr>)"

theorem recorded_output_shows_no_change_witness:
  "fst (check_ocr_regression undefined 100 demo_extract False [''a.pdf'', ''broken.pdf'']
      (snd (check_ocr_regression undefined 100 demo_extract True [''a.pdf'', ''broken.pdf''] (\<lambda>_. None)))) =
    Inr ([(''a.pdf'', [NoChange]), (''broken.pdf'', [NoChange])], [])"
proof -
  let ?c = "check_ocr_regression undefined 100 demo_extract True [''a.pdf'', ''broken.pdf''] (\<lambda>_. None)"
  have "fst ?c = Inr ([], [])"
    by (simp add: check_ocr_regression_def build_fingerprint_def fingerprint_of_def demo_extract_def structure_tag_counts_def
        get_at_def dict_at_def entry_def)
  then have "?c = (Inr ([], []), snd ?c)" by (metis prod.collapse)
  from recorded_output_shows_no_change [OF _ this] show ?thesis by (simp add: demo_extract_def)
qed

end
