(* ===== verification/External_Adapters.thy ===== *)
theory External_Adapters
  imports Pdf_Quality
begin

text \<open>
  The adapters around tools that are not Python libraries or need little of one: veraPDF
  (\<^verbatim>\<open>adapters/verification/vera_pdf.py\<close>), OpenDataLoader (\<^verbatim>\<open>adapters/ocr/open_data_loader.py\<close>) and the metadata
  step (\<^verbatim>\<open>adapters/metadata/pike_pdf.py\<close>).  Parameters: what running the tool answers, the XML parser, \<open>int()\<close> on
  a text, and the XMP editor of the PDF library.  Element lookup and glob matching are the standard library's,
  written out; the directory that is searched has no special character.  Texts are Latin-1.
\<close>

section \<open>XML elements\<close>

datatype xml = Elem (tag: string) (attributes: "(string \<times> string) list") (text_of: "string option") (children: "xml list")

text \<open>\<open>findall\<close> on a path of tags, \<open>find\<close>, \<open>findtext\<close>, and \<open>get\<close> with a default.\<close>

fun xml_findall :: "string list \<Rightarrow> xml \<Rightarrow> xml list" where
  "xml_findall [] e = [e]"
| "xml_findall (t # ts) e = concat (map (xml_findall ts) (filter (\<lambda>k. tag k = t) (children e)))"

definition xml_find :: "string list \<Rightarrow> xml \<Rightarrow> xml option" where
  "xml_find path e = (case xml_findall path e of [] \<Rightarrow> None | k # _ \<Rightarrow> Some k)"

definition xml_findtext :: "string list \<Rightarrow> xml \<Rightarrow> string option" where
  "xml_findtext path e = map_option (\<lambda>k. case text_of k of None \<Rightarrow> '''' | Some t \<Rightarrow> t) (xml_find path e)"

definition xml_get :: "string \<Rightarrow> xml \<Rightarrow> string option" where
  "xml_get k e = map_of (attributes e) k"

definition xml_get_or :: "string \<Rightarrow> xml \<Rightarrow> string \<Rightarrow> string" where
  "xml_get_or k e fallback = (case xml_get k e of None \<Rightarrow> fallback | Some v \<Rightarrow> v)"

section \<open>veraPDF\<close>

record completed =
  returncode :: int
  stdout :: string
  stderr :: string

definition vera_command :: "string \<Rightarrow> string \<Rightarrow> string list" where
  "vera_command flavour pdf_path = [''verapdf'', ''--flavour'', flavour, ''--format'', ''xml'', pdf_path]"

text \<open>\<open>run command\<close> is \<open>None\<close> if there is no such program.\<close>

definition run_vera_pdf :: "(string list \<Rightarrow> completed option) \<Rightarrow> string \<Rightarrow> string \<Rightarrow> exn + completed" where
  "run_vera_pdf run_command flavour pdf_path =
     (case run_command (vera_command flavour pdf_path) of
        None \<Rightarrow> Inl (AdapterError (''verapdf executable not found '' @ [CHR 0xE2, CHR 0x80, CHR 0x94] @ '' it's only installed in the Docker image ''))
      | Some result \<Rightarrow>
          if strip (stdout result) = ''''
          then Inl (AdapterError (''verapdf produced no output (exit '' @ str_int (returncode result) @ ''): '' @ strip (stderr result)))
          else Inr result)"

fun read_rules :: "(string \<Rightarrow> int option) \<Rightarrow> xml list \<Rightarrow> exn + FailedRule list" where
  "read_rules int_of [] = Inr []"
| "read_rules int_of (rule # rules) =
     (let cl = xml_get_or ''clause'' rule ''''; test = xml_get_or ''testNumber'' rule '''';
          count = (case xml_get ''failedChecks'' rule of None \<Rightarrow> Some 0 | Some t \<Rightarrow> int_of t)
      in case count of
           None \<Rightarrow> Inl (ValueError ''invalid literal for int()'')
         | Some n \<Rightarrow>
             map_sum id (\<lambda>rest.
               \<lparr>fr_clause = cl, fr_test_number = test,
                fr_description = strip (case xml_findtext [''description''] rule of None \<Rightarrow> '''' | Some t \<Rightarrow> t),
                fr_failed_checks = n, fr_severity = classify cl test\<rparr> # rest) (read_rules int_of rules))"

definition core_version :: "xml \<Rightarrow> string" where
  "core_version doc =
     (case filter (\<lambda>e. xml_get ''id'' e = Some ''core'') (xml_findall [''buildInformation'', ''releaseDetails''] doc) of
        [] \<Rightarrow> ''''
      | e # _ \<Rightarrow> xml_get_or ''version'' e '''')"

definition read_report :: "(string \<Rightarrow> int option) \<Rightarrow> string \<Rightarrow> xml \<Rightarrow> exn + VerificationOutcome" where
  "read_report int_of printed doc =
     (case xml_find [''jobs'', ''job'', ''validationReport''] doc of
        None \<Rightarrow> Inl (AdapterError (''verapdf report had no validationReport: '' @ printed))
      | Some report \<Rightarrow>
          map_sum id (\<lambda>rules. \<lparr>vo_is_compliant = (xml_get ''isCompliant'' report = Some ''true''), vo_failed_rules = rules,
                                vo_verapdf_version = core_version doc\<rparr>)
            (read_rules int_of (xml_findall [''details'', ''rule''] report)))"

text \<open>\<open>parse\<close> answers the document or the message of its error.\<close>

definition validate ::
    "(string list \<Rightarrow> completed option) \<Rightarrow> (string \<Rightarrow> string + xml) \<Rightarrow> (string \<Rightarrow> int option) \<Rightarrow> string \<Rightarrow> string \<Rightarrow> exn + VerificationOutcome" where
  "validate run_command parse int_of flavour pdf_path =
     (case run_vera_pdf run_command flavour pdf_path of
        Inl x \<Rightarrow> Inl x
      | Inr result \<Rightarrow>
          (case parse (stdout result) of
             Inl m \<Rightarrow> Inl (AdapterError (''verapdf produced unparseable XML: '' @ m))
           | Inr doc \<Rightarrow> read_report int_of (stdout result) doc))"

section \<open>Glob patterns\<close>

text \<open>
  \<open>fnmatch\<close>: a star, a question mark, a set in brackets, or a character.  A set is closed by the first
  bracket after its first item; without one, the opening bracket stands for itself.
\<close>

datatype set_item = One char | Range char char

datatype glob_item = Star | AnyChar | Literal char | OneOf bool "set_item list"

fun set_items :: "string \<Rightarrow> set_item list" where
  "set_items (a # CHR ''-'' # b # rest) = Range a b # set_items rest"
| "set_items (a # rest) = One a # set_items rest"
| "set_items [] = []"

text \<open>What lies in the brackets and what follows them.\<close>

fun split_bracket :: "string \<Rightarrow> (string \<times> string) option" where
  "split_bracket [] = None"
| "split_bracket (c # cs) =
     (if c = CHR '']'' then Some ([], cs)
      else map_option (\<lambda>(inside, rest). (c # inside, rest)) (split_bracket cs))"

definition bracket :: "string \<Rightarrow> (string \<times> string) option" where
  "bracket cs =
     (case cs of
        [] \<Rightarrow> None
      | c # cs1 \<Rightarrow>
          if c = CHR ''!'' then
            (case cs1 of
               [] \<Rightarrow> None
             | d # cs2 \<Rightarrow> map_option (\<lambda>(inside, rest). (c # d # inside, rest)) (split_bracket cs2))
          else map_option (\<lambda>(inside, rest). (c # inside, rest)) (split_bracket cs1))"

lemma split_bracket_shorter: "split_bracket cs = Some (inside, rest) \<Longrightarrow> length rest < length cs"
  by (induction cs arbitrary: inside) (auto split: if_splits intro: less_SucI)

lemma bracket_shorter: "bracket cs = Some (inside, rest) \<Longrightarrow> length rest < length cs"
  by (auto simp: bracket_def split: list.splits if_splits dest!: split_bracket_shorter)

function glob_items :: "string \<Rightarrow> glob_item list" where
  "glob_items [] = []"
| "glob_items (c # cs) =
     (if c = CHR ''*'' then Star # glob_items cs
      else if c = CHR ''?'' then AnyChar # glob_items cs
      else if c = CHR ''['' then
        (case bracket cs of
           None \<Rightarrow> Literal c # glob_items cs
         | Some (inside, rest) \<Rightarrow>
             (if startswith inside ''!'' then OneOf False (set_items (tl inside)) else OneOf True (set_items inside)) # glob_items rest)
      else Literal c # glob_items cs)"
  by pat_completeness auto
termination by (relation "measure length") (auto dest: bracket_shorter)

fun in_item :: "char \<Rightarrow> set_item \<Rightarrow> bool" where
  "in_item c (One d) \<longleftrightarrow> c = d"
| "in_item c (Range a b) \<longleftrightarrow> (of_char a :: nat) \<le> of_char c \<and> (of_char c :: nat) \<le> of_char b"

function fn_match :: "glob_item list \<Rightarrow> string \<Rightarrow> bool" where
  "fn_match [] s \<longleftrightarrow> s = ''''"
| "fn_match (Star # ps) s \<longleftrightarrow> fn_match ps s \<or> (case s of [] \<Rightarrow> False | c # cs \<Rightarrow> fn_match (Star # ps) cs)"
| "fn_match (AnyChar # ps) s \<longleftrightarrow> (case s of [] \<Rightarrow> False | c # cs \<Rightarrow> fn_match ps cs)"
| "fn_match (Literal d # ps) s \<longleftrightarrow> (case s of [] \<Rightarrow> False | c # cs \<Rightarrow> c = d \<and> fn_match ps cs)"
| "fn_match (OneOf pos items # ps) s \<longleftrightarrow> (case s of [] \<Rightarrow> False | c # cs \<Rightarrow> list_ex (in_item c) items = pos \<and> fn_match ps cs)"
  by pat_completeness auto
termination by (relation "measure (\<lambda>(ps, s). length ps + length s)") auto

text \<open>\<open>glob.glob\<close> in one directory: hidden files only match a pattern that starts with a dot.\<close>

definition glob_names :: "string \<Rightarrow> string list \<Rightarrow> string list" where
  "glob_names pattern names =
     filter (\<lambda>n. (startswith pattern ''.'' \<or> \<not> startswith n ''.'') \<and> fn_match (glob_items pattern) n) names"

section \<open>OpenDataLoader\<close>

datatype convert_end =
    Converted
  | CalledProcessError string "string option" "string option"
  | OtherFailure string

definition HYBRID_MODE :: string where "HYBRID_MODE = ''docling-fast''"

definition convert_message :: "convert_end \<Rightarrow> string option" where
  "convert_message r =
     (case r of
        Converted \<Rightarrow> None
      | OtherFailure m \<Rightarrow> Some (''opendataloader-pdf failed: '' @ m)
      | CalledProcessError m err out \<Rightarrow>
          (let detail = (case (if err = Some '''' then None else err) of None \<Rightarrow> (case out of None \<Rightarrow> '''' | Some t \<Rightarrow> t) | Some t \<Rightarrow> t)
           in Some (''opendataloader-pdf failed: '' @ m @ (if strip detail \<noteq> '''' then CHR 0x0A # strip detail else ''''))))"

text \<open>
  \<open>convert mode hybrid_url\<close> is the library's call: how it ended and the names in the output directory after it.
  The answer is the path of the tagged PDF; the names are those in the directory then.
\<close>

definition open_data_loader_extract ::
    "(string \<Rightarrow> string option \<Rightarrow> string \<Rightarrow> convert_end \<times> string list) \<Rightarrow> string option \<Rightarrow> string \<Rightarrow> string
      \<Rightarrow> (exn + string) \<times> string list" where
  "open_data_loader_extract convert hybrid_url pdf_path dir =
     (let (ended, names) = convert HYBRID_MODE (if hybrid_url = Some '''' then None else hybrid_url) pdf_path;
          stem = splitext_root (basename pdf_path);
          matches = glob_names (stem @ ''*.pdf'') names;
          target = stem @ ''.pdf''
      in case convert_message ended of
           Some m \<Rightarrow> (Inl (AdapterError m), names)
         | None \<Rightarrow>
             (case matches of
                [] \<Rightarrow> (Inl (AdapterError (''opendataloader-pdf produced no tagged PDF in '' @ dir)), names)
              | [n] \<Rightarrow> (Inr (dir @ ''/'' @ target), if n = target then names else filter (\<lambda>m. m \<noteq> n \<and> m \<noteq> target) names @ [target])
              | _ \<Rightarrow> (Inl (AdapterError (''opendataloader-pdf produced multiple candidate outputs in '' @ dir)), names)))"

section \<open>Metadata\<close>

text \<open>What the XMP editor holds, and the document information it keeps in step with.\<close>

record xmp =
  dc_title :: string
  pdfuaid_part :: string

record opened_pdf =
  objects :: pdf
  xmp_data :: xmp

definition set_tabs :: "nat list \<Rightarrow> pdf \<Rightarrow> pdf" where
  "set_tabs ps d = fold (\<lambda>p d. set_entry p ''/Tabs'' (VName ''/S'') d) ps d"

definition set_root :: "string \<Rightarrow> val \<Rightarrow> pdf \<Rightarrow> pdf" where
  "set_root k v d = set_entry (root_at d) k v d"

definition finalize_pdf :: "string \<Rightarrow> string \<Rightarrow> opened_pdf \<Rightarrow> opened_pdf" where
  "finalize_pdf title lang f =
     (let (mark, d1) = new_direct (NDict [(''/Marked'', VBool True)]) (objects f);
          d2 = set_root ''/Lang'' (VStr lang) (set_root ''/MarkInfo'' (VAt mark) d1);
          (prefs, d3) = new_direct (NDict [(''/DisplayDocTitle'', VBool True)]) d2;
          d4 = set_root ''/ViewerPreferences'' (VAt prefs) d3
      in \<lparr>objects = set_tabs (page_list d4) d4, xmp_data = \<lparr>dc_title = title, pdfuaid_part = ''1''\<rparr>\<rparr>)"

text \<open>\<open>open_pdf path\<close> and \<open>save\<close> are the library's; whatever either raises becomes an adapter error.\<close>

definition finalize_metadata ::
    "(string \<Rightarrow> string + opened_pdf) \<Rightarrow> (opened_pdf \<Rightarrow> string option) \<Rightarrow> string \<Rightarrow> string \<Rightarrow> string \<Rightarrow> string
      \<Rightarrow> exn + string \<times> opened_pdf" where
  "finalize_metadata open_pdf save pdf_path dir title lang =
     (case open_pdf pdf_path of
        Inl m \<Rightarrow> Inl (AdapterError (''pikepdf failed to finalize metadata: '' @ m))
      | Inr f \<Rightarrow>
          (let g = finalize_pdf title lang f
           in case save g of
                Some m \<Rightarrow> Inl (AdapterError (''pikepdf failed to finalize metadata: '' @ m))
              | None \<Rightarrow> Inr (dir @ ''/'' @ basename pdf_path, g)))"

end
