(* ===== verification/External_Theorems.thy ===== *)
theory External_Theorems
  imports External_Adapters
begin

text \<open>
  What the adapters of \<open>External_Adapters\<close> promise the pipeline: a validation report is read back field by
  field whatever the exit code, the tagged PDF gets the name of its input, and the quality report of a finalized
  document shows its metadata in place.
\<close>

section \<open>Reports\<close>

text \<open>A rule as the tool reports it, and the report of one validated file.\<close>

record reported =
  rp_clause :: string
  rp_test :: string
  rp_description :: "string option"
  rp_checks :: "int option"

definition rule_xml :: "reported \<Rightarrow> xml" where
  "rule_xml r =
     Elem ''rule''
       ([(''specification'', ''ISO 14289-1:2014''), (''clause'', rp_clause r), (''testNumber'', rp_test r), (''status'', ''failed'')]
        @ (case rp_checks r of None \<Rightarrow> [] | Some n \<Rightarrow> [(''failedChecks'', str_int n)]))
       None
       (case rp_description r of None \<Rightarrow> [] | Some t \<Rightarrow> [Elem ''description'' [] (Some t) []])"

definition report_xml :: "string \<Rightarrow> bool \<Rightarrow> reported list \<Rightarrow> xml" where
  "report_xml version compliant rules =
     Elem ''report'' [] None
       [Elem ''buildInformation'' [] None
          [Elem ''releaseDetails'' [(''id'', ''core''), (''version'', version)] None [],
           Elem ''releaseDetails'' [(''id'', ''validation-model''), (''version'', version)] None []],
        Elem ''jobs'' [] None
          [Elem ''job'' [] None
             [Elem ''validationReport'' [(''isCompliant'', if compliant then ''true'' else ''false'')] None
                [Elem ''details'' [] None (map rule_xml rules)]]]]"

definition rule_read :: "reported \<Rightarrow> FailedRule" where
  "rule_read r =
     \<lparr>fr_clause = rp_clause r, fr_test_number = rp_test r,
      fr_description = (case rp_description r of None \<Rightarrow> '''' | Some t \<Rightarrow> strip t),
      fr_failed_checks = (case rp_checks r of None \<Rightarrow> 0 | Some n \<Rightarrow> n), fr_severity = classify (rp_clause r) (rp_test r)\<rparr>"

lemma strip_Nil [simp]: "strip [] = []"
  by (simp add: strip_def)

lemma rule_xml_tag [simp]: "tag (rule_xml r) = ''rule''"
  by (simp add: rule_xml_def)

lemma filter_rules [simp]: "filter (\<lambda>k. tag k = ''rule'') (map rule_xml rules) = map rule_xml rules"
  by (simp add: filter_map o_def)

lemma read_rule_xml:
  "(\<And>n. rp_checks r = Some n \<Longrightarrow> int_of (str_int n) = Some n) \<Longrightarrow>
   read_rules int_of (rule_xml r # es) = map_sum id (\<lambda>rest. rule_read r # rest) (read_rules int_of es)"
  by (cases "rp_checks r"; cases "rp_description r")
    (simp_all add: rule_xml_def rule_read_def xml_get_or_def xml_get_def xml_findtext_def xml_find_def Let_def)

lemma read_rules_xml:
  "\<forall>r \<in> set rules. \<forall>n. rp_checks r = Some n \<longrightarrow> int_of (str_int n) = Some n \<Longrightarrow>
   read_rules int_of (List.map rule_xml rules) = Inr (List.map rule_read rules)"
  by (induction rules) (simp_all add: read_rule_xml del: read_rules.simps(2))

lemma core_version_xml: "core_version (report_xml version compliant rules) = version"
  by (simp add: core_version_def report_xml_def xml_get_or_def xml_get_def)

lemma rules_of_report:
  "xml_find [''jobs'', ''job'', ''validationReport''] (report_xml version compliant rules)
     = Some (Elem ''validationReport'' [(''isCompliant'', if compliant then ''true'' else ''false'')] None
               [Elem ''details'' [] None (map rule_xml rules)])"
  by (simp add: xml_find_def report_xml_def)

lemma findall_rules [simp]: "concat (List.map (xml_findall [] \<circ> rule_xml) rules) = List.map rule_xml rules"
  by (induction rules) auto

lemma report_read_back:
  "(\<forall>r \<in> set rules. \<forall>n. rp_checks r = Some n \<longrightarrow> int_of (str_int n) = Some n) \<Longrightarrow>
   strip printed \<noteq> '''' \<Longrightarrow> parse printed = Inr (report_xml version compliant rules) \<Longrightarrow>
   run_command (vera_command flavour pdf_path) = Some \<lparr>returncode = code, stdout = printed, stderr = errors\<rparr> \<Longrightarrow>
   validate run_command parse int_of flavour pdf_path
     = Inr \<lparr>vo_is_compliant = compliant, vo_failed_rules = map rule_read rules, vo_verapdf_version = version\<rparr>"
  by (simp add: validate_def run_vera_pdf_def read_report_def rules_of_report read_rules_xml core_version_xml xml_get_def)



section \<open>Names\<close>

definition plain_name :: "string \<Rightarrow> bool" where
  "plain_name s \<longleftrightarrow> list_all (\<lambda>c. c \<notin> {CHR ''*'', CHR ''?'', CHR ''[''}) s"

lemma glob_items_plain: "plain_name s \<Longrightarrow> glob_items (s @ p) = List.map Literal s @ glob_items p"
  by (induction s) (auto simp: plain_name_def)

lemma fn_match_literals: "fn_match (List.map Literal s @ ps) n \<longleftrightarrow> (\<exists>u. n = s @ u \<and> fn_match ps u)"
  by (induction s arbitrary: n) (auto split: list.splits)

lemma fn_match_star: "fn_match (Star # ps) n \<longleftrightarrow> (\<exists>u v. n = u @ v \<and> fn_match ps v)"
proof (induction n)
  case (Cons c n)
  have "(\<exists>u v. c # n = u @ v \<and> fn_match ps v) \<longleftrightarrow> fn_match ps (c # n) \<or> (\<exists>u v. n = u @ v \<and> fn_match ps v)"
    by (metis append_Cons append_Nil list.exhaust list.inject)
  then show ?case using Cons.IH by simp
qed simp

text \<open>What the converter may have called its output: the stem, anything, and the extension.\<close>

definition output_name :: "string \<Rightarrow> string \<Rightarrow> bool" where
  "output_name stem n \<longleftrightarrow> length stem + 4 \<le> length n \<and> startswith n stem \<and> endswith n ''.pdf''"

lemma output_name_iff: "output_name stem n \<longleftrightarrow> (\<exists>middle. n = stem @ middle @ ''.pdf'')"
proof
  assume n: "output_name stem n"
  from n obtain u where "n = stem @ u" by (auto simp: output_name_def startswith_iff)
  moreover from n obtain v where "n = v @ ''.pdf''" by (auto simp: output_name_def endswith_iff)
  moreover from this n have "length stem \<le> length v" by (simp add: output_name_def)
  ultimately show "\<exists>middle. n = stem @ middle @ ''.pdf''"
    by (metis append.assoc append_eq_append_conv_if append_take_drop_id)
qed (auto simp: output_name_def startswith_iff endswith_iff)

lemma glob_items_pdf: "glob_items ''*.pdf'' = Star # List.map Literal ''.pdf''"
  by simp

lemma fn_match_word: "fn_match (List.map Literal s) n \<longleftrightarrow> n = s"
  using fn_match_literals [of s "[]" n] by simp

lemma startswith_append: "stem \<noteq> '''' \<Longrightarrow> startswith (stem @ s) [c] \<longleftrightarrow> startswith stem [c]"
  by (cases stem) (auto simp: startswith_iff)

lemma glob_names_plain:
  assumes "plain_name stem" and "stem \<noteq> ''''"
  shows "glob_names (stem @ ''*.pdf'') names = filter (output_name stem) names"
proof -
  have m: "fn_match (glob_items (stem @ ''*.pdf'')) n \<longleftrightarrow> output_name stem n" for n
    by (simp only: glob_items_plain [OF assms(1)] glob_items_pdf fn_match_literals fn_match_star fn_match_word output_name_iff)
      blast
  have "output_name stem n \<Longrightarrow> startswith n ''.'' \<longleftrightarrow> startswith (stem @ ''*.pdf'') ''.''" for n
    using assms(2) by (auto simp: output_name_iff startswith_append)
  then show ?thesis unfolding glob_names_def m by (intro filter_cong refl) blast
qed

lemma output_name_target [simp]: "output_name stem (stem @ ''.pdf'')"
  unfolding output_name_iff by (rule exI [of _ "[]"]) simp

lemma after_renaming:
  assumes "filter P names = [n]" and "P t"
  shows "set (if n = t then names else filter (\<lambda>m. m \<noteq> n \<and> m \<noteq> t) names @ [t]) = insert t (set (filter (\<lambda>m. \<not> P m) names))"
proof -
  have "{m \<in> set names. P m} = {n}" using assms(1) by (metis list.simps(15) empty_set set_filter)
  then show ?thesis using assms(2) by auto
qed

text \<open>The tagged PDF is found under the name of its input, and only when there is exactly one candidate: for an
  input whose stem has no pattern character, a finished conversion answers dir/stem.pdf exactly if one name
  in the output directory is the stem, anything, and .pdf; then the directory holds stem.pdf and every other
  name it held.  Otherwise, and if the conversion failed, the step fails and the directory is left as it is.
\<close>

theorem ocr_output_is_named_after_its_input:
  "plain_name (splitext_root (basename pdf_path)) \<Longrightarrow> splitext_root (basename pdf_path) \<noteq> '''' \<Longrightarrow>
   convert HYBRID_MODE (if hybrid_url = Some '''' then None else hybrid_url) pdf_path = (ended, names) \<Longrightarrow>
   open_data_loader_extract convert hybrid_url pdf_path dir = (result, names') \<Longrightarrow>
   (if ended = Converted \<and> length (filter (output_name (splitext_root (basename pdf_path))) names) = 1
    then result = Inr (dir @ ''/'' @ splitext_root (basename pdf_path) @ ''.pdf'') \<and>
      set names' = insert (splitext_root (basename pdf_path) @ ''.pdf'')
        (set (filter (\<lambda>n. \<not> output_name (splitext_root (basename pdf_path)) n) names))
    else (\<exists>m. result = Inl (AdapterError m)) \<and> names' = names)"
proof -
  let ?stem = "splitext_root (basename pdf_path)"
  assume plain: "plain_name ?stem" "?stem \<noteq> ''''"
    and converted: "convert HYBRID_MODE (if hybrid_url = Some '''' then None else hybrid_url) pdf_path = (ended, names)"
    and run: "open_data_loader_extract convert hybrid_url pdf_path dir = (result, names')"
  have unfolded: "(case convert_message ended of
       Some m \<Rightarrow> (Inl (AdapterError m), names)
     | None \<Rightarrow>
         (case filter (output_name ?stem) names of
            [] \<Rightarrow> (Inl (AdapterError (''opendataloader-pdf produced no tagged PDF in '' @ dir)), names)
          | [n] \<Rightarrow> (Inr (dir @ ''/'' @ ?stem @ ''.pdf''),
                   if n = ?stem @ ''.pdf'' then names else filter (\<lambda>m. m \<noteq> n \<and> m \<noteq> ?stem @ ''.pdf'') names @ [?stem @ ''.pdf''])
          | _ \<Rightarrow> (Inl (AdapterError (''opendataloader-pdf produced multiple candidate outputs in '' @ dir)), names)))
     = (result, names')"
    using run by (simp only: open_data_loader_extract_def converted Let_def prod.case glob_names_plain [OF plain])
  have message: "convert_message ended = None \<longleftrightarrow> ended = Converted"
    by (cases ended) (auto simp: convert_message_def Let_def)
  show ?thesis
  proof (cases "ended = Converted \<and> length (filter (output_name ?stem) names) = 1")
    case True
    then obtain n where n: "filter (output_name ?stem) names = [n]" by (auto simp: length_Suc_conv)
    from unfolded True n message
    have "result = Inr (dir @ ''/'' @ ?stem @ ''.pdf'')"
      "names' = (if n = ?stem @ ''.pdf'' then names else filter (\<lambda>m. m \<noteq> n \<and> m \<noteq> ?stem @ ''.pdf'') names @ [?stem @ ''.pdf''])"
      by simp_all
    with True after_renaming [OF n output_name_target] show ?thesis by simp
  next
    case False
    with unfolded message show ?thesis by (auto split: option.splits list.splits)
  qed
qed

theorem ocr_output_is_named_after_its_input_witness:
  "open_data_loader_extract (\<lambda>mode url path. (Converted, [''a_tagged.pdf'', ''log.txt''])) None ''/in/a.pdf'' ''/out''
     = (Inr ''/out/a.pdf'', [''log.txt'', ''a.pdf'']) \<and>
   set [''log.txt'', ''a.pdf''] = insert ''a.pdf'' (set (filter (\<lambda>n. \<not> output_name ''a'' n) [''a_tagged.pdf'', ''log.txt'']))"
proof -
  have stem: "splitext_root (basename ''/in/a.pdf'') = ''a''" by code_simp
  have plain: "plain_name (splitext_root (basename ''/in/a.pdf''))" "splitext_root (basename ''/in/a.pdf'') \<noteq> ''''" by code_simp+
  have one: "length (filter (output_name (splitext_root (basename ''/in/a.pdf''))) [''a_tagged.pdf'', ''log.txt'']) = 1" by code_simp
  have run: "open_data_loader_extract (\<lambda>mode url path. (Converted, [''a_tagged.pdf'', ''log.txt''])) None ''/in/a.pdf'' ''/out''
     = (Inr ''/out/a.pdf'', [''log.txt'', ''a.pdf''])" by code_simp
  have "set [''log.txt'', ''a.pdf''] = insert (splitext_root (basename ''/in/a.pdf'') @ ''.pdf'')
      (set (filter (\<lambda>n. \<not> output_name (splitext_root (basename ''/in/a.pdf'')) n) [''a_tagged.pdf'', ''log.txt'']))"
    using ocr_output_is_named_after_its_input [OF plain refl run] one by (simp only: simp_thms if_True)
  with run show ?thesis by (simp only: stem append.simps simp_thms)
qed

text \<open>
  A stem with brackets is a pattern that does not match itself, and nothing escapes it: the converter's own output
  for the upload \<open>report[1].pdf\<close> is not found.
\<close>

lemma bracketed_upload_loses_its_output:
  "open_data_loader_extract (\<lambda>mode url path. (Converted, [''report[1].pdf''])) None ''/in/report[1].pdf'' ''/out''
     = (Inl (AdapterError ''opendataloader-pdf produced no tagged PDF in /out''), [''report[1].pdf''])"
  by code_simp

section \<open>Finalized documents\<close>

lemma dict_below: "pdf_ok d \<Longrightarrow> dict_at d a \<noteq> None \<Longrightarrow> a < free_at d"
  by (auto simp: dict_at_def split: option.splits dest: heap_below)

lemma dict_at_new: "dict_at (snd (new_direct n d)) a = (if a = free_at d then (case n of NDict kvs \<Rightarrow> Some kvs | _ \<Rightarrow> None) else dict_at d a)"
  by (simp add: dict_at_def split: node.split)

lemma get_at_new: "a \<noteq> free_at d \<Longrightarrow> get_at (snd (new_direct n d)) a k = get_at d a k"
  by (simp add: get_at_def dict_at_new)

lemma get_entry_at: "dict_at d a \<noteq> None \<Longrightarrow> get_entry d (VAt a) k = Inr (get_at d a k)"
  by (auto simp: dict_at_def get_at_def split: option.splits node.splits)

lemma is_dict_set_entry: "(\<exists>y. dict_at (set_entry a k v d) b = Some y) \<longleftrightarrow> (\<exists>y. dict_at d b = Some y)"
  using dict_at_set_entry [of a k v d b] by auto

lemma set_tabs_other [simp]: "root_at (set_tabs ps d) = root_at d" "page_list (set_tabs ps d) = page_list d"
  by (induction ps arbitrary: d) (simp_all add: set_tabs_def)

lemma set_tabs_dict: "dict_at (set_tabs ps d) a = None \<longleftrightarrow> dict_at d a = None"
  by (induction ps arbitrary: d) (simp_all add: set_tabs_def dict_at_set_entry)

lemma get_at_set_tabs:
  "\<forall>p \<in> set ps. dict_at d p \<noteq> None \<Longrightarrow>
   get_at (set_tabs ps d) a k = (if a \<in> set ps \<and> k = ''/Tabs'' then Some (VName ''/S'') else get_at d a k)"
proof (induction ps arbitrary: d)
  case (Cons p ps)
  have "\<forall>q \<in> set ps. dict_at (set_entry p ''/Tabs'' (VName ''/S'') d) q \<noteq> None"
    using Cons.prems by (simp only: dict_at_set_entry) simp
  from Cons.IH [OF this] Cons.prems show ?case by (auto simp: set_tabs_def get_at_set_entry)
qed (simp add: set_tabs_def)

text \<open>Every entry of a finalized document.\<close>

lemma finalized_entries:
  assumes "pdf_ok (objects f)" and "dict_at (objects f) (root_at (objects f)) \<noteq> None"
    and "\<forall>p \<in> set (page_list (objects f)). dict_at (objects f) p \<noteq> None"
  shows "root_at (objects (finalize_pdf title lang f)) = root_at (objects f)"
    and "page_list (objects (finalize_pdf title lang f)) = page_list (objects f)"
    and "xmp_data (finalize_pdf title lang f) = \<lparr>dc_title = title, pdfuaid_part = ''1''\<rparr>"
    and "get_at (objects (finalize_pdf title lang f)) a k =
      (if a \<in> set (page_list (objects f)) \<and> k = ''/Tabs'' then Some (VName ''/S'')
       else if a = root_at (objects f) \<and> k = ''/ViewerPreferences'' then Some (VAt (Suc (free_at (objects f))))
       else if a = root_at (objects f) \<and> k = ''/Lang'' then Some (VStr lang)
       else if a = root_at (objects f) \<and> k = ''/MarkInfo'' then Some (VAt (free_at (objects f)))
       else if a = free_at (objects f) then (if k = ''/Marked'' then Some (VBool True) else None)
       else if a = Suc (free_at (objects f)) then (if k = ''/DisplayDocTitle'' then Some (VBool True) else None)
       else get_at (objects f) a k)"
    and "dict_at (objects (finalize_pdf title lang f)) (free_at (objects f)) \<noteq> None"
    and "dict_at (objects (finalize_pdf title lang f)) (Suc (free_at (objects f))) \<noteq> None"
proof -
  let ?d = "objects f"
  define d1 where "d1 = snd (new_direct (NDict [(''/Marked'', VBool True)]) ?d)"
  define d2 where "d2 = set_root ''/Lang'' (VStr lang) (set_root ''/MarkInfo'' (VAt (free_at ?d)) d1)"
  define d3 where "d3 = snd (new_direct (NDict [(''/DisplayDocTitle'', VBool True)]) d2)"
  define d4 where "d4 = set_root ''/ViewerPreferences'' (VAt (Suc (free_at ?d))) d3"
  note defs = d4_def d3_def d2_def d1_def set_root_def
  have finalized: "objects (finalize_pdf title lang f) = set_tabs (page_list ?d) d4"
    "xmp_data (finalize_pdf title lang f) = \<lparr>dc_title = title, pdfuaid_part = ''1''\<rparr>"
    by (simp_all add: finalize_pdf_def defs new_direct_def Let_def)
  have below: "root_at ?d < free_at ?d" "\<And>p. p \<in> set (page_list ?d) \<Longrightarrow> p < free_at ?d"
    using assms dict_below by blast+
  have pages: "\<forall>p \<in> set (page_list ?d). dict_at d4 p \<noteq> None"
    using assms(3) below by (auto simp: defs is_dict_set_entry dict_at_new)
  show "root_at (objects (finalize_pdf title lang f)) = root_at ?d"
    "page_list (objects (finalize_pdf title lang f)) = page_list ?d"
    "xmp_data (finalize_pdf title lang f) = \<lparr>dc_title = title, pdfuaid_part = ''1''\<rparr>"
    "dict_at (objects (finalize_pdf title lang f)) (free_at ?d) \<noteq> None"
    "dict_at (objects (finalize_pdf title lang f)) (Suc (free_at ?d)) \<noteq> None"
    using below by (simp_all add: finalized set_tabs_dict) (simp_all add: defs is_dict_set_entry dict_at_new)
  have root: "dict_at d1 (root_at ?d) \<noteq> None" "root_at d1 = root_at ?d" "root_at d2 = root_at ?d" "root_at d3 = root_at ?d"
    "free_at d2 = Suc (free_at ?d)"
    using assms(2) below by (simp_all add: defs dict_at_new)
  have root3: "dict_at d3 (root_at ?d) \<noteq> None"
    using assms(2) below by (simp add: defs is_dict_set_entry dict_at_new)
  have at1: "get_at d1 a k = (if a = free_at ?d then (if k = ''/Marked'' then Some (VBool True) else None) else get_at ?d a k)" for a k
    by (simp add: d1_def get_at_def dict_at_new entry_def)
  have at2: "get_at d2 a k =
      (if a = root_at ?d \<and> k = ''/Lang'' then Some (VStr lang)
       else if a = root_at ?d \<and> k = ''/MarkInfo'' then Some (VAt (free_at ?d)) else get_at d1 a k)" for a k
    unfolding d2_def set_root_def set_entry_other root(2)
    using root(1) by (simp add: get_at_set_entry dict_at_set_entry is_dict_set_entry del: set_entry_other)
  have at3: "get_at d3 a k = (if a = Suc (free_at ?d) then (if k = ''/DisplayDocTitle'' then Some (VBool True) else None) else get_at d2 a k)" for a k
    by (simp add: d3_def get_at_def dict_at_new entry_def root)
  have at4: "get_at d4 a k = (if a = root_at ?d \<and> k = ''/ViewerPreferences'' then Some (VAt (Suc (free_at ?d))) else get_at d3 a k)" for a k
    unfolding d4_def set_root_def root(4) using root3 by (simp add: get_at_set_entry)
  show "get_at (objects (finalize_pdf title lang f)) a k =
      (if a \<in> set (page_list ?d) \<and> k = ''/Tabs'' then Some (VName ''/S'')
       else if a = root_at ?d \<and> k = ''/ViewerPreferences'' then Some (VAt (Suc (free_at ?d)))
       else if a = root_at ?d \<and> k = ''/Lang'' then Some (VStr lang)
       else if a = root_at ?d \<and> k = ''/MarkInfo'' then Some (VAt (free_at ?d))
       else if a = free_at ?d then (if k = ''/Marked'' then Some (VBool True) else None)
       else if a = Suc (free_at ?d) then (if k = ''/DisplayDocTitle'' then Some (VBool True) else None)
       else get_at ?d a k)"
    unfolding finalized get_at_set_tabs [OF pages] at4 at3 at2 at1 using below by auto
qed


definition demo_opened :: opened_pdf where
  "demo_opened =
     \<lparr>objects = \<lparr>heap = [2 \<mapsto> NDict [(''/Type'', VName ''/Catalog''), (''/Lang'', VStr ''de'')], 3 \<mapsto> NDict [(''/Type'', VName ''/Page'')]],
                 object_number = (\<lambda>a. if a = 2 then 1 else if a = 3 then 2 else 0), root_at = 2, page_list = [3],
                 free_at = 4, free_number = 3\<rparr>,
      xmp_data = \<lparr>dc_title = '''', pdfuaid_part = ''''\<rparr>\<rparr>"


end
