(* ===== verification/Document_Flow.thy ===== *)
theory Document_Flow
  imports External_Theorems Link_Theorems Alt_Text_Theorems
begin

text \<open>
  The steps after the conversion, on one document: what \<open>finalize_metadata\<close> writes, \<open>link_tag\<close> and \<open>alt_text\<close> keep,
  and the links that \<open>link_tag\<close> enters in the tree stay entered when the descriptions are written.  Each step opens the file the
  previous one saved, so the documents are chained as stores of objects.
\<close>

section \<open>Metadata that later steps keep\<close>

text \<open>The catalog's dictionary \<open>section\<close> exists and says \<open>k\<close>.\<close>

definition catalog_says :: "pdf \<Rightarrow> string \<Rightarrow> string \<Rightarrow> bool" where
  "catalog_says d sect k \<longleftrightarrow>
     (case get_at d (root_at d) sect of
        Some (VAt a) \<Rightarrow> dict_at d a \<noteq> None \<and> get_at d a k = Some (VBool True)
      | _ \<Rightarrow> False)"

definition metadata_in_place :: "string \<Rightarrow> pdf \<Rightarrow> bool" where
  "metadata_in_place lang d \<longleftrightarrow>
     catalog_says d ''/MarkInfo'' ''/Marked'' \<and> catalog_says d ''/ViewerPreferences'' ''/DisplayDocTitle'' \<and>
     get_at d (root_at d) ''/Lang'' = Some (VStr lang) \<and>
     list_all (\<lambda>p. get_at d p ''/Tabs'' = Some (VName ''/S'')) (page_list d)"

text \<open>All that is needed of a step: dictionaries stay and keep these entries.\<close>

definition keeps_metadata :: "pdf \<Rightarrow> pdf \<Rightarrow> bool" where
  "keeps_metadata d d' \<longleftrightarrow>
     root_at d' = root_at d \<and> page_list d' = page_list d \<and>
     (\<forall>a. dict_at d a \<noteq> None \<longrightarrow> dict_at d' a \<noteq> None \<and> (\<forall>j. j \<notin> {''/K'', ''/Alt''} \<longrightarrow> get_at d' a j = get_at d a j))"

lemma get_at_dict: "get_at d a k = Some v \<Longrightarrow> dict_at d a \<noteq> None"
  by (auto simp: get_at_def split: option.splits)

lemma keeps_entry: "keeps_metadata d d' \<Longrightarrow> j \<notin> {''/K'', ''/Alt''} \<Longrightarrow> get_at d a j = Some v \<Longrightarrow> get_at d' a j = Some v"
  using get_at_dict [of d a j v] by (simp add: keeps_metadata_def)

lemma keeps_saying:
  assumes keep: "keeps_metadata d d'" and "sect \<notin> {''/K'', ''/Alt''}" "k \<notin> {''/K'', ''/Alt''}" and says: "catalog_says d sect k"
  shows "catalog_says d' sect k"
proof -
  from says obtain a where a: "get_at d (root_at d) sect = Some (VAt a)" "dict_at d a \<noteq> None" "get_at d a k = Some (VBool True)"
    by (auto simp: catalog_says_def split: option.splits val.splits)
  moreover have "root_at d' = root_at d" "dict_at d' a \<noteq> None" using keep a(2) by (simp_all add: keeps_metadata_def)
  ultimately show ?thesis
    using keeps_entry [OF keep assms(2) a(1)] keeps_entry [OF keep assms(3) a(3)] by (simp add: catalog_says_def)
qed

lemma keeps_in_place:
  assumes keep: "keeps_metadata d d'" and before: "metadata_in_place lang d"
  shows "metadata_in_place lang d'"
proof -
  have says: "catalog_says d' ''/MarkInfo'' ''/Marked''" "catalog_says d' ''/ViewerPreferences'' ''/DisplayDocTitle''"
    using before by (auto simp: metadata_in_place_def intro!: keeps_saying [OF keep])
  have "get_at d' (root_at d) ''/Lang'' = Some (VStr lang)"
    by (rule keeps_entry [OF keep]) (use before in \<open>simp_all add: metadata_in_place_def\<close>)
  moreover have "get_at d' p ''/Tabs'' = Some (VName ''/S'')" if "p \<in> set (page_list d)" for p
    by (rule keeps_entry [OF keep]) (use before that in \<open>simp_all add: metadata_in_place_def list_all_iff\<close>)
  moreover have "root_at d' = root_at d" "page_list d' = page_list d" using keep by (simp_all add: keeps_metadata_def)
  ultimately show ?thesis using says by (simp add: metadata_in_place_def list_all_iff)
qed

lemma finalized_in_place:
  assumes "pdf_ok (objects f)" and "dict_at (objects f) (root_at (objects f)) \<noteq> None"
    and "\<forall>p \<in> set (page_list (objects f)). dict_at (objects f) p \<noteq> None"
  shows "metadata_in_place lang (objects (finalize_pdf title lang f))"
proof -
  note entries = finalized_entries [OF assms, of title lang]
  have "root_at (objects f) < free_at (objects f)" using assms dict_below by blast
  then show ?thesis using entries(5,6) by (simp add: metadata_in_place_def catalog_says_def entries list_all_iff)
qed

lemma finalized_ok:
  assumes "pdf_ok (objects f)"
  shows "pdf_ok (objects (finalize_pdf title lang f))"
proof -
  have tabs: "pdf_ok d \<Longrightarrow> pdf_ok (set_tabs ps d)" for ps d
    by (induction ps arbitrary: d) (simp_all add: set_tabs_def set_entry_ok)
  show ?thesis
    unfolding finalize_pdf_def set_root_def Let_def case_prod_beta fst_new
    by (simp, rule tabs)
      (intro set_entry_ok new_direct_ok assms; simp)
qed

lemma written_keeps: "keeps_metadata d (write_alt_text alts d)"
  using write_alts_same [of d alts "figure_refs (walk_figures d)"]
  by (auto simp: keeps_metadata_def same_but_alt_def write_alt_text_def)

text \<open>
  The interface of a step that runs after the metadata was written: on documents it is meant for, what it answers
  keeps the metadata.  \<open>link_tag\<close> and \<open>alt_text\<close> provide it.
\<close>

locale metadata_keeper =
  fixes step_on :: "pdf \<Rightarrow> exn + pdf" and meant_for :: "pdf \<Rightarrow> bool"
  assumes keeps: "meant_for d \<Longrightarrow> step_on d = Inr d' \<Longrightarrow> keeps_metadata d d'"
begin

lemma still_in_place: "meant_for d \<Longrightarrow> step_on d = Inr d' \<Longrightarrow> metadata_in_place lang d \<Longrightarrow> metadata_in_place lang d'"
  using keeps keeps_in_place by blast

end

section \<open>Links that stay entered\<close>

lemma same_number_of: "same_but_alt d d' \<Longrightarrow> number_of d' v = number_of d v"
  by (cases v) (simp_all add: same_but_alt_def)

lemma collect_same: "same_but_alt d d' \<Longrightarrow> collect_tagged d' n v = collect_tagged d n v"
proof (induction n arbitrary: v)
  case (Suc n)
  have "str_entry d' a ''/Type'' = str_entry d a ''/Type''" "get_at d' a ''/Obj'' = get_at d a ''/Obj''" for a
    using Suc.prems by (simp_all add: same_but_alt_def str_entry_def)
  with Suc show ?case
    by (simp only: collect_tagged.simps same_as_dict same_kids same_number_of)
qed simp

lemma repaired_keeps:
  assumes "tree_grows d d'" and "root_at d' = root_at d" and "page_list d' = page_list d"
  shows "keeps_metadata d d'"
  using assms by (simp add: keeps_metadata_def tree_grows_def)

section \<open>The pages and the catalog stay what they are\<close>

definition same_frame :: "pdf \<Rightarrow> pdf \<Rightarrow> bool" where
  "same_frame d d' \<longleftrightarrow> root_at d' = root_at d \<and> page_list d' = page_list d"

lemma add_link_frame: "add_link sr kids page annot d = Inr d' \<Longrightarrow> same_frame d d'"
  by (auto simp: add_link_def same_frame_def Let_def case_prod_beta split: val.splits if_splits)

lemma tag_annotations_frame:
  "tag_annotations sr kids page vs (tagged, d) = Inr (tagged', d') \<Longrightarrow> same_frame d d'"
proof (induction vs arbitrary: tagged d)
  case (Cons v vs)
  then show ?case
    by (auto simp: same_frame_def split: sum.splits if_splits dest!: add_link_frame)
qed (simp add: same_frame_def)

lemma tag_pages_frame: "tag_pages sr kids ps (tagged, d) = Inr (tagged', d') \<Longrightarrow> same_frame d d'"
proof (induction ps arbitrary: tagged d)
  case (Cons p ps)
  then show ?case
    by (auto simp: same_frame_def split: sum.splits dest!: tag_annotations_frame)
qed (simp add: same_frame_def)

lemma repair_frame: "repair_links d = Inr d' \<Longrightarrow> same_frame d d'"
proof -
  assume r: "repair_links d = Inr d'"
  have kids: "root_kids sr d = Inr (kids, d1) \<Longrightarrow> same_frame d d1" for sr kids d1
    by (auto simp: root_kids_def same_frame_def Let_def case_prod_beta split: sum.splits option.splits if_splits)
  show ?thesis
  proof (cases "get_at d (root_at d) ''/StructTreeRoot''")
    case None
    with r show ?thesis by (simp add: repair_links_def same_frame_def)
  next
    case (Some v)
    with r obtain sr kids d1 tagged where "root_kids sr d = Inr (kids, d1)"
      "tag_pages sr kids (page_list d) (collect_tagged d (Suc MAX_STRUCT_TREE_DEPTH) v, d1) = Inr (tagged, d')"
      by (auto simp: repair_links_def tag_link_annotations_def Let_def map_sum_Inr split: sum.splits val.splits)
    then show ?thesis using kids tag_pages_frame by (fastforce simp: same_frame_def)
  qed
qed

text \<open>Both steps provide the interface.\<close>

definition tagged_document :: "pdf \<Rightarrow> bool" where
  "tagged_document d \<longleftrightarrow> pdf_ok d \<and> links_are_dicts d \<and> (\<exists>sr. tree_root d sr)"

interpretation link_step: metadata_keeper repair_links tagged_document
proof
  fix d d'
  assume "tagged_document d" and linked: "repair_links d = Inr d'"
  then obtain sr where "pdf_ok d" "tree_root d sr" "links_are_dicts d" by (auto simp: tagged_document_def)
  from this linked have "tree_grows d d'" by (rule repair_links_settles)
  then show "keeps_metadata d d'"
    by (rule repaired_keeps) (use repair_frame [OF linked] in \<open>simp_all add: same_frame_def\<close>)
qed

interpretation alt_text_step: metadata_keeper "\<lambda>d. Inr (write_alt_text alts d)" "\<lambda>d. True" for alts
  by unfold_locales (auto intro: written_keeps)


definition demo_flow :: opened_pdf where
  "demo_flow = \<lparr>objects = demo_link_pdf, xmp_data = \<lparr>dc_title = '''', pdfuaid_part = ''''\<rparr>\<rparr>"

lemmas demo_flow_simps = demo_flow_def finalize_pdf_def set_root_def set_tabs_def new_direct_def set_entry_def Let_def
  demo_link_pdf_def demo_link_heap_def get_at_def dict_at_def entry_def annotations_def

lemma demo_flow_tree: "tree_root (objects (finalize_pdf ''Report'' ''en-US'' demo_flow)) 5"
  by (simp add: tree_root_def demo_flow_simps)

lemma demo_flow_links: "links_are_dicts (objects (finalize_pdf ''Report'' ''en-US'' demo_flow))"
  by (simp add: links_are_dicts_def is_link_def demo_flow_simps)

lemma demo_flow_linked:
  "\<exists>linked. repair_links (objects (finalize_pdf ''Report'' ''en-US'' demo_flow)) = Inr linked \<and> page_list linked = [2] \<and>
     annotations linked 2 = Inr [VAt 4] \<and> is_link linked (VAt 4)"
  by (simp add: repair_links_def tag_link_annotations_def root_kids_def add_link_def is_link_def str_of_entry_def
      new_indirect_def append_item_def collect_tagged.simps(2) MAX_STRUCT_TREE_DEPTH_def kids_at_def demo_flow_simps)


end
