(* ===== verification/Admin_Reports.thy ===== *)
theory Admin_Reports
  imports Service_Theorems "HOL-Library.Char_ord" "HOL-Library.List_Lexorder"
begin

text \<open>
  What an operator sees of the attempts: the retry floor offered in the admin (\<^verbatim>\<open>remediation/admin.py\<close>) and the
  list of scores beside verdicts (\<^verbatim>\<open>scoring_comparison_report.py\<close>).  Parameters: the version library, the order in
  which a set of texts is iterated, and \<open>int()\<close> on a text.  Attempts made at the same moment come in table order.
\<close>

section \<open>The retry floor\<close>

definition version_sort_key :: "'v version_api \<Rightarrow> string \<Rightarrow> 'v" where
  "version_sort_key ver value = (case ver_parse ver value of Some v \<Rightarrow> v | None \<Rightarrow> ver_zero ver)"

text \<open>\<open>sorted\<close> with a key that is only compared by \<open>lt\<close>; equal keys keep their order.\<close>

fun insert_by :: "('a \<Rightarrow> 'a \<Rightarrow> bool) \<Rightarrow> 'a \<Rightarrow> 'a list \<Rightarrow> 'a list" where
  "insert_by lt x [] = [x]"
| "insert_by lt x (y # ys) = (if lt y x then y # insert_by lt x ys else x # y # ys)"

definition sort_by :: "('a \<Rightarrow> 'a \<Rightarrow> bool) \<Rightarrow> 'a list \<Rightarrow> 'a list" where
  "sort_by lt xs = foldr (insert_by lt) xs []"

definition older :: "'v version_api \<Rightarrow> string \<Rightarrow> string \<Rightarrow> bool" where
  "older ver a b \<longleftrightarrow> ver_less ver (version_sort_key ver a) (version_sort_key ver b)"

definition versions_offered :: "(string set \<Rightarrow> string list) \<Rightarrow> 'v version_api \<Rightarrow> world \<Rightarrow> string list" where
  "versions_offered iterate ver w =
     sort_by (older ver) (iterate (set (filter (\<lambda>v. v \<noteq> '''') (map pipeline_version (remediations w)))))"

definition NO_FLOOR_LABEL :: string where
  "NO_FLOOR_LABEL = ''(none '' @ [CHR 0xE2, CHR 0x80, CHR 0x94] @ '' nothing auto-retries)''"

definition floor_choices :: "(string set \<Rightarrow> string list) \<Rightarrow> 'v version_api \<Rightarrow> world \<Rightarrow> (string \<times> string) list" where
  "floor_choices iterate ver w = ('''', NO_FLOOR_LABEL) # map (\<lambda>v. (v, v)) (versions_offered iterate ver w)"

text \<open>The form: a choice that is not offered is refused, and the model refuses more than 20 characters.\<close>

definition submit_floor :: "(string set \<Rightarrow> string list) \<Rightarrow> 'v version_api \<Rightarrow> string \<Rightarrow> world \<Rightarrow> (string + unit) \<times> world" where
  "submit_floor iterate ver value w =
     (if value \<notin> fst ` set (floor_choices iterate ver w)
      then (Inl (''Select a valid choice. '' @ value @ '' is not one of the available choices.''), w)
      else if length value > 20
      then (Inl (''Ensure this value has at most 20 characters (it has '' @ str_int (int (length value)) @ '').''), w)
      else (Inr (), save_pipeline_config value w))"

definition config_has_add_permission :: "world \<Rightarrow> bool" where
  "config_has_add_permission w \<longleftrightarrow> pipeline_config w = None"

definition remediation_has_add_permission :: "world \<Rightarrow> bool" where
  "remediation_has_add_permission w \<longleftrightarrow> False"

section \<open>Scores beside verdicts\<close>

definition postcheck_verdict :: "world \<Rightarrow> Remediation \<Rightarrow> string" where
  "postcheck_verdict w r =
     (case List.find (\<lambda>v. vr_remediation v = rid r \<and> vr_step v = POSTCHECK) (verification_results w) of
        None \<Rightarrow> ''not_reached''
      | Some v \<Rightarrow> if vr_is_compliant v then ''compliant'' else ''not_compliant'')"

definition pad_right :: "nat \<Rightarrow> string \<Rightarrow> string" where
  "pad_right n s = s @ replicate (n - length s) CHR '' ''"

definition pad_left :: "nat \<Rightarrow> string \<Rightarrow> string" where
  "pad_left n s = replicate (n - length s) CHR '' '' @ s"

definition report_line :: "world \<Rightarrow> Remediation \<Rightarrow> string" where
  "report_line w r =
     (let score = List.find (\<lambda>s. sc_remediation s = rid r) (scores w);
          name = (if original_filename r = '''' then ''(untitled)'' else original_filename r);
          score_str = (case score of Some s \<Rightarrow> pad_left 3 (str_int (sc_score s)) @ '' ('' @ sc_grade s @ '')'' | None \<Rightarrow> ''  - (-)'');
          items = (case score of Some s \<Rightarrow> str_int (int (length (sc_manual_review_items s))) | None \<Rightarrow> ''-'')
      in rid r @ ''  '' @ pad_right 40 name @ ''  postcheck='' @ pad_right 20 (postcheck_verdict w r) @ ''  score='' @ score_str
           @ ''  manual_items='' @ items)"

definition scoring_comparison_report ::
    "(string \<Rightarrow> int option) \<Rightarrow> int \<Rightarrow> string option \<Rightarrow> world \<Rightarrow> exn + string list" where
  "scoring_comparison_report int_of limit account w =
     (let wanted = (if account = None \<or> account = Some '''' then Some (\<lambda>r. True)
                    else map_option (\<lambda>n r. int (service_account r) = n) (int_of (the account)))
      in case wanted of
           None \<Rightarrow> Inl (ValueError ''Field 'id' expected a number'')
         | Some p \<Rightarrow>
             if limit < 0 then Inl (ValueError ''Negative indexing is not supported.'')
             else Inr (map (report_line w) (take (nat limit) (sort_key (\<lambda>r. - created_at r) (filter p (remediations w))))))"

section \<open>What the floor does\<close>

text \<open>What the version library promises: a strict order in which unrelated versions are equally new.\<close>

definition version_order :: "'v version_api \<Rightarrow> bool" where
  "version_order ver \<longleftrightarrow>
     (\<forall>a b. ver_less ver a b \<longrightarrow> \<not> ver_less ver b a) \<and>
     (\<forall>a b c. \<not> ver_less ver b a \<longrightarrow> \<not> ver_less ver c b \<longrightarrow> \<not> ver_less ver c a)"

lemma set_insert_by [simp]: "set (insert_by lt x ys) = insert x (set ys)"
  by (induction ys) auto

lemma set_sort_by [simp]: "set (sort_by lt xs) = set xs"
  by (induction xs) (simp_all add: sort_by_def)

lemma insert_by_sorted:
  assumes "\<And>a b. lt a b \<Longrightarrow> \<not> lt b a" and "\<And>a b c. \<not> lt b a \<Longrightarrow> \<not> lt c b \<Longrightarrow> \<not> lt c a"
    and "sorted_wrt (\<lambda>a b. \<not> lt b a) ys"
  shows "sorted_wrt (\<lambda>a b. \<not> lt b a) (insert_by lt x ys)"
  using assms(3)
proof (induction ys)
  case (Cons y ys)
  then have rest: "\<forall>z \<in> set ys. \<not> lt z y" by simp
  show ?case
  proof (cases "lt y x")
    case True
    with Cons rest assms(1) [of y x] show ?thesis by simp
  next
    case False
    have "\<forall>z \<in> set ys. \<not> lt z x" using rest assms(2) [OF False] by blast
    with False Cons.prems show ?thesis by simp
  qed
qed simp

lemma sort_by_sorted:
  assumes "\<And>a b. lt a b \<Longrightarrow> \<not> lt b a" and "\<And>a b c. \<not> lt b a \<Longrightarrow> \<not> lt c b \<Longrightarrow> \<not> lt c a"
  shows "sorted_wrt (\<lambda>a b. \<not> lt b a) (sort_by lt xs)"
  by (induction xs) (simp_all add: sort_by_def insert_by_sorted [OF assms])

lemma offered_sorted: "version_order ver \<Longrightarrow> sorted_wrt (\<lambda>a b. \<not> older ver b a) (versions_offered iterate ver w)"
  unfolding versions_offered_def
  by (rule sort_by_sorted) (unfold version_order_def older_def, blast+)

lemma set_offered: "(\<And>S. finite S \<Longrightarrow> set (iterate S) = S) \<Longrightarrow> set (versions_offered iterate ver w) = pipeline_version ` set (remediations w) - {''''}"
  by (auto simp: versions_offered_def)

lemma parse_version_key: "value \<noteq> '''' \<Longrightarrow> parse_version ver value = version_sort_key ver value"
  by (simp add: parse_version_def version_sort_key_def)

text \<open>Choosing a retry floor in the admin only ever retries what the list shows above it: with the i-th of the offered
  versions as the floor, an attempt made by a version is retried without force only if it failed and its version is
  blank or stands earlier in the list, and every version an attempt was made by is offered.\<close>

theorem floor_retries_what_is_listed_before:
  "version_order ver \<Longrightarrow> (\<forall>S. finite S \<longrightarrow> set (iterate S) = S) \<Longrightarrow> j < length (versions_offered iterate ver w) \<Longrightarrow>
   submit_floor iterate ver (versions_offered iterate ver w ! j) w = (Inr (), w') \<Longrightarrow> r \<in> set (remediations w) \<Longrightarrow>
   (\<not> should_retry ver r False w' \<or>
    status r \<in> {NONCOMPLIANT, ERROR} \<and>
    (pipeline_version r = '''' \<or> pipeline_version r \<in> set (take j (versions_offered iterate ver w)))) \<and>
   (pipeline_version r = '''' \<or> pipeline_version r \<in> set (versions_offered iterate ver w))"
proof -
  let ?vs = "versions_offered iterate ver w"
  assume order: "version_order ver" and iterate: "\<forall>S. finite S \<longrightarrow> set (iterate S) = S" and j: "j < length ?vs"
    and submitted: "submit_floor iterate ver (?vs ! j) w = (Inr (), w')" and r: "r \<in> set (remediations w)"
  have offered: "set ?vs = pipeline_version ` set (remediations w) - {''''}" by (rule set_offered) (use iterate in simp)
  then have floor: "?vs ! j \<noteq> ''''" using nth_mem [OF j] by blast
  have w': "retry_floor_version w' = ?vs ! j"
    using submitted by (auto simp: submit_floor_def save_pipeline_config_def retry_floor_version_def split: if_splits)
  have later: "\<not> older ver (?vs ! i) (?vs ! j)" if "j \<le> i" "i < length ?vs" for i
  proof (cases "i = j")
    case True
    then show ?thesis using order unfolding older_def version_order_def by blast
  next
    case False
    with that show ?thesis using sorted_wrt_nth_less [OF offered_sorted [OF order]] by force
  qed
  have "pipeline_version r \<in> set (take j ?vs)" if "should_retry ver r False w'" "pipeline_version r \<noteq> ''''"
  proof -
    from that(2) r offered obtain i where i: "i < length ?vs" "pipeline_version r = ?vs ! i"
      by (metis Diff_iff imageI in_set_conv_nth singletonD)
    moreover have "older ver (?vs ! i) (?vs ! j)"
      using that floor w' i(2) by (simp add: should_retry_iff older_def parse_version_key)
    ultimately have "i < j" using later [of i] by force
    with i j show ?thesis by (auto simp: in_set_conv_nth intro!: exI [of _ i])
  qed
  moreover have "status r \<in> {NONCOMPLIANT, ERROR}" if "should_retry ver r False w'"
    using that by (simp add: should_retry_iff)
  moreover have "pipeline_version r = '''' \<or> pipeline_version r \<in> set ?vs" using r offered by auto
  ultimately show ?thesis by blast
qed

definition demo_floor_world :: world where
  "demo_floor_world = empty_world\<lparr>remediations :=
     [(demo_attempt ''h'')\<lparr>rid := ''r2'', pipeline_version := ''2.0.0''\<rparr>, (demo_attempt ''g'')\<lparr>status := ERROR\<rparr>]\<rparr>"

theorem floor_retries_what_is_listed_before_witness:
  "versions_offered sorted_list_of_set demo_ver demo_floor_world = [''1.0.0'', ''2.0.0''] \<and>
   should_retry demo_ver ((demo_attempt ''g'')\<lparr>status := ERROR\<rparr>) False (save_pipeline_config ''2.0.0'' demo_floor_world) \<and>
   pipeline_version ((demo_attempt ''g'')\<lparr>status := ERROR\<rparr>)
     \<in> set (take 1 (versions_offered sorted_list_of_set demo_ver demo_floor_world))"
proof -
  have offered: "versions_offered sorted_list_of_set demo_ver demo_floor_world = [''1.0.0'', ''2.0.0'']" by code_simp
  have order: "version_order demo_ver" by (auto simp: version_order_def demo_ver_def)
  have retry: "should_retry demo_ver ((demo_attempt ''g'')\<lparr>status := ERROR\<rparr>) False (save_pipeline_config ''2.0.0'' demo_floor_world)"
    by code_simp
  have submitted: "submit_floor sorted_list_of_set demo_ver (versions_offered sorted_list_of_set demo_ver demo_floor_world ! 1)
      demo_floor_world = (Inr (), save_pipeline_config ''2.0.0'' demo_floor_world)"
    unfolding submit_floor_def floor_choices_def offered by simp
  have row: "(demo_attempt ''g'')\<lparr>status := ERROR\<rparr> \<in> set (remediations demo_floor_world)" by (simp add: demo_floor_world_def)
  have second: "1 < length (versions_offered sorted_list_of_set demo_ver demo_floor_world)" unfolding offered by simp
  have iterate: "\<forall>S. finite S \<longrightarrow> set (sorted_list_of_set S) = (S :: string set)" by simp
  have "pipeline_version ((demo_attempt ''g'')\<lparr>status := ERROR\<rparr>) \<noteq> ''''" by (simp add: demo_attempt_def)
  then have "pipeline_version ((demo_attempt ''g'')\<lparr>status := ERROR\<rparr>)
     \<in> set (take 1 (versions_offered sorted_list_of_set demo_ver demo_floor_world))"
    using floor_retries_what_is_listed_before [OF order iterate second submitted row] retry by blast
  with offered retry show ?thesis by simp
qed

end
