(* ===== verification/Error_Reporting.thy ===== *)
theory Error_Reporting
  imports Operations
begin

text \<open>
  \<^verbatim>\<open>common/error_logging_client.py\<close>: the calls it makes into the monitoring SDK.  What the SDK does with them is its
  documented behaviour: with an address it sends every captured exception and message, and the error records of every
  logger that is not ignored; without one it sends nothing.  The lemmas show that every report of the other
  components arrives as one event, and that a failed backup is not reported twice.
\<close>

section \<open>The client\<close>

text \<open>\<open>InitSdk\<close>: address, environment, release, integrations, and whether personal data are sent.\<close>

datatype sdk_call =
    IgnoreLogger string
  | InitSdk string string string "string list" bool
  | CaptureException string "(string \<times> string) list"
  | CaptureMessage string string

definition configure :: "string \<Rightarrow> string \<Rightarrow> string \<Rightarrow> string list \<Rightarrow> sdk_call list" where
  "configure dsn environment release ignored_loggers =
     map IgnoreLogger ignored_loggers @ [InitSdk dsn environment release [''DjangoIntegration''] False]"

definition client_report_exception :: "string \<Rightarrow> (string \<times> string) list \<Rightarrow> sdk_call" where
  "client_report_exception exc tags = CaptureException exc tags"

definition client_report_warning :: "string \<Rightarrow> sdk_call" where
  "client_report_warning message = CaptureMessage message ''warning''"

text \<open>A report of the other components is a call of the client.\<close>

fun client_call :: "report \<Rightarrow> sdk_call" where
  "client_call (WarningReport m) = client_report_warning m"
| "client_call (ExceptionReport x tags) = client_report_exception x tags"

section \<open>What is sent\<close>

text \<open>What happens in the process: a call of the SDK, or an error record of a logger.\<close>

datatype occurrence = Call sdk_call | LogsError string string

datatype event = ExceptionEvent string "(string \<times> string) list" | MessageEvent string string | LogEvent string string

record sdk =
  ignored :: "string set"
  address :: string

fun sdk_run :: "sdk \<Rightarrow> occurrence list \<Rightarrow> event list" where
  "sdk_run k [] = []"
| "sdk_run k (Call (IgnoreLogger l) # os) = sdk_run (k\<lparr>ignored := insert l (ignored k)\<rparr>) os"
| "sdk_run k (Call (InitSdk dsn v r i pii) # os) = sdk_run (k\<lparr>address := dsn\<rparr>) os"
| "sdk_run k (Call (CaptureException x tags) # os) = (if address k = '''' then [] else [ExceptionEvent x tags]) @ sdk_run k os"
| "sdk_run k (Call (CaptureMessage m level) # os) = (if address k = '''' then [] else [MessageEvent m level]) @ sdk_run k os"
| "sdk_run k (LogsError l m # os) = (if address k = '''' \<or> l \<in> ignored k then [] else [LogEvent l m]) @ sdk_run k os"

definition fresh_sdk :: sdk where
  "fresh_sdk = \<lparr>ignored = {}, address = ''''\<rparr>"

lemma sdk_run_ignore: "sdk_run k (map (Call \<circ> IgnoreLogger) ls @ os) = sdk_run (k\<lparr>ignored := ignored k \<union> set ls\<rparr>) os"
  by (induction ls arbitrary: k) (simp_all add: insert_commute Un_commute)

text \<open>After \<open>configure\<close>.\<close>

lemma sdk_run_configure:
  "sdk_run fresh_sdk (map Call (configure dsn v r ls) @ os) = sdk_run \<lparr>ignored = set ls, address = dsn\<rparr> os"
proof -
  have "map Call (configure dsn v r ls) @ os = map (Call \<circ> IgnoreLogger) ls @ Call (InitSdk dsn v r [''DjangoIntegration''] False) # os"
    by (simp add: configure_def)
  then show ?thesis by (simp only: sdk_run_ignore sdk_run.simps) (simp add: fresh_sdk_def)
qed

fun report_event :: "report \<Rightarrow> event" where
  "report_event (WarningReport m) = MessageEvent m ''warning''"
| "report_event (ExceptionReport x tags) = ExceptionEvent x tags"

lemma sdk_run_reports:
  "sdk_run k (map (Call \<circ> client_call) rs @ os) = (if address k = '''' then [] else map report_event rs) @ sdk_run k os"
proof (induction rs)
  case (Cons r rs)
  then show ?case by (cases r) (simp_all add: client_report_warning_def client_report_exception_def)
qed simp

text \<open>Every report arrives once, with its tags, and nothing arrives without an address; error records of an ignored
  logger between them add nothing.\<close>

lemma configured_reports:
  assumes "logger \<in> set ls"
  shows "sdk_run fresh_sdk (map Call (configure dsn v r ls) @ map (LogsError logger) ms @ map (Call \<circ> client_call) rs) =
     (if dsn = '''' then [] else map report_event rs)"
proof -
  have logs: "sdk_run k (map (LogsError logger) ms @ os) = sdk_run k os" if "logger \<in> ignored k" for k os
    using that by (induction ms) simp_all
  show ?thesis
    using assms sdk_run_reports [of "\<lparr>ignored = set ls, address = dsn\<rparr>" rs "[]"] by (simp add: sdk_run_configure logs)
qed



definition demo_backup_settings :: deploy_settings where
  "demo_backup_settings =
     \<lparr>S3_BUCKET_NAME = '''', RUN_ALT_TEXT = False, ANTHROPIC_API_KEY = '''', REQUIRE_HTTPS = True, ORIGIN_LOCK_SECRET = '''',
      RUN_OCR = False, OPENDATALOADER_HYBRID_URL = '''', OCR_READY_TIMEOUT_SECONDS = 600, OCR_READY_POLL_SECONDS = 5,
      DB_BACKUP_BUCKET_NAME = ''''\<rparr>"

text \<open>Together with the backup command: a failed backup is one event, tagged with the job, although the package also
  logs the failure.\<close>

theorem failed_backup_is_one_event:
  assumes "backup_database dbbackup s bucket = (res, bucket', reports)" and "dsn \<noteq> ''''" and "logger \<in> set ls"
  shows "length (sdk_run fresh_sdk (map Call (configure dsn v r ls) @ map (LogsError logger) ms @ map (Call \<circ> client_call) reports)) =
     (case res of Inl _ \<Rightarrow> 1 | Inr _ \<Rightarrow> 0)"
proof -
  have "length reports = (case res of Inl _ \<Rightarrow> 1 | Inr _ \<Rightarrow> 0)"
    using assms(1) by (auto simp: backup_database_def run_backup_def split: sum.splits prod.splits backup_error.splits)
  with configured_reports [OF assms(3), of dsn v r ms reports] assms(2) show ?thesis by simp
qed

theorem failed_backup_is_one_event_witness:
  "\<exists>res bucket' reports. backup_database (\<lambda>server b. (Inr (), b)) demo_backup_settings () = (res, bucket', reports) \<and>
     length (sdk_run fresh_sdk (map Call (configure ''https://key@sentry.example/1'' ''staging'' ''1.2.3'' [''dbbackup'']) @
       map (LogsError ''dbbackup'') [''failed''] @ map (Call \<circ> client_call) reports)) = 1"
proof -
  obtain res bucket' reports where b: "backup_database (\<lambda>server b. (Inr (), b)) demo_backup_settings () = (res, bucket', reports)"
    by (metis prod.exhaust)
  have "\<not> (\<exists>u. res = Inr u)"
    using b by (auto simp: backup_database_def run_backup_def backup_def STORAGES_def demo_backup_settings_def BACKUP_STORAGE_ALIAS_def)
  then obtain x where "res = Inl x" by (cases res) auto
  with b failed_backup_is_one_event [OF b, of "''https://key@sentry.example/1''" "''dbbackup''" "[''dbbackup'']" "''staging''" "''1.2.3''" "[''failed'']"]
  show ?thesis by auto
qed

end
