(* ===== verification/Web_Requests.thy ===== *)
theory Web_Requests
  imports Operations Api_Views Api_Throttles
begin

text \<open>
  A request on its whole way: the middleware of \<^verbatim>\<open>config/settings.py\<close> with the origin lock in front, the addresses of
  \<^verbatim>\<open>config/urls.py\<close> and \<^verbatim>\<open>api/urls.py\<close>, and the views with the login, permissions and throttles that \<^verbatim>\<open>api/views.py\<close> and the
  defaults in the settings give them.  The framework's documented order is written out: the middleware from the outside
  in; the first address that matches; then the accepted format, the login, the permissions, the throttles, and the view.
  Parameters: the other middleware, the pages of the framework's own applications, what the token library answers,
  and the responses for refusals and errors.  The lemmas show that addresses and their reversal agree, that a request the
  origin lock refuses reaches nothing, and that attempts only change for an admitted submission.
\<close>

section \<open>Addresses\<close>

text \<open>A route: literal text and \<open><str:...></str>\<close> arguments, which are not empty and have no slash.\<close>

datatype piece = Lit string | StrArgument

datatype api_view = CreateRemediationView | DocumentStatusView | DocumentDownloadView | PingView

text \<open>A view of this repository, or an application of the framework, which gets the rest of the path.\<close>

datatype page = Endpoint api_view | Framework string

datatype urlpattern =
    Path "piece list" page string
  | Include "piece list" "urlpattern list"
  | IncludeFramework "piece list" string

definition api_urlpatterns :: "urlpattern list" where
  "api_urlpatterns =
     [Path [Lit ''schema/''] (Framework ''SpectacularAPIView'') ''schema'',
      Path [Lit ''docs/''] (Framework ''SpectacularSwaggerView'') ''docs'',
      Path [Lit ''submit-document/''] (Endpoint CreateRemediationView) ''submit-document'',
      Path [Lit ''document-status/'', StrArgument, Lit ''/''] (Endpoint DocumentStatusView) ''document-status'',
      Path [Lit ''document-download/'', StrArgument, Lit ''/''] (Endpoint DocumentDownloadView) ''document-download'']"

definition urlpatterns :: "urlpattern list" where
  "urlpatterns =
     [IncludeFramework [Lit ''admin/''] ''admin.site.urls'',
      IncludeFramework [Lit ''api-auth/''] ''rest_framework.urls'',
      Include [Lit ''api/''] api_urlpatterns,
      Path [Lit ''ping/''] (Endpoint PingView) ''ping'']"

text \<open>The arguments, and what follows the route.\<close>

fun match_route :: "piece list \<Rightarrow> string \<Rightarrow> (string list \<times> string) option" where
  "match_route [] s = Some ([], s)"
| "match_route (Lit l # ps) s = (if startswith s l then match_route ps (drop (length l) s) else None)"
| "match_route (StrArgument # ps) s =
     (let v = takeWhile (\<lambda>c. c \<noteq> CHR ''/'') s
      in if v = '''' then None
         else map_option (\<lambda>(vs, rest). (v # vs, rest)) (match_route ps (dropWhile (\<lambda>c. c \<noteq> CHR ''/'') s)))"

fun resolve_in :: "urlpattern list \<Rightarrow> string \<Rightarrow> (page \<times> string list) option" where
  "resolve_in [] s = None"
| "resolve_in (Path route p name # rest) s =
     (case match_route route s of
        Some (vs, []) \<Rightarrow> Some (p, vs)
      | _ \<Rightarrow> resolve_in rest s)"
| "resolve_in (Include route patterns # rest) s =
     (case match_route route s of
        Some (vs, s') \<Rightarrow> (case resolve_in patterns s' of
                          Some (p, vs') \<Rightarrow> Some (p, vs @ vs')
                        | None \<Rightarrow> resolve_in rest s)
      | None \<Rightarrow> resolve_in rest s)"
| "resolve_in (IncludeFramework route name # rest) s =
     (case match_route route s of
        Some (vs, s') \<Rightarrow> Some (Framework name, vs @ [s'])
      | None \<Rightarrow> resolve_in rest s)"

definition resolve_path :: "string \<Rightarrow> (page \<times> string list) option" where
  "resolve_path path = (if startswith path ''/'' then resolve_in urlpatterns (drop 1 path) else None)"

text \<open>\<open>reverse(name, args)\<close>; the arguments need no quoting (they are hexadecimal).\<close>

fun named_routes :: "urlpattern list \<Rightarrow> (string \<times> piece list) list" where
  "named_routes [] = []"
| "named_routes (Path route p name # rest) = (name, route) # named_routes rest"
| "named_routes (Include route patterns # rest) =
     map (\<lambda>(name, r). (name, route @ r)) (named_routes patterns) @ named_routes rest"
| "named_routes (IncludeFramework route name # rest) = named_routes rest"

fun fill_route :: "piece list \<Rightarrow> string list \<Rightarrow> string option" where
  "fill_route [] [] = Some ''''"
| "fill_route (Lit l # ps) args = map_option ((@) l) (fill_route ps args)"
| "fill_route (StrArgument # ps) (a # args) =
     (if a = '''' \<or> CHR ''/'' \<in> set a then None else map_option ((@) a) (fill_route ps args))"
| "fill_route _ _ = None"

definition reverse_path :: "string \<Rightarrow> string list \<Rightarrow> string option" where
  "reverse_path name args =
     (case map_of (named_routes urlpatterns) name of
        None \<Rightarrow> None
      | Some route \<Rightarrow> map_option ((@) ''/'') (fill_route route args))"

definition ping_path :: string where
  "ping_path = the (reverse_path ''ping'' [])"

section \<open>The site and what it takes from outside\<close>

record site =
  counter_rows :: counters
  accounts :: "ServiceAccount list"
  jobs :: world

record web_request =
  http :: http_request
  form :: upload_data

text \<open>The entries of \<open>request.META\<close> that the address reading looks at.\<close>

definition meta_of :: "http_request \<Rightarrow> request_meta" where
  "meta_of r =
     \<lparr>http_x_forwarded_for = meta r ''HTTP_X_FORWARDED_FOR'', remote_addr = meta r ''REMOTE_ADDR'',
      http_cf_connecting_ip = meta r ''HTTP_CF_CONNECTING_IP''\<rparr>"

datatype refusal =
    FormatRefused
  | LoginRefused auth_result
  | NotAuthenticated
  | RequestThrottled int
  | ThrottleRaises
  | ViewRefused view_error

type_synonym get_response = "web_request \<Rightarrow> site \<Rightarrow> response \<times> site"

text \<open>
  \<open>exception_handler\<close> answers no response for what the framework raises again; the web server then answers \<open>server_error\<close>.
  \<open>other_counts\<close>, \<open>other_stores\<close> and \<open>other_jobs\<close> are what other requests commit between the statements of this one.
\<close>

record 'v web_env =
  origin_lock_secret :: string
  rates_conf :: rates
  ip_conf :: ip_settings
  token_login :: "web_request \<Rightarrow> auth_result"
  counter_clock :: "nat \<Rightarrow> time"
  other_counts :: "nat \<Rightarrow> counters \<Rightarrow> counters"
  webhooks :: webhook_net
  show_time :: "time \<Rightarrow> string"
  job_env :: env
  versions :: "'v version_api"
  other_stores :: "world \<Rightarrow> world"
  other_jobs :: "world \<Rightarrow> world"
  accepts_format :: "api_view \<Rightarrow> web_request \<Rightarrow> bool"
  exception_handler :: "api_view \<Rightarrow> refusal \<Rightarrow> response option"
  other_method :: "api_view \<Rightarrow> web_request \<Rightarrow> response"
  framework_page :: "string \<Rightarrow> string list \<Rightarrow> get_response"
  other_middleware :: "string \<Rightarrow> get_response \<Rightarrow> get_response"
  not_found :: response
  server_error :: response

section \<open>The views of the API\<close>

datatype authentication_class = LockoutTokenAuthentication
datatype permission_class = IsAuthenticated | AllowAny
datatype throttle_class = ClientIPThrottle

definition DEFAULT_AUTHENTICATION_CLASSES :: "authentication_class list" where
  "DEFAULT_AUTHENTICATION_CLASSES = [LockoutTokenAuthentication]"

definition DEFAULT_THROTTLE_CLASSES :: "throttle_class list" where
  "DEFAULT_THROTTLE_CLASSES = [ClientIPThrottle]"

fun authentication_classes :: "api_view \<Rightarrow> authentication_class list" where
  "authentication_classes PingView = []"
| "authentication_classes _ = DEFAULT_AUTHENTICATION_CLASSES"

fun permission_classes :: "api_view \<Rightarrow> permission_class list" where
  "permission_classes PingView = [AllowAny]"
| "permission_classes _ = [IsAuthenticated]"

definition log_in :: "'v web_env \<Rightarrow> api_view \<Rightarrow> web_request \<Rightarrow> counters \<Rightarrow> (refusal + nat option) \<times> counters" where
  "log_in e v r rows =
     (if LockoutTokenAuthentication \<in> set (authentication_classes v)
      then (case authenticate (rates_conf e) (ip_conf e) (\<lambda>_. token_login e r) (other_counts e) (counter_clock e) (meta_of (http r)) rows of
              (Anonymous, rows1) \<Rightarrow> (Inr None, rows1)
            | (Authenticated user, rows1) \<Rightarrow> (Inr (Some user), rows1)
            | (res, rows1) \<Rightarrow> (Inl (LoginRefused res), rows1))
      else (Inr None, rows))"

fun permits :: "permission_class \<Rightarrow> nat option \<Rightarrow> bool" where
  "permits IsAuthenticated user = (user \<noteq> None)"
| "permits AllowAny user = True"

definition check_throttles ::
    "'v web_env \<Rightarrow> ServiceAccount list \<Rightarrow> nat option \<Rightarrow> web_request \<Rightarrow> counters \<Rightarrow> (refusal + unit) \<times> counters" where
  "check_throttles e accs user r rows =
     (if ClientIPThrottle \<in> set DEFAULT_THROTTLE_CLASSES
      then (case allow_request (rates_conf e) (ip_conf e) accs user (other_counts e) (\<lambda>k. counter_clock e (k + 5)) (meta_of (http r)) rows of
              (None, rows1) \<Rightarrow> (Inl ThrottleRaises, rows1)
            | (Some (True, _), rows1) \<Rightarrow> (Inr (), rows1)
            | (Some (False, wait), rows1) \<Rightarrow> (Inl (RequestThrottled wait), rows1))
      else (Inr (), rows))"

text \<open>The framework's \<open>initial\<close>: who the request is from, or why it goes no further.\<close>

definition initial_checks :: "'v web_env \<Rightarrow> api_view \<Rightarrow> web_request \<Rightarrow> site \<Rightarrow> (refusal + nat option) \<times> counters" where
  "initial_checks e v r s =
     (if \<not> accepts_format e v r then (Inl FormatRefused, counter_rows s)
      else case log_in e v r (counter_rows s) of
             (Inl x, rows) \<Rightarrow> (Inl x, rows)
           | (Inr user, rows) \<Rightarrow>
               if \<not> list_all (\<lambda>p. permits p user) (permission_classes v) then (Inl NotAuthenticated, rows)
               else (case check_throttles e (accounts s) user r rows of
                       (Inl x, rows1) \<Rightarrow> (Inl x, rows1)
                     | (Inr _, rows1) \<Rightarrow> (Inr user, rows1)))"

text \<open>The method of the view, once the account and its limit are known; an address has the arguments its route has.\<close>

definition view_method ::
    "'v web_env \<Rightarrow> api_view \<Rightarrow> string list \<Rightarrow> web_request \<Rightarrow> ServiceAccount \<Rightarrow> SubmissionLimit option \<Rightarrow> world \<Rightarrow> response view_outcome" where
  "view_method e v args r account limit w =
     (let read = http_method (http r) \<in> {''GET'', ''HEAD''}
      in case v of
           CreateRemediationView \<Rightarrow>
             if http_method (http r) = ''POST''
             then create_remediation_post (webhooks e) (show_time e) (job_env e) (versions e) account (form r)
                    (other_stores e) (other_jobs e) limit w
             else (Inr (other_method e v r), w)
         | DocumentStatusView \<Rightarrow>
             if read then document_status_get (show_time e) (job_env e) account (hd args) limit w else (Inr (other_method e v r), w)
         | DocumentDownloadView \<Rightarrow>
             if read then document_download_get (job_env e) account (hd args) limit w else (Inr (other_method e v r), w)
         | PingView \<Rightarrow> (Inr (if read then ping_get else other_method e v r), w))"

definition answer_or_error :: "'v web_env \<Rightarrow> response option \<Rightarrow> response" where
  "answer_or_error e resp = (case resp of None \<Rightarrow> server_error e | Some x \<Rightarrow> x)"

text \<open>The account of the mixin; a user without one fails its assertion.\<close>

definition call_view :: "'v web_env \<Rightarrow> api_view \<Rightarrow> string list \<Rightarrow> web_request \<Rightarrow> nat option \<Rightarrow> site \<Rightarrow> response \<times> site" where
  "call_view e v args r user s =
     (if v = PingView then (if http_method (http r) \<in> {''GET'', ''HEAD''} then ping_get else other_method e v r, s)
      else case for_user (accounts s) user of
             None \<Rightarrow> (answer_or_error e (exception_handler e v (ViewRefused (Uncaught (AssertionError '''')))), s)
           | Some account \<Rightarrow>
               (let (resp, w) = limited_view (\<lambda>x. exception_handler e v (ViewRefused x)) (drf (rates_conf e)) (job_env e) account
                                  (view_method e v args r account) (jobs s)
                in (answer_or_error e resp, s\<lparr>jobs := w\<rparr>)))"

definition api_call :: "'v web_env \<Rightarrow> api_view \<Rightarrow> string list \<Rightarrow> get_response" where
  "api_call e v args r s =
     (case initial_checks e v r s of
        (Inl x, rows) \<Rightarrow> (answer_or_error e (exception_handler e v x), s\<lparr>counter_rows := rows\<rparr>)
      | (Inr user, rows) \<Rightarrow> call_view e v args r user (s\<lparr>counter_rows := rows\<rparr>))"

section \<open>The middleware\<close>

definition MIDDLEWARE :: "string list" where
  "MIDDLEWARE =
     [''common.middleware.OriginLockMiddleware'', ''django.middleware.security.SecurityMiddleware'',
      ''whitenoise.middleware.WhiteNoiseMiddleware'', ''django.contrib.sessions.middleware.SessionMiddleware'',
      ''django.middleware.common.CommonMiddleware'', ''django.middleware.csrf.CsrfViewMiddleware'',
      ''django.contrib.auth.middleware.AuthenticationMiddleware'', ''django.contrib.messages.middleware.MessageMiddleware'',
      ''django.middleware.clickjacking.XFrameOptionsMiddleware'']"

definition forbidden :: "string \<Rightarrow> response" where
  "forbidden m = \<lparr>resp_status = 403, resp_headers = [], resp_body = TextBody m\<rparr>"

definition load_middleware :: "'v web_env \<Rightarrow> string \<Rightarrow> get_response \<Rightarrow> get_response" where
  "load_middleware e name get_response =
     (if name = ''common.middleware.OriginLockMiddleware''
      then (\<lambda>r s. case origin_lock (origin_lock_secret e) ping_path (\<lambda>_. get_response r s) (http r) of
                     Passed answer \<Rightarrow> answer
                   | HttpForbidden m \<Rightarrow> (forbidden m, s))
      else other_middleware e name get_response)"

definition dispatch_path :: "'v web_env \<Rightarrow> get_response" where
  "dispatch_path e r s =
     (case resolve_path (http_path (http r)) of
        None \<Rightarrow> (not_found e, s)
      | Some (Endpoint v, args) \<Rightarrow> api_call e v args r s
      | Some (Framework name, args) \<Rightarrow> framework_page e name args r s)"

definition handle_request :: "'v web_env \<Rightarrow> get_response" where
  "handle_request e = foldr (load_middleware e) MIDDLEWARE (dispatch_path e)"

section \<open>Addresses agree with their reversal\<close>

lemma ping_path: "ping_path = ''/ping/''"
  by code_simp

definition named_views :: "(string \<times> api_view) list" where
  "named_views =
     [(''submit-document'', CreateRemediationView), (''document-status'', DocumentStatusView),
      (''document-download'', DocumentDownloadView), (''ping'', PingView)]"

lemma fill_no_argument: "fill_route [] args = Some p \<longleftrightarrow> args = [] \<and> p = ''''"
  by (cases args) auto

lemma fill_one_argument:
  "fill_route (StrArgument # ps) args = Some p \<longleftrightarrow>
     (\<exists>x rest q. args = x # rest \<and> x \<noteq> '''' \<and> CHR ''/'' \<notin> set x \<and> fill_route ps rest = Some q \<and> p = x @ q)"
  by (cases args) auto

lemma argument_before_slash:
  assumes "CHR ''/'' \<notin> set x"
  shows "takeWhile (\<lambda>c. c \<noteq> CHR ''/'') (x @ CHR ''/'' # s) = x" and "dropWhile (\<lambda>c. c \<noteq> CHR ''/'') (x @ CHR ''/'' # s) = CHR ''/'' # s"
  using assms by (auto simp: takeWhile_append takeWhile_eq_all_conv dropWhile_append)

lemma reverse_routes:
  "reverse_path ''submit-document'' args = Some p \<longleftrightarrow> args = [] \<and> p = ''/api/submit-document/''"
  "reverse_path ''ping'' args = Some p \<longleftrightarrow> args = [] \<and> p = ''/ping/''"
  "reverse_path ''document-status'' args = Some p \<longleftrightarrow>
     (\<exists>x. args = [x] \<and> x \<noteq> '''' \<and> CHR ''/'' \<notin> set x \<and> p = ''/api/document-status/'' @ x @ ''/'')"
  "reverse_path ''document-download'' args = Some p \<longleftrightarrow>
     (\<exists>x. args = [x] \<and> x \<noteq> '''' \<and> CHR ''/'' \<notin> set x \<and> p = ''/api/document-download/'' @ x @ ''/'')"
  by (auto simp: reverse_path_def urlpatterns_def api_urlpatterns_def fill_no_argument fill_one_argument map_option_case split: option.splits)

lemma resolve_routes:
  "resolve_path ''/api/submit-document/'' = Some (Endpoint CreateRemediationView, [])"
  "resolve_path ''/ping/'' = Some (Endpoint PingView, [])"
  "x \<noteq> '''' \<Longrightarrow> CHR ''/'' \<notin> set x \<Longrightarrow> resolve_path (''/api/document-status/'' @ x @ ''/'') = Some (Endpoint DocumentStatusView, [x])"
  "x \<noteq> '''' \<Longrightarrow> CHR ''/'' \<notin> set x \<Longrightarrow> resolve_path (''/api/document-download/'' @ x @ ''/'') = Some (Endpoint DocumentDownloadView, [x])"
  by (simp_all add: resolve_path_def urlpatterns_def api_urlpatterns_def startswith_def argument_before_slash Let_def)

text \<open>The address that the program builds for one of its views, by name and arguments, is the address that leads to that
  view with those arguments: no earlier route takes it.\<close>

theorem built_addresses_lead_back:
  assumes "reverse_path name args = Some path" and "map_of named_views name = Some v"
  shows "resolve_path path = Some (Endpoint v, args)"
proof -
  consider "name = ''submit-document''" "v = CreateRemediationView" | "name = ''document-status''" "v = DocumentStatusView"
    | "name = ''document-download''" "v = DocumentDownloadView" | "name = ''ping''" "v = PingView"
    using assms(2) by (auto simp: named_views_def split: if_splits)
  then show ?thesis
    by cases (use assms(1) in \<open>auto simp del: append.simps append_assoc simp: reverse_routes resolve_routes\<close>)
qed

theorem built_addresses_lead_back_witness:
  "resolve_path ''/api/document-download/ab12/'' = Some (Endpoint DocumentDownloadView, [''ab12''])"
proof -
  have "reverse_path ''document-download'' [''ab12''] = Some ''/api/document-download/ab12/''" by code_simp
  from built_addresses_lead_back [OF this] show ?thesis by (simp add: named_views_def)
qed

section \<open>The origin lock is in front of everything\<close>

text \<open>
  What the framework's middleware does with the data of this program: nothing of its own.  It answers itself, or with what
  the rest of the chain does with the request.
\<close>

definition passes_on :: "(get_response \<Rightarrow> get_response) \<Rightarrow> bool" where
  "passes_on m \<longleftrightarrow> (\<forall>g r s. snd (m g r s) = s \<or> snd (m g r s) = snd (g r s))"

lemma chain_passes_on:
  assumes "\<And>name. passes_on (other_middleware e name)"
    and "''common.middleware.OriginLockMiddleware'' \<notin> set names"
  shows "snd (foldr (load_middleware e) names g r s) = s \<or> snd (foldr (load_middleware e) names g r s) = snd (g r s)"
  using assms(2)
proof (induction names)
  case (Cons name names)
  let ?h = "foldr (load_middleware e) names g"
  have load: "load_middleware e name = other_middleware e name" using Cons.prems by (auto simp: load_middleware_def)
  have "snd (other_middleware e name ?h r s) = s \<or> snd (other_middleware e name ?h r s) = snd (?h r s)"
    using assms(1) [of name] by (simp add: passes_on_def)
  moreover have "snd (?h r s) = s \<or> snd (?h r s) = snd (g r s)" using Cons by simp
  ultimately show ?case by (simp add: load) metis
qed simp

definition inner_chain :: "'v web_env \<Rightarrow> get_response" where
  "inner_chain e = foldr (load_middleware e) (tl MIDDLEWARE) (dispatch_path e)"

lemma handle_request_lock:
  "handle_request e r s =
     (if origin_lock_secret e = '''' \<or> meta (http r) HEADER_META_KEY = Some (origin_lock_secret e) \<or> is_probe ping_path (http r)
      then inner_chain e r s else (forbidden ''Forbidden'', s))"
proof -
  have "''common.middleware.OriginLockMiddleware'' # tl MIDDLEWARE = MIDDLEWARE" by (simp add: MIDDLEWARE_def)
  then have "handle_request e = foldr (load_middleware e) (''common.middleware.OriginLockMiddleware'' # tl MIDDLEWARE) (dispatch_path e)"
    by (simp only: handle_request_def)
  then have "handle_request e r s = load_middleware e ''common.middleware.OriginLockMiddleware'' (inner_chain e) r s"
    by (simp only: inner_chain_def foldr_Cons comp_apply)
  then show ?thesis by (simp add: load_middleware_def origin_lock_iff)
qed

lemma inner_chain_effect:
  assumes "\<And>name. passes_on (other_middleware e name)"
  shows "snd (inner_chain e r s) = s \<or> snd (inner_chain e r s) = snd (dispatch_path e r s)"
proof -
  have "''common.middleware.OriginLockMiddleware'' \<notin> set (tl MIDDLEWARE)" by (simp add: MIDDLEWARE_def)
  from chain_passes_on [OF assms this] show ?thesis by (simp add: inner_chain_def)
qed

lemma ping_call_keeps_data:
  "accounts (snd (api_call e PingView args r s)) = accounts s \<and> jobs (snd (api_call e PingView args r s)) = jobs s"
  by (simp add: api_call_def call_view_def split: sum.split prod.split)

text \<open>C9: With the origin lock on, a request without the secret is answered with a refusal before anything of the
  application runs, whatever the other middleware and pages do: nothing is read or changed.  The one exception is a GET or
  HEAD of the ping address, and that changes no account and no attempt.\<close>

theorem rejected_request_reaches_nothing:
  assumes "origin_lock_secret e \<noteq> ''''" and "meta (http r) HEADER_META_KEY \<noteq> Some (origin_lock_secret e)"
    and "\<And>name. passes_on (other_middleware e name)"
  shows "if http_method (http r) \<in> {''GET'', ''HEAD''} \<and> http_path (http r) = ''/ping/''
         then accounts (snd (handle_request e r s)) = accounts s \<and> jobs (snd (handle_request e r s)) = jobs s
         else handle_request e r s = (forbidden ''Forbidden'', s)"
proof (cases "is_probe ping_path (http r)")
  case True
  then have p: "http_path (http r) = ''/ping/''" by (simp add: is_probe_def ping_path)
  have "dispatch_path e r s = api_call e PingView [] r s" by (simp add: dispatch_path_def p resolve_routes)
  then have "snd (inner_chain e r s) = s \<or> snd (inner_chain e r s) = snd (api_call e PingView [] r s)"
    using inner_chain_effect [OF assms(3)] by metis
  then have "accounts (snd (inner_chain e r s)) = accounts s \<and> jobs (snd (inner_chain e r s)) = jobs s"
    using ping_call_keeps_data by metis
  with True show ?thesis by (simp add: handle_request_lock is_probe_def ping_path)
next
  case False
  with assms(1,2) show ?thesis by (auto simp: handle_request_lock is_probe_def ping_path)
qed

section \<open>Only admitted submissions change attempts\<close>

definition same_but_clock :: "world \<Rightarrow> world \<Rightarrow> bool" where
  "same_but_clock w w' \<longleftrightarrow> w' = w\<lparr>ticks := ticks w'\<rparr>"

lemma same_but_clockI: "same_but_clock w (w\<lparr>ticks := n\<rparr>)"
  by (simp add: same_but_clock_def)

lemma same_but_clock_refl [simp]: "same_but_clock w w"
  by (simp add: same_but_clock_def)

lemma headers_same: "same_but_clock w (snd (limit_like_headers e limit w))"
  using limit_like.headers_read [of e limit w] by (auto simp: same_but_clock_def)

text \<open>The mixin adds nothing to what the view does but readings of the clock.\<close>

lemma limited_view_effect:
  "snd (limited_view h parser je a view w) = w \<or>
   (\<exists>limit. limit_for parser a = Inr limit \<and> same_but_clock (snd (view limit w)) (snd (limited_view h parser je a view w)))"
proof (cases "enforce_initial parser a")
  case (Inl x)
  then show ?thesis by (auto simp: limited_view_def finalize_response_def split: option.split)
next
  case (Inr limit)
  then have l: "limit_for parser a = Inr limit"
    by (auto simp: enforce_initial_def split: sum.splits limit_for_error.splits)
  obtain res w1 where v: "view limit w = (res, w1)" by fastforce
  have "same_but_clock w1 (snd (limited_view h parser je a view w))"
    using Inr v headers_same [of w1 je limit]
    by (auto simp: limited_view_def finalize_response_def split: option.split prod.split)
  with l v show ?thesis by auto
qed

lemma reading_method_keeps:
  assumes "v \<noteq> CreateRemediationView \<or> http_method (http r) \<noteq> ''POST''"
  shows "snd (view_method e v args r a limit w) = w"
  using assms
  by (cases v) (auto simp: view_method_def document_status_get_def document_download_get_def Let_def split: option.split sum.split)

lemma initial_checks_passed:
  assumes "initial_checks e v r s = (Inr user, rows)" and "v \<noteq> PingView"
  obtains u l wait where "user = Some u" "token_login e r = Authenticated u"
    "make_lockout (rates_conf e) (ip_conf e) (meta_of (http r)) = Some l"
    "lockout_check l (counter_clock e) (counter_rows s) = None"
    "allow_request (rates_conf e) (ip_conf e) (accounts s) (Some u) (other_counts e) (\<lambda>k. counter_clock e (k + 5)) (meta_of (http r))
       (counter_rows s) = (Some (True, wait), rows)"
proof -
  have login: "LockoutTokenAuthentication \<in> set (authentication_classes v)" "permission_classes v = [IsAuthenticated]"
    using assms(2) by (cases v; simp add: DEFAULT_AUTHENTICATION_CLASSES_def)+
  obtain u rows1 where u: "log_in e v r (counter_rows s) = (Inr (Some u), rows1)" "user = Some u"
    "check_throttles e (accounts s) (Some u) r rows1 = (Inr (), rows)"
    using assms(1) login(2) by (auto simp: initial_checks_def split: if_splits prod.splits sum.splits)
  from u(1) login(1) have "authenticate (rates_conf e) (ip_conf e) (\<lambda>_. token_login e r) (other_counts e) (counter_clock e)
      (meta_of (http r)) (counter_rows s) = (Authenticated u, rows1)"
    by (auto simp: log_in_def split: prod.splits auth_result.splits)
  then obtain l where "make_lockout (rates_conf e) (ip_conf e) (meta_of (http r)) = Some l"
    "lockout_check l (counter_clock e) (counter_rows s) = None" "token_login e r = Authenticated u" "rows1 = counter_rows s"
    by (auto simp: authenticate_def split: option.splits auth_result.splits prod.splits sum.splits)
  moreover from u(3) obtain wait where "allow_request (rates_conf e) (ip_conf e) (accounts s) (Some u) (other_counts e)
      (\<lambda>k. counter_clock e (k + 5)) (meta_of (http r)) rows1 = (Some (True, wait), rows)"
    by (auto simp: check_throttles_def DEFAULT_THROTTLE_CLASSES_def split: prod.splits option.splits bool.splits)
  ultimately show ?thesis using u(2) that by blast
qed

definition submission_effect :: "'v web_env \<Rightarrow> web_request \<Rightarrow> ServiceAccount \<Rightarrow> SubmissionLimit option \<Rightarrow> world \<Rightarrow> world" where
  "submission_effect e r a limit w =
     snd (create_remediation_post (webhooks e) (show_time e) (job_env e) (versions e) a (form r) (other_stores e) (other_jobs e) limit w)"

lemma call_view_effect:
  assumes "v \<noteq> PingView"
  shows "same_but_clock (jobs s) (jobs (snd (call_view e v args r user s))) \<or>
     v = CreateRemediationView \<and> http_method (http r) = ''POST'' \<and>
     (\<exists>a limit. for_user (accounts s) user = Some a \<and> limit_for (drf (rates_conf e)) a = Inr limit \<and>
        same_but_clock (submission_effect e r a limit (jobs s)) (jobs (snd (call_view e v args r user s))))"
proof (cases "for_user (accounts s) user")
  case None
  with assms show ?thesis by (simp add: call_view_def)
next
  case (Some a)
  let ?view = "view_method e v args r a"
  let ?w = "snd (limited_view (\<lambda>x. exception_handler e v (ViewRefused x)) (drf (rates_conf e)) (job_env e) a ?view (jobs s))"
  have w: "jobs (snd (call_view e v args r user s)) = ?w" using assms Some by (simp add: call_view_def split: prod.split)
  from limited_view_effect [of "\<lambda>x. exception_handler e v (ViewRefused x)" "drf (rates_conf e)" "job_env e" a ?view "jobs s"]
  consider "?w = jobs s" | limit where "limit_for (drf (rates_conf e)) a = Inr limit" "same_but_clock (snd (?view limit (jobs s))) ?w" by blast
  then show ?thesis
  proof cases
    case 1
    then show ?thesis by (simp add: w)
  next
    case (2 limit)
    show ?thesis
    proof (cases "v = CreateRemediationView \<and> http_method (http r) = ''POST''")
      case True
      then have "snd (?view limit (jobs s)) = submission_effect e r a limit (jobs s)" by (simp add: view_method_def submission_effect_def)
      with 2 True Some show ?thesis unfolding w by metis
    next
      case False
      with 2(2) reading_method_keeps [of v r e args a limit "jobs s"] show ?thesis by (auto simp: w)
    qed
  qed
qed

lemma api_call_keeps_accounts: "accounts (snd (api_call e v args r s)) = accounts s"
  by (auto simp: api_call_def call_view_def split: sum.split prod.split option.split)

lemma request_effect:
  assumes "\<And>name. passes_on (other_middleware e name)" and "resolve_path (http_path (http r)) = Some (Endpoint v, args)"
    and "handle_request e r s = (resp, s')"
  shows "accounts s' = accounts s \<and>
    (same_but_clock (jobs s) (jobs s') \<or>
     v = CreateRemediationView \<and> http_method (http r) = ''POST'' \<and>
     (origin_lock_secret e = '''' \<or> meta (http r) HEADER_META_KEY = Some (origin_lock_secret e)) \<and>
     (\<exists>u a limit l wait rows. token_login e r = Authenticated u \<and> for_user (accounts s) (Some u) = Some a \<and>
        make_lockout (rates_conf e) (ip_conf e) (meta_of (http r)) = Some l \<and>
        lockout_check l (counter_clock e) (counter_rows s) = None \<and>
        allow_request (rates_conf e) (ip_conf e) (accounts s) (Some u) (other_counts e) (\<lambda>k. counter_clock e (k + 5))
          (meta_of (http r)) (counter_rows s) = (Some (True, wait), rows) \<and>
        limit_for (drf (rates_conf e)) a = Inr limit \<and>
        same_but_clock (submission_effect e r a limit (jobs s)) (jobs s')))"
proof -
  have s': "s' = snd (handle_request e r s)" using assms(3) by simp
  have d: "dispatch_path e r s = api_call e v args r s" by (simp add: dispatch_path_def assms(2))
  consider "s' = s" | "s' = snd (api_call e v args r s)"
      "origin_lock_secret e = '''' \<or> meta (http r) HEADER_META_KEY = Some (origin_lock_secret e) \<or> is_probe ping_path (http r)"
    using inner_chain_effect [OF assms(1), of r s] handle_request_lock [of e r s] unfolding d s' by (metis snd_conv)
  then show ?thesis
  proof cases
    case 1
    then show ?thesis by simp
  next
    case 2
    show ?thesis
    proof (cases "\<exists>user rows. initial_checks e v r s = (Inr user, rows) \<and> v \<noteq> PingView")
      case False
      then have "jobs s' = jobs s" unfolding 2(1)
        by (cases "initial_checks e v r s"; cases "fst (initial_checks e v r s)") (auto simp: api_call_def call_view_def)
      then show ?thesis by (simp add: 2(1) api_call_keeps_accounts)
    next
      case True
      then obtain user rows where c: "initial_checks e v r s = (Inr user, rows)" "v \<noteq> PingView" by blast
      then have api: "s' = snd (call_view e v args r user (s\<lparr>counter_rows := rows\<rparr>))" by (simp add: 2(1) api_call_def)
      have acc: "accounts s' = accounts s" by (simp add: 2(1) api_call_keeps_accounts)
      from call_view_effect [OF c(2), of "s\<lparr>counter_rows := rows\<rparr>" e args r user, folded api]
      consider "same_but_clock (jobs s) (jobs s')"
        | a limit where "v = CreateRemediationView" "http_method (http r) = ''POST''" "for_user (accounts s) user = Some a"
          "limit_for (drf (rates_conf e)) a = Inr limit" "same_but_clock (submission_effect e r a limit (jobs s)) (jobs s')"
        by auto
      then show ?thesis
      proof cases
        case 1
        with acc show ?thesis by blast
      next
        case (2 a limit)
        then have "\<not> is_probe ping_path (http r)" by (simp add: is_probe_def)
        with 2 acc initial_checks_passed [OF c]
          \<open>origin_lock_secret e = '''' \<or> meta (http r) HEADER_META_KEY = Some (origin_lock_secret e) \<or> is_probe ping_path (http r)\<close>
        show ?thesis by metis
      qed
    qed
  qed
qed

text \<open>C7: A request to the API changes no account, and it changes the attempts, their files, callbacks and tasks only if it is a POST to
  the submission view that has passed everything in front of it: the origin lock, the lockout of its address and
  the token, the cap per address, and the limits of its account; then what it changes is what the submission of that
  account does.  Every other request only reads.\<close>

theorem only_admitted_submissions_change_attempts:
  assumes "\<And>name. passes_on (other_middleware e name)" and "resolve_path (http_path (http r)) = Some (Endpoint v, args)"
    and "handle_request e r s = (resp, s')"
  shows "accounts s' = accounts s \<and>
    (same_but_clock (jobs s) (jobs s') \<or>
     v = CreateRemediationView \<and> http_method (http r) = ''POST'' \<and>
     (origin_lock_secret e = '''' \<or> meta (http r) HEADER_META_KEY = Some (origin_lock_secret e)) \<and>
     (\<exists>u a limit l wait rows. token_login e r = Authenticated u \<and> for_user (accounts s) (Some u) = Some a \<and>
        make_lockout (rates_conf e) (ip_conf e) (meta_of (http r)) = Some l \<and>
        lockout_check l (counter_clock e) (counter_rows s) = None \<and>
        allow_request (rates_conf e) (ip_conf e) (accounts s) (Some u) (other_counts e) (\<lambda>k. counter_clock e (k + 5))
          (meta_of (http r)) (counter_rows s) = (Some (True, wait), rows) \<and>
        limit_for (drf (rates_conf e)) a = Inr limit \<and>
        same_but_clock (submission_effect e r a limit (jobs s)) (jobs s')))"
  using assms by (rule request_effect)

section \<open>The link of an attempt serves its output\<close>

lemma urljoin_path_append: "urljoin_path base path = urljoin_path base '''' @ path"
  by (simp add: urljoin_path_def split: option.split)

lemma latest_for_document_hash: "latest_for_document account h w = Some r \<Longrightarrow> content_hash r = h"
  using latest_for_document_Some [of account h w r] by (auto simp: document_def)

text \<open>C13: The download link that status answers and webhooks carry is the public base address and the path of the download view for
  that document; a GET of that path by the owner, once it is admitted, is answered with the stored bytes of the output of
  the owner's newest attempt, and changes nothing but counters and clock readings.\<close>

theorem download_link_serves_the_output:
  assumes "content_hash attempt \<noteq> ''''" and "CHR ''/'' \<notin> set (content_hash attempt)"
    and "latest_for_document (sa_pk a) (content_hash attempt) (jobs s) = Some attempt" and "final_output_uri attempt \<noteq> ''''"
    and "st_open (storage_of (job_env e)) (files (jobs s)) (final_output_uri attempt) = Inr contents"
    and "for_user (accounts s) (Some u) = Some a" and "limit_for (drf (rates_conf e)) a = Inr limit"
  shows "\<exists>path. build_download_url cfg attempt = urljoin_path (PUBLIC_BASE_URL cfg) '''' @ path \<and>
     reverse_path ''document-download'' [content_hash attempt] = Some path \<and>
     (\<forall>r rows. http_path (http r) = path \<and> http_method (http r) \<in> {''GET'', ''HEAD''} \<and>
        initial_checks e DocumentDownloadView r s = (Inr (Some u), rows) \<longrightarrow>
        (\<exists>resp s'. dispatch_path e r s = (resp, s') \<and> resp_status resp = 200 \<and>
           resp_body resp = PdfBody (if original_filename attempt \<noteq> '''' then original_filename attempt else ''document.pdf'') contents \<and>
           same_but_clock (jobs s) (jobs s') \<and> accounts s' = accounts s))"
proof (intro exI [of _ "''/api/document-download/'' @ content_hash attempt @ ''/''"] conjI allI impI)
  show "build_download_url cfg attempt =
      urljoin_path (PUBLIC_BASE_URL cfg) '''' @ ''/api/document-download/'' @ content_hash attempt @ ''/''"
    unfolding build_download_url_def by (rule urljoin_path_append)
  show "reverse_path ''document-download'' [content_hash attempt] = Some (''/api/document-download/'' @ content_hash attempt @ ''/'')"
    using assms(1,2) by (simp only: reverse_routes) blast
next
  fix r rows
  let ?resp = "\<lparr>resp_status = 200, resp_headers = [(''Content-Type'', ''application/pdf'')],
     resp_body = PdfBody (if original_filename attempt \<noteq> '''' then original_filename attempt else ''document.pdf'') contents\<rparr>"
  assume r: "http_path (http r) = ''/api/document-download/'' @ content_hash attempt @ ''/'' \<and>
      http_method (http r) \<in> {''GET'', ''HEAD''} \<and> initial_checks e DocumentDownloadView r s = (Inr (Some u), rows)"
  then have "dispatch_path e r s = call_view e DocumentDownloadView [content_hash attempt] r (Some u) (s\<lparr>counter_rows := rows\<rparr>)"
    using resolve_routes(4) [OF assms(1,2)] by (simp only: dispatch_path_def) (simp add: api_call_def)
  moreover have "view_method e DocumentDownloadView [content_hash attempt] r a limit (jobs s) = (Inr ?resp, jobs s)"
    using r assms(3,4,5) by (auto simp: view_method_def document_download_get_def)
  moreover obtain hs w where h: "limit_like_headers (job_env e) limit (jobs s) = (hs, w)" by fastforce
  ultimately have "dispatch_path e r s = (set_headers hs ?resp, s\<lparr>counter_rows := rows, jobs := w\<rparr>)"
    using assms(6,7) by (simp add: call_view_def limited_view_def enforce_initial_def finalize_response_def answer_or_error_def)
  moreover have "same_but_clock (jobs s) w" using headers_same [of "jobs s" "job_env e" limit] h by simp
  ultimately show "\<exists>resp s'. dispatch_path e r s = (resp, s') \<and> resp_status resp = 200 \<and>
      resp_body resp = PdfBody (if original_filename attempt \<noteq> '''' then original_filename attempt else ''document.pdf'') contents \<and>
      same_but_clock (jobs s) (jobs s') \<and> accounts s' = accounts s" by simp
qed

section \<open>Witnesses\<close>

definition demo_web_env :: "nat web_env" where
  "demo_web_env =
     \<lparr>origin_lock_secret = ''secret'', rates_conf = demo_rates, ip_conf = demo_ip_settings, token_login = (\<lambda>r. Authenticated 3),
      counter_clock = (\<lambda>k. 5), other_counts = (\<lambda>k rows. rows), webhooks = demo_net None, show_time = (\<lambda>t. ''t''), job_env = demo_env,
      versions = demo_ver, other_stores = (\<lambda>w. w), other_jobs = (\<lambda>w. w), accepts_format = (\<lambda>v r. True),
      exception_handler = (\<lambda>v x. None), other_method = (\<lambda>v r. forbidden ''method''),
      framework_page = (\<lambda>n args r s. (forbidden ''page'', s)), other_middleware = (\<lambda>n g. g), not_found = forbidden ''path'',
      server_error = forbidden ''error''\<rparr>"

definition demo_web_request :: "string \<Rightarrow> string \<Rightarrow> string option \<Rightarrow> web_request" where
  "demo_web_request m path secret =
     \<lparr>http = \<lparr>http_method = m, http_path = path, meta = (\<lambda>k. if k = HEADER_META_KEY then secret else None)\<rparr>, form = demo_submission\<rparr>"

definition demo_done_attempt :: Remediation where
  "demo_done_attempt = (demo_attempt ''ab12'')\<lparr>status := COMPLIANT, final_output_uri := ''out.pdf''\<rparr>"

definition demo_site :: site where
  "demo_site =
     \<lparr>counter_rows = [], accounts = [demo_account\<lparr>unlimited := True\<rparr>],
      jobs = empty_world\<lparr>remediations := [demo_done_attempt], files := [''out.pdf'' \<mapsto> [1, 2]]\<rparr>\<rparr>"

lemma demo_passes_on: "passes_on (other_middleware demo_web_env name)"
  by (simp add: passes_on_def demo_web_env_def)

theorem rejected_request_reaches_nothing_witness:
  "handle_request demo_web_env (demo_web_request ''POST'' ''/api/submit-document/'' None) demo_site = (forbidden ''Forbidden'', demo_site)"
  using rejected_request_reaches_nothing [where e = demo_web_env and r = "demo_web_request ''POST'' ''/api/submit-document/'' None" and s = demo_site,
    OF _ _ demo_passes_on]
  by (simp add: demo_web_env_def demo_web_request_def)

theorem only_admitted_submissions_change_attempts_witness:
  "\<exists>resp s'. handle_request demo_web_env (demo_web_request ''POST'' ''/api/document-status/ab12/'' (Some ''secret'')) demo_site = (resp, s') \<and>
     same_but_clock (jobs demo_site) (jobs s') \<and> accounts s' = accounts demo_site"
proof -
  let ?r = "demo_web_request ''POST'' ''/api/document-status/ab12/'' (Some ''secret'')"
  obtain resp s' where h: "handle_request demo_web_env ?r demo_site = (resp, s')" by fastforce
  have "resolve_path (http_path (http ?r)) = Some (Endpoint DocumentStatusView, [''ab12''])"
    using resolve_routes(3) [of "''ab12''"] by (simp add: demo_web_request_def)
  from only_admitted_submissions_change_attempts [OF demo_passes_on this h] h show ?thesis by auto
qed

lemma demo_admitted:
  "initial_checks demo_web_env DocumentDownloadView (demo_web_request ''GET'' path secret) demo_site = (Inr (Some 3), [])"
proof -
  have m: "meta_of (http (demo_web_request ''GET'' path secret)) = demo_request"
    by (simp add: meta_of_def demo_web_request_def demo_request_def HEADER_META_KEY_def)
  have "authenticate demo_rates demo_ip_settings (\<lambda>_. Authenticated 3) (\<lambda>k rows. rows) (\<lambda>k. 5) demo_request [] = (Authenticated 3, [])"
    using demo_lockout by (simp add: authenticate_def lockout_check_def read_at_def live_def Let_def)
  moreover have "allow_request demo_rates demo_ip_settings [demo_account\<lparr>unlimited := True\<rparr>] (Some 3) (\<lambda>k rows. rows) (\<lambda>k. 5) demo_request [] =
      (Some (True, 0), [])"
    by (simp add: allow_request_def rate_for_def parse_rate_def demo_rates_def is_unlimited_account_def for_user_def demo_account_def is_unlimited_def)
  ultimately show ?thesis
    by (simp add: initial_checks_def log_in_def check_throttles_def DEFAULT_AUTHENTICATION_CLASSES_def DEFAULT_THROTTLE_CLASSES_def
        demo_web_env_def demo_site_def m)
qed

theorem download_link_serves_the_output_witness:
  "\<exists>resp s'. build_download_url demo_settings demo_done_attempt = ''http://localhost:8000/api/document-download/ab12/'' \<and>
     dispatch_path demo_web_env (demo_web_request ''GET'' ''/api/document-download/ab12/'' None) demo_site = (resp, s') \<and>
     resp_body resp = PdfBody ''a.pdf'' [1, 2]"
proof -
  have h: "content_hash demo_done_attempt = ''ab12''" "final_output_uri demo_done_attempt = ''out.pdf''"
    "original_filename demo_done_attempt = ''a.pdf''" by (simp_all add: demo_done_attempt_def demo_attempt_def)
  have l: "latest_for_document (sa_pk (demo_account\<lparr>unlimited := True\<rparr>)) (content_hash demo_done_attempt) (jobs demo_site) = Some demo_done_attempt"
    by (simp add: latest_for_document_def attempts_for_def demo_site_def demo_done_attempt_def demo_attempt_def demo_account_def)
  have o: "st_open (storage_of (job_env demo_web_env)) (files (jobs demo_site)) (final_output_uri demo_done_attempt) = Inr [1, 2]"
    by (simp add: demo_web_env_def demo_env_def mem_storage_def demo_site_def h)
  have u: "for_user (accounts demo_site) (Some 3) = Some (demo_account\<lparr>unlimited := True\<rparr>)"
    by (simp add: for_user_def demo_site_def demo_account_def)
  have lim: "limit_for (drf (rates_conf demo_web_env)) (demo_account\<lparr>unlimited := True\<rparr>) = Inr None"
    by (simp add: limit_for_def rate_limit_def is_unlimited_def)
  obtain path where p: "build_download_url demo_settings demo_done_attempt = urljoin_path (PUBLIC_BASE_URL demo_settings) '''' @ path"
    "reverse_path ''document-download'' [''ab12''] = Some path"
    and serve: "\<forall>r rows. http_path (http r) = path \<and> http_method (http r) \<in> {''GET'', ''HEAD''} \<and>
        initial_checks demo_web_env DocumentDownloadView r demo_site = (Inr (Some 3), rows) \<longrightarrow>
        (\<exists>resp s'. dispatch_path demo_web_env r demo_site = (resp, s') \<and> resp_status resp = 200 \<and>
           resp_body resp = PdfBody (if original_filename demo_done_attempt \<noteq> '''' then original_filename demo_done_attempt else ''document.pdf'') [1, 2] \<and>
           same_but_clock (jobs demo_site) (jobs s') \<and> accounts s' = accounts demo_site)"
    using download_link_serves_the_output [OF _ _ l _ o u lim, of demo_settings] by (auto simp: h)
  have path: "path = ''/api/document-download/ab12/''" using p(2) by (simp add: reverse_routes)
  have "build_download_url demo_settings demo_done_attempt = ''http://localhost:8000/api/document-download/ab12/''"
    unfolding p(1) path demo_settings_def by code_simp
  moreover have "http_path (http (demo_web_request ''GET'' ''/api/document-download/ab12/'' None)) = path"
    "http_method (http (demo_web_request ''GET'' ''/api/document-download/ab12/'' None)) \<in> {''GET'', ''HEAD''}"
    by (simp_all add: demo_web_request_def path)
  ultimately show ?thesis using serve demo_admitted by (fastforce simp: h)
qed

end
