(* ===== verification/Django_Settings.thy ===== *)
theory Django_Settings
  imports Pipeline_Theorems Error_Reporting Web_Requests Account_Service
begin

text \<open>
  \<^verbatim>\<open>config/settings.py\<close>: the settings the other components take as arguments, read from the environment.  The library that
  reads variables is a parameter: how it reads a truth value, a number, a list and a database address.  Its
  documented use is written out: the default if a variable is unset, an error if there is none, an error for a value
  it cannot read.  Settings only the web framework looks at are left out.
\<close>

section \<open>Reading variables\<close>

datatype cast = CStr | CBool | CInt | CList | CUrl

record environ =
  variables :: "string \<Rightarrow> string option"
  read_bool :: "string \<Rightarrow> bool option"
  read_int :: "string \<Rightarrow> int option"
  read_list :: "string \<Rightarrow> string list"
  url_valid :: "string \<Rightarrow> bool"

definition env_str :: "environ \<Rightarrow> string \<Rightarrow> string \<Rightarrow> string" where
  "env_str e n fallback = (case variables e n of None \<Rightarrow> fallback | Some v \<Rightarrow> v)"

definition env_bool :: "environ \<Rightarrow> string \<Rightarrow> bool \<Rightarrow> bool" where
  "env_bool e n fallback = (case Option.bind (variables e n) (read_bool e) of None \<Rightarrow> fallback | Some b \<Rightarrow> b)"

definition env_int :: "environ \<Rightarrow> string \<Rightarrow> int \<Rightarrow> int" where
  "env_int e n fallback = (case Option.bind (variables e n) (read_int e) of None \<Rightarrow> fallback | Some i \<Rightarrow> i)"

definition env_list :: "environ \<Rightarrow> string \<Rightarrow> string list \<Rightarrow> string list" where
  "env_list e n fallback = (case variables e n of None \<Rightarrow> fallback | Some v \<Rightarrow> read_list e v)"

text \<open>
  Every read of the file in order, section by section: the name, how it is read, and whether it has no default.
\<close>

definition site_reads :: "(string \<times> cast \<times> bool) list" where
  "site_reads =
     [(''SECRET_KEY'', CStr, True), (''DEBUG'', CBool, False), (''REQUIRE_HTTPS'', CBool, False),
      (''SECURE_HSTS_SECONDS'', CInt, False), (''ALLOWED_HOSTS'', CList, False), (''PIPELINE_VERSION'', CStr, False)]"

definition monitoring_reads :: "(string \<times> cast \<times> bool) list" where
  "monitoring_reads = [(''SENTRY_DSN'', CStr, False), (''SENTRY_ENVIRONMENT'', CStr, False)]"

definition database_reads :: "(string \<times> cast \<times> bool) list" where
  "database_reads = [(''DATABASE_URL'', CUrl, True)]"

definition storage_reads :: "(string \<times> cast \<times> bool) list" where
  "storage_reads =
     [(''S3_BUCKET_NAME'', CStr, False), (''S3_ENDPOINT_URL'', CStr, False), (''S3_REGION_NAME'', CStr, False),
      (''S3_SIGNATURE_VERSION'', CStr, False), (''S3_ADDRESSING_STYLE'', CStr, False), (''S3_ACCESS_KEY'', CStr, False),
      (''S3_SECRET_KEY'', CStr, False)]"

definition backup_reads :: "(string \<times> cast \<times> bool) list" where
  "backup_reads =
     [(''DB_BACKUP_BUCKET_NAME'', CStr, False), (''DB_BACKUP_ACCESS_KEY'', CStr, False), (''DB_BACKUP_SECRET_KEY'', CStr, False),
      (''PATH'', CStr, False)]"

definition request_reads :: "(string \<times> cast \<times> bool) list" where
  "request_reads =
     [(''ORIGIN_LOCK_SECRET'', CStr, False), (''USE_X_FORWARDED_HOST'', CBool, False), (''CSRF_TRUSTED_ORIGINS'', CList, False),
      (''TRUSTED_PROXY_HOPS'', CInt, False)]"

definition rate_reads :: "(string \<times> cast \<times> bool) list" where
  "rate_reads = [(''FAILED_AUTH_RATE'', CStr, False), (''CLIENT_IP_RATE'', CStr, False)]"

definition task_reads :: "(string \<times> cast \<times> bool) list" where
  "task_reads =
     [(''DJANGO_TASKS_BACKEND'', CStr, False), (''MAX_WEBHOOK_ATTEMPTS'', CInt, False),
      (''WEBHOOK_BACKOFF_BASE_SECONDS'', CInt, False), (''WEBHOOK_ALLOW_PRIVATE_URLS'', CBool, False),
      (''STUCK_QUEUED_MINUTES'', CInt, False), (''STUCK_RUNNING_MINUTES'', CInt, False),
      (''DEFAULT_MAX_IN_FLIGHT'', CInt, False), (''DEFAULT_RATE_LIMIT_COUNT'', CInt, False),
      (''OCR_READY_TIMEOUT_SECONDS'', CInt, False), (''OCR_READY_POLL_SECONDS'', CInt, False)]"

definition step_reads :: "(string \<times> cast \<times> bool) list" where
  "step_reads =
     [(''RUN_PRECHECK'', CBool, False), (''RUN_OCR'', CBool, False), (''RUN_FONT_REPAIR'', CBool, False),
      (''RUN_FINALIZE_METADATA'', CBool, False), (''RUN_LINK_TAG'', CBool, False), (''RUN_ALT_TEXT'', CBool, False),
      (''RUN_SCORING'', CBool, False), (''RUN_POSTCHECK'', CBool, False), (''OPENDATALOADER_HYBRID_URL'', CStr, False),
      (''ANTHROPIC_API_KEY'', CStr, False), (''CLAUDE_VISION_MODEL'', CStr, False), (''PUBLIC_BASE_URL'', CStr, False),
      (''LOG_LEVEL'', CStr, False)]"

definition READS :: "(string \<times> cast \<times> bool) list" where
  "READS = site_reads @ monitoring_reads @ database_reads @ storage_reads @ backup_reads @ request_reads @ rate_reads @
     task_reads @ step_reads"

definition readable :: "environ \<Rightarrow> string \<times> cast \<times> bool \<Rightarrow> bool" where
  "readable e r =
     (case r of (n, c, required) \<Rightarrow>
        (case variables e n of
           None \<Rightarrow> \<not> required
         | Some v \<Rightarrow>
             (case c of
                CBool \<Rightarrow> read_bool e v \<noteq> None
              | CInt \<Rightarrow> read_int e v \<noteq> None
              | CUrl \<Rightarrow> url_valid e v
              | _ \<Rightarrow> True)))"

section \<open>The settings\<close>

record security_settings =
  DEBUG :: bool
  SESSION_COOKIE_SECURE :: bool
  CSRF_COOKIE_SECURE :: bool
  SECURE_SSL_REDIRECT :: bool
  SECURE_HSTS_SECONDS :: int
  ALLOWED_HOSTS :: "string list"

definition security_settings_of :: "environ \<Rightarrow> security_settings" where
  "security_settings_of e =
     (let https = env_bool e ''REQUIRE_HTTPS'' True
      in \<lparr>DEBUG = env_bool e ''DEBUG'' False, SESSION_COOKIE_SECURE = https, CSRF_COOKIE_SECURE = https,
          SECURE_SSL_REDIRECT = https, SECURE_HSTS_SECONDS = env_int e ''SECURE_HSTS_SECONDS'' (if https then 3600 else 0),
          ALLOWED_HOSTS = env_list e ''ALLOWED_HOSTS'' [''localhost'', ''127.0.0.1'']\<rparr>)"

text \<open>A storage: its bucket, its two keys, and the options of the connection.\<close>

datatype storage_backend =
    S3Storage string string string "(string \<times> string) list"
  | FileSystemStorage
  | CompressedManifestStaticFilesStorage

definition S3_CONNECTION_OPTIONS :: "environ \<Rightarrow> (string \<times> string) list" where
  "S3_CONNECTION_OPTIONS e =
     [(''endpoint_url'', env_str e ''S3_ENDPOINT_URL'' ''https://storage.googleapis.com''),
      (''region_name'', env_str e ''S3_REGION_NAME'' ''auto''),
      (''signature_version'', env_str e ''S3_SIGNATURE_VERSION'' ''s3v4''),
      (''addressing_style'', env_str e ''S3_ADDRESSING_STYLE'' ''virtual'')]"

definition storages_of :: "environ \<Rightarrow> (string \<times> storage_backend) list" where
  "storages_of e =
     (let bucket = env_str e ''S3_BUCKET_NAME'' ''''; backups = env_str e ''DB_BACKUP_BUCKET_NAME'' ''''
      in [(''default'',
           if bucket \<noteq> '''' then S3Storage bucket (env_str e ''S3_ACCESS_KEY'' '''') (env_str e ''S3_SECRET_KEY'' '''') (S3_CONNECTION_OPTIONS e)
           else FileSystemStorage),
          (''staticfiles'', CompressedManifestStaticFilesStorage)]
         @ (if backups \<noteq> ''''
            then [(BACKUP_STORAGE_ALIAS,
                   S3Storage backups (env_str e ''DB_BACKUP_ACCESS_KEY'' '''') (env_str e ''DB_BACKUP_SECRET_KEY'' '''') (S3_CONNECTION_OPTIONS e))]
            else []))"

definition CLOUDFLARE_RANGES :: "string list" where
  "CLOUDFLARE_RANGES =
     [''173.245.48.0/20'', ''103.21.244.0/22'', ''103.22.200.0/22'', ''103.31.4.0/22'', ''141.101.64.0/18'', ''108.162.192.0/18'',
      ''190.93.240.0/20'', ''188.114.96.0/20'', ''197.234.240.0/22'', ''198.41.128.0/17'', ''162.158.0.0/15'', ''104.16.0.0/13'',
      ''104.24.0.0/14'', ''172.64.0.0/13'', ''131.0.72.0/22'', ''2400:cb00::/32'', ''2606:4700::/32'', ''2803:f800::/32'',
      ''2405:b500::/32'', ''2405:8100::/32'', ''2a06:98c0::/29'', ''2c0f:f248::/32'']"

definition proxy_settings_of :: "environ \<Rightarrow> ip_settings" where
  "proxy_settings_of e = \<lparr>TRUSTED_PROXY_HOPS = env_int e ''TRUSTED_PROXY_HOPS'' 0, CLOUDFLARE_IP_RANGES = CLOUDFLARE_RANGES\<rparr>"

text \<open>How a request is read behind a proxy: the header that says it came over HTTPS, whether the host of a proxy is used, and
  which other origins may post forms.\<close>

record request_settings =
  SECURE_PROXY_SSL_HEADER :: "string \<times> string"
  origin_secret :: string
  USE_X_FORWARDED_HOST :: bool
  CSRF_TRUSTED_ORIGINS :: "string list"
  SECURE_CONTENT_TYPE_NOSNIFF :: bool
  SECURE_REFERRER_POLICY :: string

definition request_settings_of :: "environ \<Rightarrow> request_settings" where
  "request_settings_of e =
     \<lparr>SECURE_PROXY_SSL_HEADER = (''HTTP_X_FORWARDED_PROTO'', ''https''), origin_secret = env_str e ''ORIGIN_LOCK_SECRET'' '''',
      USE_X_FORWARDED_HOST = env_bool e ''USE_X_FORWARDED_HOST'' False, CSRF_TRUSTED_ORIGINS = env_list e ''CSRF_TRUSTED_ORIGINS'' [],
      SECURE_CONTENT_TYPE_NOSNIFF = True, SECURE_REFERRER_POLICY = ''same-origin''\<rparr>"

text \<open>The backup package: how many backups it keeps, what its dump program finds in its environment, and that a restore drops
  nothing.\<close>

record dbbackup_settings =
  DBBACKUP_CLEANUP_KEEP :: nat
  connector_mapping :: "(string \<times> string) list"
  use_parent_env :: bool
  dump_environment :: "(string \<times> string) list"
  drop_tables :: bool
  if_exists :: bool
  DBBACKUP_SEND_EMAIL :: bool

definition dbbackup_settings_of :: "environ \<Rightarrow> dbbackup_settings" where
  "dbbackup_settings_of e =
     \<lparr>DBBACKUP_CLEANUP_KEEP = 14,
      connector_mapping = [(''django.db.backends.postgresql'', ''dbbackup.db.postgresql.PgDumpBinaryConnector'')],
      use_parent_env = False, dump_environment = [(''PATH'', env_str e ''PATH'' '''')], drop_tables = False, if_exists = False,
      DBBACKUP_SEND_EMAIL = False\<rparr>"

text \<open>\<open>TASKS\<close>: where tasks are queued.\<close>

definition task_backend_of :: "environ \<Rightarrow> string" where
  "task_backend_of e = env_str e ''DJANGO_TASKS_BACKEND'' ''django_tasks_db.DatabaseBackend''"

text \<open>The call that starts monitoring.\<close>

definition DISALLOWED_HOST_LOGGER :: string where
  "DISALLOWED_HOST_LOGGER = ''django.security.DisallowedHost''"

definition monitoring_of :: "environ \<Rightarrow> sdk_call list" where
  "monitoring_of e =
     configure (env_str e ''SENTRY_DSN'' '''') (env_str e ''SENTRY_ENVIRONMENT'' ''development'') (env_str e ''PIPELINE_VERSION'' ''0.0.0'')
       [DBBACKUP_LOGGER, DISALLOWED_HOST_LOGGER]"

definition throttle_rates_of :: "environ \<Rightarrow> ThrottleScope \<Rightarrow> string" where
  "throttle_rates_of e s =
     (case s of
        FAILED_AUTH \<Rightarrow> env_str e ''FAILED_AUTH_RATE'' ''100/hour''
      | CLIENT_IP \<Rightarrow> env_str e ''CLIENT_IP_RATE'' ''120/minute'')"

definition account_settings_of :: "environ \<Rightarrow> account_settings" where
  "account_settings_of e =
     \<lparr>default_max_in_flight = env_int e ''DEFAULT_MAX_IN_FLIGHT'' 10, default_rate_limit_count = env_int e ''DEFAULT_RATE_LIMIT_COUNT'' 100\<rparr>"

definition deploy_settings_of :: "environ \<Rightarrow> deploy_settings" where
  "deploy_settings_of e =
     \<lparr>S3_BUCKET_NAME = env_str e ''S3_BUCKET_NAME'' '''', RUN_ALT_TEXT = env_bool e ''RUN_ALT_TEXT'' False,
      ANTHROPIC_API_KEY = env_str e ''ANTHROPIC_API_KEY'' '''', REQUIRE_HTTPS = env_bool e ''REQUIRE_HTTPS'' True,
      ORIGIN_LOCK_SECRET = env_str e ''ORIGIN_LOCK_SECRET'' '''', RUN_OCR = env_bool e ''RUN_OCR'' False,
      OPENDATALOADER_HYBRID_URL = env_str e ''OPENDATALOADER_HYBRID_URL'' '''',
      OCR_READY_TIMEOUT_SECONDS = env_int e ''OCR_READY_TIMEOUT_SECONDS'' 600,
      OCR_READY_POLL_SECONDS = env_int e ''OCR_READY_POLL_SECONDS'' 5,
      DB_BACKUP_BUCKET_NAME = env_str e ''DB_BACKUP_BUCKET_NAME'' ''''\<rparr>"

definition pipeline_settings_of :: "environ \<Rightarrow> settings" where
  "pipeline_settings_of e =
     \<lparr>PIPELINE_VERSION = env_str e ''PIPELINE_VERSION'' ''0.0.0'',
      STUCK_QUEUED_MINUTES = env_int e ''STUCK_QUEUED_MINUTES'' 60, STUCK_RUNNING_MINUTES = env_int e ''STUCK_RUNNING_MINUTES'' 180,
      RUN = (\<lambda>s. env_bool e (setting_name s) False), LANGUAGE_CODE = ''en-us'',
      PUBLIC_BASE_URL = env_str e ''PUBLIC_BASE_URL'' ''http://localhost:8000'',
      MAX_WEBHOOK_ATTEMPTS = env_int e ''MAX_WEBHOOK_ATTEMPTS'' 5,
      WEBHOOK_BACKOFF_BASE_SECONDS = env_int e ''WEBHOOK_BACKOFF_BASE_SECONDS'' 30\<rparr>"

definition WEBHOOK_ALLOW_PRIVATE_URLS :: "environ \<Rightarrow> bool" where
  "WEBHOOK_ALLOW_PRIVATE_URLS e = env_bool e ''WEBHOOK_ALLOW_PRIVATE_URLS'' False"

section \<open>Loading\<close>

datatype config_error = SettingMissing string | SettingUnreadable string

record loaded =
  security :: security_settings
  storages :: "(string \<times> storage_backend) list"
  proxy :: ip_settings
  throttle_rates :: "ThrottleScope \<Rightarrow> string"
  account_defaults :: account_settings
  deploy :: deploy_settings
  pipeline :: settings
  allow_private :: bool
  requests :: request_settings
  dbbackup_conf :: dbbackup_settings
  task_backend :: string
  monitoring :: "sdk_call list"

text \<open>The first read that fails stops the start of the application.\<close>

definition load_settings :: "environ \<Rightarrow> config_error + loaded" where
  "load_settings e =
     (case List.find (\<lambda>r. \<not> readable e r) READS of
        Some (n, c, required) \<Rightarrow> Inl (if variables e n = None then SettingMissing n else SettingUnreadable n)
      | None \<Rightarrow>
          Inr \<lparr>security = security_settings_of e, storages = storages_of e, proxy = proxy_settings_of e,
               throttle_rates = throttle_rates_of e, account_defaults = account_settings_of e, deploy = deploy_settings_of e,
               pipeline = pipeline_settings_of e, allow_private = WEBHOOK_ALLOW_PRIVATE_URLS e, requests = request_settings_of e,
               dbbackup_conf = dbbackup_settings_of e, task_backend = task_backend_of e, monitoring = monitoring_of e\<rparr>)"

section \<open>An unconfigured deployment\<close>

text \<open>Nothing is set but what has no default.\<close>

definition only_required :: "environ \<Rightarrow> bool" where
  "only_required e \<longleftrightarrow>
     variables e ''SECRET_KEY'' \<noteq> None \<and>
     (case variables e ''DATABASE_URL'' of None \<Rightarrow> False | Some u \<Rightarrow> url_valid e u) \<and>
     (\<forall>n. n \<noteq> ''SECRET_KEY'' \<longrightarrow> n \<noteq> ''DATABASE_URL'' \<longrightarrow> variables e n = None)"

lemma unset:
  assumes "variables e n = None"
  shows "env_str e n s = s" and "env_bool e n b = b" and "env_int e n i = i" and "env_list e n l = l"
  using assms by (simp_all add: env_str_def env_bool_def env_int_def env_list_def)

lemma only_required_unset: "only_required e \<Longrightarrow> n \<noteq> ''SECRET_KEY'' \<Longrightarrow> n \<noteq> ''DATABASE_URL'' \<Longrightarrow> variables e n = None"
  by (simp add: only_required_def)

lemma reads_shape:
  "list_all (\<lambda>(n, c, q). (if n = ''SECRET_KEY'' then c = CStr else if n = ''DATABASE_URL'' then c = CUrl else \<not> q)) READS"
  by code_simp

lemma only_required_readable: "only_required e \<Longrightarrow> r \<in> set READS \<Longrightarrow> readable e r"
proof -
  assume e: "only_required e" and r: "r \<in> set READS"
  obtain n c q where p: "r = (n, c, q)" by (cases r)
  have shape: "if n = ''SECRET_KEY'' then c = CStr else if n = ''DATABASE_URL'' then c = CUrl else \<not> q"
    using reads_shape r unfolding p list_all_iff by fastforce
  consider "n = ''SECRET_KEY''" | "n \<noteq> ''SECRET_KEY''" "n = ''DATABASE_URL''" | "n \<noteq> ''SECRET_KEY''" "n \<noteq> ''DATABASE_URL''" by blast
  then show "readable e r"
  proof cases
    case 1
    moreover obtain v where "variables e n = Some v" using e 1 unfolding only_required_def by blast
    ultimately show ?thesis using shape unfolding p readable_def by (simp only: prod.case option.case if_True cast.case simp_thms)
  next
    case 2
    moreover obtain v where "variables e n = Some v" "url_valid e v"
      using e 2(2) unfolding only_required_def by (cases "variables e n") (simp_all only: option.case, blast)
    ultimately show ?thesis using shape unfolding p readable_def by (simp only: prod.case option.case if_False if_True cast.case simp_thms)
  next
    case 3
    moreover have "variables e n = None" using e 3 unfolding only_required_def by blast
    ultimately show ?thesis using shape unfolding p readable_def by (simp only: prod.case option.case if_False simp_thms)
  qed
qed

text \<open>The storages by name are those the backup looks at.\<close>

lemma storages_named: "map fst (storages_of e) = STORAGES (deploy_settings_of e)"
  unfolding storages_of_def STORAGES_def deploy_settings_of_def Let_def deploy_settings.simps
  by (simp only: map_append list.map fst_conv if_distrib [of "map fst"])

text \<open>The published ranges are well-formed networks, one by one.\<close>

lemma networks_Cons: "networks (c # cs) \<noteq> None \<longleftrightarrow> ip_network c \<noteq> None \<and> networks cs \<noteq> None"
  by (auto simp: networks_def split: option.splits)

lemma networks_Nil: "networks [] \<noteq> None"
  by (simp add: networks_def)

lemmas reading_ranges = ip_network_def ip_address_def parse_ipv4_def parse_octet_def is_digit_def digits_value_def base_value_def
  parse_ipv6_def parse_ipv6_int_def v4_suffix_def inner_gaps_def parse_parts_def parse_hextet_def hex_value_def Let_def

lemma six_zeros: "replicate 6 (0 :: nat) = [0, 0, 0, 0, 0, 0]"
  by (simp add: eval_nat_numeral)

lemma cloudflare_ranges_parse: "networks CLOUDFLARE_RANGES \<noteq> None"
  unfolding CLOUDFLARE_RANGES_def networks_Cons
  by (intro conjI networks_Nil; simp add: reading_ranges six_zeros)

lemma steps_unset: "only_required e \<Longrightarrow> \<not> RUN (pipeline_settings_of e) s"
  by (cases s) (simp_all add: pipeline_settings_of_def setting_name_def unset only_required_unset)

text \<open>A deployment that only has its key and its database starts, and starts closed: no debug pages, cookies and
  redirects for HTTPS only, no webhook to internal addresses, no proxy and no forwarded host trusted, nothing sent to
  monitoring, address ranges and throttle rates that can all be read, and default limits that a new account passes
  validation with and that do limit it.\<close>

theorem unconfigured_deployment_is_closed:
  "only_required e \<Longrightarrow> drf_reads_rates rest \<Longrightarrow>
   \<exists>s. load_settings e = Inr s \<and> \<not> DEBUG (security s) \<and> SECURE_SSL_REDIRECT (security s) \<and>
     SESSION_COOKIE_SECURE (security s) \<and> CSRF_COOKIE_SECURE (security s) \<and> SECURE_HSTS_SECONDS (security s) = 3600 \<and>
     \<not> allow_private s \<and> TRUSTED_PROXY_HOPS (proxy s) = 0 \<and> networks (CLOUDFLARE_IP_RANGES (proxy s)) \<noteq> None \<and>
     validate_limits (new_account (account_defaults s) []) \<and> \<not> is_unlimited (new_account (account_defaults s) []) \<and>
     rate_for rest (throttle_rates s) FAILED_AUTH = Inr (100, 3600) \<and> rate_for rest (throttle_rates s) CLIENT_IP = Inr (120, 60) \<and>
     map fst (storages s) = STORAGES (deploy s) \<and> \<not> USE_X_FORWARDED_HOST (requests s) \<and> CSRF_TRUSTED_ORIGINS (requests s) = [] \<and>
     (\<forall>os. sdk_run fresh_sdk (map Call (monitoring s) @ map (Call \<circ> client_call) os) = [])"
proof -
  assume e: "only_required e" and drf_reads: "drf_reads_rates rest"
  note absent = unset [OF only_required_unset [OF e]]
  have "List.find (\<lambda>r. \<not> readable e r) READS = None"
    unfolding find_None_iff using only_required_readable [OF e] by blast
  then have loads: "load_settings e = Inr \<lparr>security = security_settings_of e, storages = storages_of e, proxy = proxy_settings_of e,
      throttle_rates = throttle_rates_of e, account_defaults = account_settings_of e, deploy = deploy_settings_of e,
      pipeline = pipeline_settings_of e, allow_private = WEBHOOK_ALLOW_PRIVATE_URLS e, requests = request_settings_of e,
      dbbackup_conf = dbbackup_settings_of e, task_backend = task_backend_of e, monitoring = monitoring_of e\<rparr>"
    by (simp only: load_settings_def option.case)
  have "validate_limits (new_account (account_settings_of e) []) \<and> \<not> is_unlimited (new_account (account_settings_of e) [])"
    by (simp add: new_account_def account_settings_of_def absent validate_limits_def clean_count_def clean_period_def
        limits_set_unless_unlimited_def is_unlimited_def DEFAULT_RATE_LIMIT_PERIOD_def PERIODS_def
        period_choices_def)
  moreover have "str_nat 100 @ ''/'' @ period_value HOUR = ''100/hour''" "str_nat 120 @ ''/'' @ period_value MINUTE = ''120/minute''"
    by code_simp+
  then have "rest ''100/hour'' = Some (Some 100, Some 3600)" "rest ''120/minute'' = Some (Some 120, Some 60)"
    using drf_reads unfolding drf_reads_rates_def by (metis of_nat_numeral period_seconds.simps(2,3))+
  then have "rate_for rest (throttle_rates_of e) FAILED_AUTH = Inr (100, 3600)" "rate_for rest (throttle_rates_of e) CLIENT_IP = Inr (120, 60)"
    by (simp_all add: rate_for_def parse_rate_def throttle_rates_of_def absent)
  moreover have "sdk_run fresh_sdk (map Call (monitoring_of e) @ map (Call \<circ> client_call) os) = []" for os
    using sdk_run_reports [of "\<lparr>ignored = {DBBACKUP_LOGGER, DISALLOWED_HOST_LOGGER}, address = ''''\<rparr>" os "[]"]
    by (simp add: monitoring_of_def sdk_run_configure absent)
  moreover have "\<not> USE_X_FORWARDED_HOST (request_settings_of e) \<and> CSRF_TRUSTED_ORIGINS (request_settings_of e) = []"
    by (simp add: request_settings_of_def absent)
  ultimately show ?thesis
    using loads cloudflare_ranges_parse storages_named [of e]
    by (simp add: security_settings_of_def proxy_settings_of_def WEBHOOK_ALLOW_PRIVATE_URLS_def absent Let_def)
qed

lemma all_disabled_run:
  "(\<And>s. s \<in> set steps \<Longrightarrow> is_disabled e s) \<Longrightarrow> fst (run_steps ad e r steps u w) = (None, u) \<and> files (snd (run_steps ad e r steps u w)) = files w"
  by (induction steps arbitrary: w) (simp_all add: record_skip_def mark_skipped_def mark_status_def now_def upsert_artifact_def Let_def)

text \<open>C40: Such a deployment processes nothing and says so: whatever its adapters would do, a job on an unfinished attempt
  ends well as skipped, with the original as its output and the stored files as they were.\<close>

theorem unconfigured_jobs_are_skipped:
  "only_required v \<Longrightarrow> conf e = pipeline_settings_of v \<Longrightarrow> tables_ok w \<Longrightarrow> find_remediation i w = Some r \<Longrightarrow> unfinished r \<Longrightarrow>
   fst (process_remediation ad e i w) = Inr () \<and> files (snd (process_remediation ad e i w)) = files w \<and>
   (\<exists>r'. find_remediation i (snd (process_remediation ad e i w)) = Some r' \<and> status r' = SKIPPED \<and>
      final_output_uri r' = source_pdf_uri r)"
proof -
  assume v: "only_required v" and conf: "conf e = pipeline_settings_of v"
    and ok: "tables_ok w" "find_remediation i w = Some r" "unfinished r"
  have off: "is_disabled e s" for s by (simp add: is_disabled_def conf steps_unset [OF v])
  obtain raised uri w2 where steps: "run_steps ad e (running_row (clock e (ticks w)) r) PIPELINE_STEPS (source_pdf_uri r)
      (started_world e r w) = ((raised, uri), w2)" by (metis prod.exhaust)
  with all_disabled_run [OF off, of ad "running_row (clock e (ticks w)) r" PIPELINE_STEPS "source_pdf_uri r" "started_world e r w"]
  have ends: "raised = None" "uri = source_pdf_uri r" "files w2 = files w" by (simp_all add: started_world_def)
  have verdict: "job_verdict e (source_pdf_uri r) raised uri = (SKIPPED, source_pdf_uri r, None)" using ends off by simp
  have row: "find_remediation i (snd (process_remediation ad e i w)) =
      Some (finish_row SKIPPED (source_pdf_uri r) None (clock e (ticks w2)) (running_row (clock e (ticks w)) r))"
    using finished_row_after [OF _ ok steps verdict] by (metis prod.collapse)
  show ?thesis using process_remediation_eq [OF ok steps verdict] row ends by (simp add: finish_row_def Let_def)
qed

definition demo_environ :: environ where
  "demo_environ =
     \<lparr>variables = (\<lambda>n. if n = ''SECRET_KEY'' then Some ''key'' else if n = ''DATABASE_URL'' then Some ''postgres://db/dice'' else None),
      read_bool = (\<lambda>s. Some (s = ''true'')), read_int = (\<lambda>s. None), read_list = (\<lambda>s. [s]), url_valid = (\<lambda>s. True)\<rparr>"

lemma demo_only_required: "only_required demo_environ"
  by (simp add: only_required_def demo_environ_def)

theorem unconfigured_deployment_is_closed_witness:
  "\<exists>s. load_settings demo_environ = Inr s \<and> \<not> DEBUG (security s) \<and> rate_for demo_drf (throttle_rates s) FAILED_AUTH = Inr (100, 3600)"
  using unconfigured_deployment_is_closed [OF demo_only_required demo_drf_reads] by blast

theorem unconfigured_jobs_are_skipped_witness:
  "fst (process_remediation demo_adapters (demo_env\<lparr>conf := pipeline_settings_of demo_environ\<rparr>) ''r1'' demo_job_world) = Inr () \<and>
   (\<exists>r'. find_remediation ''r1''
        (snd (process_remediation demo_adapters (demo_env\<lparr>conf := pipeline_settings_of demo_environ\<rparr>) ''r1'' demo_job_world)) = Some r' \<and>
      status r' = SKIPPED \<and> final_output_uri r' = source_pdf_uri demo_job)"
  using unconfigured_jobs_are_skipped [OF demo_only_required, of "demo_env\<lparr>conf := pipeline_settings_of demo_environ\<rparr>",
      OF _ demo_job_facts, of demo_adapters] by simp

end
