(* ===== verification/Default_Adapters.thy ===== *)
theory Default_Adapters
  imports Document_Flow Django_Settings Font_Repair Scoring
begin

text \<open>
  The adapters the services of \<^verbatim>\<open>remediation/services.py\<close> build by default, put together from the models of the adapters:
  each opens the local copy of its input, does its work on the document, and saves the result.  What is left
  as a parameter is outside the repository: running a tool on the copy, reading and writing PDF bytes, and the vision API.
\<close>

record toolbox =
  vera :: "nat \<Rightarrow> bytes \<Rightarrow> string list \<Rightarrow> completed option"
  xml_of :: "string \<Rightarrow> string + xml"
  int_text :: "string \<Rightarrow> int option"
  converter :: "nat \<Rightarrow> bytes \<Rightarrow> string \<Rightarrow> string option \<Rightarrow> string \<Rightarrow> convert_end \<times> (string \<times> bytes) list"
  open_bytes :: "bytes \<Rightarrow> string + opened_pdf"
  save_bytes :: "opened_pdf \<Rightarrow> string + bytes"
  tokens_of :: "pdf \<Rightarrow> nat \<Rightarrow> token list option"
  glyph_count :: "bytes \<Rightarrow> nat option"
  images_of :: "bytes \<Rightarrow> image_reader"
  vision_api :: "nat \<Rightarrow> vision_request \<Rightarrow> exn + string option list"
  texts_of :: "bytes \<Rightarrow> text_reader option"
  unicode_tables :: unicode
  stack_depth :: nat
  input_dir :: string
  output_dir :: string

section \<open>Editing a file\<close>

text \<open>Open, change, save under the same name; whatever the library raises becomes an adapter error.\<close>

definition edit_file :: "toolbox \<Rightarrow> string \<Rightarrow> (opened_pdf \<Rightarrow> exn + opened_pdf) \<Rightarrow> local_file \<Rightarrow> exn + output_file" where
  "edit_file t what change f =
     (case open_bytes t (snd f) of
        Inl m \<Rightarrow> Inl (AdapterError (what @ m))
      | Inr d \<Rightarrow>
          (case change d of
             Inl x \<Rightarrow> Inl x
           | Inr d1 \<Rightarrow>
               (case save_bytes t d1 of
                  Inl m \<Rightarrow> Inl (AdapterError (what @ m))
                | Inr b \<Rightarrow> Inr (output_dir t @ ''/'' @ fst f, Some b))))"

definition on_objects :: "(pdf \<Rightarrow> exn + pdf) \<Rightarrow> opened_pdf \<Rightarrow> exn + opened_pdf" where
  "on_objects change d = map_sum id (\<lambda>o1. d\<lparr>objects := o1\<rparr>) (change (objects d))"

section \<open>The adapters\<close>

definition default_validate :: "toolbox \<Rightarrow> nat \<Rightarrow> local_file \<Rightarrow> exn + VerificationOutcome" where
  "default_validate t n f = validate (vera t n (snd f)) (xml_of t) (int_text t) ''ua1'' (input_dir t @ ''/'' @ fst f)"

text \<open>The file that is renamed to the output is the only one that matched.\<close>

definition default_extract :: "toolbox \<Rightarrow> string \<Rightarrow> nat \<Rightarrow> local_file \<Rightarrow> exn + output_file" where
  "default_extract t hybrid_url n f =
     (let written = (\<lambda>mode url path. converter t n (snd f) mode url path);
          path = input_dir t @ ''/'' @ fst f;
          produced = snd (written HYBRID_MODE (if hybrid_url = '''' then None else Some hybrid_url) path)
      in map_sum id (\<lambda>out. (out, case glob_names (splitext_root (basename path) @ ''*.pdf'') (map fst produced) of
                                    [] \<Rightarrow> None
                                  | m # _ \<Rightarrow> map_of produced m))
           (fst (open_data_loader_extract (\<lambda>mode url path. (fst (written mode url path), map fst (snd (written mode url path))))
                   (Some hybrid_url) path (output_dir t))))"

definition default_repair_fonts :: "toolbox \<Rightarrow> nat \<Rightarrow> local_file \<Rightarrow> exn + output_file" where
  "default_repair_fonts t n = edit_file t ''pikepdf failed to repair fonts: '' (on_objects (repair_fonts (tokens_of t) (glyph_count t)))"

definition default_finalize :: "toolbox \<Rightarrow> nat \<Rightarrow> local_file \<Rightarrow> string \<Rightarrow> string \<Rightarrow> exn + output_file" where
  "default_finalize t n f title lang =
     (case finalize_metadata (\<lambda>p. open_bytes t (snd f)) (\<lambda>g. case save_bytes t g of Inl m \<Rightarrow> Some m | Inr b \<Rightarrow> None)
             (input_dir t @ ''/'' @ fst f) (output_dir t) title lang of
        Inl x \<Rightarrow> Inl x
      | Inr (path, g) \<Rightarrow> Inr (path, case save_bytes t g of Inl m \<Rightarrow> None | Inr b \<Rightarrow> Some b))"

definition default_repair_links :: "toolbox \<Rightarrow> nat \<Rightarrow> local_file \<Rightarrow> exn + output_file" where
  "default_repair_links t n = edit_file t ''pikepdf failed to repair links: '' (on_objects repair_links)"

definition default_collect_figures :: "toolbox \<Rightarrow> nat \<Rightarrow> local_file \<Rightarrow> exn + FigureCandidate list" where
  "default_collect_figures t n f =
     (case open_bytes t (snd f) of
        Inl m \<Rightarrow> Inl (AdapterError (''pikepdf failed to collect figures: '' @ m))
      | Inr d \<Rightarrow> collect_figures (images_of t (snd f)) (objects d))"

definition default_describe :: "toolbox \<Rightarrow> string \<Rightarrow> string \<Rightarrow> nat \<Rightarrow> bytes \<Rightarrow> string \<Rightarrow> string \<Rightarrow> int \<Rightarrow> exn + string" where
  "default_describe t api_key model n = describe (make_vision_client (Some api_key) (Some model)) (vision_api t n)"

definition default_write_alt_text :: "toolbox \<Rightarrow> nat \<Rightarrow> local_file \<Rightarrow> (int \<times> int \<rightharpoonup> string) \<Rightarrow> exn + output_file" where
  "default_write_alt_text t n f alts =
     edit_file t ''pikepdf failed to write alt text: '' (on_objects (\<lambda>d. Inr (write_alt_text alts d))) f"

definition default_score :: "toolbox \<Rightarrow> nat \<Rightarrow> local_file \<Rightarrow> exn + ScoringResult" where
  "default_score t n f =
     Inr (score_pdf_file (unicode_tables t) (stack_depth t) (texts_of t (snd f))
       (case open_bytes t (snd f) of Inl m \<Rightarrow> None | Inr d \<Rightarrow> Some (objects d)))"

text \<open>What each service is built with: the settings it passes on are read from the environment.\<close>

definition default_adapters :: "toolbox \<Rightarrow> environ \<Rightarrow> adapters" where
  "default_adapters t v =
     \<lparr>ad_validate = default_validate t,
      ad_extract = default_extract t (env_str v ''OPENDATALOADER_HYBRID_URL'' ''''),
      ad_repair_fonts = default_repair_fonts t, ad_finalize = default_finalize t, ad_repair_links = default_repair_links t,
      ad_collect_figures = default_collect_figures t,
      ad_describe = default_describe t (env_str v ''ANTHROPIC_API_KEY'' '''') (env_str v ''CLAUDE_VISION_MODEL'' ''claude-sonnet-5''),
      ad_write_alt_text = default_write_alt_text t, ad_score = default_score t\<rparr>"

section \<open>The report decides the job\<close>

definition earlier_steps :: "Step list" where
  "earlier_steps = [PRECHECK, OCR, FONT_REPAIR, FINALIZE_METADATA, LINK_TAG, ALT_TEXT, SCORING]"

text \<open>The check of a fresh step whose tool printed a report.\<close>

lemma verification_of_report:
  assumes "fresh_for r POSTCHECK w" and "local_input_copy e u w = (Inr f, w)"
    and "ad_validate ad (ticks w) f = Inr res"
  shows "\<exists>w2. run ad e POSTCHECK r u w =
      ((if vo_is_compliant res then Inr u else Inl (NotCompliant (vo_failed_rules res))), w2) \<and>
    (\<exists>v \<in> set (verification_results w2). vr_remediation v = rid r \<and> vr_step v = POSTCHECK \<and>
       vr_is_compliant v = vo_is_compliant res \<and> vr_failed_rules v = map rule_to_dict (vo_failed_rules res) \<and>
       vr_verapdf_version v = vo_verapdf_version res)"
proof -
  have new: "(rid r, POSTCHECK) \<notin> set (map (\<lambda>v. (vr_remediation v, vr_step v)) (verification_results w))"
    using assms(1) by (auto simp: fresh_for_def)
  have same: "verification_results (mark_completed e s r u' w') = verification_results w'" for s u' w'
    by (simp add: mark_completed_def)
  have "run ad e POSTCHECK r u w = verification_run ad e POSTCHECK r u w"
    using fresh_for_not_completed [OF assms(1)] by (simp add: run_def)
  then show ?thesis
    using new assms(2,3)
    by (simp add: verification_run_def bind_outcome_def call_adapter_def now_def insert_verification_result_def raise_or_def
        handle_result_def Let_def same del: set_map)
qed

text \<open>C16: From the validator's report to the attempt, through the whole job: on the first run of an attempt whose earlier
  steps went through, the postcheck's report decides.  The attempt is compliant exactly if the report says so, noncompliant with the
  summary of its rules otherwise, serves the last output in both cases, and the stored result holds the report's
  verdict, its rules in order and the tool's version - whatever exit code the tool ended with.\<close>

theorem report_decides_the_job:
  "tables_ok w \<Longrightarrow> find_remediation i w = Some r \<Longrightarrow> unfinished r \<Longrightarrow> (\<forall>s. fresh_for r s w) \<Longrightarrow>
   \<not> is_disabled e POSTCHECK \<Longrightarrow>
   run_steps (default_adapters t env_vars) e (running_row (clock e (ticks w)) r) earlier_steps (source_pdf_uri r) (started_world e r w)
     = ((None, u), w1) \<Longrightarrow>
   local_input_copy e u w1 = (Inr f, w1) \<Longrightarrow>
   vera t (ticks w1) (snd f) (vera_command ''ua1'' (input_dir t @ ''/'' @ fst f))
     = Some \<lparr>returncode = code, stdout = printed, stderr = errors\<rparr> \<Longrightarrow>
   strip printed \<noteq> '''' \<Longrightarrow> xml_of t printed = Inr (report_xml version compliant rules) \<Longrightarrow>
   (\<forall>x \<in> set rules. \<forall>n. rp_checks x = Some n \<longrightarrow> int_text t (str_int n) = Some n) \<Longrightarrow>
   \<exists>r'. find_remediation i (snd (process_remediation (default_adapters t env_vars) e i w)) = Some r' \<and> final_output_uri r' = u \<and>
     (if compliant then status r' = COMPLIANT
      else status r' = NONCOMPLIANT \<and> error r' = ''postcheck: '' @ format_failure_summary (map rule_read rules)) \<and>
     (\<exists>v \<in> set (verification_results (snd (process_remediation (default_adapters t env_vars) e i w))).
        vr_remediation v = i \<and> vr_step v = POSTCHECK \<and> vr_is_compliant v = compliant \<and>
        vr_failed_rules v = map rule_to_dict (map rule_read rules) \<and> vr_verapdf_version v = version)"
proof -
  let ?ad = "default_adapters t env_vars" and ?r = "running_row (clock e (ticks w)) r" and ?w = "started_world e r w"
  assume ok: "tables_ok w" "find_remediation i w = Some r" "unfinished r" and fresh: "\<forall>s. fresh_for r s w"
    and on: "\<not> is_disabled e POSTCHECK"
    and earlier: "run_steps ?ad e ?r earlier_steps (source_pdf_uri r) ?w = ((None, u), w1)"
    and copy: "local_input_copy e u w1 = (Inr f, w1)"
    and tool: "vera t (ticks w1) (snd f) (vera_command ''ua1'' (input_dir t @ ''/'' @ fst f))
      = Some \<lparr>returncode = code, stdout = printed, stderr = errors\<rparr>"
    and report: "strip printed \<noteq> ''''" "xml_of t printed = Inr (report_xml version compliant rules)"
    and counts: "\<forall>x \<in> set rules. \<forall>n. rp_checks x = Some n \<longrightarrow> int_text t (str_int n) = Some n"
  have i: "rid r = i" using find_remediation_Some [OF ok(2)] by simp
  have answer: "ad_validate ?ad (ticks w1) f =
      Inr \<lparr>vo_is_compliant = compliant, vo_failed_rules = map rule_read rules, vo_verapdf_version = version\<rparr>"
    unfolding default_adapters_def default_validate_def adapters.simps     by (rule report_read_back [where int_of = "int_text t" and parse = "xml_of t" and run_command = "vera t (ticks w1) (snd f)",
        OF counts report tool])
  have "fresh_for ?r POSTCHECK ?w" using fresh by (simp add: fresh_for_def started_world_def)
  then have "fresh_for ?r POSTCHECK w1"
    by (rule run_steps_keeps_fresh [OF _ earlier]) (simp add: earlier_steps_def)
  note checked = verification_of_report [OF this copy answer, unfolded VerificationOutcome.simps running_row_simps i]
  then obtain w2 where
    post: "run ?ad e POSTCHECK ?r u w1 = ((if compliant then Inr u else Inl (NotCompliant (map rule_read rules))), w2)"
    and stored: "\<exists>v \<in> set (verification_results w2). vr_remediation v = i \<and> vr_step v = POSTCHECK \<and>
       vr_is_compliant v = compliant \<and> vr_failed_rules v = map rule_to_dict (map rule_read rules) \<and> vr_verapdf_version v = version"
    by blast
  have steps: "run_steps ?ad e ?r PIPELINE_STEPS (source_pdf_uri r) ?w =
      ((if compliant then None else Some (NotCompliant (map rule_read rules)), u), w2)"
    unfolding PIPELINE_STEPS_split(1) run_steps_append earlier [unfolded earlier_steps_def]
    using on post by simp
  have verdict: "job_verdict e (source_pdf_uri r) (if compliant then None else Some (NotCompliant (map rule_read rules))) u =
      (if compliant then (COMPLIANT, u, None)
       else (NONCOMPLIANT, u, Some (''postcheck: '' @ format_failure_summary (map rule_read rules))))"
    using on by simp
  obtain st out err where v: "job_verdict e (source_pdf_uri r) (if compliant then None else Some (NotCompliant (map rule_read rules))) u
      = (st, out, err)" by (metis prod.exhaust)
  have row: "find_remediation i (snd (process_remediation ?ad e i w)) = Some (finish_row st out err (clock e (ticks w2)) ?r)"
    using finished_row_after [OF _ ok steps v] by (metis prod.collapse)
  have kept: "verification_results (snd (process_remediation ?ad e i w)) = verification_results w2"
    using process_remediation_eq [OF ok steps v] by simp
  have "out = u" "if compliant then st = COMPLIANT \<and> err = None
     else st = NONCOMPLIANT \<and> err = Some (''postcheck: '' @ format_failure_summary (map rule_read rules))"
    using v unfolding verdict by (auto split: if_splits)
  then show ?thesis using row kept stored by (auto simp: finish_row_def Let_def split: if_splits)
qed

text \<open>A job of which only the postcheck is switched on, and a tool that reports one failed rule and ends with 1.\<close>

definition demo_rules :: "reported list" where
  "demo_rules = [\<lparr>rp_clause = ''7.1'', rp_test = ''10'', rp_description = Some ''no title'', rp_checks = None\<rparr>]"

definition demo_toolbox :: toolbox where
  "demo_toolbox =
     \<lparr>vera = (\<lambda>n b c. Some \<lparr>returncode = 1, stdout = ''<report/>'', stderr = ''''\<rparr>),
      xml_of = (\<lambda>s. Inr (report_xml ''1.30.2'' False demo_rules)), int_text = (\<lambda>s. None),
      converter = (\<lambda>n b mode url path. (Converted, [])), open_bytes = (\<lambda>b. Inl ''not a PDF''), save_bytes = (\<lambda>d. Inr []),
      tokens_of = (\<lambda>d p. None), glyph_count = (\<lambda>b. None),
      images_of = (\<lambda>b. \<lparr>ir_images = (\<lambda>p. Inr []), ir_extract = (\<lambda>x. Inl (ValueError '''')), ir_render = (\<lambda>p. Inr [])\<rparr>),
      vision_api = (\<lambda>n q. Inr []), texts_of = (\<lambda>b. None),
      unicode_tables = \<lparr>nfkc = (\<lambda>s. s), is_decimal = (\<lambda>c. 48 \<le> c \<and> c \<le> 57)\<rparr>, stack_depth = 1000, input_dir = ''/tmp/in'', output_dir = ''/tmp/out''\<rparr>"

definition demo_check_env :: env where
  "demo_check_env = demo_env\<lparr>conf := demo_settings\<lparr>RUN := (\<lambda>s. s = POSTCHECK)\<rparr>\<rparr>"

theorem report_decides_the_job_witness:
  "\<exists>r'. find_remediation ''r1'' (snd (process_remediation (default_adapters demo_toolbox demo_environ) demo_check_env ''r1'' demo_job_world))
      = Some r' \<and> final_output_uri r' = source_pdf_uri demo_job \<and> status r' = NONCOMPLIANT"
proof -
  let ?ad = "default_adapters demo_toolbox demo_environ" and ?e = demo_check_env and ?w = demo_job_world
  let ?r = "running_row (clock ?e (ticks ?w)) demo_job"
  have off: "s \<in> set earlier_steps \<Longrightarrow> is_disabled ?e s" for s
    by (auto simp: earlier_steps_def is_disabled_def demo_check_env_def)
  obtain raised u w1 where steps: "run_steps ?ad ?e ?r earlier_steps (source_pdf_uri demo_job) (started_world ?e demo_job ?w)
      = ((raised, u), w1)" by (metis prod.exhaust)
  with all_disabled_run [OF off, of earlier_steps ?ad ?r "source_pdf_uri demo_job" "started_world ?e demo_job ?w"]
  have ends: "raised = None" "u = source_pdf_uri demo_job" "files w1 = files ?w" by (simp_all add: started_world_def)
  have copy: "local_input_copy ?e u w1 = (Inr (''a.pdf'', [1, 2, 3]), w1)"
    by (simp add: local_input_copy_def ends demo_check_env_def demo_env_def mem_storage_def demo_job_world_def demo_attempt_def
        basename_def)
  have fresh: "\<forall>s. fresh_for demo_job s ?w" using demo_job_world_ok(3) by blast
  have on: "\<not> is_disabled ?e POSTCHECK" by (simp add: is_disabled_def demo_check_env_def)
  have tool: "vera demo_toolbox (ticks w1) (snd (''a.pdf'', [1, 2, 3])) c = Some \<lparr>returncode = 1, stdout = ''<report/>'', stderr = ''''\<rparr>" for c
    by (simp add: demo_toolbox_def)
  have printed: "strip ''<report/>'' \<noteq> ''''" by code_simp
  have report: "xml_of demo_toolbox ''<report/>'' = Inr (report_xml ''1.30.2'' False demo_rules)" by (simp add: demo_toolbox_def)
  have counts: "\<forall>x \<in> set demo_rules. \<forall>n. rp_checks x = Some n \<longrightarrow> int_text demo_toolbox (str_int n) = Some n"
    by (simp add: demo_rules_def)
  from report_decides_the_job [OF demo_job_facts fresh on steps [unfolded ends(1)] copy tool printed report counts] ends(2)
  show ?thesis by auto
qed

end
