(* ===== verification/Rule_Catalog.thy ===== *)
theory Rule_Catalog
  imports External_Adapters Webhooks Quality_Commands "HOL-Library.List_Lexorder"
begin

text \<open>
  The command \<^verbatim>\<open>extract_verapdf_profile.py\<close>, which reads the validator's rules from its archive and writes the snapshot
  \<^verbatim>\<open>adapters/verification/pdfua1_catalog.json\<close>, and the snapshot itself as far as the severity tables are about it.
  Parameters: what opening the archive answers, the XML parser, and writing a file.  Tags are in the form
  \<^verbatim>\<open>{namespace}name\<close> that the parser gives them; paths are as \<^verbatim>\<open>str(Path(...))\<close> gives them; texts are Latin-1.
  The lemmas show that every rule of the profile is in the snapshot, in the order of the clauses, which keys stop the sort,
  and that the severity tables fit the catalog.
\<close>

section \<open>The order of clauses\<close>

text \<open>A part of a sort key: an \<open>int\<close> or a \<open>str\<close>.\<close>

datatype key_part = Number nat | Word string

text \<open>\<open>re.split(r"[.,\s]+", clause)\<close>.\<close>

definition clause_separator :: "char \<Rightarrow> bool" where
  "clause_separator c \<longleftrightarrow> c = CHR ''.'' \<or> c = CHR '','' \<or> is_space c"

function split_clause :: "string \<Rightarrow> string list" where
  "split_clause s =
     (case dropWhile (\<lambda>c. \<not> clause_separator c) s of
        [] \<Rightarrow> [s]
      | c # rest \<Rightarrow> takeWhile (\<lambda>c. \<not> clause_separator c) s # split_clause (dropWhile clause_separator rest))"
  by pat_completeness auto
termination
proof (relation "measure length")
  fix s c rest
  assume "dropWhile (\<lambda>c. \<not> clause_separator c) s = c # rest"
  then have "length (c # rest) \<le> length s" by (metis length_dropWhile_le)
  then show "(dropWhile clause_separator rest, s) \<in> measure length"
    using length_dropWhile_le [of clause_separator rest] by simp
qed simp

text \<open>\<open>int(part) if part.isdigit() else part\<close>: the superscript digits are digits that \<open>int\<close> refuses.\<close>

definition is_superscript :: "char \<Rightarrow> bool" where
  "is_superscript c \<longleftrightarrow> (of_char c :: nat) \<in> {178, 179, 185}"

definition read_part :: "string \<Rightarrow> exn + key_part" where
  "read_part s =
     (if s \<noteq> '''' \<and> (\<forall>c \<in> set s. is_digit c \<or> is_superscript c)
      then if \<forall>c \<in> set s. is_digit c then Inr (Number (digits_value s))
           else Inl (ValueError ''invalid literal for int() with base 10'')
      else Inr (Word s))"

fun all_right :: "('e + 'a) list \<Rightarrow> 'e + 'a list" where
  "all_right [] = Inr []"
| "all_right (Inl e # xs) = Inl e"
| "all_right (Inr x # xs) = map_sum id (\<lambda>ys. x # ys) (all_right xs)"

definition clause_key :: "string \<Rightarrow> exn + key_part list" where
  "clause_key s = all_right (map read_part (split_clause s))"

text \<open>
  Comparing two keys with \<open><\<close>: at the first place where they differ, and a \<open>TypeError\<close> (\<open>None\<close>) if an \<open>int\<close> meets a \<open>str\<close>
  there.
\<close>

fun part_less :: "key_part \<Rightarrow> key_part \<Rightarrow> bool option" where
  "part_less (Number m) (Number n) = Some (m < n)"
| "part_less (Word s) (Word t) = Some (s < t)"
| "part_less _ _ = None"

fun key_less :: "key_part list \<Rightarrow> key_part list \<Rightarrow> bool option" where
  "key_less xs [] = Some False"
| "key_less [] (y # ys) = Some True"
| "key_less (x # xs) (y # ys) = (if x = y then key_less xs ys else part_less x y)"

definition comparable :: "key_part list \<Rightarrow> key_part list \<Rightarrow> bool" where
  "comparable a b \<longleftrightarrow> key_less a b \<noteq> None"

text \<open>
  A linear order that agrees with the comparison wherever it answers.
\<close>

instantiation key_part :: linorder
begin

fun less_eq_key_part :: "key_part \<Rightarrow> key_part \<Rightarrow> bool" where
  "less_eq_key_part (Number m) (Number n) = (m \<le> n)"
| "less_eq_key_part (Number m) (Word t) = True"
| "less_eq_key_part (Word s) (Number n) = False"
| "less_eq_key_part (Word s) (Word t) = (s \<le> t)"

definition less_key_part :: "key_part \<Rightarrow> key_part \<Rightarrow> bool" where
  "less_key_part a b \<longleftrightarrow> a \<le> b \<and> \<not> b \<le> a"

instance
proof
  fix a b c :: key_part
  show "a < b \<longleftrightarrow> a \<le> b \<and> \<not> b \<le> a" by (simp add: less_key_part_def)
  show "a \<le> a" by (cases a) simp_all
  show "a \<le> b \<Longrightarrow> b \<le> c \<Longrightarrow> a \<le> c" by (cases a; cases b; cases c) auto
  show "a \<le> b \<Longrightarrow> b \<le> a \<Longrightarrow> a = b" by (cases a; cases b) auto
  show "a \<le> b \<or> b \<le> a" by (cases a; cases b) auto
qed

end

lemma part_less_Some: "part_less x y = Some b \<Longrightarrow> b = (x < y)"
  by (cases x; cases y) (auto simp: less_key_part_def)

lemma key_less_Some: "key_less a b = Some r \<Longrightarrow> r = (a < b)"
proof (induction a b arbitrary: r rule: key_less.induct)
  case (3 x xs y ys)
  then show ?case by (cases "x = y") (auto dest: part_less_Some)
qed simp_all

lemma comparable_refl [simp]: "comparable a a"
  by (induction a) (simp_all add: comparable_def)

lemma comparable_sym: "comparable a b \<longleftrightarrow> comparable b a"
proof (induction a b rule: key_less.induct)
  case (1 xs)
  show ?case by (cases xs) (simp_all add: comparable_def)
next
  case (2 y ys)
  show ?case by (simp add: comparable_def)
next
  case (3 x xs y ys)
  have "part_less x y \<noteq> None \<longleftrightarrow> part_less y x \<noteq> None" by (cases x; cases y) simp_all
  with 3 show ?case by (auto simp: comparable_def)
qed

section \<open>The command\<close>

record catalog_rule =
  cr_clause :: string
  cr_test_number :: string
  cr_specification :: string
  cr_object :: string
  cr_tags :: string
  cr_description :: string

definition PROFILE_ENTRY :: string where
  "PROFILE_ENTRY = ''org/verapdf/pdfa/validation/PDFUA-1.xml''"

definition vp :: "string \<Rightarrow> string" where
  "vp t = ''{http://www.verapdf.org/ValidationProfile}'' @ t"

text \<open>\<open>.//\<close>: the elements below an element, in the order of the document.\<close>

fun descendants :: "xml \<Rightarrow> xml list" where
  "descendants (Elem t a x ks) = concat (map (\<lambda>k. k # descendants k) ks)"

definition profile_rules :: "xml \<Rightarrow> xml list" where
  "profile_rules doc =
     concat (map (xml_findall [vp ''rule'']) (filter (\<lambda>e. tag e = vp ''rules'') (descendants doc)))"

text \<open>The body of the loop; a rule without an identifier is left out.\<close>

definition read_catalog_rule :: "xml \<Rightarrow> catalog_rule option" where
  "read_catalog_rule rule =
     (case xml_find [vp ''id''] rule of
        None \<Rightarrow> None
      | Some rule_id \<Rightarrow>
          Some \<lparr>cr_clause = xml_get_or ''clause'' rule_id '''',
                cr_test_number = xml_get_or ''testNumber'' rule_id '''',
                cr_specification = xml_get_or ''specification'' rule_id '''',
                cr_object = xml_get_or ''object'' rule '''',
                cr_tags = xml_get_or ''tags'' rule '''',
                cr_description = strip (case xml_findtext [vp ''description''] rule of None \<Rightarrow> '''' | Some t \<Rightarrow> t)\<rparr>)"

definition read_catalog :: "xml \<Rightarrow> catalog_rule list" where
  "read_catalog doc = List.map_filter read_catalog_rule (profile_rules doc)"

text \<open>
  \<open>rules.sort(key=...)\<close>: the keys are computed first.  The sort is stable and only compares; with two keys that cannot be
  compared it cannot tell apart two orders of them without comparing an \<open>int\<close> with a \<open>str\<close>, so it raises.
\<close>

definition keyed_rules :: "catalog_rule list \<Rightarrow> exn + (key_part list \<times> catalog_rule) list" where
  "keyed_rules rules = all_right (map (\<lambda>r. map_sum id (\<lambda>k. (k, r)) (clause_key (cr_clause r))) rules)"

definition sort_rules :: "catalog_rule list \<Rightarrow> exn + catalog_rule list" where
  "sort_rules rules =
     (case keyed_rules rules of
        Inl e \<Rightarrow> Inl e
      | Inr keyed \<Rightarrow>
          if \<forall>p \<in> set keyed. \<forall>q \<in> set keyed. comparable (fst p) (fst q)
          then Inr (map snd (sort_key fst keyed))
          else Inl (OtherException ''TypeError''))"

text \<open>\<open>re.search(r"cli-(.+)\.jar$", name)\<close>: the group of the leftmost match; \<open>$\<close> also holds before a last line break.\<close>

definition jar_version :: "string \<Rightarrow> string option" where
  "jar_version s =
     (let body = (if s \<noteq> '''' \<and> last s = CHR ''\<newline>'' then butlast s else s);
          v = take (length body - 4) body
      in if endswith body ''.jar'' \<and> v \<noteq> '''' \<and> CHR ''\<newline>'' \<notin> set v then Some v else None)"

fun version_match :: "string \<Rightarrow> string option" where
  "version_match [] = None"
| "version_match (c # s) =
     (case (if startswith (c # s) ''cli-'' then jar_version (drop 4 (c # s)) else None) of
        Some v \<Rightarrow> Some v
      | None \<Rightarrow> version_match s)"

text \<open>\<open>json.dumps(value, indent=2)\<close>; \<open>n\<close> is the indentation of the line the value stands on.\<close>

definition new_line :: "nat \<Rightarrow> string" where
  "new_line n = CHR ''\<newline>'' # replicate n CHR '' ''"

fun dumps_indent :: "nat \<Rightarrow> json \<Rightarrow> string" where
  "dumps_indent n (JList []) = ''[]''"
| "dumps_indent n (JList (x # xs)) =
     ''['' @ join '','' (map (\<lambda>y. new_line (n + 2) @ dumps_indent (n + 2) y) (x # xs)) @ new_line n @ '']''"
| "dumps_indent n (JObject []) = ''{}''"
| "dumps_indent n (JObject (kv # kvs)) =
     ''{'' @ join '','' (map (\<lambda>(k, v). new_line (n + 2) @ json_string k @ '': '' @ dumps_indent (n + 2) v) (kv # kvs))
     @ new_line n @ ''}''"
| "dumps_indent n v = dumps v"

definition rule_entry :: "catalog_rule \<Rightarrow> json" where
  "rule_entry r = JObject
     [(''clause'', JString (cr_clause r)), (''test_number'', JString (cr_test_number r)),
      (''specification'', JString (cr_specification r)), (''object'', JString (cr_object r)),
      (''tags'', JString (cr_tags r)), (''description'', JString (cr_description r))]"

definition json_text :: "string option \<Rightarrow> json" where
  "json_text t = (case t of None \<Rightarrow> JNull | Some s \<Rightarrow> JString s)"

definition snapshot :: "string \<Rightarrow> xml \<Rightarrow> catalog_rule list \<Rightarrow> json" where
  "snapshot jar_name doc rules = JObject
     [(''source_jar'', JString jar_name), (''verapdf_version'', json_text (version_match jar_name)),
      (''flavour'', json_text (xml_get ''flavour'' doc)), (''rule_count'', JInt (int (length rules))),
      (''rules'', JList (map rule_entry rules))]"

text \<open>Opening the archive and reading the entry: the entry, no such entry, no archive, or another exception.\<close>

datatype jar_answer = Entry bytes | NoEntry | BadZipFile string | JarRaises exn

record jar_env =
  path_exists :: "string \<Rightarrow> bool"
  read_jar :: "string \<Rightarrow> string \<Rightarrow> jar_answer"
  parse_xml :: "bytes \<Rightarrow> exn + xml"
  write_file :: "string \<Rightarrow> string \<Rightarrow> exn option"

definition read_profile :: "jar_env \<Rightarrow> string \<Rightarrow> command_stop + bytes" where
  "read_profile e jar_path =
     (if \<not> path_exists e jar_path then Inl (CommandError (''No such file: '' @ jar_path))
      else case read_jar e jar_path PROFILE_ENTRY of
             Entry b \<Rightarrow> Inr b
           | NoEntry \<Rightarrow> Inl (CommandError (jar_path @ '' has no '' @ PROFILE_ENTRY @ '' entry '' @ [CHR 0xE2, CHR 0x80, CHR 0x94]
                                          @ '' is this really a veraPDF CLI jar?''))
           | BadZipFile m \<Rightarrow> Inl (CommandError (jar_path @ '' is not a valid jar/zip: '' @ m))
           | JarRaises x \<Rightarrow> Inl (Uncaught x))"

definition str_option :: "string option \<Rightarrow> string" where
  "str_option t = (case t of None \<Rightarrow> ''None'' | Some s \<Rightarrow> s)"

text \<open>\<open>Command.handle\<close>: what is printed and what has been written.\<close>

definition extract_profile :: "jar_env \<Rightarrow> string \<Rightarrow> string \<Rightarrow> command_stop + string \<times> string" where
  "extract_profile e jar_path output_path =
     (case read_profile e jar_path of
        Inl x \<Rightarrow> Inl x
      | Inr profile_xml \<Rightarrow>
          case parse_xml e profile_xml of
            Inl x \<Rightarrow> Inl (Uncaught x)
          | Inr doc \<Rightarrow>
              case sort_rules (read_catalog doc) of
                Inl x \<Rightarrow> Inl (Uncaught x)
              | Inr rules \<Rightarrow>
                  let name = basename jar_path;
                      content = dumps_indent 0 (snapshot name doc rules) @ ''\<newline>''
                  in case write_file e output_path content of
                       Some x \<Rightarrow> Inl (Uncaught x)
                     | None \<Rightarrow>
                         Inr (''Wrote '' @ str_nat (length rules) @ '' rules ('' @ str_option (version_match name) @ '', ''
                              @ str_option (xml_get ''flavour'' doc) @ '') to '' @ output_path, content))"

section \<open>The checked-in catalog\<close>

text \<open>The clause and the test number of every rule of the snapshot, in its order, and its other entries.\<close>

definition catalog_rules :: "(string \<times> string list) list" where
  "catalog_rules =
    [(''5'', [''1'', ''2'', ''3'', ''4'', ''5'']), (''6.1'', [''1'']), (''6.2'', [''1'']),
     (''7.1'', [''1'', ''2'', ''3'', ''4'', ''5'', ''6'', ''7'', ''8'', ''9'', ''10'', ''11'', ''12'']),
     (''7.2'', [''2'', ''3'', ''4'', ''5'', ''6'', ''7'', ''8'', ''9'', ''10'', ''11'', ''12'', ''13'', ''14'', ''15'', ''16'',
        ''17'', ''18'', ''19'', ''20'', ''21'', ''22'', ''23'', ''24'', ''25'', ''26'', ''27'', ''28'', ''29'', ''30'', ''31'',
        ''32'', ''33'', ''34'', ''36'', ''37'', ''38'', ''39'', ''40'', ''41'', ''42'', ''43'']),
     (''7.3'', [''1'']), (''7.4.2'', [''1'']), (''7.4.4'', [''1'', ''2'', ''3'']), (''7.5'', [''1'', ''2'']), (''7.7'', [''1'']),
     (''7.9'', [''1'', ''2'']), (''7.10'', [''1'', ''2'']), (''7.11'', [''1'']), (''7.15'', [''1'']), (''7.16'', [''1'']),
     (''7.18.1'', [''1'', ''2'', ''3'']), (''7.18.2'', [''1'']), (''7.18.3'', [''1'']), (''7.18.4'', [''1'', ''2'']),
     (''7.18.5'', [''1'', ''2'']), (''7.18.6.2'', [''1'', ''2'']), (''7.18.8'', [''1'']), (''7.20'', [''1'', ''2'']),
     (''7.21.3.1'', [''1'']), (''7.21.3.2'', [''1'']), (''7.21.3.3'', [''1'', ''2'', ''3'']), (''7.21.4.1'', [''1'', ''2'']),
     (''7.21.4.2'', [''1'', ''2'']), (''7.21.5'', [''1'']), (''7.21.6'', [''1'', ''2'', ''3'', ''4'']), (''7.21.7'', [''1'', ''2'']),
     (''7.21.8'', [''1''])]"

definition catalog_pairs :: "(string \<times> string) list" where
  "catalog_pairs = concat (map (\<lambda>(cl, tests). map (\<lambda>t. (cl, t)) tests) catalog_rules)"

section \<open>The snapshot holds the profile's rules\<close>

lemma all_right_Inr: "all_right xs = Inr ys \<longleftrightarrow> xs = map Inr ys"
proof (induction xs arbitrary: ys rule: all_right.induct)
  case (3 x xs)
  show ?case
  proof (cases "all_right xs")
    case (Inl e)
    with "3.IH" have "xs \<noteq> map Inr zs" for zs by auto
    with Inl show ?thesis by (cases ys) auto
  next
    case (Inr zs)
    with "3.IH" have "xs = map Inr zs" by blast
    with Inr show ?thesis by (cases ys) (auto simp: inj_def dest: map_injective)
  qed
qed auto

lemma map_sum_right_iff: "map_sum f g x = Inr y \<longleftrightarrow> (\<exists>z. x = Inr z \<and> g z = y)"
  by (cases x) auto

lemma keyed_rules_Inr:
  "keyed_rules rules = Inr keyed \<longleftrightarrow>
   map snd keyed = rules \<and> (\<forall>(k, r) \<in> set keyed. clause_key (cr_clause r) = Inr k)"
proof -
  have "map (\<lambda>r. map_sum id (\<lambda>k. (k, r)) (clause_key (cr_clause r))) rules = map Inr keyed \<longleftrightarrow>
        map snd keyed = rules \<and> (\<forall>(k, r) \<in> set keyed. clause_key (cr_clause r) = Inr k)"
  proof (induction rules arbitrary: keyed)
    case (Cons r rules)
    show ?case
    proof (cases keyed)
      case kp: (Cons p ps)
      have "map_sum id (\<lambda>k. (k, r)) (clause_key (cr_clause r)) = Inr p \<longleftrightarrow>
            snd p = r \<and> clause_key (cr_clause (snd p)) = Inr (fst p)"
        by (cases p) (auto simp: map_sum_right_iff)
      then show ?thesis using Cons.IH [of ps] by (simp only: kp list.map list.inject list.set ball_simps case_prod_unfold) blast
    qed simp
  qed auto
  then show ?thesis by (simp add: keyed_rules_def all_right_Inr)
qed

text \<open>The comparison of the sort answers that \<open>b\<close> does not come before \<open>a\<close>.\<close>

definition in_order :: "catalog_rule \<Rightarrow> catalog_rule \<Rightarrow> bool" where
  "in_order a b \<longleftrightarrow>
     (case (clause_key (cr_clause b), clause_key (cr_clause a)) of
        (Inr kb, Inr ka) \<Rightarrow> key_less kb ka = Some False
      | _ \<Rightarrow> False)"

lemma comparable_not_less: "comparable b a \<Longrightarrow> a \<le> b \<Longrightarrow> key_less b a = Some False"
  by (cases "key_less b a") (auto simp: comparable_def dest: key_less_Some)

lemma sort_rules_Inr:
  assumes "sort_rules rules = Inr rs"
  shows "mset rs = mset rules \<and> sorted_wrt in_order rs \<and>
     (\<forall>cl. filter (\<lambda>r. cr_clause r = cl) rs = filter (\<lambda>r. cr_clause r = cl) rules)"
proof -
  obtain keyed where k: "keyed_rules rules = Inr keyed"
    and c: "\<forall>p \<in> set keyed. \<forall>q \<in> set keyed. comparable (fst p) (fst q)"
    and rs: "rs = map snd (sort_key fst keyed)"
    using assms by (auto simp: sort_rules_def split: sum.splits if_splits)
  have keys: "map snd keyed = rules" "\<forall>(k, r) \<in> set keyed. clause_key (cr_clause r) = Inr k"
    using k by (auto simp: keyed_rules_Inr)
  have kk: "p \<in> set keyed \<Longrightarrow> clause_key (cr_clause (snd p)) = Inr (fst p)" for p
    using keys(2) by (auto simp: case_prod_unfold)
  have "mset rs = mset rules" by (simp add: rs keys(1) [symmetric])
  moreover have "sorted_wrt in_order rs"
  proof -
    have "sorted_wrt (\<lambda>p q. fst p \<le> fst q) (sort_key fst keyed)"
      using sorted_sort_key [of fst keyed] by (simp add: sorted_wrt_map)
    then have "sorted_wrt (\<lambda>p q. in_order (snd p) (snd q)) (sort_key fst keyed)"
    proof (rule sorted_wrt_mono_rel [rotated])
      fix p q assume "p \<in> set (sort_key fst keyed)" "q \<in> set (sort_key fst keyed)" and le: "fst p \<le> fst q"
      then have pq: "p \<in> set keyed" "q \<in> set keyed" by simp_all
      then have "clause_key (cr_clause (snd p)) = Inr (fst p)" "clause_key (cr_clause (snd q)) = Inr (fst q)" by (simp_all add: kk)
      moreover have "key_less (fst q) (fst p) = Some False" using c pq le by (intro comparable_not_less) auto
      ultimately show "in_order (snd p) (snd q)" by (simp add: in_order_def)
    qed
    then show ?thesis by (simp add: rs sorted_wrt_map)
  qed
  moreover have "filter (\<lambda>r. cr_clause r = cl) rs = filter (\<lambda>r. cr_clause r = cl) rules" for cl
  proof -
    define here :: "(key_part list \<times> catalog_rule) list \<Rightarrow> _" where "here = filter (\<lambda>p. cr_clause (snd p) = cl)"

    have "here (sort_key fst keyed) = here keyed"
    proof (cases "here keyed")
      case Nil
      then show ?thesis by (auto simp: here_def filter_empty_conv)
    next
      case (Cons p ps)
      then have "p \<in> set (here keyed)" by simp
      then have p: "p \<in> set keyed" "cr_clause (snd p) = cl" by (simp_all add: here_def)
      have *: "q \<in> set keyed \<Longrightarrow> cr_clause (snd q) = cl \<Longrightarrow> fst q = fst p" for q
        using kk [OF p(1)] kk [of q] p(2) by simp
      have h: "here xs = filter (\<lambda>q. cr_clause (snd q) = cl) (filter (\<lambda>q. fst q = fst p) xs)" if "set xs \<subseteq> set keyed" for xs
        using that * by (auto simp: here_def intro!: filter_cong)
      show ?thesis by (subst (1 2) h) (simp_all only: sort_key_stable set_sort subset_refl)
    qed
    then show ?thesis by (simp add: rs keys(1) [symmetric] filter_map o_def here_def)
  qed
  ultimately show ?thesis by blast
qed

lemma extract_profile_Inr:
  assumes "extract_profile e jar_path output_path = Inr (printed, content)"
  obtains b doc rules where "read_profile e jar_path = Inr b" "parse_xml e b = Inr doc"
    "sort_rules (read_catalog doc) = Inr rules"
    "content = dumps_indent 0 (snapshot (basename jar_path) doc rules) @ ''\<newline>''"
    "write_file e output_path content = None"
  using assms by (auto simp: extract_profile_def Let_def split: sum.splits option.splits)

text \<open>C20: When the extraction command succeeds it has written one snapshot: it holds exactly the rules of the profile that have
  an identifier, each as often as in the profile, in the order that the sort's comparison of clauses gives, rules of one
  clause in the order of the profile, with their number.\<close>

theorem snapshot_keeps_every_rule:
  assumes "extract_profile e jar_path output_path = Inr (printed, content)"
    and "read_profile e jar_path = Inr b" and "parse_xml e b = Inr doc"
  shows "\<exists>rules. content = dumps_indent 0 (snapshot (basename jar_path) doc rules) @ ''\<newline>'' \<and>
     write_file e output_path content = None \<and>
     mset rules = image_mset (the \<circ> read_catalog_rule) (filter_mset (\<lambda>r. xml_find [vp ''id''] r \<noteq> None) (mset (profile_rules doc))) \<and>
     length rules = length (filter (\<lambda>r. xml_find [vp ''id''] r \<noteq> None) (profile_rules doc)) \<and>
     sorted_wrt in_order rules \<and>
     (\<forall>cl. filter (\<lambda>r. cr_clause r = cl) rules = filter (\<lambda>r. cr_clause r = cl) (read_catalog doc))"
proof -
  obtain rules where r: "sort_rules (read_catalog doc) = Inr rules"
    "content = dumps_indent 0 (snapshot (basename jar_path) doc rules) @ ''\<newline>''" "write_file e output_path content = None"
    using extract_profile_Inr [OF assms(1)] assms(2,3) by (metis sum.inject(2))
  have ids: "read_catalog_rule x = None \<longleftrightarrow> xml_find [vp ''id''] x = None" for x
    by (simp add: read_catalog_rule_def split: option.split)
  have cat: "read_catalog doc = map (the \<circ> read_catalog_rule) (filter (\<lambda>r. xml_find [vp ''id''] r \<noteq> None) (profile_rules doc))"
    by (simp add: read_catalog_def List.map_filter_def ids)
  from sort_rules_Inr [OF r(1)] have m: "mset rules = mset (read_catalog doc)" by blast
  then have "length rules = length (read_catalog doc)" by (metis size_mset)
  with r(2,3) sort_rules_Inr [OF r(1)] m show ?thesis by (auto simp: cat mset_filter)
qed

definition demo_rule :: "string \<Rightarrow> string \<Rightarrow> xml" where
  "demo_rule cl t =
     Elem (vp ''rule'') [(''object'', ''PDDocument'')] None
       [Elem (vp ''id'') [(''clause'', cl), (''testNumber'', t)] None [], Elem (vp ''description'') [] (Some '' about it '') []]"

definition demo_profile :: "xml list \<Rightarrow> xml" where
  "demo_profile rules = Elem (vp ''profile'') [(''flavour'', ''PDFUA_1'')] None [Elem (vp ''rules'') [] None rules]"

definition demo_jar :: "xml \<Rightarrow> jar_env" where
  "demo_jar doc =
     \<lparr>path_exists = (\<lambda>p. True), read_jar = (\<lambda>p entry. Entry []), parse_xml = (\<lambda>b. Inr doc), write_file = (\<lambda>p c. None)\<rparr>"

definition demo_snapshot :: "(string \<times> string) list" where
  "demo_snapshot =
     (case sort_rules (read_catalog (demo_profile [demo_rule ''7.10'' ''1'', demo_rule ''7.2'' ''2'', demo_rule ''7.2'' ''1'', demo_rule ''5'' ''1''])) of
        Inr rs \<Rightarrow> map (\<lambda>r. (cr_clause r, cr_test_number r)) rs
      | Inl _ \<Rightarrow> [])"

theorem snapshot_keeps_every_rule_witness:
  "(\<exists>printed content. extract_profile (demo_jar (demo_profile [demo_rule ''7.10'' ''1'', demo_rule ''7.2'' ''1''])) ''/opt/cli-1.30.2.jar'' ''/out.json''
       = Inr (printed, content)) \<and>
   demo_snapshot = [(''5'', ''1''), (''7.2'', ''2''), (''7.2'', ''1''), (''7.10'', ''1'')] \<and>
   (\<exists>rules. length rules = (2 :: nat) \<and> sorted_wrt in_order rules)"
proof -
  let ?doc = "demo_profile [demo_rule ''7.10'' ''1'', demo_rule ''7.2'' ''1'']"
  have ok: "\<not> Sum_Type.isl (extract_profile (demo_jar ?doc) ''/opt/cli-1.30.2.jar'' ''/out.json'')" by code_simp
  then obtain printed content where x: "extract_profile (demo_jar ?doc) ''/opt/cli-1.30.2.jar'' ''/out.json'' = Inr (printed, content)"
    by (cases "extract_profile (demo_jar ?doc) ''/opt/cli-1.30.2.jar'' ''/out.json''") auto
  have b: "read_profile (demo_jar ?doc) ''/opt/cli-1.30.2.jar'' = Inr []" by (simp add: read_profile_def demo_jar_def)
  have d: "parse_xml (demo_jar ?doc) [] = Inr ?doc" by (simp add: demo_jar_def)
  have two: "length (filter (\<lambda>r. xml_find [vp ''id''] r \<noteq> None) (profile_rules ?doc)) = 2" by code_simp
  from snapshot_keeps_every_rule [OF x b d] have "\<exists>rules. length rules = 2 \<and> sorted_wrt in_order rules" unfolding two by blast
  moreover have "demo_snapshot = [(''5'', ''1''), (''7.2'', ''2''), (''7.2'', ''1''), (''7.10'', ''1'')]" by code_simp
  ultimately show ?thesis using x by blast
qed

text \<open>
  The default that the command supplies for a rule without a clause cannot be ordered beside a numbered clause, so one such rule
  stops it.
\<close>

theorem rule_without_a_clause_stops_extraction:
  assumes "read_profile e jar_path = Inr b" and "parse_xml e b = Inr doc"
    and "\<exists>r \<in> set (read_catalog doc). cr_clause r = ''''"
    and "\<exists>s \<in> set (read_catalog doc). \<exists>n ks. clause_key (cr_clause s) = Inr (Number n # ks)"
  shows "\<exists>x. extract_profile e jar_path output_path = Inl (Uncaught x)"
proof -
  have empty_key: "clause_key '''' = Inr [Word '''']" by (simp add: clause_key_def read_part_def)
  have "\<nexists>rs. sort_rules (read_catalog doc) = Inr rs"
  proof
    assume "\<exists>rs. sort_rules (read_catalog doc) = Inr rs"
    then obtain keyed where k: "keyed_rules (read_catalog doc) = Inr keyed"
      and c: "\<forall>p \<in> set keyed. \<forall>q \<in> set keyed. comparable (fst p) (fst q)"
      by (auto simp: sort_rules_def split: sum.splits if_splits)
    from assms(3,4) obtain r s n ks where rs: "r \<in> set (read_catalog doc)" "cr_clause r = ''''"
      "s \<in> set (read_catalog doc)" "clause_key (cr_clause s) = Inr (Number n # ks)" by blast
    have m: "set (read_catalog doc) = snd ` set keyed" using k by (metis keyed_rules_Inr set_map)
    from m rs(1,3) obtain kr ksr where kr: "(kr, r) \<in> set keyed" "(ksr, s) \<in> set keyed" by auto
    with k rs(2,4) empty_key have "kr = [Word '''']" "ksr = Number n # ks" by (auto simp: keyed_rules_Inr)
    with kr c have "comparable [Word ''''] (Number n # ks)" by fastforce
    then show False by (simp add: comparable_def)
  qed
  then show ?thesis using assms(1,2)
    by (auto simp: extract_profile_def split: sum.split)
qed

section \<open>The severity tables fit the catalog\<close>

lemma catalog_classified: "list_all (\<lambda>(cl, t). classify cl t \<noteq> UNCLASSIFIED) catalog_pairs"
  by code_simp

lemma catalog_covers_tables:
  "list_all (\<lambda>k. list_ex (\<lambda>(cl, t). k = cl @ ''-'' @ t) catalog_pairs) (map fst RULE_SEVERITY)"
  "list_all (\<lambda>k. list_ex (\<lambda>(cl, t). clause_matches cl k) catalog_pairs) (map fst CLAUSE_SEVERITY)"
  by code_simp+

lemma catalog_clauses: "list_all (\<lambda>(cl, t). CHR ''-'' \<notin> set cl) catalog_pairs"
  by code_simp

lemma clause_before_dash:
  assumes "cl @ ''-'' @ t = cl' @ ''-'' @ t'" and "CHR ''-'' \<notin> set cl" and "CHR ''-'' \<notin> set cl'"
  shows "cl = cl' \<and> t = t'"
proof -
  have *: "takeWhile (\<lambda>c. c \<noteq> CHR ''-'') (x @ ''-'' @ y) = x" if "CHR ''-'' \<notin> set x" for x y
    using that by (subst takeWhile_append2) auto
  have "cl = cl'" using assms * by metis
  with assms(1) show ?thesis by simp
qed

lemma rule_severity_only_for_the_catalog:
  assumes "(cl, t) \<notin> set catalog_pairs" and "CHR ''-'' \<notin> set cl"
  shows "map_of RULE_SEVERITY (cl @ ''-'' @ t) = None"
proof (rule ccontr)
  assume "map_of RULE_SEVERITY (cl @ ''-'' @ t) \<noteq> None"
  then have "cl @ ''-'' @ t \<in> set (map fst RULE_SEVERITY)" by (simp add: map_of_eq_None_iff)
  then obtain cl' t' where "(cl', t') \<in> set catalog_pairs" "cl @ ''-'' @ t = cl' @ ''-'' @ t'"
    using catalog_covers_tables(1) by (fastforce simp: list_all_iff list_ex_iff)
  moreover from this(1) have "CHR ''-'' \<notin> set cl'" using catalog_clauses by (auto simp: list_all_iff)
  ultimately show False using clause_before_dash assms by blast
qed

lemma new_general_rule_unclassified:
  assumes "(cl, t) \<notin> set catalog_pairs" and "cl = ''7.1'' \<or> cl = ''7.2''"
  shows "classify cl t = UNCLASSIFIED"
proof -
  have none: "map_of RULE_SEVERITY (cl @ ''-'' @ t) = None"
    using assms by (intro rule_severity_only_for_the_catalog) auto
  have "best_match cl (map fst CLAUSE_SEVERITY) '''' = ''''"
    using assms(2) by (elim disjE; hypsubst) code_simp+
  then show ?thesis using none by (simp add: classify_def)
qed

lemma read_rules_fields:
  "read_rules int_of rules = Inr frs \<Longrightarrow>
   map (\<lambda>r. (fr_clause r, fr_test_number r)) frs = map (\<lambda>e. (xml_get_or ''clause'' e '''', xml_get_or ''testNumber'' e '''')) rules \<and>
   (\<forall>r \<in> set frs. fr_severity r = classify (fr_clause r) (fr_test_number r))"
  by (induction rules arbitrary: frs) (auto simp: Let_def map_sum_right_iff split: option.splits)

text \<open>C18: A report of the validator names each failed rule with a severity above unclassified if the rule is in the checked-in catalog;
  a rule of the two mixed clauses that the catalog does not know stays unclassified rather than taking a neighbour's severity;
  and every entry of both severity tables is about a rule of the catalog.\<close>

theorem severities_cover_the_catalog:
  assumes "read_rules int_of rules = Inr frs"
  shows "(\<forall>r \<in> set frs. (fr_clause r, fr_test_number r) \<in> set catalog_pairs \<longrightarrow> fr_severity r \<noteq> UNCLASSIFIED) \<and>
     (\<forall>r \<in> set frs. fr_clause r \<in> {''7.1'', ''7.2''} \<and> (fr_clause r, fr_test_number r) \<notin> set catalog_pairs
        \<longrightarrow> fr_severity r = UNCLASSIFIED) \<and>
     map fr_clause frs = map (\<lambda>e. xml_get_or ''clause'' e '''') rules \<and>
     (\<forall>k \<in> fst ` set RULE_SEVERITY. \<exists>(cl, t) \<in> set catalog_pairs. k = cl @ ''-'' @ t) \<and>
     (\<forall>k \<in> fst ` set CLAUSE_SEVERITY. \<exists>(cl, t) \<in> set catalog_pairs. clause_matches cl k)"
proof (intro conjI ballI impI)
  note fields = read_rules_fields [OF assms]
  show "fr_severity r \<noteq> UNCLASSIFIED" if "r \<in> set frs" "(fr_clause r, fr_test_number r) \<in> set catalog_pairs" for r
    using that fields catalog_classified by (auto simp: list_all_iff)
  show "fr_severity r = UNCLASSIFIED"
    if "r \<in> set frs" "fr_clause r \<in> {''7.1'', ''7.2''} \<and> (fr_clause r, fr_test_number r) \<notin> set catalog_pairs" for r
    using that fields new_general_rule_unclassified [of "fr_clause r" "fr_test_number r"] by auto
  have "map fst (map (\<lambda>r. (fr_clause r, fr_test_number r)) frs) =
        map fst (map (\<lambda>e. (xml_get_or ''clause'' e '''', xml_get_or ''testNumber'' e '''')) rules)"
    using fields by metis
  then show "map fr_clause frs = map (\<lambda>e. xml_get_or ''clause'' e '''') rules" by (simp add: o_def)
  show "\<exists>(cl, t) \<in> set catalog_pairs. k = cl @ ''-'' @ t" if "k \<in> fst ` set RULE_SEVERITY" for k
    using that catalog_covers_tables(1) by (simp only: list_all_iff list_ex_iff set_map)
  show "\<exists>(cl, t) \<in> set catalog_pairs. clause_matches cl k" if "k \<in> fst ` set CLAUSE_SEVERITY" for k
    using that catalog_covers_tables(2) by (simp only: list_all_iff list_ex_iff set_map)
qed

definition demo_failed :: "xml list" where
  "demo_failed = [Elem ''rule'' [(''clause'', ''7.21.7''), (''testNumber'', ''2'')] None [],
                  Elem ''rule'' [(''clause'', ''7.2''), (''testNumber'', ''44'')] None []]"

theorem severities_cover_the_catalog_witness:
  "(\<exists>frs. read_rules (\<lambda>t. None) demo_failed = Inr frs \<and> map fr_clause frs = [''7.21.7'', ''7.2''] \<and>
      map fr_severity frs = [MINOR, UNCLASSIFIED]) \<and>
   (''7.2'', ''44'') \<notin> set catalog_pairs \<and> (''7.21.7'', ''2'') \<in> set catalog_pairs"
proof -
  have sev: "case read_rules (\<lambda>t. None) demo_failed of Inr frs \<Rightarrow> map fr_severity frs = [MINOR, UNCLASSIFIED] | Inl _ \<Rightarrow> False"
    by code_simp
  then obtain frs where frs: "read_rules (\<lambda>t. None) demo_failed = Inr frs" "map fr_severity frs = [MINOR, UNCLASSIFIED]"
    by (auto split: sum.splits)
  have "map fr_clause frs = [''7.21.7'', ''7.2'']"
    using severities_cover_the_catalog [OF frs(1)] by (simp add: demo_failed_def xml_get_or_def xml_get_def)
  with frs have here: "\<exists>frs. read_rules (\<lambda>t. None) demo_failed = Inr frs \<and> map fr_clause frs = [''7.21.7'', ''7.2''] \<and>
      map fr_severity frs = [MINOR, UNCLASSIFIED]" by (intro exI [of _ frs] conjI)
  have new: "(''7.2'', ''44'') \<notin> set catalog_pairs" by code_simp
  have old: "(''7.21.7'', ''2'') \<in> set catalog_pairs" by code_simp
  show ?thesis by (intro conjI here new old)
qed

text \<open>The snapshot is in the order that the command writes: sorting it changes nothing.\<close>

lemma catalog_is_in_order:
  "case all_right (map (clause_key \<circ> fst) catalog_rules) of
     Inr ks \<Rightarrow> sorted_wrt (\<lambda>a b. key_less b a = Some False) ks
   | Inl _ \<Rightarrow> False"
  by code_simp

end
