(* ===== verification/Site_Runs.thy ===== *)
theory Site_Runs
  imports Web_Requests Pipeline_Theorems
begin

text \<open>
  The site as a whole: requests to the API, the worker's tasks, webhook deliveries, and the administrators' changes of
  accounts and of the retry floor, in any order and any number.  A task is one step (there is one worker, and it
  runs its tasks one after the other); what other requests commit while a request is served is any change of the same
  kind.  The lemmas show that every step lets the attempts only evolve, so that what a caller was told of a finished attempt
  stays true.
\<close>

section \<open>How attempts evolve\<close>

text \<open>Everything that identifies an attempt stays; a finished one does not change at all.\<close>

definition later_row :: "Remediation \<Rightarrow> Remediation \<Rightarrow> bool" where
  "later_row r r' \<longleftrightarrow>
     rid r' = rid r \<and> document r' = document r \<and> source_pdf_uri r' = source_pdf_uri r \<and>
     original_filename r' = original_filename r \<and> pipeline_version r' = pipeline_version r \<and>
     created_at r' = created_at r \<and> (finished r \<longrightarrow> r' = r)"

definition evolves :: "world \<Rightarrow> world \<Rightarrow> bool" where
  "evolves w w' \<longleftrightarrow> (\<forall>r \<in> set (remediations w). \<exists>r' \<in> set (remediations w'). later_row r r')"

lemma later_row_refl [simp]: "later_row r r"
  by (simp add: later_row_def)

lemma later_row_trans: "later_row r r' \<Longrightarrow> later_row r' r'' \<Longrightarrow> later_row r r''"
  by (auto simp: later_row_def)

lemma evolves_trans [trans]: "evolves w w' \<Longrightarrow> evolves w' w'' \<Longrightarrow> evolves w w''"
  unfolding evolves_def by (meson later_row_trans)

lemma evolves_append: "remediations w' = remediations w @ rows \<Longrightarrow> evolves w w'"
  unfolding evolves_def by (metis UnI1 later_row_refl set_append)

lemma evolves_same: "remediations w' = remediations w \<Longrightarrow> evolves w w'"
  by (rule evolves_append [of _ _ "[]"]) simp

lemma evolves_update:
  assumes "remediations w' = update_rows p f (remediations w)"
    and "\<And>r. r \<in> set (remediations w) \<Longrightarrow> p r \<Longrightarrow> later_row r (f r)"
  shows "evolves w w'"
  unfolding evolves_def
proof
  fix r assume r: "r \<in> set (remediations w)"
  have "(if p r then f r else r) \<in> set (remediations w')" using r by (auto simp: assms(1) set_update_rows)
  moreover have "later_row r (if p r then f r else r)" using assms(2) [OF r] by simp
  ultimately show "\<exists>r' \<in> set (remediations w'). later_row r r'" by blast
qed

text \<open>What every step keeps: the constraints, and the attempts evolve.\<close>

definition keeps_attempts :: "world \<Rightarrow> world \<Rightarrow> bool" where
  "keeps_attempts w w' \<longleftrightarrow> (tables_ok w \<longrightarrow> tables_ok w' \<and> evolves w w')"

lemma keeps_attempts_trans: "keeps_attempts w w' \<Longrightarrow> keeps_attempts w' w'' \<Longrightarrow> keeps_attempts w w''"
  unfolding keeps_attempts_def using evolves_trans by blast

lemma keeps_attempts_same:
  "remediations w' = remediations w \<Longrightarrow> (tables_ok w \<Longrightarrow> tables_ok w') \<Longrightarrow> keeps_attempts w w'"
  by (simp add: keeps_attempts_def evolves_same)

section \<open>A submission\<close>

lemma unfinished_row_later: "unfinished r \<Longrightarrow> later_row r (r\<lparr>last_enqueued_at := t\<rparr>)"
  using finished_iff_not_unfinished [of r] by (simp add: later_row_def document_def)

lemma claim_enqueue_keeps_attempts: "keeps_attempts w (snd (claim_enqueue e r created w))"
proof -
  obtain b w1 where st: "is_stuck e r w = (b, w1)" by fastforce
  note w1 = is_stuck_world [OF st]
  define hit where "hit = (\<lambda>row :: Remediation. rid row = rid r \<and> status row \<in> set UNFINISHED_STATUSES \<and> last_enqueued_at row = last_enqueued_at r)"
  have "remediations (snd (claim_enqueue e r created w)) = remediations w \<or>
      (\<exists>t. remediations (snd (claim_enqueue e r created w)) = update_rows hit (\<lambda>row. row\<lparr>last_enqueued_at := t\<rparr>) (remediations w))"
    using st w1 unfolding hit_def
    by (cases created; cases b) (auto simp: claim_enqueue_def now_def Let_def)
  then have "evolves w (snd (claim_enqueue e r created w))"
  proof
    assume "remediations (snd (claim_enqueue e r created w)) = remediations w"
    then show ?thesis by (rule evolves_same)
  next
    assume "\<exists>t. remediations (snd (claim_enqueue e r created w)) = update_rows hit (\<lambda>row. row\<lparr>last_enqueued_at := t\<rparr>) (remediations w)"
    then show ?thesis by (elim exE evolves_update) (auto simp: hit_def unfinished_def intro: unfinished_row_later)
  qed
  then show ?thesis by (simp add: keeps_attempts_def claim_enqueue_tables_ok)
qed

lemma subscribe_keeps_attempts: "keeps_attempts w (subscribe e r url w)"
proof (rule keeps_attempts_same)
  assume t: "tables_ok w"
  obtain c b w1 where reg: "register_callback e r url w = ((c, b), w1)" by (metis prod.exhaust)
  then have "tables_ok w1" using register_callback_tables_ok [OF t, of e r url] by simp
  with t reg show "tables_ok (subscribe e r url w)" by (simp add: subscribe_def)
qed simp

lemma create_or_reuse_evolves: "evolves w (snd (create_or_reuse_unfinished e account h path filename w))"
proof -
  obtain res w' where c: "create_or_reuse_unfinished e account h path filename w = (res, w')" by fastforce
  then have "evolves w w'"
    by (cases rule: create_or_reuse_unfinished_cases)
      (auto dest!: create_Inr(2) create_Inl(1) intro: evolves_same evolves_append)
  with c show ?thesis by simp
qed

lemma submission_keeps_attempts:
  assumes "\<And>v. keeps_attempts v (others v)"
  shows "keeps_attempts w (snd (get_or_create_from_upload e ver account f force (Some (limit_like_check e' limit)) others w))"
proof -
  obtain res w' where g: "get_or_create_from_upload e ver account f force (Some (limit_like_check e' limit)) others w = (res, w')"
    by fastforce
  have check: "\<exists>n. snd (limit_like_check e' limit v) = v\<lparr>ticks := n\<rparr>" for v by (rule limit_like.check_reads)
  have "evolves w w'" if t: "tables_ok w"
    using g
  proof (cases rule: get_or_create_cases)
    case (denied g x)
    then show ?thesis using check [of w] by (auto intro: evolves_same)
  next
    case (reused_late g r)
    then show ?thesis using check [of w] by (auto intro: evolves_same)
  next
    case (made w1 x w2)
    have w1: "remediations w1 = remediations w" "tables_ok w1" using made(1) check [of w] t by auto
    note w2 = store_original_tables [OF made(3)]
    have "evolves w w2" using w1(1) w2(1) by (intro evolves_same) simp
    also have "evolves w2 (others w2)" using assms [of w2] w1(2) w2(2) by (simp add: keeps_attempts_def)
    finally have o: "evolves w (others w2)" .
    show ?thesis
    proof (cases x)
      case (Inl y)
      with made(4) \<open>evolves w w2\<close> show ?thesis by simp
    next
      case (Inr path)
      with made(4) have "w' = snd (create_or_reuse_unfinished e account (hash_file f) path (up_name f) (others w2))" by simp
      with o create_or_reuse_evolves evolves_trans show ?thesis by metis
    qed
  qed (auto intro: evolves_same)
  moreover have "tables_ok w'" if t: "tables_ok w"
    using limit_like.limited_submission_keeps_tables [OF t, of others e ver account f force e' limit] assms g
    by (simp add: keeps_attempts_def)
  ultimately show ?thesis using g by (simp add: keeps_attempts_def)
qed

lemma create_remediation_post_keeps_attempts:
  assumes "\<And>v. keeps_attempts v (others v)" and "\<And>v. keeps_attempts v (meanwhile v)"
  shows "keeps_attempts w (snd (create_remediation_post net shown e ver account data others meanwhile limit w))"
proof (cases "upload_is_valid net data")
  case (Inl x)
  then show ?thesis by (simp add: create_remediation_post_def keeps_attempts_def evolves_same)
next
  case (Inr d)
  obtain upl force url where d: "d = (upl, force, url)" by (metis prod.exhaust)
  obtain res w1 where g: "get_or_create_from_upload e ver (sa_pk account) upl force (Some (limit_like_check e limit)) others w = (res, w1)"
    by fastforce
  have first: "keeps_attempts w w1"
    using submission_keeps_attempts [OF assms(1), of w e ver "sa_pk account" upl force e limit] g by simp
  show ?thesis
  proof (cases res)
    case (Inl x)
    with \<open>upload_is_valid net data = Inr d\<close> d g first show ?thesis by (simp add: create_remediation_post_def)
  next
    case res: (Inr rc)
    obtain r created where rc: "rc = (r, created)" by fastforce
    let ?w2 = "subscribe e r url (meanwhile w1)"
    obtain claimed r1 w3 where c: "claim_enqueue e r created ?w2 = ((claimed, r1), w3)" by (metis prod.exhaust)
    have "keeps_attempts w w3"
      using first assms(2) [of w1] subscribe_keeps_attempts [of "meanwhile w1" e r url] claim_enqueue_keeps_attempts [of ?w2 e r created] c
      by (metis keeps_attempts_trans snd_conv)
    moreover have "keeps_attempts w3 (w3\<lparr>queue := q\<rparr>)" for q by (rule keeps_attempts_same) simp_all
    ultimately have q: "keeps_attempts w (w3\<lparr>queue := q\<rparr>)" for q by (rule keeps_attempts_trans)
    have "snd (create_remediation_post net shown e ver account data others meanwhile limit w) =
        (if claimed then w3\<lparr>queue := queue w3 @ [ProcessRemediation (rid r1)]\<rparr> else w3)"
      using \<open>upload_is_valid net data = Inr d\<close> d g res rc c
      by (simp add: create_remediation_post_def Let_def split: option.split)
    with q \<open>keeps_attempts w w3\<close> show ?thesis by simp
  qed
qed

section \<open>Steps of the site\<close>

text \<open>
  What other requests commit during one is a change of the same kind; the framework's middleware does nothing of its own.
\<close>

definition well_behaved :: "'v web_env \<Rightarrow> bool" where
  "well_behaved e \<longleftrightarrow>
     (\<forall>name. passes_on (other_middleware e name)) \<and>
     (\<forall>w. keeps_attempts w (other_stores e w)) \<and> (\<forall>w. keeps_attempts w (other_jobs e w))"

text \<open>
  The parameters may be different in every step: another request, other answers of the token library, other adapters.
\<close>

inductive site_step :: "'v itself \<Rightarrow> site \<Rightarrow> site \<Rightarrow> bool" for v :: "'v itself" where
  request: "well_behaved (e :: 'v web_env) \<Longrightarrow> resolve_path (http_path (http r)) = Some (Endpoint view, args) \<Longrightarrow>
     handle_request e r s = (resp, s') \<Longrightarrow> site_step v s s'"
| task: "process_remediation ad je i (jobs s) = (res, w) \<Longrightarrow> site_step v s (s\<lparr>jobs := w\<rparr>)"
| delivery: "send_webhook_notification net je cb attempt (jobs s) = (res, w) \<Longrightarrow> site_step v s (s\<lparr>jobs := w\<rparr>)"
| taken: "site_step v s (s\<lparr>jobs := (jobs s)\<lparr>queue := q\<rparr>\<rparr>)"
| administration: "site_step v s (s\<lparr>accounts := as, jobs := (jobs s)\<lparr>pipeline_config := c\<rparr>\<rparr>)"

inductive site_run :: "'v itself \<Rightarrow> site \<Rightarrow> site \<Rightarrow> bool" for v :: "'v itself" where
  stay: "site_run v s s"
| move: "site_run v s s' \<Longrightarrow> site_step v s' s'' \<Longrightarrow> site_run v s s''"

lemma request_keeps_attempts:
  assumes "well_behaved e" and "resolve_path (http_path (http r)) = Some (Endpoint view, args)" and "handle_request e r s = (resp, s')"
  shows "keeps_attempts (jobs s) (jobs s')"
proof -
  have clock: "keeps_attempts w w'" if "same_but_clock w w'" for w w'
  proof (rule keeps_attempts_same)
    show "remediations w' = remediations w" using that unfolding same_but_clock_def by (metis world.select_convs(1) world.surjective world.update_convs(10))
    show "tables_ok w'" if "tables_ok w" using that \<open>same_but_clock w w'\<close> unfolding same_but_clock_def by (metis now_tables_ok(1))
  qed
  have "keeps_attempts (jobs s) (submission_effect e r a limit (jobs s))" for a limit
    using assms(1) unfolding submission_effect_def well_behaved_def by (intro create_remediation_post_keeps_attempts) auto
  with clock keeps_attempts_trans request_effect [OF _ assms(2,3)] assms(1) show ?thesis
    unfolding well_behaved_def by blast
qed

lemma task_keeps_attempts: "keeps_attempts w (snd (process_remediation ad e i w))"
proof -
  have "tables_ok (snd (process_remediation ad e i w)) \<and> evolves w (snd (process_remediation ad e i w))" if t: "tables_ok w"
  proof (cases "find_remediation i w")
    case None
    then show ?thesis using t by (simp add: process_remediation_def get_def evolves_same)
  next
    case (Some r)
    then have i: "rid r = i" "r \<in> set (remediations w)" using find_remediation_Some [OF Some] by auto
    show ?thesis
    proof (cases "unfinished r")
      case False
      then have "finished r" using finished_iff_not_unfinished [of r] by simp
      then have "process_remediation ad e i w = (Inr (), w)" using Some by (simp add: process_remediation_def get_def finished_def)
      then show ?thesis using t by (simp add: evolves_same)
    next
      case True
      obtain raised uri w2 where steps: "run_steps ad e (running_row (clock e (ticks w)) r) PIPELINE_STEPS
          (source_pdf_uri r) (started_world e r w) = ((raised, uri), w2)" by (metis prod.exhaust)
      obtain st out err where v: "job_verdict e (source_pdf_uri r) raised uri = (st, out, err)" by (metis prod.exhaust)
      note eq = process_remediation_eq [OF t Some True steps v]
      let ?f = "finish_row st out err (clock e (ticks w2)) \<circ> running_row (clock e (ticks w))"
      have twice: "update_rows (\<lambda>y. rid y = i) (finish_row st out err t') (update_rows (\<lambda>y. rid y = i) (running_row t'') rows) =
          update_rows (\<lambda>y. rid y = i) (finish_row st out err t' \<circ> running_row t'') rows" for t' t'' rows
        by (simp add: update_rows_def)
      have rows: "remediations (snd (process_remediation ad e i w)) = update_rows (\<lambda>y. rid y = i) ?f (remediations w)"
        using run_steps_same_jobs(1) [OF steps] by (simp add: eq started_world_def i(1) twice)
      have only: "y = r" if "y \<in> set (remediations w)" "rid y = i" for y
        using that i t by (auto simp: tables_ok_def distinct_map inj_on_def)
      have "later_row y (?f y)" if "y \<in> set (remediations w)" "rid y = i" for y
        using only [OF that] True finished_iff_not_unfinished [of r]
        by (simp add: later_row_def finish_row_def running_row_def document_def Let_def split: option.split)
      then have "evolves w (snd (process_remediation ad e i w))" by (rule evolves_update [OF rows])
      with job_finishes [OF t Some True, of ad e] show ?thesis by blast
    qed
  qed
  then show ?thesis by (simp add: keeps_attempts_def)
qed

lemma delivery_keeps_attempts: "keeps_attempts w (snd (send_webhook_notification net e cb attempt w))"
proof -
  have "remediations (snd (send_webhook_notification net e cb attempt w)) = remediations w \<and>
      tables_ok (snd (send_webhook_notification net e cb attempt w)) = tables_ok w"
    by (auto simp: send_webhook_notification_def now_def Let_def split: option.split prod.split exn.split)
  then show ?thesis by (intro keeps_attempts_same) auto
qed

lemma site_step_keeps_attempts: "site_step v s s' \<Longrightarrow> keeps_attempts (jobs s) (jobs s')"
proof (induction rule: site_step.induct)
  case (request e r view args s resp s')
  then show ?case by (rule request_keeps_attempts)
next
  case (task ad je i s res w)
  then show ?case using task_keeps_attempts [of "jobs s" ad je i] by simp
next
  case (delivery net je cb attempt s res w)
  then show ?case using delivery_keeps_attempts [of "jobs s" net je cb attempt] by simp
next
  case (taken s q)
  show ?case by (rule keeps_attempts_same) simp_all
next
  case (administration s as c)
  show ?case by (rule keeps_attempts_same) (simp_all add: tables_ok_def)
qed

lemma site_run_keeps_attempts: "site_run v s s' \<Longrightarrow> keeps_attempts (jobs s) (jobs s')"
proof (induction rule: site_run.induct)
  case (stay s)
  show ?case by (rule keeps_attempts_same) simp_all
next
  case (move s s' s'')
  then show ?case using site_step_keeps_attempts keeps_attempts_trans by blast
qed


lemma demo_well_behaved: "well_behaved demo_web_env"
proof -
  have "other_stores demo_web_env = (\<lambda>w. w)" "other_jobs demo_web_env = (\<lambda>w. w)" by (simp_all add: demo_web_env_def)
  then show ?thesis using demo_passes_on by (auto simp: well_behaved_def intro: keeps_attempts_same)
qed


end
