(* ===== verification/Served_Document.thy ===== *)
theory Served_Document
  imports Default_Adapters
begin

text \<open>
  From the submitted bytes to the served bytes.  The chain of documents that a job walks through is specified without the
  storage, the tables and the error handling: the submitted document, changed by some of the steps in their order.
  The task of \<^verbatim>\<open>remediation/tasks.py\<close> and the services of \<^verbatim>\<open>remediation/services.py\<close> implement it: what is served at the end
  is the result of such a chain, and the steps that took part are the ones recorded as completed.
\<close>

section \<open>The chain of documents\<close>

text \<open>What a call of the adapter of a step may make of a document, whatever number the call has and whatever local name the file
  got; the descriptions are those of the figures that were collected from the same document.  The two checks and the score
  make nothing of it.\<close>

inductive adapter_output :: "adapters \<Rightarrow> env \<Rightarrow> Remediation \<Rightarrow> Step \<Rightarrow> bytes \<Rightarrow> bytes \<Rightarrow> bool"
  for ad :: adapters and e :: env and r :: Remediation where
  extracted: "ad_extract ad n (name, b) = Inr (path, Some b') \<Longrightarrow> adapter_output ad e r OCR b b'"
| fonts_repaired: "ad_repair_fonts ad n (name, b) = Inr (path, Some b') \<Longrightarrow> adapter_output ad e r FONT_REPAIR b b'"
| finalized: "ad_finalize ad n (name, b) (derive_title r) (LANGUAGE_CODE (conf e)) = Inr (path, Some b') \<Longrightarrow>
    adapter_output ad e r FINALIZE_METADATA b b'"
| links_tagged: "ad_repair_links ad n (name, b) = Inr (path, Some b') \<Longrightarrow> adapter_output ad e r LINK_TAG b b'"
| described: "ad_collect_figures ad m (name, b) = Inr candidates \<Longrightarrow>
    describe_all ad (derive_title r) candidates Map.empty w1 = (Inr alts, w2) \<Longrightarrow>
    ad_write_alt_text ad n (name, b) alts = Inr (path, Some b') \<Longrightarrow> adapter_output ad e r ALT_TEXT b b'"

definition transforming :: "Step \<Rightarrow> bool" where
  "transforming s \<longleftrightarrow> s \<notin> {PRECHECK, SCORING, POSTCHECK}"

text \<open>A document goes through the steps: each step in \<open>ds\<close> that transforms it does so, no other step changes it.\<close>

inductive document_chain :: "(Step \<Rightarrow> bytes \<Rightarrow> bytes \<Rightarrow> bool) \<Rightarrow> Step set \<Rightarrow> Step list \<Rightarrow> bytes \<Rightarrow> bytes \<Rightarrow> bool"
  for A :: "Step \<Rightarrow> bytes \<Rightarrow> bytes \<Rightarrow> bool" and ds :: "Step set" where
  finish: "document_chain A ds [] b b"
| keep: "\<not> transforming s \<or> s \<notin> ds \<Longrightarrow> document_chain A ds steps b c \<Longrightarrow> document_chain A ds (s # steps) b c"
| change: "transforming s \<Longrightarrow> s \<in> ds \<Longrightarrow> A s b b' \<Longrightarrow> document_chain A ds steps b' c \<Longrightarrow>
    document_chain A ds (s # steps) b c"

inductive_simps document_chain_Nil [simp]: "document_chain A ds [] b c"
inductive_simps document_chain_Cons: "document_chain A ds (s # steps) b c"
inductive_cases adapter_outputE: "adapter_output ad e r s b b'"

lemma chain_of_nothing: "(\<And>s. s \<in> set steps \<Longrightarrow> \<not> transforming s \<or> s \<notin> ds) \<Longrightarrow> document_chain A ds steps b b"
  by (induction steps) (auto intro: document_chain.intros)

text \<open>An invariant of the documents that every step which takes part establishes or keeps.\<close>

lemma chain_invariant:
  assumes "document_chain A ds steps b c" and "\<And>s b b'. s \<in> set steps \<Longrightarrow> A s b b' \<Longrightarrow> P b \<Longrightarrow> P b'" and "P b"
  shows "P c"
  using assms by (induction rule: document_chain.induct) auto

section \<open>Where the steps write\<close>

definition folder :: "string \<Rightarrow> string" where
  "folder p = take (length p - length (basename p)) p"

lemma folder_append_slash: "CHR ''/'' \<notin> set f \<Longrightarrow> folder (d @ CHR ''/'' # f) = d @ ''/''"
  by (simp add: folder_def basename_append_slash)

lemma folder_basename: "folder p @ basename p = p"
proof -
  have "rev p = takeWhile (\<lambda>c. c \<noteq> CHR ''/'') (rev p) @ dropWhile (\<lambda>c. c \<noteq> CHR ''/'') (rev p)" by simp
  then have "p = rev (dropWhile (\<lambda>c. c \<noteq> CHR ''/'') (rev p)) @ basename p"
    unfolding basename_def by (metis rev_append rev_rev_ident)
  then obtain d where "p = d @ basename p" by blast
  then have "folder p = d" unfolding folder_def by (metis append_eq_conv_conj length_append add_diff_cancel_right')
  with \<open>p = d @ basename p\<close> show ?thesis by simp
qed

lemma output_folder [simp]: "folder (construct_output_dir s r @ basename f) = construct_output_dir s r"
  using folder_append_slash [of "basename f" "''remediations/'' @ str_nat (service_account r) @ ''/'' @ content_hash r @ ''/''
      @ rid r @ ''/'' @ step_value s"]
  by (simp add: construct_output_dir_def)

lemma output_folders_differ: "s \<noteq> t \<Longrightarrow> construct_output_dir s r \<noteq> construct_output_dir t r"
  by (simp add: construct_output_dir_def step_value_inject)

lemma originals_elsewhere:
  assumes "CHR ''/'' \<notin> set (content_hash r)" and "CHR ''/'' \<notin> set h" and "CHR ''/'' \<notin> set filename"
  shows "folder (original_path_of account h filename) \<noteq> construct_output_dir s r"
  using original_not_output [OF assms, of account s "basename (original_path_of account h filename)"]
    folder_basename [of "original_path_of account h filename"] by metis

text \<open>
  What is used of the file storage: a name is given out in the folder that was asked for and then reads as what was saved, and
  no operation changes how the files of other folders read.
\<close>

definition storage_serves :: "storage_api \<Rightarrow> bool" where
  "storage_serves st \<longleftrightarrow>
     (\<forall>fs k b k' fs'. st_save st fs k b = (Inr k', fs') \<longrightarrow> folder k' = folder k \<and> st_open st fs' k' = Inr b) \<and>
     (\<forall>fs k b n. folder n \<noteq> folder k \<longrightarrow>
        st_open st (snd (st_save st fs k b)) n = st_open st fs n \<and> st_open st (snd (st_delete st fs k)) n = st_open st fs n)"

definition reads_alike :: "env \<Rightarrow> Remediation \<Rightarrow> Step \<Rightarrow> world \<Rightarrow> world \<Rightarrow> bool" where
  "reads_alike e r s w w' \<longleftrightarrow> (storage_serves (storage_of e) \<longrightarrow>
     (\<forall>n. folder n \<noteq> construct_output_dir s r \<longrightarrow> st_open (storage_of e) (files w') n = st_open (storage_of e) (files w) n))"

interpretation step_reads: step_effects e r "reads_alike e r" for e r
proof unfold_locales
  show "reads_alike e r s w (w\<lparr>files := snd (st_delete (storage_of e) (files w) (construct_output_dir s r @ basename f))\<rparr>)"
    for s w f by (simp add: reads_alike_def storage_serves_def)
  show "reads_alike e r s w (w\<lparr>files := snd (st_save (storage_of e) (files w) (construct_output_dir s r @ basename f) b)\<rparr>)"
    for s w f b by (simp add: reads_alike_def storage_serves_def)
  show "reads_alike e r s w (snd (insert_verification_result v w))" for s v w
    using insert_verification_result_snd [of v w] by (auto simp: reads_alike_def)
  show "reads_alike e r s w (snd (insert_score c w))" for s c w
    using insert_score_snd [of c w] by (auto simp: reads_alike_def)
qed (auto simp: reads_alike_def)

section \<open>One step\<close>

lemma files_after_mark [simp]:
  "files (mark_status e s r st u err w) = files w" "files (report_exception exc s r w) = files w"
  by (simp_all add: mark_status_def now_def upsert_artifact_def report_exception_def Let_def)

lemma persist_serves:
  assumes "storage_serves (storage_of e)" and "persist_output e out (construct_output_dir s r @ basename f) w = (Inr u, w')"
  shows "folder u = construct_output_dir s r \<and> (\<exists>c. snd out = Some c \<and> st_open (storage_of e) (files w') u = Inr c)"
proof -
  let ?d = "construct_output_dir s r @ basename f"
  have saving: "\<exists>c fs fs'. snd out = Some c \<and> st_save (storage_of e) fs ?d c = (Inr u, fs') \<and> files w' = fs'"
    if "(case snd out of None \<Rightarrow> (Inl (OtherException m), w1)
         | Some c \<Rightarrow> (case st_save (storage_of e) (files w1) ?d c of (res, fs) \<Rightarrow> (res, w1\<lparr>files := fs\<rparr>))) = (Inr u, w')" for m w1
    using that by (auto split: option.splits prod.splits)
  obtain there where there: "st_exists (storage_of e) (files w) ?d = Inr there"
    using assms(2) by (cases "st_exists (storage_of e) (files w) ?d") (auto simp: persist_output_def)
  obtain y w1 where removed: "(if there then (case st_delete (storage_of e) (files w) ?d of (res, fs) \<Rightarrow> (res, w\<lparr>files := fs\<rparr>))
      else (Inr (), w)) = (y, w1)" by (metis prod.exhaust)
  note unfolded = assms(2) [unfolded persist_output_def Let_def there sum.case removed bind_outcome_def prod.case]
  have "y = Inr ()" using unfolded by (cases y) simp_all
  from saving [OF unfolded [unfolded this sum.case]] obtain c fs fs' where c: "snd out = Some c" "st_save (storage_of e) fs ?d c = (Inr u, fs')" "files w' = fs'"
    by blast
  then have "folder u = folder ?d \<and> st_open (storage_of e) fs' u = Inr c"
    using assms(1) unfolding storage_serves_def by blast
  with c show ?thesis by simp
qed

text \<open>
  A transforming step either fails, and passes its input on, or it is completed, and passes on a file of its own folder that
  reads as what the adapter answered on the document.
\<close>

lemma transform_document:
  assumes "storage_serves (storage_of e)" and "transform_run e s work r u w = (res, w')" and "reads_alike e r s w w'"
    and "st_open (storage_of e) (files w) u = Inr b" and "folder u \<noteq> construct_output_dir s r"
  shows "\<exists>u' b'. res = Inr u' \<and> st_open (storage_of e) (files w') u' = Inr b' \<and>
     (if completed_output_uri s r w' = None then u' = u \<and> b' = b
      else folder u' = construct_output_dir s r \<and>
           (\<exists>name path w1 w2. work (name, b) w1 = (Inr (path, Some b'), w2)))"
proof -
  obtain x w1 where body: "bind_outcome (local_input_copy e u w)
      (\<lambda>f w1. bind_outcome (work f w1) (\<lambda>out. persist_output e out (construct_output_dir s r @ basename (fst out)))) = (x, w1)"
    by (rule prod.exhaust)
  show ?thesis
  proof (cases x)
    case (Inl exc)
    then have "res = Inr u" "completed_output_uri s r w' = None" using assms(2) body by (auto simp: transform_run_def)
    moreover have "st_open (storage_of e) (files w') u = Inr b"
      using assms(1,3,4,5) by (simp add: reads_alike_def)
    ultimately show ?thesis by auto
  next
    case (Inr u')
    then have ends: "res = Inr u'" "w' = mark_completed e s r u' w1" using assms(2) body by (auto simp: transform_run_def)
    from body Inr assms(4) obtain out w2 where work: "work (basename u, b) w = (Inr out, w2)"
      and stored: "persist_output e out (construct_output_dir s r @ basename (fst out)) w2 = (Inr u', w1)"
      by (auto simp: bind_outcome_def local_input_copy_def split: sum.splits prod.splits if_splits)
    obtain c where c: "folder u' = construct_output_dir s r" "out = (fst out, Some c)" "st_open (storage_of e) (files w1) u' = Inr c"
      using persist_serves [OF assms(1) stored] by (cases out) auto
    have "completed_output_uri s r w' = Some u'" "files w' = files w1" using ends by (simp_all, simp add: mark_completed_def)
    with ends c work show ?thesis by (intro exI [of _ u'] exI [of _ c]) (simp, metis)
  qed
qed

text \<open>A step that starts fresh and does not end the job.\<close>

lemma step_document:
  assumes "storage_serves (storage_of e)" and "fresh_for r s w" and "run ad e s r u w = (Inr u', w')"
    and "st_open (storage_of e) (files w) u = Inr b" and "folder u \<noteq> construct_output_dir s r"
  shows "\<exists>b'. st_open (storage_of e) (files w') u' = Inr b' \<and> (u' = u \<or> folder u' = construct_output_dir s r) \<and>
     (if transforming s \<and> completed_output_uri s r w' \<noteq> None then adapter_output ad e r s b b' else b' = b)"
proof -
  have step: "step_run ad e s r u w = (Inr u', w')"
    using assms(3) fresh_for_not_completed [OF assms(2)] by (simp add: run_def)
  have reads: "reads_alike e r s w w'" using step_reads.eff_run [where e = e and r = r and s = s and w = w] assms(3) by (metis snd_conv)
  have same: "st_open (storage_of e) (files w') u = Inr b" using reads assms(1,4,5) by (simp add: reads_alike_def)
  have check: "u' = u" if "verification_run ad e s r u w = (Inr u', w')"
    using verification_fresh [OF assms(2) that] by simp
  have score: "u' = u" if "ScoringService_run ad e r u w = (Inr u', w')"
    using that by (auto simp: ScoringService_run_def bind_outcome_def split: sum.splits prod.splits)
  show ?thesis
  proof (cases "transforming s")
    case False
    then have "u' = u" using step check score by (auto simp: transforming_def)
    with same False show ?thesis by simp
  next
    case True
    let ?W = "\<lambda>s. case s of
        OCR \<Rightarrow> (\<lambda>f. call_adapter (\<lambda>n. ad_extract ad n f))
      | FONT_REPAIR \<Rightarrow> (\<lambda>f. call_adapter (\<lambda>n. ad_repair_fonts ad n f))
      | FINALIZE_METADATA \<Rightarrow> (\<lambda>f. call_adapter (\<lambda>n. ad_finalize ad n f (derive_title r) (LANGUAGE_CODE (conf e))))
      | LINK_TAG \<Rightarrow> (\<lambda>f. call_adapter (\<lambda>n. ad_repair_links ad n f))
      | _ \<Rightarrow> (\<lambda>f w. bind_outcome (call_adapter (\<lambda>n. ad_collect_figures ad n f) w)
               (\<lambda>candidates w1. bind_outcome (describe_all ad (derive_title r) candidates Map.empty w1)
                  (\<lambda>alts. call_adapter (\<lambda>n. ad_write_alt_text ad n f alts))))"
    have run: "transform_run e s (?W s) r u w = (Inr u', w')"
      using True step by (cases s) (simp_all add: transforming_def OCRService_run_def FontRepairService_run_def
          MetadataService_run_def LinkService_run_def AltTextService_run_def)
    have out: "adapter_output ad e r s b b'"
      if "?W s (name, b) w1 = (Inr (path, Some b'), w2)" for name path w1 w2 b'
      using True that
      by (cases s) (auto simp: transforming_def call_adapter_def bind_outcome_def split: sum.splits prod.splits
          intro: adapter_output.intros)
    show ?thesis
      using transform_document [OF assms(1) run reads assms(4,5)] out True
      by (cases "completed_output_uri s r w'") auto
  qed
qed

section \<open>The loop\<close>

lemma completed_after_skip [simp]: "completed_output_uri s r (record_skip e s r w) = None"
  by (simp add: record_skip_def mark_skipped_def mark_status_def now_def completed_after_upsert)

lemma completed_steps_later:
  "run_steps ad e r steps u w = (res, w') \<Longrightarrow> s \<notin> set steps \<Longrightarrow> completed_output_uri s r w' = completed_output_uri s r w"
  by (rule completed_rows [OF run_steps_rows])

abbreviation completed_steps :: "Remediation \<Rightarrow> world \<Rightarrow> Step set" where
  "completed_steps r w \<equiv> {s. completed_output_uri s r w \<noteq> None}"

lemma run_steps_document:
  assumes "storage_serves (storage_of e)" and "distinct steps" and "\<And>s. s \<in> set steps \<Longrightarrow> fresh_for r s w"
    and "run_steps ad e r steps u w = ((raised, u'), w')"
    and "st_open (storage_of e) (files w) u = Inr b" and "\<And>s. s \<in> set steps \<Longrightarrow> folder u \<noteq> construct_output_dir s r"
  shows "\<exists>b'. st_open (storage_of e) (files w') u' = Inr b' \<and>
     document_chain (adapter_output ad e r) (completed_steps r w') steps b b'"
  using assms(2-)
proof (induction steps arbitrary: u w b)
  case Nil
  then show ?case by simp
next
  case (Cons s steps)
  have own: "folder u \<noteq> construct_output_dir s r" using Cons.prems(5) by simp
  have fresh: "fresh_for r t w1" if "only_touches r s w w1" "t \<in> set steps" for t w1
    using fresh_for_other_step [OF that(1), of t] Cons.prems(1,2) that(2) by force
  have same: "st_open (storage_of e) (files w1) u = Inr b" if "reads_alike e r s w w1" for w1
    using that assms(1) own Cons.prems(4) by (simp add: reads_alike_def)
  have s: "s \<notin> set steps" "distinct steps" using Cons.prems(1) by simp_all
  show ?case
  proof (cases "is_disabled e s")
    case True
    then have rest: "run_steps ad e r steps u (record_skip e s r w) = ((raised, u'), w')" using Cons.prems(3) by simp
    from Cons.IH [OF s(2) fresh [OF job_rows.eff_skip] rest same [OF step_reads.eff_skip]] Cons.prems(5)
    show ?thesis using completed_steps_later [OF rest s(1)] by (auto simp: document_chain_Cons)
  next
    case False
    obtain res w1 where run: "run ad e s r u w = (res, w1)" by (rule prod.exhaust)
    have touches: "only_touches r s w w1" using job_rows.eff_run [of r s w ad e u] run by simp
    show ?thesis
    proof (cases res)
      case (Inl x)
      then have ends: "u' = u" "w' = w1" using run False Cons.prems(3) by auto
      have "\<not> transforming s" using run_fresh [of r s w ad e u x w1] Inl run Cons.prems(2) by (auto simp: transforming_def)
      moreover have "completed_output_uri t r w1 = None" if "t \<in> set steps" for t
        using fresh [OF touches that] by (rule fresh_for_not_completed)
      ultimately have "document_chain (adapter_output ad e r) (completed_steps r w') (s # steps) b b"
        unfolding ends by (intro chain_of_nothing) auto
      moreover have "reads_alike e r s w w1" using step_reads.eff_run [where e = e and r = r and s = s and w = w] run by (metis snd_conv)
      ultimately show ?thesis using same ends by blast
    next
      case (Inr u1)
      have rest: "run_steps ad e r steps u1 w1 = ((raised, u'), w')" using run False Cons.prems(3) Inr by simp
      obtain b1 where b1: "st_open (storage_of e) (files w1) u1 = Inr b1" "u1 = u \<or> folder u1 = construct_output_dir s r"
        "if transforming s \<and> completed_output_uri s r w1 \<noteq> None then adapter_output ad e r s b b1 else b1 = b"
        using step_document [OF assms(1) _ run [unfolded Inr] Cons.prems(4) own] Cons.prems(2) by auto
      have away: "folder u1 \<noteq> construct_output_dir t r" if "t \<in> set steps" for t
      proof -
        have "s \<noteq> t" using s(1) that by blast
        then show ?thesis using b1(2) Cons.prems(5) [of t] output_folders_differ [of s t r] that by auto
      qed
      from Cons.IH [OF s(2) fresh [OF touches] rest b1(1) away] obtain c where
        c: "st_open (storage_of e) (files w') u' = Inr c" "document_chain (adapter_output ad e r) (completed_steps r w') steps b1 c"
        by blast
      have "document_chain (adapter_output ad e r) (completed_steps r w') (s # steps) b c"
        using b1(3) c(2) completed_steps_later [OF rest s(1)]
        by (auto simp: document_chain_Cons split: if_splits)
      with c(1) show ?thesis by blast
    qed
  qed
qed

section \<open>The job\<close>

lemma adapter_output_title: "derive_title r' = derive_title r \<Longrightarrow> adapter_output ad e r' s b b' \<Longrightarrow> adapter_output ad e r s b b'"
  by (erule adapter_outputE) (auto intro: adapter_output.intros)

lemma chain_mono:
  "document_chain A ds steps b c \<Longrightarrow> (\<And>s b b'. A s b b' \<Longrightarrow> B s b b') \<Longrightarrow> document_chain B ds steps b c"
  by (induction rule: document_chain.induct) (auto intro: document_chain.intros)

text \<open>Only the first check finds a document compliant already, so the loop has not moved on from the submitted one.\<close>

lemma only_the_precheck_finds_it_compliant:
  assumes "fresh_for r s w" and "run ad e s r u w = (Inl AlreadyCompliant, w')"
  shows "s = PRECHECK"
proof -
  have step: "step_run ad e s r u w = (Inl AlreadyCompliant, w')"
    using assms(2) fresh_for_not_completed [OF assms(1)] by (simp add: run_def)
  show ?thesis
  proof (cases "s = POSTCHECK")
    case True
    with verification_fresh [OF assms(1), of ad e u "Inl AlreadyCompliant" w'] step show ?thesis by simp
  next
    case False
    then show ?thesis using run_fresh [OF assms] by simp
  qed
qed

lemma later_steps_do_not_find_it_compliant:
  assumes "\<And>s. s \<in> set steps \<Longrightarrow> fresh_for r s w" and "distinct steps" and "PRECHECK \<notin> set steps"
  shows "run_steps ad e r steps u w \<noteq> ((Some AlreadyCompliant, uri), w')"
  using assms
proof (induction steps arbitrary: u w)
  case (Cons s steps)
  have fresh: "fresh_for r t w1" if "only_touches r s w w1" "t \<in> set steps" for t w1
    using fresh_for_other_step [OF that(1), of t] Cons.prems(1,2) that(2) by force
  obtain x w1 where run: "run ad e s r u w = (x, w1)" by (rule prod.exhaust)
  then have touches: "only_touches r s w w1" using job_rows.eff_run [of r s w ad e u] by simp
  have "x \<noteq> Inl AlreadyCompliant"
    using only_the_precheck_finds_it_compliant [of r s w ad e u w1] run Cons.prems(1,3) by auto
  moreover have "run_steps ad e r steps v w2 \<noteq> ((Some AlreadyCompliant, uri), w')" if "only_touches r s w w2" for v w2
    by (rule Cons.IH [OF fresh [OF that]]) (use Cons.prems in simp_all)
  ultimately show ?case using touches job_rows.eff_skip [of r s w e] run by (cases x) auto
qed simp

lemma already_compliant_is_the_source:
  assumes "\<And>s. fresh_for r s w" and "run_steps ad e r PIPELINE_STEPS u w = ((Some AlreadyCompliant, uri), w')"
  shows "uri = u"
proof -
  let ?rest = "[OCR, FONT_REPAIR, FINALIZE_METADATA, LINK_TAG, ALT_TEXT, SCORING, POSTCHECK]"
  have steps: "PIPELINE_STEPS = PRECHECK # ?rest" by (simp add: PIPELINE_STEPS_def)
  have rest: "run_steps ad e r ?rest v w1 \<noteq> ((Some AlreadyCompliant, uri), w')" if "only_touches r PRECHECK w w1" for v w1
    by (rule later_steps_do_not_find_it_compliant)
      (use fresh_for_other_step [OF that assms(1)] in \<open>auto\<close>)
  obtain x w1 where run: "run ad e PRECHECK r u w = (x, w1)" by (rule prod.exhaust)
  then have "only_touches r PRECHECK w w1" using job_rows.eff_run [of r PRECHECK w ad e u] by simp
  with rest [of w1] rest [OF job_rows.eff_skip] run assms(2) show ?thesis
    unfolding steps run_steps.simps(2) [of ad e r PRECHECK] by (cases x) (auto split: if_splits)
qed

lemma served_chain:
  assumes "tables_ok w" and "find_remediation i w = Some r" and "unfinished r" and "\<forall>s. fresh_for r s w"
    and "storage_serves (storage_of e)" and "st_open (storage_of e) (files w) (source_pdf_uri r) = Inr submitted"
    and "\<forall>s. folder (source_pdf_uri r) \<noteq> construct_output_dir s r"
    and "process_remediation ad e i w = (res, w')"
  shows "\<exists>r' served. find_remediation i w' = Some r' \<and> finished r' \<and>
     st_open (storage_of e) (files w') (final_output_uri r') = Inr served \<and>
     document_chain (adapter_output ad e r) (completed_steps r w') PIPELINE_STEPS submitted served"
proof -
  let ?r = "running_row (clock e (ticks w)) r" and ?w = "started_world e r w"
  obtain raised uri w2 where steps: "run_steps ad e ?r PIPELINE_STEPS (source_pdf_uri r) ?w = ((raised, uri), w2)"
    by (metis prod.exhaust)
  obtain st out err where v: "job_verdict e (source_pdf_uri r) raised uri = (st, out, err)" by (metis prod.exhaust)
  have fresh: "fresh_for ?r s ?w" for s using assms(4) by (simp add: fresh_for_def started_world_def)
  have moved: "uri = source_pdf_uri r" if "raised = Some AlreadyCompliant"
    using already_compliant_is_the_source [OF fresh] steps that by blast
  then have out: "out = uri" using v by (cases "(e, source_pdf_uri r, raised, uri)" rule: job_verdict.cases) auto
  have title: "derive_title ?r = derive_title r" by (simp add: derive_title_def running_row_def)
  have folders: "construct_output_dir s ?r = construct_output_dir s r" for s by (simp add: construct_output_dir_def running_row_def)
  have files: "files ?w = files w" by (simp add: started_world_def)
  have source: "st_open (storage_of e) (files ?w) (source_pdf_uri r) = Inr submitted" using assms(6) files by simp
  from run_steps_document [OF assms(5) PIPELINE_STEPS_split(2) fresh steps source] assms(7) folders obtain served where
    served: "st_open (storage_of e) (files w2) uri = Inr served"
      "document_chain (adapter_output ad e ?r) (completed_steps ?r w2) PIPELINE_STEPS submitted served" by auto
  have chain: "document_chain (adapter_output ad e r) (completed_steps ?r w2) PIPELINE_STEPS submitted served"
    using served(2) by (rule chain_mono) (rule adapter_output_title [OF title])
  have w': "files w' = files w2" "artifacts w' = artifacts w2"
    using process_remediation_eq [OF assms(1-3) steps v] assms(8) by auto
  then have "completed_steps ?r w2 = completed_steps r w'" by (simp add: completed_output_uri_def)
  moreover have "find_remediation i w' = Some (finish_row st out err (clock e (ticks w2)) ?r)"
    by (rule finished_row_after [OF assms(8,1-3) steps v])
  moreover have "st \<in> set FINISHED_STATUSES" using job_verdict_finished [of e "source_pdf_uri r" raised uri] v by simp
  ultimately show ?thesis using served(1) chain w' out by (auto simp: finish_row_simps finished_def)
qed

text \<open>C5: The first run of an attempt serves what a chain of the steps made of the submitted document: its final output reads, and
  what is read is the submitted document changed by exactly those steps, in the order of the pipeline, that are recorded as
  completed for the attempt; a step that failed or was switched off left it as it was.\<close>

theorem served_document_is_the_chain:
  assumes "tables_ok w" and "find_remediation i w = Some r" and "unfinished r" and "\<forall>s. fresh_for r s w"
    and "storage_serves (storage_of e)" and "st_open (storage_of e) (files w) (source_pdf_uri r) = Inr submitted"
    and "\<forall>s. folder (source_pdf_uri r) \<noteq> construct_output_dir s r"
    and "process_remediation ad e i w = (res, w')"
  shows "\<exists>r' served. find_remediation i w' = Some r' \<and> finished r' \<and>
     st_open (storage_of e) (files w') (final_output_uri r') = Inr served \<and>
     document_chain (adapter_output ad e r) (completed_steps r w') PIPELINE_STEPS submitted served"
  using assms by (rule served_chain)

definition failing_link_adapters :: adapters where
  "failing_link_adapters = demo_adapters\<lparr>
     ad_finalize := (\<lambda>n f title lang. Inr (fst f, Some (snd f @ [7]))),
     ad_repair_links := (\<lambda>n f. Inl (AdapterError ''no structure tree''))\<rparr>"

lemma demo_source_elsewhere: "folder ''a.pdf'' \<noteq> construct_output_dir s r"
  by (simp add: folder_def basename_def construct_output_dir_def)

lemma mem_storage_serves: "storage_serves mem_storage"
proof -
  have "folder n \<noteq> folder k \<Longrightarrow> n \<noteq> k" for n k by auto
  then show ?thesis by (auto simp: storage_serves_def mem_storage_def)
qed

theorem served_document_is_the_chain_witness:
  "\<exists>r' served. find_remediation ''r1'' (snd (process_remediation failing_link_adapters demo_env ''r1'' demo_job_world)) = Some r' \<and>
     document_chain (adapter_output failing_link_adapters demo_env demo_job)
       (completed_steps demo_job (snd (process_remediation failing_link_adapters demo_env ''r1'' demo_job_world)))
       PIPELINE_STEPS [1, 2, 3] served"
proof -
  have "st_open (storage_of demo_env) (files demo_job_world) (source_pdf_uri demo_job) = Inr [1, 2, 3]"
    by (simp add: demo_env_def mem_storage_def demo_job_world_def demo_attempt_def)
  moreover have "storage_serves (storage_of demo_env)" using mem_storage_serves by (simp add: demo_env_def)
  moreover have "\<forall>s. folder (source_pdf_uri demo_job) \<noteq> construct_output_dir s demo_job"
    using demo_source_elsewhere by (simp add: demo_attempt_def)
  moreover have "\<forall>s. fresh_for demo_job s demo_job_world" using demo_job_world_ok(3) by blast
  ultimately show ?thesis
    using served_document_is_the_chain [OF demo_job_facts, of demo_env "[1, 2, 3]" failing_link_adapters] by (metis prod.collapse)
qed

section \<open>The metadata of the served document\<close>

text \<open>
  A document that was saved and opened again is the same up to where its dictionaries lie: every dictionary that can be reached
  from the catalog or is a page has the same entries, those that lead to another dictionary lead to that one's place.
\<close>

fun moved :: "(nat \<Rightarrow> nat) \<Rightarrow> val \<Rightarrow> val" where
  "moved f (VAt a) = VAt (f a)"
| "moved f v = v"

inductive reachable :: "pdf \<Rightarrow> nat \<Rightarrow> bool" for d :: pdf where
  catalog: "reachable d (root_at d)"
| page: "p \<in> set (page_list d) \<Longrightarrow> reachable d p"
| below: "reachable d a \<Longrightarrow> get_at d a k = Some (VAt b) \<Longrightarrow> reachable d b"

definition same_document :: "pdf \<Rightarrow> pdf \<Rightarrow> bool" where
  "same_document d d' \<longleftrightarrow> (\<exists>f. root_at d' = f (root_at d) \<and> page_list d' = map f (page_list d) \<and>
     (\<forall>a. reachable d a \<and> dict_at d a \<noteq> None \<longrightarrow>
        dict_at d' (f a) \<noteq> None \<and> (\<forall>k. get_at d' (f a) k = map_option (moved f) (get_at d a k))))"

lemma same_document_refl: "same_document d d"
proof -
  have "moved (\<lambda>a. a) v = v" for v by (cases v) simp_all
  then have "map_option (moved (\<lambda>a. a)) x = x" for x by (cases x) simp_all
  then show ?thesis unfolding same_document_def by (intro exI [of _ "\<lambda>a. a"]) simp
qed

lemma same_document_in_place:
  assumes "same_document d d'" and "metadata_in_place lang d"
  shows "metadata_in_place lang d'"
proof -
  obtain f where f: "root_at d' = f (root_at d)" "page_list d' = map f (page_list d)"
    and at: "\<And>a. reachable d a \<Longrightarrow> dict_at d a \<noteq> None \<Longrightarrow>
       dict_at d' (f a) \<noteq> None \<and> (\<forall>k. get_at d' (f a) k = map_option (moved f) (get_at d a k))"
    using assms(1) unfolding same_document_def by blast
  have read: "get_at d' (f a) k = Some (moved f v)" if "reachable d a" "get_at d a k = Some v" for a k v
    using at [OF that(1)] get_at_dict [OF that(2)] that(2) by simp
  have says: "catalog_says d' sect k" if "catalog_says d sect k" for sect k
  proof -
    from that obtain a where a: "get_at d (root_at d) sect = Some (VAt a)" "dict_at d a \<noteq> None" "get_at d a k = Some (VBool True)"
      by (auto simp: catalog_says_def split: option.splits val.splits)
    have r: "reachable d a" by (rule reachable.below [OF reachable.catalog a(1)])
    from read [OF reachable.catalog a(1)] read [OF r a(3)] at [OF r a(2)] show ?thesis by (simp add: catalog_says_def f(1))
  qed
  have "get_at d' (root_at d') ''/Lang'' = Some (VStr lang)"
    using read [OF reachable.catalog, of "''/Lang''" "VStr lang"] assms(2) by (simp add: metadata_in_place_def f(1))
  moreover have "get_at d' (f p) ''/Tabs'' = Some (VName ''/S'')" if "p \<in> set (page_list d)" for p
    using read [OF reachable.page [OF that], of "''/Tabs''" "VName ''/S''"] assms(2) that
    by (simp add: metadata_in_place_def list_all_iff)
  ultimately show ?thesis using says assms(2) by (simp add: metadata_in_place_def f(2) list_all_iff)
qed

text \<open>What is used of the PDF library: what was saved opens, and is the same document; and the documents it opens have a catalog,
  pages and link annotations that are dictionaries, and a structure tree, if they have one, whose root is a dictionary with entries.\<close>

definition saves_faithfully :: "toolbox \<Rightarrow> bool" where
  "saves_faithfully t \<longleftrightarrow>
     (\<forall>g b. save_bytes t g = Inr b \<longrightarrow> (\<exists>g'. open_bytes t b = Inr g' \<and> same_document (objects g) (objects g')))"

definition well_formed :: "pdf \<Rightarrow> bool" where
  "well_formed d \<longleftrightarrow> pdf_ok d \<and> dict_at d (root_at d) \<noteq> None \<and> (\<forall>p \<in> set (page_list d). dict_at d p \<noteq> None) \<and>
     links_are_dicts d \<and> (get_at d (root_at d) ''/StructTreeRoot'' \<noteq> None \<longrightarrow> (\<exists>sr. tree_root d sr))"

definition opens_well_formed :: "toolbox \<Rightarrow> bool" where
  "opens_well_formed t \<longleftrightarrow> (\<forall>b g. open_bytes t b = Inr g \<longrightarrow> well_formed (objects g))"

text \<open>The document that these bytes open as has its metadata.\<close>

definition shows_metadata :: "toolbox \<Rightarrow> string \<Rightarrow> bytes \<Rightarrow> bool" where
  "shows_metadata t lang b \<longleftrightarrow> (\<exists>g. open_bytes t b = Inr g \<and> metadata_in_place lang (objects g))"

lemma saved_shows_metadata:
  assumes "saves_faithfully t" and "save_bytes t g = Inr b" and "metadata_in_place lang (objects g)"
  shows "shows_metadata t lang b"
  using assms same_document_in_place unfolding saves_faithfully_def shows_metadata_def by blast

lemma edited_shows_metadata:
  assumes "saves_faithfully t" and "edit_file t what (on_objects change) (name, b) = Inr (path, Some b')" and "shows_metadata t lang b"
    and "\<And>g d. open_bytes t b = Inr g \<Longrightarrow> change (objects g) = Inr d \<Longrightarrow> metadata_in_place lang (objects g) \<Longrightarrow> metadata_in_place lang d"
  shows "shows_metadata t lang b'"
proof -
  obtain g where g: "open_bytes t b = Inr g" "metadata_in_place lang (objects g)" using assms(3) by (auto simp: shows_metadata_def)
  with assms(2) obtain d where d: "change (objects g) = Inr d" "save_bytes t (g\<lparr>objects := d\<rparr>) = Inr b'"
    by (auto simp: edit_file_def on_objects_def map_sum_Inr split: sum.splits)
  from assms(4) [OF g(1) d(1) g(2)] show ?thesis by (intro saved_shows_metadata [OF assms(1) d(2)]) simp
qed

lemma links_keep_metadata:
  assumes "well_formed d" and "repair_links d = Inr d'" and "metadata_in_place lang d"
  shows "metadata_in_place lang d'"
proof (cases "get_at d (root_at d) ''/StructTreeRoot''")
  case None
  with assms(2,3) show ?thesis by (simp add: repair_links_def)
next
  case (Some v)
  with assms(1) have "tagged_document d" by (auto simp: well_formed_def tagged_document_def)
  then show ?thesis using link_step.still_in_place assms(2,3) by blast
qed

lemma later_steps_keep_metadata:
  assumes "saves_faithfully t" and "opens_well_formed t" and "adapter_output (default_adapters t v) e r s b b'"
    and "s \<in> {LINK_TAG, ALT_TEXT, SCORING, POSTCHECK}" and "shows_metadata t lang b"
  shows "shows_metadata t lang b'"
  using assms(3)
proof (cases rule: adapter_output.cases)
  case (links_tagged n name path)
  then have "edit_file t ''pikepdf failed to repair links: '' (on_objects repair_links) (name, b) = Inr (path, Some b')"
    by (simp add: default_adapters_def default_repair_links_def)
  from edited_shows_metadata [OF assms(1) this assms(5)] assms(2) show ?thesis
    by (meson links_keep_metadata opens_well_formed_def)
next
  case (described m name candidates w1 alts w2 n path)
  then have "edit_file t ''pikepdf failed to write alt text: '' (on_objects (\<lambda>d. Inr (write_alt_text alts d))) (name, b) = Inr (path, Some b')"
    by (simp add: default_adapters_def default_write_alt_text_def)
  from edited_shows_metadata [OF assms(1) this assms(5)] show ?thesis
    by (metis alt_text_step.still_in_place)
qed (use assms(4) in auto)

lemma finalizing_shows_metadata:
  assumes "saves_faithfully t" and "opens_well_formed t" and "adapter_output (default_adapters t v) e r FINALIZE_METADATA b b'"
  shows "shows_metadata t (LANGUAGE_CODE (conf e)) b'"
proof -
  obtain n name path where "default_finalize t n (name, b) (derive_title r) (LANGUAGE_CODE (conf e)) = Inr (path, Some b')"
    using assms(3) by (cases rule: adapter_output.cases) (auto simp: default_adapters_def)
  then obtain f where f: "open_bytes t b = Inr f"
    "save_bytes t (finalize_pdf (derive_title r) (LANGUAGE_CODE (conf e)) f) = Inr b'"
    by (auto simp: default_finalize_def finalize_metadata_def Let_def split: sum.splits option.splits)
  have "well_formed (objects f)" using assms(2) f(1) by (auto simp: opens_well_formed_def)
  then show ?thesis
    by (intro saved_shows_metadata [OF assms(1) f(2)] finalized_in_place) (auto simp: well_formed_def)
qed


text \<open>A library that knows one document and can save it once its metadata is in place; only the metadata step is switched on.\<close>

definition finalized_demo :: opened_pdf where
  "finalized_demo = finalize_pdf ''a'' ''en-us'' demo_flow"

definition metadata_toolbox :: toolbox where
  "metadata_toolbox = demo_toolbox\<lparr>
     open_bytes := (\<lambda>b. if b = [1, 2, 3] then Inr demo_flow else if b = [9] then Inr finalized_demo else Inl ''not a PDF''),
     save_bytes := (\<lambda>g. if g = finalized_demo then Inr [9] else Inl ''disk full'')\<rparr>"

definition metadata_env :: env where
  "metadata_env = demo_env\<lparr>conf := demo_settings\<lparr>RUN := (\<lambda>s. s = FINALIZE_METADATA)\<rparr>\<rparr>"

lemma demo_well_formed: "well_formed (objects demo_flow)" "well_formed (objects finalized_demo)"
proof -
  have objs: "objects demo_flow = demo_link_pdf" by (simp add: demo_flow_def)
  have dicts: "dict_at demo_link_pdf (root_at demo_link_pdf) \<noteq> None" "\<forall>p \<in> set (page_list demo_link_pdf). dict_at demo_link_pdf p \<noteq> None"
    by (simp_all add: demo_link_pdf_def demo_link_heap_def dict_at_def)
  have "tree_root demo_link_pdf 5" by (simp add: tree_root_def demo_flow_simps)
  moreover have "links_are_dicts demo_link_pdf" by (simp add: links_are_dicts_def is_link_def demo_flow_simps)
  ultimately show "well_formed (objects demo_flow)" using dicts demo_link_pdf_ok by (auto simp: well_formed_def objs)
  have "pdf_ok (objects finalized_demo)" unfolding finalized_demo_def by (rule finalized_ok) (simp add: objs demo_link_pdf_ok)
  moreover have "tree_root (objects finalized_demo) 5" by (simp add: finalized_demo_def tree_root_def demo_flow_simps)
  moreover have "links_are_dicts (objects finalized_demo)"
    by (simp add: finalized_demo_def links_are_dicts_def is_link_def demo_flow_simps)
  moreover have "dict_at (objects finalized_demo) (root_at (objects finalized_demo)) \<noteq> None"
    "\<forall>p \<in> set (page_list (objects finalized_demo)). dict_at (objects finalized_demo) p \<noteq> None"
    by (simp_all add: finalized_demo_def demo_flow_simps)
  ultimately show "well_formed (objects finalized_demo)" by (auto simp: well_formed_def)
qed

lemma metadata_toolbox_ok: "saves_faithfully metadata_toolbox" "opens_well_formed metadata_toolbox"
  using demo_well_formed same_document_refl
  by (auto simp: saves_faithfully_def opens_well_formed_def metadata_toolbox_def split: if_splits)

lemma demo_title: "derive_title (running_row t demo_job) = ''a''"
proof -
  have "splitext_root ''a.pdf'' = ''a''" by code_simp
  then show ?thesis by (simp add: derive_title_def running_row_def demo_attempt_def)
qed

lemma demo_finalize: "default_finalize metadata_toolbox n (''a.pdf'', [1, 2, 3]) ''a'' ''en-us'' = Inr (''/tmp/out/a.pdf'', Some [9])"
  by (simp add: default_finalize_def finalize_metadata_def metadata_toolbox_def finalized_demo_def demo_toolbox_def basename_def)

lemma demo_metadata_run:
  assumes "fresh_for r FINALIZE_METADATA w" and "files w = files demo_job_world" and "derive_title r = ''a''"
  shows "\<exists>u w1. run (default_adapters metadata_toolbox demo_environ) metadata_env FINALIZE_METADATA r ''a.pdf'' w = (Inr u, w1) \<and>
     completed_output_uri FINALIZE_METADATA r w1 \<noteq> None"
proof -
  have conf: "LANGUAGE_CODE (conf metadata_env) = ''en-us''" "storage_of metadata_env = mem_storage"
    by (simp_all add: metadata_env_def demo_settings_def demo_env_def)
  have copy: "local_input_copy metadata_env ''a.pdf'' w = (Inr (''a.pdf'', [1, 2, 3]), w)"
    by (simp add: local_input_copy_def assms(2) conf mem_storage_def demo_job_world_def basename_def)
  have saved: "\<exists>u w2. persist_output metadata_env (p, Some [9]) d w1 = (Inr u, w2)" for p d w1
    by (simp add: persist_output_def conf mem_storage_def bind_outcome_def)
  then obtain u w2 where persist: "persist_output metadata_env (''/tmp/out/a.pdf'', Some [9])
      (construct_output_dir FINALIZE_METADATA r @ basename ''/tmp/out/a.pdf'') (w\<lparr>ticks := Suc (ticks w)\<rparr>) = (Inr u, w2)" by blast
  have "step_run (default_adapters metadata_toolbox demo_environ) metadata_env FINALIZE_METADATA r ''a.pdf'' w
      = (Inr u, mark_completed metadata_env FINALIZE_METADATA r u w2)"
    using persist
    by (simp add: MetadataService_run_def transform_run_def copy bind_outcome_def call_adapter_def default_adapters_def assms(3) conf demo_finalize)
  then show ?thesis using fresh_for_not_completed [OF assms(1)] by (simp add: run_def)
qed

lemma demo_metadata_completed:
  "completed_output_uri FINALIZE_METADATA demo_job
     (snd (process_remediation (default_adapters metadata_toolbox demo_environ) metadata_env ''r1'' demo_job_world)) \<noteq> None"
proof -
  let ?ad = "default_adapters metadata_toolbox demo_environ" and ?e = metadata_env and ?w = demo_job_world
  let ?r = "running_row (clock ?e (ticks ?w)) demo_job" and ?before = "[PRECHECK, OCR, FONT_REPAIR]"
  let ?later = "[LINK_TAG, ALT_TEXT, SCORING, POSTCHECK]" and ?s = "started_world ?e demo_job ?w"
  have off: "is_disabled ?e s \<longleftrightarrow> s \<noteq> FINALIZE_METADATA" for s by (simp add: is_disabled_def metadata_env_def)
  obtain raised u w1 where before: "run_steps ?ad ?e ?r ?before (source_pdf_uri demo_job) ?s = ((raised, u), w1)" by (metis prod.exhaust)
  have "\<And>s. s \<in> set ?before \<Longrightarrow> is_disabled ?e s" by (auto simp: off)
  from all_disabled_run [OF this, of ?before ?ad ?r "source_pdf_uri demo_job" ?s] before
  have ends: "raised = None" "u = ''a.pdf''" "files w1 = files ?w" by (simp_all add: started_world_def demo_attempt_def)
  have "fresh_for ?r FINALIZE_METADATA ?s" using demo_job_world_ok(3) [of FINALIZE_METADATA] by (simp add: fresh_for_def started_world_def)
  then have "fresh_for ?r FINALIZE_METADATA w1" by (rule run_steps_keeps_fresh [OF _ before]) simp
  from demo_metadata_run [OF this ends(3) demo_title] obtain u2 w2 where
    finalized: "run ?ad ?e FINALIZE_METADATA ?r ''a.pdf'' w1 = (Inr u2, w2)" "completed_output_uri FINALIZE_METADATA ?r w2 \<noteq> None" by blast
  obtain raised' uri w3 where later: "run_steps ?ad ?e ?r ?later u2 w2 = ((raised', uri), w3)" by (metis prod.exhaust)
  have split: "PIPELINE_STEPS = ?before @ FINALIZE_METADATA # ?later" by (simp add: PIPELINE_STEPS_def)
  have "run_steps ?ad ?e ?r (FINALIZE_METADATA # ?later) ''a.pdf'' w1 = ((raised', uri), w3)"
    by (subst run_steps.simps(2)) (simp add: finalized(1) later off del: run_steps.simps(2))
  then have steps: "run_steps ?ad ?e ?r PIPELINE_STEPS (source_pdf_uri demo_job) ?s = ((raised', uri), w3)"
    unfolding split run_steps_append before ends(1,2) prod.case option.case .
  obtain st out err where v: "job_verdict ?e (source_pdf_uri demo_job) raised' uri = (st, out, err)" by (metis prod.exhaust)
  have "completed_output_uri FINALIZE_METADATA ?r w3 \<noteq> None"
    using completed_steps_later [OF later, of FINALIZE_METADATA] finalized(2) by simp
  moreover have "artifacts (snd (process_remediation ?ad ?e ''r1'' ?w)) = artifacts w3"
    using process_remediation_eq [OF demo_job_facts steps v] by simp
  ultimately show ?thesis by (simp add: completed_output_uri_def)
qed


end
