(* ===== verification/Spec2Isabelle.thy ===== *)
theory Spec2Isabelle
  imports Severity Submit_Race Throttle_Race Api_Throttles Api_Views Pipeline_Theorems Service_Theorems
    Client_IP Font_Theorems Ocr_Theorems Scoring_Theorems
    Link_Theorems Alt_Text_Theorems Account_Theorems Operations Sha1
    Quality_Commands Ocr_Regression External_Theorems Document_Flow Admin_Reports Default_Adapters
    Rule_Catalog Error_Reporting Web_Requests Site_Runs Django_Settings Served_Document
begin

text \<open>
  A model of the document pipeline API: a web service that takes PDF files from service accounts, brings each
  through a pipeline of accessibility repairs, and reports and serves the result.  Definitions are translated from the
  Python code under \<^verbatim>\<open>src/\<close> and keep its names; each theory names the files it models.

  \<^bold>\<open>The program.\<close>  A request passes the middleware of \<^verbatim>\<open>config/settings.py\<close> with the origin lock (\<^verbatim>\<open>common/middleware.py\<close>), is
  matched against the routes, and passes the per-address throttle and the token login with its lockout (\<^verbatim>\<open>api/\<close>) before a view runs.  A submission is hashed and stored; \<open>RemediationService\<close> decides whether an earlier
  attempt answers it or a new one is created, under the account's submission limit, and queues a task.  The
  task runs eight steps in order (check, conversion, fonts, metadata, links, descriptions, score, check), each an
  adapter around a library or tool, recording an artifact per step; however it ends, the attempt gets a finished
  status and its subscribers are queued a signed webhook.  Operators manage accounts in the admin and compare
  releases with report commands.

  \<^bold>\<open>Theories, by component.\<close>
  \<^item> Shared: \<open>Dice_Prelude\<close> (time, texts, tables, the locale \<open>invariant_system\<close>), \<open>Sha256\<close>, \<open>Sha1\<close>, \<open>Url\<close>, \<open>Ip_Address\<close>,
    \<open>Unicode_Text\<close>: what the code uses of the standard library, written out and proved where other proofs rely on it.
  \<^item> Accounts (\<^verbatim>\<open>accounts/\<close>): \<open>Account_Models\<close>, \<open>Account_Service\<close>, \<open>Account_Admin\<close>; \<open>Account_Theorems\<close>: the tables stay consistent,
    and revoking or deleting stops exactly the tokens it should.
  \<^item> Limits (\<^verbatim>\<open>api/\<close>): \<open>Throttle_Counter\<close> (the statements of \<open>ThrottleCounterService\<close>, refining a map from keys to windows; locale
    \<open>counter_store\<close> in \<open>Api_Throttles\<close>), \<open>Throttle_Race\<close> (any interleaving of them), \<open>Client_IP\<close>, \<open>Api_Throttles\<close> (lockout and
    per-address cap), \<open>Submission_Limits\<close> (locale \<open>submission_limit_like\<close>), \<open>Submit_Race\<close> (concurrent submits under the row lock).
  \<^item> The attempts (\<^verbatim>\<open>remediation/models.py\<close>, \<^verbatim>\<open>services.py\<close>, \<^verbatim>\<open>tasks.py\<close>): \<open>Severity\<close>, \<open>Remediation_Models\<close>, \<open>Remediation_Service\<close>,
    \<open>Artifact_Steps\<close>, \<open>Pipeline\<close>, \<open>Webhooks\<close>.  \<open>Service_Theorems\<close>: constraints are kept, and a submission reuses, retries or creates exactly
    as decided.  \<open>Pipeline_Theorems\<close>: a job always ends, its status is exact, a redelivered task continues, originals survive.
  \<^item> Views (\<^verbatim>\<open>api/views.py\<close>): \<open>Api_Views\<close>.
  \<^item> The request path and the whole site: \<open>Web_Requests\<close> (routes of \<^verbatim>\<open>config/urls.py\<close> and \<^verbatim>\<open>api/urls.py\<close>, the middleware in its order, the
    checks of the API views in theirs, each view from request to response; addresses the API hands out lead back, and only an admitted
    submission changes an attempt), \<open>Site_Runs\<close> (requests, tasks and webhooks in any order: what a caller was told of a finished
    attempt stays true).
  \<^item> Adapters (\<^verbatim>\<open>remediation/adapters/\<close>): \<open>Pdf_Objects\<close> (documents as a store of shared containers), \<open>Font_Repair\<close> and \<open>Font_Theorems\<close>,
    \<open>Link_Tagging\<close> and \<open>Link_Theorems\<close>, \<open>Alt_Text\<close> and \<open>Alt_Text_Theorems\<close>, \<open>Scoring\<close> and \<open>Scoring_Theorems\<close>, \<open>External_Adapters\<close> and
    \<open>External_Theorems\<close> (conversion, validation, metadata).  \<open>Document_Flow\<close>: what a step writes, later steps keep (locale \<open>metadata_keeper\<close>).
    \<open>Default_Adapters\<close>: the adapters the services build, put together, and a job from the validator's report to its row.
    \<open>Served_Document\<close>: from the submitted bytes to the served bytes - a job serves the submitted document changed by exactly the
    steps recorded as completed, a chain stated without storage or tables, and with the default adapters it shows its metadata.
    \<open>Rule_Catalog\<close>: the command that extracts the validator's rule catalog, the catalog itself, and its agreement with \<open>Severity\<close>.
  \<^item> Quality tools: \<open>Ocr_Truth\<close> and \<open>Ocr_Theorems\<close> (text against a transcription), \<open>Pdf_Quality\<close>, \<open>Quality_Theorems\<close>, \<open>Quality_Commands\<close>,
    \<open>Ocr_Regression\<close>.
  \<^item> Operation (\<^verbatim>\<open>common/\<close>, \<^verbatim>\<open>config/settings.py\<close>): \<open>Operations\<close> (retry on a lost connection, warnings, backups, the scheduled worker),
    \<open>Error_Reporting\<close> (the client that sends events to the monitoring service), \<open>Admin_Reports\<close>, \<open>Django_Settings\<close> (where the settings
    of the other theories come from, and what an unconfigured deployment does).

  \<^bold>\<open>How the model is built.\<close>  State is explicit: a record of tables (\<open>world\<close>, the account tables, the counter rows), the file
  storage, the queue and the numbers of clock readings and identifiers drawn.  An operation takes it and answers a result with the state
  after it; exceptions are values of \<open>exn\<close> in a sum, and a handler that swallows one is a branch.  Concurrency is
  modelled at the level of database statements: either other requests act between two statements as an argument of
  the operation, or a step relation interleaves any number of requests (\<open>Throttle_Race\<close>, \<open>Submit_Race\<close>).  Frame properties of the
  pipeline are proved once in the locales \<open>step_effects\<close> and \<open>job_effects\<close> of \<open>Pipeline\<close> and interpreted for each property.

  \<^bold>\<open>Parameters.\<close>  Code outside the repository is an argument: the clock, random values, the file storage, the rate
  parser, the version library, name resolution and HTTP, the token check, the text extraction of the second PDF
  library, the validation and conversion tools, the vision API, the environment reader and the admin framework.  Adapters of the pipeline
  may answer differently on every call and raise anything.  Hypotheses on parameters are named and documented
  (\<open>drf_reads_rates\<close>, \<open>version_order\<close>, and \<open>passes_on\<close> for the framework's own middleware: it answers itself or lets the next
  component answer, and touches none of the program's tables, \<open>storage_keeps\<close> and \<open>storage_serves\<close> for the file storage,
  \<open>saves_faithfully\<close> and \<open>opens_well_formed\<close> for the PDF library); witnesses instantiate them.

  \<^bold>\<open>Bounds.\<close>  The walks over structure trees count down the levels the code allows (\<open>MAX_STRUCT_TREE_DEPTH\<close> 30, twenty levels for
  the score), so no fuel is lost; recursive functions without a limit take the depth of the interpreter's stack and raise below it.
  \<open>hit\<close> runs its \<open>MAX_HIT_ATTEMPTS\<close> rounds; the wait for the conversion server is a \<open>partial_function\<close> that is proved to answer
  once the clock reaches the deadline.  Hashes and addresses use words and bounded numbers; counts of the database columns are integers with their
  checks written out.

  \<^bold>\<open>Restrictions.\<close>  In \<open>Site_Runs\<close> a request and a task are each one step, as with the one worker the deployment starts; their
  statement-level interleavings are the subject of \<open>Throttle_Race\<close> and \<open>Submit_Race\<close>.  Texts inside a PDF and in forms are Latin-1, messages UTF-8; floats are exact fractions; the durations
  of steps, logging, and the wording of the framework's own errors are left out.

  \<^bold>\<open>Not modelled.\<close>  The schema classes, serializer fields and renderers that only document the API, migrations (generated), the
  startup files, and settings only the framework reads (installed apps, templates, locale, static files).
\<close>

end
